(* ===== verification/Prelude.thy ===== *)
theory Prelude
  imports Main "HOL-Library.Word" "HOL-Library.AList" "HOL-Library.Multiset"
    "HOL-Library.Code_Target_Nat"
begin

text \<open>
  Shared vocabulary of the development: bytes and fixed-width integers, big-endian
  fields, checked accesses to a byte buffer (an access outside the buffer is the value
  \<open>None\<close>, so that memory safety is a theorem and not a convention), C++ strings, and the
  hash tables (\<open>std::unordered_map\<close>) as association lists with distinct keys.
\<close>

unbundle bit_operations_syntax

section \<open>Machine integers and bytes\<close>

type_synonym byte = "8 word"
type_synonym u16 = "16 word"
type_synonym u32 = "32 word"
type_synonym u64 = "64 word"

text \<open>Facts that turn the models' bit operations into arithmetic on \<open>nat\<close>.\<close>

named_theorems wire_simps

lemma or_eq_add_disjoint: "(a::nat) < 2 ^ k \<Longrightarrow> push_bit k b OR a = push_bit k b + a"
proof -
  assume a: "a < 2 ^ k"
  have "push_bit k b AND a = 0"
  proof (rule bit_eqI)
    fix n
    have "\<not> bit a n" if "k \<le> n"
      using a that by (metis bit_take_bit_iff not_less take_bit_nat_eq_self)
    then show "bit (push_bit k b AND a) n \<longleftrightarrow> bit (0::nat) n"
      by (auto simp: bit_and_iff bit_push_bit_iff)
  qed
  then show ?thesis by (simp add: disjunctive_add_eq_or)
qed

lemma unat_byte_less [simp]: "unat (b::byte) < 256"
  using unsigned_less [of b, where ?'a = nat] by simp

lemma unat_u16_less [simp]: "unat (b::u16) < 65536"
  using unsigned_less [of b, where ?'a = nat] by simp

definition be16 :: "byte \<Rightarrow> byte \<Rightarrow> u16" where
  "be16 hi lo = push_bit 8 (ucast hi) OR ucast lo"

definition hi8 :: "u16 \<Rightarrow> byte" where
  "hi8 v = ucast (drop_bit 8 v)"

definition lo8 :: "u16 \<Rightarrow> byte" where
  "lo8 v = ucast v"

lemma unat_be16 [wire_simps]: "unat (be16 hi lo) = 256 * unat hi + unat lo"
proof -
  have "take_bit 16 (unat hi) = unat hi" "take_bit 16 (unat lo) = unat lo"
    by (auto intro!: take_bit_nat_eq_self order_less_trans [OF unat_byte_less])
  then have "unat (be16 hi lo) = take_bit 16 (push_bit 8 (unat hi)) OR unat lo"
    by (simp add: be16_def unsigned_or_eq unsigned_push_bit_eq unsigned_ucast_eq)
  also have "take_bit 16 (push_bit 8 (unat hi)) = push_bit 8 (unat hi)"
    by (rule take_bit_nat_eq_self) (use unat_byte_less [of hi] in \<open>simp add: push_bit_nat_def\<close>)
  also have "push_bit 8 (unat hi) OR unat lo = push_bit 8 (unat hi) + unat lo"
    by (rule or_eq_add_disjoint) (use unat_byte_less [of lo] in simp)
  finally show ?thesis by (simp add: push_bit_nat_def mult.commute)
qed

lemma hi8_lo8 [simp]: "be16 (hi8 v) (lo8 v) = v"
  by (rule bit_word_eqI)
    (auto simp: be16_def hi8_def lo8_def bit_or_iff bit_push_bit_iff bit_ucast_iff bit_drop_bit_eq)

lemma hi8_be16 [simp]: "hi8 (be16 a b) = a"
  by (rule bit_word_eqI)
    (auto simp: be16_def hi8_def bit_or_iff bit_push_bit_iff bit_ucast_iff bit_drop_bit_eq
      dest: bit_imp_le_length)

lemma lo8_be16 [simp]: "lo8 (be16 a b) = b"
  by (rule bit_word_eqI)
    (auto simp: be16_def lo8_def bit_or_iff bit_push_bit_iff bit_ucast_iff)

lemma unat_hi8 [wire_simps]: "unat (hi8 v) = unat v div 256"
proof -
  have "unat v div 256 < 2 ^ 8"
    using unat_u16_less [of v] by (simp del: unat_u16_less)
  moreover have "unat v < 2 ^ 16" by simp
  ultimately show ?thesis
    by (simp add: hi8_def unsigned_ucast_eq unsigned_drop_bit_eq drop_bit_nat_def
        take_bit_nat_eq_self)
qed

lemma unat_lo8 [wire_simps]: "unat (lo8 v) = unat v mod 256"
  by (simp add: lo8_def unsigned_ucast_eq take_bit_nat_def)

lemma unat_of_nat_u16 [wire_simps]: "n < 65536 \<Longrightarrow> unat (of_nat n :: u16) = n"
  by (simp add: unat_of_nat)

text \<open>Sizes (\<open>size_t\<close>) are naturals; a shift-and-or of bytes into one is a sum.\<close>

definition be24 :: "byte \<Rightarrow> byte \<Rightarrow> byte \<Rightarrow> nat" where
  "be24 a b c = push_bit 16 (unat a) OR push_bit 8 (unat b) OR unat c"

lemma be24_eq [wire_simps]: "be24 a b c = 65536 * unat a + 256 * unat b + unat c"
proof -
  have bc: "push_bit 8 (unat b) OR unat c = push_bit 8 (unat b) + unat c"
    by (rule or_eq_add_disjoint) (use unat_byte_less [of c] in simp)
  have "push_bit 8 (unat b) + unat c < 2 ^ 16"
    using unat_byte_less [of b] unat_byte_less [of c]
    by (simp add: push_bit_nat_def del: unat_byte_less)
  then have "push_bit 16 (unat a) OR (push_bit 8 (unat b) + unat c) =
      push_bit 16 (unat a) + (push_bit 8 (unat b) + unat c)"
    by (rule or_eq_add_disjoint)
  then have "be24 a b c = push_bit 16 (unat a) + (push_bit 8 (unat b) + unat c)"
    by (simp only: be24_def or.assoc bc)
  then show ?thesis by (simp add: push_bit_nat_def)
qed

text \<open>\<open>std::clamp\<close>; meaningful for \<open>lo \<le> hi\<close>, as in the library.\<close>

definition clamp :: "'a::linorder \<Rightarrow> 'a \<Rightarrow> 'a \<Rightarrow> 'a" where
  "clamp v lo hi = (if v < lo then lo else if hi < v then hi else v)"

lemma clamp_bounds: "lo \<le> hi \<Longrightarrow> lo \<le> clamp v lo hi \<and> clamp v lo hi \<le> hi"
  by (auto simp: clamp_def)

lemma clamp_id: "lo \<le> v \<Longrightarrow> v \<le> hi \<Longrightarrow> clamp v lo hi = v"
  by (auto simp: clamp_def)

section \<open>Checked buffer accesses\<close>

text \<open>
  \<open>at\<close> is the C++ subscript: \<open>None\<close> stands for an access outside the buffer (undefined
  behaviour in the source). A parser model propagates it, so "never reads past the end"
  is the theorem that the parser's result is not \<open>None\<close>.
\<close>

definition at :: "'a list \<Rightarrow> nat \<Rightarrow> 'a option" where
  "at xs i = (if i < length xs then Some (xs ! i) else None)"

definition slice :: "'a list \<Rightarrow> nat \<Rightarrow> nat \<Rightarrow> 'a list option" where
  "slice xs pos n = (if pos + n \<le> length xs then Some (take n (drop pos xs)) else None)"

lemma at_Some [simp]: "i < length xs \<Longrightarrow> at xs i = Some (xs ! i)"
  by (simp add: at_def)

lemma at_eq_None [simp]: "at xs i = None \<longleftrightarrow> length xs \<le> i"
  by (auto simp: at_def)

lemma slice_Some [simp]: "pos + n \<le> length xs \<Longrightarrow> slice xs pos n = Some (take n (drop pos xs))"
  by (simp add: slice_def)

lemma at_append: "at xs i = Some x \<Longrightarrow> at (xs @ ys) i = Some x"
  by (auto simp: at_def nth_append split: if_splits)

lemma at_append2 [simp]: "at (xs @ ys) (length xs + i) = at ys i"
  by (simp add: at_def)

lemma slice_append: "slice xs p n = Some s \<Longrightarrow> slice (xs @ ys) p n = Some s"
  by (auto simp: slice_def split: if_splits)

text \<open>
  The result of an accessor that reads the buffer and may refuse: \<open>Fault\<close> is an access
  outside the buffer, \<open>Refused\<close> the accessor returning \<open>false\<close>.
\<close>

datatype 'a access = Fault | Refused | Got 'a

section \<open>Strings\<close>

definition byte_char :: "byte \<Rightarrow> char" where
  "byte_char b = char_of (unat b)"

definition char_byte :: "char \<Rightarrow> byte" where
  "char_byte c = of_nat (of_char c)"

lemma byte_char_byte [simp]: "byte_char (char_byte c) = c"
proof -
  have "of_char c < (256::nat)" by simp
  then show ?thesis by (simp add: byte_char_def char_byte_def unat_of_nat)
qed

lemma map_byte_char_byte [simp]: "map (byte_char \<circ> char_byte) s = s"
  by (induction s) auto

text \<open>\<open>std::tolower\<close> in the C locale.\<close>

definition tolower :: "char \<Rightarrow> char" where
  "tolower c = (if (65::nat) \<le> of_char c \<and> of_char c \<le> (90::nat)
     then char_of ((of_char c :: nat) + 32) else c)"

lemma of_char_tolower:
  "of_char (tolower c) = (if (65::nat) \<le> of_char c \<and> of_char c \<le> (90::nat)
     then of_char c + 32 else (of_char c :: nat))"
  by (auto simp: tolower_def)

lemma tolower_idem [simp]: "tolower (tolower c) = tolower c"
proof -
  have "\<not> ((65::nat) \<le> of_char (tolower c) \<and> (of_char (tolower c) :: nat) \<le> 90)"
    by (auto simp: of_char_tolower)
  then show ?thesis
    unfolding tolower_def [of "tolower c"] by (rule if_not_P)
qed

text \<open>\<open>while (!s.empty() && s.back() == c) s.pop_back()\<close>\<close>

definition strip_back :: "char \<Rightarrow> string \<Rightarrow> string" where
  "strip_back c s = rev (dropWhile (\<lambda>x. x = c) (rev s))"

definition starts_with :: "string \<Rightarrow> string \<Rightarrow> bool" where
  "starts_with s p \<longleftrightarrow> take (length p) s = p"

definition ends_with :: "string \<Rightarrow> string \<Rightarrow> bool" where
  "ends_with s p \<longleftrightarrow> length p \<le> length s \<and> drop (length s - length p) s = p"

text \<open>\<open>std::to_string\<close> of an unsigned value.\<close>

fun dec_digits :: "nat \<Rightarrow> string" where
  "dec_digits n = (if n < 10 then [char_of (48 + n)]
     else dec_digits (n div 10) @ [char_of (48 + n mod 10)])"

declare dec_digits.simps [simp del]

definition isdigit :: "char \<Rightarrow> bool" where
  "isdigit c \<longleftrightarrow> (48::nat) \<le> of_char c \<and> of_char c \<le> (57::nat)"

definition digitValue :: "char \<Rightarrow> nat" where
  "digitValue c = of_char c - 48"

text \<open>The value of a string of decimal digits; it reads back what \<open>dec_digits\<close> prints.\<close>

definition decValue :: "string \<Rightarrow> nat" where
  "decValue ds = foldl (\<lambda>n c. n * 10 + digitValue c) 0 ds"

lemma digit_char: "n < 10 \<Longrightarrow> isdigit (char_of (48 + n)) \<and> digitValue (char_of (48 + n :: nat)) = n"
  by (simp add: isdigit_def digitValue_def)

lemma dec_digits_props: "(\<forall>c \<in> set (dec_digits n). isdigit c) \<and> decValue (dec_digits n) = n \<and> dec_digits n \<noteq> []"
proof (induction n rule: dec_digits.induct)
  case (1 n)
  show ?case
  proof (cases "n < 10")
    case True
    then show ?thesis using digit_char [of n] by (simp add: dec_digits.simps [of n] decValue_def)
  next
    case False
    then have "decValue (dec_digits n) = decValue (dec_digits (n div 10)) * 10 + n mod 10"
      using digit_char [of "n mod 10"] by (simp add: dec_digits.simps [of n] decValue_def)
    then show ?thesis
      using 1 False digit_char [of "n mod 10"] by (auto simp: dec_digits.simps [of n])
  qed
qed

lemma decValue_dec_digits [simp]: "decValue (dec_digits n) = n"
  using dec_digits_props by blast

lemma isdigit_dec_digits: "c \<in> set (dec_digits n) \<Longrightarrow> isdigit c"
  using dec_digits_props by blast

lemma dec_digits_inject: "dec_digits m = dec_digits n \<longleftrightarrow> m = n"
  using decValue_dec_digits by metis

lemma last_separator_unique:
  "xs @ c # ys = xs' @ c # ys' \<Longrightarrow> c \<notin> set ys \<Longrightarrow> c \<notin> set ys' \<Longrightarrow> xs = xs' \<and> ys = ys'"
  by (auto simp: append_eq_append_conv2 append_eq_Cons_conv Cons_eq_append_conv)

section \<open>Hash tables\<close>

text \<open>
  A \<open>std::unordered_map\<close> is an association list with distinct keys, in the map's iteration
  order. The order is not specified by C++ and may change whenever the map is modified, so
  theorems about histories let it change between any two operations.
\<close>

type_synonym ('k, 'v) table = "('k \<times> 'v) list"

abbreviation keys :: "('k, 'v) table \<Rightarrow> 'k list" where
  "keys t \<equiv> map fst t"

definition erase_if :: "('k \<times> 'v \<Rightarrow> bool) \<Rightarrow> ('k, 'v) table \<Rightarrow> ('k, 'v) table" where
  "erase_if P t = filter (\<lambda>e. \<not> P e) t"

text \<open>\<open>std::min_element\<close>: the first entry whose measure is least.\<close>

fun min_by :: "('a \<Rightarrow> 'b::linorder) \<Rightarrow> 'a list \<Rightarrow> 'a option" where
  "min_by f [] = None"
| "min_by f (x # xs) =
     (case min_by f xs of None \<Rightarrow> Some x | Some y \<Rightarrow> if f y < f x then Some y else Some x)"

text \<open>\<open>oldest = min_element(...); if (oldest != end()) erase(oldest)\<close>\<close>

definition erase_min :: "('k \<times> 'v \<Rightarrow> 'b::linorder) \<Rightarrow> ('k, 'v) table \<Rightarrow> ('k, 'v) table" where
  "erase_min f t = (case min_by f t of None \<Rightarrow> t | Some e \<Rightarrow> AList.delete (fst e) t)"

lemma min_by_None [simp]: "min_by f xs = None \<longleftrightarrow> xs = []"
  by (cases xs) (auto split: option.splits)

lemma min_by_Some: "min_by f xs = Some m \<Longrightarrow> m \<in> set xs \<and> (\<forall>x \<in> set xs. f m \<le> f x)"
  by (induction xs arbitrary: m)
    (auto split: option.splits if_splits intro: order_trans less_imp_le)

lemma length_update_alist:
  "length (AList.update k v t) = (if k \<in> set (keys t) then length t else Suc (length t))"
  by (induction t) auto

lemma length_delete_alist_le [simp]: "length (AList.delete k t) \<le> length t"
  by (simp add: AList.delete_eq)

lemma length_delete_alist:
  "k \<in> set (keys t) \<Longrightarrow> length (AList.delete k t) < length t"
  by (auto simp: AList.delete_eq intro!: length_filter_less)

lemma keys_update_alist: "set (keys (AList.update k v t)) = insert k (set (keys t))"
  using dom_update [of k v t] by (simp add: image_image)

lemma distinct_keys_filter [simp]: "distinct (keys t) \<Longrightarrow> distinct (keys (filter P t))"
  by (induction t) auto

lemma distinct_keys_erase_if [simp]: "distinct (keys t) \<Longrightarrow> distinct (keys (erase_if P t))"
  by (simp add: erase_if_def)

lemma distinct_keys_delete [simp]: "distinct (keys t) \<Longrightarrow> distinct (keys (AList.delete k t))"
  by (rule distinct_delete)

lemma distinct_keys_update [simp]: "distinct (keys t) \<Longrightarrow> distinct (keys (AList.update k v t))"
  by (rule distinct_update)

lemma distinct_keys_erase_min [simp]: "distinct (keys t) \<Longrightarrow> distinct (keys (erase_min f t))"
  by (simp add: erase_min_def split: option.split)

lemma length_erase_if [simp]: "length (erase_if P t) \<le> length t"
  by (simp add: erase_if_def)

lemma set_erase_if [simp]: "set (erase_if P t) = {e \<in> set t. \<not> P e}"
  by (auto simp: erase_if_def)

lemma length_erase_min: "t \<noteq> [] \<Longrightarrow> length (erase_min f t) < length t"
proof -
  assume "t \<noteq> []"
  then obtain e where e: "min_by f t = Some e"
    by (cases "min_by f t") auto
  then have "e \<in> set t" using min_by_Some [OF e] by simp
  then show ?thesis by (simp add: erase_min_def e length_delete_alist)
qed

lemma length_erase_min_le [simp]: "length (erase_min f t) \<le> length t"
  by (auto simp: erase_min_def split: option.split)

lemma set_delete_alist: "set (AList.delete k t) = {e \<in> set t. fst e \<noteq> k}"
  by (auto simp: AList.delete_eq)

lemma set_erase_min_subset: "set (erase_min f t) \<subseteq> set t"
  by (auto simp: erase_min_def set_delete_alist split: option.splits)

lemma map_of_erase_if:
  "distinct (keys t) \<Longrightarrow>
    map_of (erase_if P t) k = (case map_of t k of None \<Rightarrow> None
      | Some v \<Rightarrow> if P (k, v) then None else Some v)"
proof (induction t)
  case Nil
  then show ?case by (simp add: erase_if_def)
next
  case (Cons e t)
  have "map_of t (fst e) = None"
    using Cons.prems by (auto simp: map_of_eq_None_iff)
  with Cons show ?case
    by (cases e) (auto simp: erase_if_def split: option.splits)
qed

lemma map_of_update_alist [simp]: "map_of (AList.update k v t) = (map_of t)(k \<mapsto> v)"
  by (rule update_conv')

lemma map_of_delete_alist [simp]: "map_of (AList.delete k t) = (map_of t)(k := None)"
  by (rule delete_conv')

lemma set_update_alist:
  "distinct (keys t) \<Longrightarrow> set (AList.update k v t) = insert (k, v) {e \<in> set t. fst e \<noteq> k}"
proof (induction t)
  case Nil
  then show ?case by simp
next
  case (Cons e t)
  obtain k' v' where e: "e = (k', v')" by (cases e)
  show ?case
  proof (cases "k' = k")
    case True
    with Cons.prems e have "\<And>v. (k, v) \<notin> set t"
      by (metis distinct.simps(2) fst_conv imageI list.set_map list.simps(9))
    with True e show ?thesis by auto
  next
    case False
    with Cons e show ?thesis by auto
  qed
qed

lemma mset_distinct_keys: "mset t = mset t' \<Longrightarrow> distinct (keys t) \<longleftrightarrow> distinct (keys t')"
proof -
  assume "mset t = mset t'"
  then have "mset (keys t) = mset (keys t')" by simp
  then show ?thesis by (rule mset_eq_imp_distinct_iff)
qed

lemma map_of_subset:
  "distinct (keys t) \<Longrightarrow> set t' \<subseteq> set t \<Longrightarrow> map_of t' k = Some v \<Longrightarrow> map_of t k = Some v"
  by (auto dest!: map_of_SomeD)

lemma map_of_reorder: "distinct (keys t) \<Longrightarrow> mset t' = mset t \<Longrightarrow> map_of t' = map_of t"
  using mset_distinct_keys [of t' t] by (metis map_of_inject_set mset_eq_setD)

text \<open>A table within its capacity whose values all satisfy \<open>P\<close>.\<close>

definition table_ok :: "nat \<Rightarrow> ('v \<Rightarrow> bool) \<Rightarrow> ('k, 'v) table \<Rightarrow> bool" where
  "table_ok cap P t \<longleftrightarrow> length t \<le> cap \<and> distinct (keys t) \<and> (\<forall>e \<in> set t. P (snd e))"

lemma table_ok_Nil [simp]: "table_ok cap P []"
  by (simp add: table_ok_def)

lemma table_ok_delete [simp]: "table_ok cap P t \<Longrightarrow> table_ok cap P (AList.delete k t)"
  by (auto simp: table_ok_def set_delete_alist intro: order_trans [OF length_delete_alist_le])

lemma table_ok_erase_if [simp]: "table_ok cap P t \<Longrightarrow> table_ok cap P (erase_if Q t)"
  by (auto simp: table_ok_def intro: order_trans [OF length_erase_if])

lemma table_ok_update:
  "table_ok cap P t \<Longrightarrow> P v \<Longrightarrow> length t < cap \<or> map_of t k \<noteq> None \<Longrightarrow> table_ok cap P (AList.update k v t)"
  by (auto simp: table_ok_def length_update_alist set_update_alist dest: map_of_SomeD)
    (metis fst_conv image_eqI map_of_SomeD)

lemma table_ok_reorder: "table_ok cap P t \<Longrightarrow> mset t' = mset t \<Longrightarrow> table_ok cap P t'"
  using mset_distinct_keys [of t' t] mset_eq_length [of t' t] mset_eq_setD [of t' t]
  by (auto simp: table_ok_def)

lemma table_ok_value: "table_ok cap P t \<Longrightarrow> map_of t k = Some v \<Longrightarrow> P v"
  by (force simp: table_ok_def dest: map_of_SomeD)

section \<open>Interfaces shared by the components\<close>

text \<open>
  A table with a capacity. Before a new key goes in, the owner makes room; the locale says
  what every such routine of the program promises, and proves once that the insertion then
  respects the capacity and keeps the keys distinct.
\<close>

locale room_maker =
  fixes cap :: nat
    and room :: "'now \<Rightarrow> ('k \<times> 'v) list \<Rightarrow> ('k \<times> 'v) list"
  assumes room_subset: "set (room now t) \<subseteq> set t"
    and room_distinct: "distinct (keys t) \<Longrightarrow> distinct (keys (room now t))"
    and room_frees: "length t \<le> cap \<Longrightarrow> distinct (keys t) \<Longrightarrow> length (room now t) < cap"
begin

lemma insert_ok:
  assumes "table_ok cap P t" and "P v"
  shows "table_ok cap P (AList.update k v (room now t))"
proof -
  have "table_ok cap P (room now t)" "length (room now t) < cap"
    using assms(1) room_subset [of now t] room_distinct [of t now] room_frees [of t now]
    by (auto simp: table_ok_def)
  then show ?thesis using assms(2) by (intro table_ok_update) auto
qed

end

text \<open>
  The routine most tables use: nothing while there is room, then the entries that count as
  stale go, and only if that was not enough the oldest one.
\<close>

definition evict :: "nat \<Rightarrow> ('k \<times> 'v \<Rightarrow> bool) \<Rightarrow> ('k \<times> 'v \<Rightarrow> 'b::linorder) \<Rightarrow>
    ('k, 'v) table \<Rightarrow> ('k, 'v) table" where
  "evict cap stale age t =
     (if length t < cap then t
      else let t1 = erase_if stale t in if length t1 < cap then t1 else erase_min age t1)"

lemma evict_subset: "set (evict cap stale age t) \<subseteq> set t"
  using set_erase_min_subset [of age "erase_if stale t"] by (auto simp: evict_def Let_def)

lemma evict_distinct [simp]: "distinct (keys t) \<Longrightarrow> distinct (keys (evict cap stale age t))"
  by (simp add: evict_def Let_def)

lemma evict_frees:
  assumes "0 < cap" "length t \<le> cap"
  shows "length (evict cap stale age t) < cap"
proof (cases "length t < cap \<or> length (erase_if stale t) < cap")
  case True
  then show ?thesis by (auto simp: evict_def Let_def)
next
  case False
  then have "length (erase_min age (erase_if stale t)) < length (erase_if stale t)"
    using assms(1) by (intro length_erase_min) auto
  then show ?thesis
    using False assms(2) length_erase_if [of stale t] by (simp add: evict_def Let_def del: length_erase_if)
qed

text \<open>What is not stale survives, unless it is the oldest of a table full of live entries.\<close>

lemma evict_keeps:
  assumes "e \<in> set t" "\<not> stale e" "e' \<in> set t" "\<not> stale e'" "age e' < age e" "distinct (keys t)"
  shows "e \<in> set (evict cap stale age t)"
proof -
  let ?t1 = "erase_if stale t"
  have t1: "e \<in> set ?t1" "e' \<in> set ?t1" "distinct (keys ?t1)" using assms by auto
  show ?thesis
  proof (cases "min_by age ?t1")
    case None
    then show ?thesis using t1 by auto
  next
    case (Some m)
    have m: "m \<in> set ?t1" "age m \<le> age e'" using min_by_Some [OF Some] t1(2) by blast+
    have "fst e \<noteq> fst m"
    proof
      assume "fst e = fst m"
      then have "e = m" using t1 m by (metis eq_key_imp_eq_value prod.collapse)
      with m(2) assms(5) show False by simp
    qed
    then show ?thesis
      using t1 assms(1) Some by (auto simp: evict_def Let_def erase_min_def set_delete_alist)
  qed
qed

locale evictor =
  fixes cap :: nat
    and stale :: "'now \<Rightarrow> 'k \<times> 'v \<Rightarrow> bool"
    and age :: "'k \<times> 'v \<Rightarrow> 'b::linorder"
  assumes cap_pos: "0 < cap"

sublocale evictor \<subseteq> room_maker cap "\<lambda>now. evict cap (stale now) age"
  by unfold_locales (auto simp: cap_pos evict_frees intro: evict_subset [THEN subsetD])

text \<open>
  A component as a machine: its operations change the state and the environment may change
  the iteration order of its tables between them (\<open>reorder\<close>). \<open>reach\<close> is the states a
  history can lead to; what every operation and every reordering keeps holds in all of them.
\<close>

inductive reach :: "('op \<Rightarrow> 's \<Rightarrow> 's) \<Rightarrow> ('s \<Rightarrow> 's \<Rightarrow> bool) \<Rightarrow> 's \<Rightarrow> 's \<Rightarrow> bool"
  for step :: "'op \<Rightarrow> 's \<Rightarrow> 's" and reorder :: "'s \<Rightarrow> 's \<Rightarrow> bool" and s0 :: 's where
  start: "reach step reorder s0 s0"
| operation: "reach step reorder s0 s \<Longrightarrow> reach step reorder s0 (step op s)"
| shuffle: "reach step reorder s0 s \<Longrightarrow> reorder s s' \<Longrightarrow> reach step reorder s0 s'"

locale machine =
  fixes step :: "'op \<Rightarrow> 's \<Rightarrow> 's"
    and reorder :: "'s \<Rightarrow> 's \<Rightarrow> bool"
    and inv :: "'s \<Rightarrow> bool"
  assumes inv_step: "inv s \<Longrightarrow> inv (step op s)"
    and inv_reorder: "inv s \<Longrightarrow> reorder s s' \<Longrightarrow> inv s'"
begin

lemma reach_inv: "reach step reorder s s' \<Longrightarrow> inv s \<Longrightarrow> inv s'"
  by (induction rule: reach.induct) (auto intro: inv_step inv_reorder)

end

end
