(* ===== verification/Tls_Hello.thy ===== *)
theory Tls_Hello
  imports Prelude
begin

text \<open>
  \<open>src/src/TlsHello.hpp\<close> and \<open>TlsHello.cpp\<close>: the bounds-checked inspection of a TLS
  ClientHello and the classification of the server's first flight. Every subscript of the
  source is a checked access, so the parsers return \<open>None\<close> exactly when the code would read
  outside the buffer.
\<close>

section \<open>Data\<close>

definition kRecordHandshake :: byte where "kRecordHandshake = 0x16"
definition kRecordChangeCipherSpec :: byte where "kRecordChangeCipherSpec = 0x14"
definition kRecordAlert :: byte where "kRecordAlert = 0x15"
definition kHandshakeClientHello :: byte where "kHandshakeClientHello = 0x01"
definition kHandshakeServerHello :: byte where "kHandshakeServerHello = 0x02"
definition kRecordHeaderSize :: nat where "kRecordHeaderSize = 5"
definition kMaxRecordPayload :: nat where "kMaxRecordPayload = 16384"
definition kExtServerName :: u16 where "kExtServerName = 0x0000"
definition kExtEncryptedClientHello :: u16 where "kExtEncryptedClientHello = 0xfe0d"

lemmas tls_const_defs = kRecordHandshake_def kRecordChangeCipherSpec_def kRecordAlert_def
  kHandshakeClientHello_def kHandshakeServerHello_def kRecordHeaderSize_def
  kMaxRecordPayload_def kExtServerName_def kExtEncryptedClientHello_def

datatype ParseStatus = Ok | NeedMore | NotTls | Malformed

datatype ServerResponseStatus = NeedMore | ServerHello | Alert | Unexpected

record ClientHello =
  recordPayloadLength :: nat
  recordTotalLength :: nat
  sniOffset :: nat
  sniLength :: nat
  serverName :: string
  hasEch :: bool
  spansRecords :: bool

definition noHello :: ClientHello where
  "noHello = \<lparr>recordPayloadLength = 0, recordTotalLength = 0, sniOffset = 0, sniLength = 0,
     serverName = [], hasEch = False, spansRecords = False\<rparr>"

definition hasSni :: "ClientHello \<Rightarrow> bool" where
  "hasSni h \<longleftrightarrow> sniLength h > 0"

section \<open>The cursor\<close>

text \<open>
  \<open>class Reader\<close>: a position and an end inside a shared buffer. The accessors refuse instead
  of moving past the end.
\<close>

record Reader =
  reader_pos :: nat
  reader_end :: nat

definition remaining :: "Reader \<Rightarrow> nat" where
  "remaining r = reader_end r - reader_pos r"

definition reader_skip :: "Reader \<Rightarrow> nat \<Rightarrow> Reader option" where
  "reader_skip r n = (if n > remaining r then None else Some (r\<lparr>reader_pos := reader_pos r + n\<rparr>))"

definition reader_u8 :: "byte list \<Rightarrow> Reader \<Rightarrow> (byte \<times> Reader) access" where
  "reader_u8 data r =
     (if remaining r < 1 then Refused
      else case at data (reader_pos r) of None \<Rightarrow> Fault
        | Some v \<Rightarrow> Got (v, r\<lparr>reader_pos := reader_pos r + 1\<rparr>))"

definition reader_u16 :: "byte list \<Rightarrow> Reader \<Rightarrow> (u16 \<times> Reader) access" where
  "reader_u16 data r =
     (if remaining r < 2 then Refused
      else case (at data (reader_pos r), at data (reader_pos r + 1)) of
          (Some a, Some b) \<Rightarrow> Got (be16 a b, r\<lparr>reader_pos := reader_pos r + 2\<rparr>)
        | _ \<Rightarrow> Fault)"

section \<open>The ClientHello parser\<close>

text \<open>
  The \<open>while\<close> loop of \<open>readServerName\<close>. The result pairs the function's return value with
  \<open>out\<close>.
\<close>

lemma u8_remaining: "reader_u8 data r = Got (v, r') \<Longrightarrow> remaining r' < remaining r"
  by (auto simp: reader_u8_def remaining_def split: if_splits option.splits)

lemma u16_remaining: "reader_u16 data r = Got (v, r') \<Longrightarrow> remaining r' < remaining r"
  by (auto simp: reader_u16_def remaining_def split: if_splits option.splits)

lemma skip_remaining: "reader_skip r n = Some r' \<Longrightarrow> remaining r' \<le> remaining r"
  by (auto simp: reader_skip_def remaining_def split: if_splits)

function serverNameLoop ::
  "byte list \<Rightarrow> Reader \<Rightarrow> ClientHello \<Rightarrow> (bool \<times> ClientHello) option" where
  "serverNameLoop data list out =
     (if remaining list = 0 then Some (False, out)
      else case reader_u8 data list of
          Fault \<Rightarrow> None
        | Refused \<Rightarrow> Some (False, out)
        | Got (nameType, list1) \<Rightarrow>
            (case reader_u16 data list1 of
                Fault \<Rightarrow> None
              | Refused \<Rightarrow> Some (False, out)
              | Got (nameLength, list2) \<Rightarrow>
                  if unat nameLength > remaining list2 then Some (False, out)
                  else if nameType = 0 then
                    (case slice data (reader_pos list2) (unat nameLength) of
                        None \<Rightarrow> None
                      | Some name \<Rightarrow>
                          Some (True, out\<lparr>sniOffset := reader_pos list2,
                                          sniLength := unat nameLength,
                                          serverName := map byte_char name\<rparr>))
                  else case reader_skip list2 (unat nameLength) of
                      None \<Rightarrow> Some (False, out)
                    | Some list3 \<Rightarrow> serverNameLoop data list3 out))"
  by pat_completeness auto
termination
  by (relation "measure (\<lambda>(data, list, out). remaining list)")
    (auto dest!: u8_remaining u16_remaining skip_remaining)

declare serverNameLoop.simps [simp del]

definition readServerName ::
  "byte list \<Rightarrow> nat \<Rightarrow> nat \<Rightarrow> ClientHello \<Rightarrow> (bool \<times> ClientHello) option" where
  "readServerName data extStart extEnd out =
     (case reader_u16 data \<lparr>reader_pos = extStart, reader_end = extEnd\<rparr> of
         Fault \<Rightarrow> None
       | Refused \<Rightarrow> Some (False, out)
       | Got (listLength, r) \<Rightarrow>
           if unat listLength > remaining r then Some (False, out)
           else serverNameLoop data \<lparr>reader_pos = reader_pos r, reader_end = reader_pos r + unat listLength\<rparr> out)"

text \<open>The \<open>while\<close> loop of \<open>parseExtensions\<close>; its verdict on the server name is ignored.\<close>

function extensionsLoop ::
  "byte list \<Rightarrow> Reader \<Rightarrow> ClientHello \<Rightarrow> (ParseStatus \<times> ClientHello) option" where
  "extensionsLoop data block out =
     (if remaining block = 0 then Some (Ok, out)
      else case reader_u16 data block of
          Fault \<Rightarrow> None
        | Refused \<Rightarrow> Some (Malformed, out)
        | Got (extType, block1) \<Rightarrow>
            (case reader_u16 data block1 of
                Fault \<Rightarrow> None
              | Refused \<Rightarrow> Some (Malformed, out)
              | Got (extLength, block2) \<Rightarrow>
                  if unat extLength > remaining block2 then Some (Malformed, out)
                  else
                    (case (if extType = kExtEncryptedClientHello
                           then Some (out\<lparr>hasEch := True\<rparr>)
                           else if extType = kExtServerName \<and> \<not> hasSni out
                           then map_option snd (readServerName data (reader_pos block2)
                                  (reader_pos block2 + unat extLength) out)
                           else Some out) of
                        None \<Rightarrow> None
                      | Some out' \<Rightarrow>
                          (case reader_skip block2 (unat extLength) of
                              None \<Rightarrow> Some (Malformed, out')
                            | Some block3 \<Rightarrow> extensionsLoop data block3 out'))))"
  by pat_completeness auto
termination
  by (relation "measure (\<lambda>(data, block, out). remaining block)")
    (auto dest!: u16_remaining skip_remaining)

declare extensionsLoop.simps [simp del]

definition parseExtensions ::
  "byte list \<Rightarrow> nat \<Rightarrow> nat \<Rightarrow> ClientHello \<Rightarrow> (ParseStatus \<times> ClientHello) option" where
  "parseExtensions data p bodyEnd out =
     (case reader_u16 data \<lparr>reader_pos = p, reader_end = bodyEnd\<rparr> of
         Fault \<Rightarrow> None
       | Refused \<Rightarrow> Some (Malformed, out)
       | Got (extensionsLength, r) \<Rightarrow>
           if unat extensionsLength > remaining r then Some (Malformed, out)
           else extensionsLoop data \<lparr>reader_pos = reader_pos r, reader_end = reader_pos r + unat extensionsLength\<rparr> out)"

text \<open>
  The fixed part of the ClientHello body: version, random, session id, cipher suites and
  compression methods. \<open>Refused\<close> is any of the \<open>return Malformed\<close> exits.
\<close>

definition skip_u8_vector :: "byte list \<Rightarrow> Reader \<Rightarrow> Reader access" where
  "skip_u8_vector data r =
     (case reader_u8 data r of Fault \<Rightarrow> Fault | Refused \<Rightarrow> Refused
       | Got (n, r1) \<Rightarrow> (case reader_skip r1 (unat n) of None \<Rightarrow> Refused | Some r2 \<Rightarrow> Got r2))"

definition skip_u16_vector :: "byte list \<Rightarrow> Reader \<Rightarrow> Reader access" where
  "skip_u16_vector data r =
     (case reader_u16 data r of Fault \<Rightarrow> Fault | Refused \<Rightarrow> Refused
       | Got (n, r1) \<Rightarrow> (case reader_skip r1 (unat n) of None \<Rightarrow> Refused | Some r2 \<Rightarrow> Got r2))"

definition helloBodyPrefix :: "byte list \<Rightarrow> Reader \<Rightarrow> Reader access" where
  "helloBodyPrefix data r =
     (case reader_skip r 2 of None \<Rightarrow> Refused | Some r1 \<Rightarrow>
      case reader_skip r1 32 of None \<Rightarrow> Refused | Some r2 \<Rightarrow>
      case skip_u8_vector data r2 of Fault \<Rightarrow> Fault | Refused \<Rightarrow> Refused | Got r3 \<Rightarrow>
      case skip_u16_vector data r3 of Fault \<Rightarrow> Fault | Refused \<Rightarrow> Refused | Got r4 \<Rightarrow>
      skip_u8_vector data r4)"

text \<open>The rest of \<open>parseClientHello\<close> once the whole first record is in the buffer.\<close>

definition parseCompleteRecord ::
  "byte list \<Rightarrow> ClientHello \<Rightarrow> (ParseStatus \<times> ClientHello) option" where
  "parseCompleteRecord data out =
     (if recordPayloadLength out < 4 then Some (Malformed, out)
      else case at data kRecordHeaderSize of None \<Rightarrow> None | Some msgType \<Rightarrow>
      if msgType \<noteq> kHandshakeClientHello then Some (NotTls, out)
      else case (at data (kRecordHeaderSize + 1), at data (kRecordHeaderSize + 2),
                 at data (kRecordHeaderSize + 3)) of
        (Some b1, Some b2, Some b3) \<Rightarrow>
          (let handshakeLength = be24 b1 b2 b3;
               bodyStart = kRecordHeaderSize + 4;
               bodyEnd = bodyStart + handshakeLength
           in if bodyEnd > recordTotalLength out then Some (Ok, out\<lparr>spansRecords := True\<rparr>)
              else case helloBodyPrefix data \<lparr>reader_pos = bodyStart, reader_end = bodyEnd\<rparr> of
                  Fault \<Rightarrow> None
                | Refused \<Rightarrow> Some (Malformed, out)
                | Got r \<Rightarrow> if remaining r = 0 then Some (Ok, out)
                           else parseExtensions data (reader_pos r) bodyEnd out)
      | _ \<Rightarrow> None)"

definition parseClientHello :: "byte list \<Rightarrow> (ParseStatus \<times> ClientHello) option" where
  "parseClientHello data =
     (if length data = 0 then Some (ParseStatus.NeedMore, noHello)
      else case at data 0 of None \<Rightarrow> None | Some b0 \<Rightarrow>
      if b0 \<noteq> kRecordHandshake then Some (NotTls, noHello)
      else if length data < 2 then Some (ParseStatus.NeedMore, noHello)
      else case at data 1 of None \<Rightarrow> None | Some b1 \<Rightarrow>
      if b1 \<noteq> 0x03 then Some (NotTls, noHello)
      else if length data < kRecordHeaderSize then Some (ParseStatus.NeedMore, noHello)
      else case (at data 3, at data 4) of
        (Some b3, Some b4) \<Rightarrow>
          (let payloadLength = unat (be16 b3 b4)
           in if payloadLength = 0 \<or> payloadLength > kMaxRecordPayload
              then Some (Malformed, noHello)
              else let out = noHello\<lparr>recordPayloadLength := payloadLength,
                                     recordTotalLength := kRecordHeaderSize + payloadLength\<rparr>
                   in if length data < recordTotalLength out
                      then Some (ParseStatus.NeedMore, out)
                      else parseCompleteRecord data out)
      | _ \<Rightarrow> None)"

definition looksLikeTlsRecord :: "byte list \<Rightarrow> bool option" where
  "looksLikeTlsRecord data =
     (if length data = 0 then Some False
      else case at data 0 of None \<Rightarrow> None | Some b0 \<Rightarrow>
      if b0 \<noteq> kRecordHandshake then Some False
      else if length data < 2 then Some True
      else map_option (\<lambda>b1. b1 = 0x03) (at data 1))"

section \<open>The server's first flight\<close>

text \<open>
  \<open>classifyServerResponse\<close>: the loop runs over an offset into the response. \<open>totalLength\<close> is
  at least 6, so it ends.
\<close>

function classifyFrom :: "byte list \<Rightarrow> nat \<Rightarrow> ServerResponseStatus option" where
  "classifyFrom data offset =
     (if \<not> offset < length data then Some ServerResponseStatus.NeedMore
      else if length data - offset < kRecordHeaderSize then Some ServerResponseStatus.NeedMore
      else case (at data offset, at data (offset + 1), at data (offset + 3), at data (offset + 4)) of
        (Some contentType, Some major, Some b3, Some b4) \<Rightarrow>
          if major \<noteq> 0x03 then Some Unexpected
          else let payloadLength = unat (be16 b3 b4) in
            if payloadLength = 0 \<or> payloadLength > kMaxRecordPayload then Some Unexpected
            else let totalLength = kRecordHeaderSize + payloadLength in
              if length data - offset < totalLength then Some ServerResponseStatus.NeedMore
              else if contentType = kRecordAlert then Some Alert
              else if contentType = kRecordHandshake then
                (if payloadLength \<ge> 4 then
                   map_option (\<lambda>t. if t = kHandshakeServerHello then ServerHello else Unexpected)
                     (at data (offset + kRecordHeaderSize))
                 else Some Unexpected)
              else if contentType \<noteq> kRecordChangeCipherSpec then Some Unexpected
              else classifyFrom data (offset + totalLength)
      | _ \<Rightarrow> None)"
  by pat_completeness auto
termination
  by (relation "measure (\<lambda>(data, offset). length data - offset)")
    (auto simp: kRecordHeaderSize_def)

declare classifyFrom.simps [simp del]

definition classifyServerResponse :: "byte list \<Rightarrow> ServerResponseStatus option" where
  "classifyServerResponse data = classifyFrom data 0"

definition isServerHello :: "byte list \<Rightarrow> bool option" where
  "isServerHello data = map_option (\<lambda>s. s = ServerHello) (classifyServerResponse data)"


section \<open>Memory safety and what the parser reports\<close>

text \<open>A cursor of the parser never leaves the bytes it was given.\<close>

definition reader_ok :: "byte list \<Rightarrow> Reader \<Rightarrow> bool" where
  "reader_ok data r \<longleftrightarrow> reader_pos r \<le> reader_end r \<and> reader_end r \<le> length data"

lemma reader_u16_ok:
  "reader_ok data r \<Longrightarrow> reader_u16 data r =
     (if remaining r < 2 then Refused
      else Got (be16 (data ! reader_pos r) (data ! (reader_pos r + 1)),
                r\<lparr>reader_pos := reader_pos r + 2\<rparr>))"
  by (auto simp: reader_u16_def reader_ok_def remaining_def)

text \<open>Reading from a longer buffer that starts with the same bytes changes nothing.\<close>

lemma reader_u8_append: "reader_ok data r \<Longrightarrow> reader_u8 (data @ rest) r = reader_u8 data r"
  by (auto simp: reader_u8_def reader_ok_def remaining_def nth_append)

lemma reader_u16_append: "reader_ok data r \<Longrightarrow> reader_u16 (data @ rest) r = reader_u16 data r"
  by (auto simp: reader_u16_def reader_ok_def remaining_def nth_append)

lemmas reader_append = reader_u8_append reader_u16_append

text \<open>The recorded name, when there is one, is the bytes at the recorded offset.\<close>

definition sni_inside :: "byte list \<Rightarrow> nat \<Rightarrow> nat \<Rightarrow> ClientHello \<Rightarrow> bool" where
  "sni_inside data lo hi h \<longleftrightarrow>
     hasSni h \<longrightarrow> lo \<le> sniOffset h \<and> sniOffset h + sniLength h \<le> hi \<and>
       serverName h = map byte_char (take (sniLength h) (drop (sniOffset h) data))"

text \<open>Fields the extension walk never writes.\<close>

definition same_record :: "ClientHello \<Rightarrow> ClientHello \<Rightarrow> bool" where
  "same_record h h' \<longleftrightarrow> recordPayloadLength h' = recordPayloadLength h \<and>
     recordTotalLength h' = recordTotalLength h \<and> spansRecords h' = spansRecords h"

text \<open>
  One turn of the server-name loop on a good cursor, with the accesses resolved. The
  entry header is three bytes.
\<close>

abbreviation entry_length :: "byte list \<Rightarrow> Reader \<Rightarrow> nat" where
  "entry_length data r \<equiv> unat (be16 (data ! (reader_pos r + 1)) (data ! (reader_pos r + 2)))"

abbreviation entry_next :: "byte list \<Rightarrow> Reader \<Rightarrow> Reader" where
  "entry_next data r \<equiv> r\<lparr>reader_pos := reader_pos r + 3 + entry_length data r\<rparr>"

lemma serverNameLoop_turn:
  assumes "reader_ok data list"
  shows "serverNameLoop data list out =
    (if remaining list < 3 \<or> entry_length data list > remaining list - 3 then Some (False, out)
     else if data ! reader_pos list = 0 then
       Some (True, out\<lparr>sniOffset := reader_pos list + 3, sniLength := entry_length data list,
         serverName := map byte_char (take (entry_length data list) (drop (reader_pos list + 3) data))\<rparr>)
     else serverNameLoop data (entry_next data list) out)"
  using assms
  by (subst serverNameLoop.simps)
    (auto simp: reader_u8_def reader_u16_def reader_skip_def reader_ok_def remaining_def slice_def
      add.assoc numeral_3_eq_3)

lemma entry_next_ok:
  "reader_ok data r \<Longrightarrow> \<not> remaining r < 3 \<Longrightarrow> \<not> entry_length data r > remaining r - 3 \<Longrightarrow>
     reader_ok data (entry_next data r) \<and> remaining (entry_next data r) < remaining r"
  by (auto simp: reader_ok_def remaining_def)

lemma serverNameLoop_safe:
  "reader_ok data list \<Longrightarrow> \<not> hasSni out \<Longrightarrow>
    \<exists>b out'. serverNameLoop data list out = Some (b, out') \<and> same_record out out' \<and>
      sni_inside data (reader_pos list) (reader_end list) out'"
proof (induction "remaining list" arbitrary: list rule: less_induct)
  case less
  show ?case
  proof (cases "remaining list < 3 \<or> entry_length data list > remaining list - 3 \<or>
      data ! reader_pos list = 0")
    case True
    then show ?thesis
      using less.prems
      by (subst serverNameLoop_turn)
        (auto simp: same_record_def sni_inside_def hasSni_def reader_ok_def remaining_def)
  next
    case False
    then have ok: "reader_ok data (entry_next data list)"
      and lt: "remaining (entry_next data list) < remaining list"
      using entry_next_ok less.prems(1) by auto
    obtain b out' where "serverNameLoop data (entry_next data list) out = Some (b, out')"
      "same_record out out'" "sni_inside data (reader_pos (entry_next data list)) (reader_end list) out'"
      using less.hyps [OF lt ok less.prems(2)] by auto
    then show ?thesis
      using False less.prems by (subst serverNameLoop_turn) (auto simp: sni_inside_def)
  qed
qed

lemma serverNameLoop_append:
  "reader_ok data list \<Longrightarrow> serverNameLoop (data @ rest) list out = serverNameLoop data list out"
proof (induction "remaining list" arbitrary: list rule: less_induct)
  case less
  have ok': "reader_ok (data @ rest) list"
    using less.prems by (auto simp: reader_ok_def)
  have same: "\<not> remaining list < 3 \<Longrightarrow> entry_length (data @ rest) list = entry_length data list"
    "\<not> remaining list < 3 \<Longrightarrow> (data @ rest) ! reader_pos list = data ! reader_pos list"
    using less.prems by (auto simp: reader_ok_def remaining_def nth_append)
  have name: "take n (drop p (data @ rest)) = take n (drop p data)" if "p + n \<le> length data" for p n
    using that by simp
  show ?case
    using less.hyps [of "entry_next data list"] less.prems entry_next_ok [OF less.prems] same
    by (auto simp: serverNameLoop_turn [OF ok'] serverNameLoop_turn [OF less.prems] name
        reader_ok_def remaining_def)
qed

lemma readServerName_safe:
  assumes "a \<le> b" "b \<le> length data" "\<not> hasSni out"
  shows "\<exists>r out'. readServerName data a b out = Some (r, out') \<and> same_record out out' \<and>
      sni_inside data a b out'"
proof (cases "b - a < 2 \<or> unat (be16 (data ! a) (data ! (a + 1))) > b - (a + 2)")
  case True
  then show ?thesis using assms
    by (auto simp: readServerName_def reader_u16_def remaining_def same_record_def sni_inside_def)
next
  case False
  let ?l = "\<lparr>reader_pos = a + 2, reader_end = a + 2 + unat (be16 (data ! a) (data ! (a + 1)))\<rparr>"
  have "reader_ok data ?l" using False assms by (auto simp: reader_ok_def)
  then obtain r out' where "serverNameLoop data ?l out = Some (r, out')" "same_record out out'"
    "sni_inside data (reader_pos ?l) (reader_end ?l) out'"
    using serverNameLoop_safe assms(3) by blast
  then show ?thesis using False assms
    by (auto simp: readServerName_def reader_u16_def remaining_def sni_inside_def)
qed

lemma readServerName_append:
  assumes "a \<le> b" "b \<le> length data"
  shows "readServerName (data @ rest) a b out = readServerName data a b out"
proof -
  have ok: "reader_ok data \<lparr>reader_pos = a, reader_end = b\<rparr>"
    using assms by (simp add: reader_ok_def)
  show ?thesis
    using assms
    by (auto simp: readServerName_def reader_u16_append [OF ok] intro!: serverNameLoop_append
        split: access.splits)
      (auto simp: reader_u16_def reader_ok_def remaining_def split: if_splits option.splits)
qed

text \<open>One turn of the extension loop: a four-byte header, then the extension.\<close>

abbreviation ext_type :: "byte list \<Rightarrow> Reader \<Rightarrow> u16" where
  "ext_type data r \<equiv> be16 (data ! reader_pos r) (data ! (reader_pos r + 1))"

abbreviation ext_length :: "byte list \<Rightarrow> Reader \<Rightarrow> nat" where
  "ext_length data r \<equiv> unat (be16 (data ! (reader_pos r + 2)) (data ! (reader_pos r + 3)))"

abbreviation ext_next :: "byte list \<Rightarrow> Reader \<Rightarrow> Reader" where
  "ext_next data r \<equiv> r\<lparr>reader_pos := reader_pos r + 4 + ext_length data r\<rparr>"

definition ext_effect :: "byte list \<Rightarrow> Reader \<Rightarrow> ClientHello \<Rightarrow> ClientHello option" where
  "ext_effect data block out =
     (if ext_type data block = kExtEncryptedClientHello then Some (out\<lparr>hasEch := True\<rparr>)
      else if ext_type data block = kExtServerName \<and> \<not> hasSni out
      then map_option snd (readServerName data (reader_pos block + 4)
             (reader_pos block + 4 + ext_length data block) out)
      else Some out)"

lemma extensionsLoop_turn:
  assumes "reader_ok data block"
  shows "extensionsLoop data block out =
    (if remaining block = 0 then Some (Ok, out)
     else if remaining block < 4 \<or> ext_length data block > remaining block - 4
     then Some (Malformed, out)
     else case ext_effect data block out of None \<Rightarrow> None
       | Some out' \<Rightarrow> extensionsLoop data (ext_next data block) out')"
proof (cases "remaining block < 4")
  case True
  then show ?thesis using assms
    by (subst extensionsLoop.simps) (auto simp: reader_u16_ok reader_ok_def remaining_def)
next
  case False
  let ?b1 = "block\<lparr>reader_pos := reader_pos block + 2\<rparr>"
  let ?b2 = "block\<lparr>reader_pos := reader_pos block + 4\<rparr>"
  have u1: "reader_u16 data block = Got (ext_type data block, ?b1)"
    using False assms by (simp add: reader_u16_ok)
  have "reader_ok data ?b1" using False assms by (auto simp: reader_ok_def remaining_def)
  then have u2: "reader_u16 data ?b1 =
      Got (be16 (data ! (reader_pos block + 2)) (data ! (reader_pos block + 3)), ?b2)"
    using False by (auto simp: reader_u16_ok remaining_def eval_nat_numeral)
  have rem: "remaining ?b2 = remaining block - 4" by (simp add: remaining_def)
  show ?thesis
    using False
    by (subst extensionsLoop.simps)
      (simp add: u1 u2 rem ext_effect_def reader_skip_def del: add_2_eq_Suc' split: option.splits)
qed

lemma ext_next_ok:
  "reader_ok data r \<Longrightarrow> \<not> remaining r < 4 \<Longrightarrow> \<not> ext_length data r > remaining r - 4 \<Longrightarrow>
     reader_ok data (ext_next data r) \<and> remaining (ext_next data r) < remaining r"
  by (auto simp: reader_ok_def remaining_def)

lemma ext_effect_safe:
  assumes "reader_ok data r" "\<not> remaining r < 4" "\<not> ext_length data r > remaining r - 4"
    and "sni_inside data lo (reader_end r) out" "lo \<le> reader_pos r"
  shows "\<exists>out'. ext_effect data r out = Some out' \<and> same_record out out' \<and>
      sni_inside data lo (reader_end r) out'"
proof (cases "ext_type data r = kExtServerName \<and> \<not> hasSni out")
  case True
  let ?a = "reader_pos r + 4" and ?b = "reader_pos r + 4 + ext_length data r"
  have "?b \<le> length data"
    using assms(1-3) by (auto simp: reader_ok_def remaining_def)
  then obtain b out' where "readServerName data ?a ?b out = Some (b, out')" "same_record out out'"
    "sni_inside data ?a ?b out'"
    using readServerName_safe [of ?a ?b data out] True by auto
  moreover have "kExtServerName \<noteq> kExtEncryptedClientHello" by (simp add: tls_const_defs)
  ultimately show ?thesis using True assms
    by (auto simp: ext_effect_def sni_inside_def remaining_def reader_ok_def)
next
  case False
  then show ?thesis using assms
    by (auto simp: ext_effect_def same_record_def sni_inside_def hasSni_def)
qed

lemma extensionsLoop_safe:
  "reader_ok data block \<Longrightarrow> sni_inside data lo (reader_end block) out \<Longrightarrow> lo \<le> reader_pos block \<Longrightarrow>
    \<exists>st out'. extensionsLoop data block out = Some (st, out') \<and> same_record out out' \<and>
      st \<noteq> ParseStatus.NeedMore \<and> sni_inside data lo (reader_end block) out'"
proof (induction "remaining block" arbitrary: block out rule: less_induct)
  case less
  show ?case
  proof (cases "remaining block < 4 \<or> ext_length data block > remaining block - 4")
    case True
    then show ?thesis using less.prems
      by (subst extensionsLoop_turn) (auto simp: same_record_def)
  next
    case False
    then have next_ok: "reader_ok data (ext_next data block)"
      "remaining (ext_next data block) < remaining block"
      using ext_next_ok less.prems(1) by auto
    obtain out1 where out1: "ext_effect data block out = Some out1" "same_record out out1"
      "sni_inside data lo (reader_end block) out1"
      using ext_effect_safe less.prems False by blast
    obtain st out2 where "extensionsLoop data (ext_next data block) out1 = Some (st, out2)"
      "same_record out1 out2" "st \<noteq> ParseStatus.NeedMore" "sni_inside data lo (reader_end block) out2"
      using less.hyps [OF next_ok(2,1), of out1] out1 less.prems by auto
    then show ?thesis using False less.prems out1
      by (subst extensionsLoop_turn) (auto simp: same_record_def)
  qed
qed

lemma extensionsLoop_append:
  "reader_ok data block \<Longrightarrow> extensionsLoop (data @ rest) block out = extensionsLoop data block out"
proof (induction "remaining block" arbitrary: block out rule: less_induct)
  case less
  have ok': "reader_ok (data @ rest) block"
    using less.prems by (auto simp: reader_ok_def)
  have same: "ext_length (data @ rest) block = ext_length data block"
    "ext_type (data @ rest) block = ext_type data block" if "\<not> remaining block < 4"
    using that less.prems by (auto simp: reader_ok_def remaining_def nth_append)
  have eff: "ext_effect (data @ rest) block out = ext_effect data block out"
    if "\<not> remaining block < 4" "\<not> ext_length data block > remaining block - 4"
    using that less.prems same
    by (auto simp: ext_effect_def reader_ok_def remaining_def readServerName_append)
  show ?case
    using less.hyps [of "ext_next data block"] ext_next_ok [OF less.prems] same eff
    by (auto simp: extensionsLoop_turn [OF ok'] extensionsLoop_turn [OF less.prems]
        split: option.splits)
qed

lemma parseExtensions_safe:
  assumes "p \<le> bodyEnd" "bodyEnd \<le> length data" "\<not> hasSni out"
  shows "\<exists>st out'. parseExtensions data p bodyEnd out = Some (st, out') \<and> same_record out out' \<and>
      st \<noteq> ParseStatus.NeedMore \<and> sni_inside data p bodyEnd out'"
proof (cases "bodyEnd - p < 2 \<or> unat (be16 (data ! p) (data ! (p + 1))) > bodyEnd - (p + 2)")
  case True
  then show ?thesis using assms
    by (auto simp: parseExtensions_def reader_u16_def remaining_def same_record_def sni_inside_def)
next
  case False
  let ?r = "\<lparr>reader_pos = p + 2, reader_end = p + 2 + unat (be16 (data ! p) (data ! (p + 1)))\<rparr>"
  have "reader_ok data ?r" using False assms by (auto simp: reader_ok_def)
  then obtain st out' where "extensionsLoop data ?r out = Some (st, out')" "same_record out out'"
    "st \<noteq> ParseStatus.NeedMore" "sni_inside data (p + 2) (reader_end ?r) out'"
    using extensionsLoop_safe [of data ?r "p + 2" out] assms(3) by (auto simp: sni_inside_def)
  then show ?thesis using False assms
    by (auto simp: parseExtensions_def reader_u16_def remaining_def sni_inside_def)
qed

lemma parseExtensions_append:
  assumes "p \<le> bodyEnd" "bodyEnd \<le> length data"
  shows "parseExtensions (data @ rest) p bodyEnd out = parseExtensions data p bodyEnd out"
proof -
  have ok: "reader_ok data \<lparr>reader_pos = p, reader_end = bodyEnd\<rparr>"
    using assms by (simp add: reader_ok_def)
  show ?thesis
    using assms
    by (auto simp: parseExtensions_def reader_u16_append [OF ok] intro!: extensionsLoop_append
        split: access.splits)
      (auto simp: reader_u16_ok [OF ok] reader_ok_def remaining_def split: if_splits)
qed

text \<open>The steps over the fixed fields, on a good cursor.\<close>

definition reader_step :: "byte list \<Rightarrow> Reader \<Rightarrow> Reader access \<Rightarrow> bool" where
  "reader_step data r res \<longleftrightarrow> res \<noteq> Fault \<and>
     (\<forall>r'. res = Got r' \<longrightarrow> reader_ok data r' \<and> reader_end r' = reader_end r \<and>
        reader_pos r \<le> reader_pos r')"

lemma skip_u8_vector_step: "reader_ok data r \<Longrightarrow> reader_step data r (skip_u8_vector data r)"
  by (auto simp: skip_u8_vector_def reader_step_def reader_u8_def reader_skip_def reader_ok_def
      remaining_def split: if_splits option.splits)

lemma skip_u16_vector_step: "reader_ok data r \<Longrightarrow> reader_step data r (skip_u16_vector data r)"
  by (auto simp: skip_u16_vector_def reader_step_def reader_u16_ok reader_skip_def
      split: if_splits option.splits)
    (auto simp: reader_ok_def remaining_def)

lemma skip_vector_append:
  assumes "reader_ok data r"
  shows "skip_u8_vector (data @ rest) r = skip_u8_vector data r"
    and "skip_u16_vector (data @ rest) r = skip_u16_vector data r"
  by (simp_all add: skip_u8_vector_def skip_u16_vector_def reader_append [OF assms])

lemma reader_skip_Some:
  "reader_ok data r \<Longrightarrow> reader_skip r n = Some r' \<Longrightarrow>
     reader_ok data r' \<and> reader_end r' = reader_end r \<and> reader_pos r' = reader_pos r + n"
  by (auto simp: reader_skip_def reader_ok_def remaining_def split: if_splits)

lemma reader_step_bind:
  assumes "reader_step data r x" and "\<And>r'. x = Got r' \<Longrightarrow> reader_ok data r' \<Longrightarrow> reader_step data r' (f r')"
  shows "reader_step data r (case x of Fault \<Rightarrow> Fault | Refused \<Rightarrow> Refused | Got r' \<Rightarrow> f r')"
  using assms by (cases x) (force simp: reader_step_def)+

lemma bind_append:
  assumes "reader_step data r x" and "\<And>r'. reader_ok data r' \<Longrightarrow> f r' = g r'"
  shows "(case x of Fault \<Rightarrow> Fault | Refused \<Rightarrow> Refused | Got r' \<Rightarrow> f r') =
    (case x of Fault \<Rightarrow> Fault | Refused \<Rightarrow> Refused | Got r' \<Rightarrow> g r')"
  using assms by (cases x) (auto simp: reader_step_def)

lemma helloVectors_step:
  assumes "reader_ok data r"
  shows "reader_step data r (case skip_u8_vector data r of Fault \<Rightarrow> Fault | Refused \<Rightarrow> Refused
      | Got r3 \<Rightarrow> case skip_u16_vector data r3 of Fault \<Rightarrow> Fault | Refused \<Rightarrow> Refused
          | Got r4 \<Rightarrow> skip_u8_vector data r4)"
  by (intro reader_step_bind skip_u8_vector_step skip_u16_vector_step assms)

lemma helloBodyPrefix_eq:
  "helloBodyPrefix data r = (case reader_skip r 34 of None \<Rightarrow> Refused | Some r2 \<Rightarrow>
     case skip_u8_vector data r2 of Fault \<Rightarrow> Fault | Refused \<Rightarrow> Refused
      | Got r3 \<Rightarrow> case skip_u16_vector data r3 of Fault \<Rightarrow> Fault | Refused \<Rightarrow> Refused
          | Got r4 \<Rightarrow> skip_u8_vector data r4)"
proof -
  have "reader_skip r1 32 = reader_skip r 34" if "reader_skip r 2 = Some r1" for r1
    using that by (auto simp: reader_skip_def remaining_def split: if_splits)
  moreover have "reader_skip r 34 = None" if "reader_skip r 2 = None"
    using that by (auto simp: reader_skip_def remaining_def split: if_splits)
  ultimately show ?thesis
    by (cases "reader_skip r 2") (simp_all add: helloBodyPrefix_def)
qed

lemma helloBodyPrefix_safe:
  assumes ok: "reader_ok data r"
  shows "reader_step data r (helloBodyPrefix data r)"
proof (cases "reader_skip r 34")
  case None
  then show ?thesis by (simp add: helloBodyPrefix_eq reader_step_def)
next
  case (Some r2)
  note r2 = reader_skip_Some [OF ok Some]
  then have "reader_step data r2 (helloBodyPrefix data r)"
    using helloVectors_step [of data r2] Some by (simp add: helloBodyPrefix_eq)
  with r2 show ?thesis by (auto simp: reader_step_def)
qed

lemma helloBodyPrefix_append:
  assumes ok: "reader_ok data r"
  shows "helloBodyPrefix (data @ rest) r = helloBodyPrefix data r"
proof (cases "reader_skip r 34")
  case None
  then show ?thesis by (simp add: helloBodyPrefix_eq)
next
  case (Some r2)
  have ok2: "reader_ok data r2" using reader_skip_Some [OF ok Some] by blast
  have inner: "(case skip_u16_vector (data @ rest) r3 of Fault \<Rightarrow> Fault | Refused \<Rightarrow> Refused
      | Got r4 \<Rightarrow> skip_u8_vector (data @ rest) r4) =
    (case skip_u16_vector data r3 of Fault \<Rightarrow> Fault | Refused \<Rightarrow> Refused
      | Got r4 \<Rightarrow> skip_u8_vector data r4)" if "reader_ok data r3" for r3
    unfolding skip_vector_append(2) [OF that]
    by (rule bind_append [OF skip_u16_vector_step [OF that]]) (rule skip_vector_append)
  show ?thesis
    unfolding helloBodyPrefix_eq Some option.case skip_vector_append(1) [OF ok2]
    by (rule bind_append [OF skip_u8_vector_step [OF ok2]]) (rule inner)
qed

text \<open>What the parser guarantees about a complete first record.\<close>

definition hello_report :: "byte list \<Rightarrow> ClientHello \<Rightarrow> bool" where
  "hello_report data h \<longleftrightarrow> recordTotalLength h = kRecordHeaderSize + recordPayloadLength h \<and>
     recordTotalLength h \<le> length data \<and> recordPayloadLength h \<le> kMaxRecordPayload \<and>
     sni_inside data (kRecordHeaderSize + 4) (recordTotalLength h) h"

lemma parseCompleteRecord_safe:
  assumes out: "recordTotalLength out = kRecordHeaderSize + recordPayloadLength out"
    and max: "recordPayloadLength out \<le> kMaxRecordPayload"
    and len: "recordTotalLength out \<le> length data" and "\<not> hasSni out"
  shows "\<exists>st h. parseCompleteRecord data out = Some (st, h) \<and> st \<noteq> ParseStatus.NeedMore \<and>
    hello_report data h \<and> parseCompleteRecord (data @ rest) out = Some (st, h)"
proof (cases "recordPayloadLength out < 4")
  case True
  then show ?thesis using assms
    by (simp add: parseCompleteRecord_def hello_report_def sni_inside_def)
next
  case False
  let ?s = "kRecordHeaderSize + 4"
  let ?e = "?s + be24 (data ! (kRecordHeaderSize + 1)) (data ! (kRecordHeaderSize + 2))
    (data ! (kRecordHeaderSize + 3))"
  have idx: "kRecordHeaderSize + 3 < length data" using False out len by linarith
  have at: "at (data @ xs) (kRecordHeaderSize + i) = Some (data ! (kRecordHeaderSize + i))"
    if "i \<le> 3" for i xs using idx that by (simp add: nth_append)
  note at' = at [of 0, simplified] at [of 1, simplified] at [of 2] at [of 3]
    at [of 0 "[]", simplified] at [of 1 "[]", simplified] at [of 2 "[]"] at [of 3 "[]"]
  show ?thesis
  proof (cases "data ! kRecordHeaderSize = kHandshakeClientHello \<and> ?e \<le> recordTotalLength out")
    case False2: False
    then show ?thesis using assms False at'
      by (auto simp: parseCompleteRecord_def hello_report_def sni_inside_def hasSni_def Let_def)
  next
    case True
    let ?r = "\<lparr>reader_pos = ?s, reader_end = ?e\<rparr>"
    have ok: "reader_ok data ?r" using True len by (auto simp: reader_ok_def)
    have step: "reader_step data ?r (helloBodyPrefix data ?r)"
      "helloBodyPrefix (data @ rest) ?r = helloBodyPrefix data ?r"
      using helloBodyPrefix_safe [OF ok] helloBodyPrefix_append [OF ok] by blast+
    have ext: "\<exists>st h. parseExtensions data (reader_pos r) ?e out = Some (st, h) \<and>
        st \<noteq> ParseStatus.NeedMore \<and> hello_report data h \<and>
        parseExtensions (data @ rest) (reader_pos r) ?e out = Some (st, h)"
      if "helloBodyPrefix data ?r = Got r" for r
    proof -
      have r: "?s \<le> reader_pos r" "reader_pos r \<le> ?e" "?e \<le> length data"
        using step(1) that ok by (auto simp: reader_step_def reader_ok_def)
      show ?thesis
        using parseExtensions_safe [OF r(2,3) assms(4)] parseExtensions_append [OF r(2,3)] assms r True
        by (auto simp: hello_report_def same_record_def sni_inside_def)
    qed
    show ?thesis
    proof (cases "helloBodyPrefix data ?r")
      case (Got r)
      then show ?thesis using True False at' step ext [OF Got] assms
        by (auto simp: parseCompleteRecord_def hello_report_def sni_inside_def Let_def)
    qed (use True False at' step assms in
      \<open>auto simp: parseCompleteRecord_def hello_report_def sni_inside_def Let_def reader_step_def\<close>)
  qed
qed

text \<open>The header fields of a buffer that holds a whole record header.\<close>

abbreviation header_payload :: "byte list \<Rightarrow> nat" where
  "header_payload data \<equiv> unat (be16 (data ! 3) (data ! 4))"

definition header_hello :: "byte list \<Rightarrow> ClientHello" where
  "header_hello data = noHello\<lparr>recordPayloadLength := header_payload data,
     recordTotalLength := kRecordHeaderSize + header_payload data\<rparr>"

lemma parseClientHello_header:
  assumes "kRecordHeaderSize \<le> length data"
  shows "parseClientHello data =
    (if data ! 0 \<noteq> kRecordHandshake \<or> data ! 1 \<noteq> 3 then Some (NotTls, noHello)
     else if header_payload data = 0 \<or> header_payload data > kMaxRecordPayload
     then Some (Malformed, noHello)
     else if length data < kRecordHeaderSize + header_payload data
     then Some (ParseStatus.NeedMore, header_hello data)
     else parseCompleteRecord data (header_hello data))"
  using assms
  by (auto simp: parseClientHello_def kRecordHeaderSize_def Let_def header_hello_def)

lemma header_hello_simps [simp]:
  "recordPayloadLength (header_hello data) = header_payload data"
  "recordTotalLength (header_hello data) = kRecordHeaderSize + header_payload data"
  "\<not> hasSni (header_hello data)"
  by (simp_all add: header_hello_def noHello_def hasSni_def)

lemma parseClientHello_short:
  assumes "length data < kRecordHeaderSize"
  shows "\<exists>st. parseClientHello data = Some (st, noHello) \<and> (st = ParseStatus.NeedMore \<or> st = NotTls)"
  using assms by (auto simp: parseClientHello_def kRecordHeaderSize_def)

lemma parseClientHello_complete:
  assumes "kRecordHeaderSize + header_payload data \<le> length data"
    "kRecordHeaderSize \<le> length data" "data ! 0 = kRecordHandshake" "data ! 1 = 3"
    "header_payload data \<noteq> 0" "header_payload data \<le> kMaxRecordPayload"
  shows "\<exists>st h. parseClientHello data = Some (st, h) \<and> st \<noteq> ParseStatus.NeedMore \<and>
    hello_report data h \<and> parseClientHello (data @ rest) = Some (st, h)"
proof -
  have "(data @ rest) ! i = data ! i" if "i < 5" for i
    using that assms(2) by (simp add: nth_append kRecordHeaderSize_def)
  then have "parseClientHello (data @ rest) = parseCompleteRecord (data @ rest) (header_hello data)"
    using assms by (simp add: parseClientHello_header header_hello_def)
  then show ?thesis
    using parseCompleteRecord_safe [of "header_hello data" data rest] assms
    by (simp add: parseClientHello_header)
qed

lemma parseClientHello_report:
  "\<exists>st h. parseClientHello data = Some (st, h) \<and>
     (hasSni h \<longrightarrow> hello_report data h) \<and> (st = Ok \<longrightarrow> hello_report data h)"
proof (cases "kRecordHeaderSize \<le> length data")
  case False
  then show ?thesis using parseClientHello_short [of data] by (auto simp: noHello_def hasSni_def)
next
  case True
  show ?thesis
  proof (cases "kRecordHeaderSize + header_payload data \<le> length data \<and> data ! 0 = kRecordHandshake \<and>
      data ! 1 = 3 \<and> header_payload data \<noteq> 0 \<and> header_payload data \<le> kMaxRecordPayload")
    case c: True
    then show ?thesis using parseClientHello_complete [of data] True by blast
  next
    case False
    then show ?thesis using True by (auto simp: parseClientHello_header noHello_def hasSni_def header_hello_def)
  qed
qed

text \<open>A small ClientHello for the witnesses: no session id, one cipher suite, a server name.\<close>

definition sampleHello :: "byte list" where
  "sampleHello = [0x16, 3, 1, 0, 58, 1, 0, 0, 54, 3, 3] @ replicate 32 7 @
     [0, 0, 2, 0x13, 0x01, 1, 0, 0, 11, 0, 0, 0, 7, 0, 5, 0, 0, 2, 0x61, 0x62]"

definition sampleReport :: ClientHello where
  "sampleReport = \<lparr>recordPayloadLength = 58, recordTotalLength = 63, sniOffset = 61, sniLength = 2,
     serverName = ''ab'', hasEch = False, spansRecords = False\<rparr>"

lemma parse_sampleHello: "parseClientHello sampleHello = Some (Ok, sampleReport)"
  by code_simp

text \<open>
  C1. Whatever bytes a client sends, in whatever pieces, the parser of \<open>TlsHello.cpp\<close> stays
  inside the buffer it was given and returns a verdict. The sizes it reports are consistent
  on every verdict that inspected a complete record: the record length is the header plus
  the payload (16384 bytes at most) and fits in the buffer, and a reported name lies inside that record, after
  the handshake header, and is the bytes at the reported offset.
\<close>

theorem parseClientHello_memory_safe:
  "\<exists>st h. parseClientHello data = Some (st, h) \<and> (hasSni h \<or> st = Ok \<longrightarrow>
     recordTotalLength h = kRecordHeaderSize + recordPayloadLength h \<and>
     recordTotalLength h \<le> length data \<and> recordPayloadLength h \<le> kMaxRecordPayload \<and>
     (hasSni h \<longrightarrow> kRecordHeaderSize + 4 \<le> sniOffset h \<and>
        sniOffset h + sniLength h \<le> recordTotalLength h \<and>
        serverName h = map byte_char (take (sniLength h) (drop (sniOffset h) data))))"
  using parseClientHello_report [of data] by (auto simp: hello_report_def sni_inside_def)

theorem parseClientHello_memory_safe_witness:
  "\<exists>h. parseClientHello sampleHello = Some (Ok, h) \<and> recordTotalLength h \<le> length sampleHello"
  using parseClientHello_memory_safe [of sampleHello] parse_sampleHello by auto

text \<open>
  C11. Verdicts are stable under streaming. Once the parser has said anything but
  \<open>NeedMore\<close>, later bytes change neither the verdict nor what it reported: the proxy may
  inspect the ClientHello as soon as it arrives and need not look again.
\<close>

theorem parseClientHello_streaming:
  assumes "parseClientHello data = Some (st, h)" and "st \<noteq> ParseStatus.NeedMore"
  shows "parseClientHello (data @ rest) = Some (st, h)"
proof (cases "kRecordHeaderSize \<le> length data")
  case True
  then have nth: "(data @ rest) ! i = data ! i" if "i < 5" for i
    using that by (simp add: nth_append kRecordHeaderSize_def)
  show ?thesis
  proof (cases "data ! 0 = kRecordHandshake \<and> data ! 1 = 3 \<and> header_payload data \<noteq> 0 \<and>
      header_payload data \<le> kMaxRecordPayload")
    case hdr: True
    then have "kRecordHeaderSize + header_payload data \<le> length data"
      using assms True by (auto simp: parseClientHello_header split: if_splits)
    then show ?thesis using parseClientHello_complete [of data rest] hdr True assms(1) by auto
  next
    case False
    then show ?thesis
      using assms True nth by (auto simp: parseClientHello_header split: if_splits)
  qed
next
  case False
  then show ?thesis
    using assms
    by (auto simp: parseClientHello_def kRecordHeaderSize_def nth_append split: if_splits)
qed

theorem parseClientHello_streaming_witness:
  "parseClientHello (sampleHello @ [1, 2, 3]) = parseClientHello sampleHello \<and>
   (\<exists>h. parseClientHello sampleHello = Some (Ok, h) \<and> serverName h = ''ab'')"
  using parseClientHello_streaming [OF parse_sampleHello, of "[1, 2, 3]"] parse_sampleHello
  by (simp add: sampleReport_def)

text \<open>
  The parser asks for more bytes only while the first record is incomplete; so a buffer
  of one maximal record always gets a verdict.
\<close>

lemma parseClientHello_decides:
  "parseClientHello data = Some (ParseStatus.NeedMore, h) \<Longrightarrow>
     length data < kRecordHeaderSize \<or>
     length data < recordTotalLength h \<and> recordTotalLength h \<le> kRecordHeaderSize + kMaxRecordPayload"
  using parseClientHello_complete [of data "[]"]
  by (cases "kRecordHeaderSize \<le> length data")
    (auto simp: parseClientHello_header split: if_splits)

lemma parseClientHello_decides_witness:
  "\<exists>h. parseClientHello (take 20 sampleHello) = Some (ParseStatus.NeedMore, h) \<and>
     (length (take 20 sampleHello) < kRecordHeaderSize \<or>
      length (take 20 sampleHello) < recordTotalLength h \<and>
      recordTotalLength h \<le> kRecordHeaderSize + kMaxRecordPayload)"
proof -
  have p: "parseClientHello (take 20 sampleHello) = Some (ParseStatus.NeedMore,
    \<lparr>recordPayloadLength = 58, recordTotalLength = 63, sniOffset = 0, sniLength = 0,
     serverName = [], hasEch = False, spansRecords = False\<rparr>)" by code_simp
  show ?thesis using parseClientHello_decides [OF p] p by blast
qed

section \<open>What counts as a ServerHello\<close>

lemma at_drop [simp]: "at (drop k xs) i = at xs (k + i)"
  by (auto simp: at_def)

lemma classifyFrom_drop: "classifyFrom data (base + offset) = classifyFrom (drop base data) offset"
proof (induction "length data - (base + offset)" arbitrary: offset rule: less_induct)
  case less
  have IH: "classifyFrom data (base + (offset + (kRecordHeaderSize + n))) =
      classifyFrom (drop base data) (offset + (kRecordHeaderSize + n))"
    if "offset < length data - base" for n
    by (rule less) (use that in \<open>simp add: kRecordHeaderSize_def\<close>)
  have lt: "base + offset < length data \<longleftrightarrow> offset < length data - base" by linarith
  show ?case
    unfolding classifyFrom.simps [of data "base + offset"] classifyFrom.simps [of "drop base data" offset]
    by (cases "offset < length data - base")
      (simp_all only: IH lt Let_def add.assoc at_drop length_drop diff_diff_left not_False_eq_True
        not_True_eq_False if_True if_False)
qed

lemma classify_header:
  assumes "kRecordHeaderSize \<le> length d"
  shows "classifyServerResponse d =
    (if d ! 1 \<noteq> 3 \<or> header_payload d = 0 \<or> header_payload d > kMaxRecordPayload then Some Unexpected
     else if length d < kRecordHeaderSize + header_payload d then Some ServerResponseStatus.NeedMore
     else if d ! 0 = kRecordAlert then Some Alert
     else if d ! 0 = kRecordHandshake then
       Some (if header_payload d \<ge> 4 \<and> d ! kRecordHeaderSize = kHandshakeServerHello
             then ServerHello else Unexpected)
     else if d ! 0 \<noteq> kRecordChangeCipherSpec then Some Unexpected
     else classifyServerResponse (drop (kRecordHeaderSize + header_payload d) d))"
proof -
  have len: "0 < length d" "1 < length d" "3 < length d" "4 < length d"
    using assms by (auto simp: kRecordHeaderSize_def)
  have d: "classifyFrom d (kRecordHeaderSize + n) = classifyFrom (drop (kRecordHeaderSize + n) d) 0" for n
    using classifyFrom_drop [of d "kRecordHeaderSize + n" 0] by simp
  have at: "at d 0 = Some (d ! 0)" "at d 1 = Some (d ! 1)" "at d 3 = Some (d ! 3)" "at d 4 = Some (d ! 4)"
    "n > 0 \<Longrightarrow> \<not> length d < kRecordHeaderSize + n \<Longrightarrow>
       at d kRecordHeaderSize = Some (d ! kRecordHeaderSize)" for n
    using len by auto
  show ?thesis
    unfolding classifyServerResponse_def
    apply (subst classifyFrom.simps)
    apply (simp only: add_0 at prod.case option.case Let_def d diff_zero)
    using assms at(5) [of "header_payload d"] len(1) by auto
qed

text \<open>One record at the front of the response.\<close>

definition tls_record :: "byte \<Rightarrow> byte \<Rightarrow> byte list \<Rightarrow> byte list" where
  "tls_record contentType minor payload = [contentType, 3, minor,
     hi8 (of_nat (length payload)), lo8 (of_nat (length payload))] @ payload"

definition valid_payload :: "byte list \<Rightarrow> bool" where
  "valid_payload payload \<longleftrightarrow> 0 < length payload \<and> length payload \<le> kMaxRecordPayload"

lemma classify_record:
  assumes "valid_payload payload"
  shows "classifyServerResponse (tls_record ct minor payload @ rest) =
    (if ct = kRecordAlert then Some Alert
     else if ct = kRecordHandshake then
       Some (if length payload \<ge> 4 \<and> payload ! 0 = kHandshakeServerHello then ServerHello else Unexpected)
     else if ct \<noteq> kRecordChangeCipherSpec then Some Unexpected
     else classifyServerResponse rest)"
proof -
  let ?d = "tls_record ct minor payload @ rest"
  have n: "length payload < 65536" "payload \<noteq> []"
    using assms by (auto simp: valid_payload_def kMaxRecordPayload_def)
  have len: "length ?d = kRecordHeaderSize + length payload + length rest"
    by (simp add: tls_record_def kRecordHeaderSize_def)
  have d: "?d ! 0 = ct" "?d ! 1 = 3" "header_payload ?d = length payload"
    "?d ! kRecordHeaderSize = payload ! 0"
    using n by (auto simp: tls_record_def kRecordHeaderSize_def nth_append unat_of_nat_u16)
  have dr: "drop (kRecordHeaderSize + length payload) ?d = rest"
    by (simp add: tls_record_def kRecordHeaderSize_def eval_nat_numeral)
  have "kRecordHeaderSize \<le> length ?d" by (simp only: len)
  from classify_header [OF this] show ?thesis
    using assms n by (simp only: d len dr) (simp add: valid_payload_def)
qed

text \<open>Conversely, a buffer that holds a whole valid record is that record and a rest.\<close>

lemma record_split:
  assumes "kRecordHeaderSize + header_payload d \<le> length d" "d ! 1 = 3"
  shows "\<exists>minor payload rest. d = tls_record (d ! 0) minor payload @ rest \<and>
    length payload = header_payload d \<and> (payload \<noteq> [] \<longrightarrow> payload ! 0 = d ! kRecordHeaderSize)"
proof -
  let ?n = "header_payload d"
  obtain a b c e f r where d: "d = a # b # c # e # f # r"
    using assms(1) by (auto simp: kRecordHeaderSize_def Suc_le_length_iff eval_nat_numeral)
  have r: "?n \<le> length r" using assms(1) by (simp add: d kRecordHeaderSize_def)
  have "be16 e f = of_nat ?n" by (simp add: d)
  then have "hi8 (of_nat ?n) = e" "lo8 (of_nat ?n) = f"
    by (metis hi8_be16, metis lo8_be16)
  then have "d = tls_record (d ! 0) c (take ?n r) @ drop ?n r"
    using r assms(2) by (simp add: tls_record_def d min_def)
  moreover have "length (take ?n r) = ?n" using r by simp
  moreover have "take ?n r \<noteq> [] \<longrightarrow> take ?n r ! 0 = d ! kRecordHeaderSize"
    by (simp add: d kRecordHeaderSize_def)
  ultimately show ?thesis by blast
qed

lemma classify_short: "length d < kRecordHeaderSize \<Longrightarrow>
    classifyServerResponse d = Some ServerResponseStatus.NeedMore"
  by (simp add: classifyServerResponse_def classifyFrom.simps)

text \<open>
  A flight is read record by record: either the front is too short for a verdict, or it is
  no acceptable record, or it is one record and the classification depends on its type.
\<close>

lemma classify_cases:
  obtains (incomplete) "classifyServerResponse d = Some ServerResponseStatus.NeedMore"
  | (invalid) "classifyServerResponse d = Some Unexpected" "kRecordHeaderSize \<le> length d"
      "d ! 1 \<noteq> 3 \<or> header_payload d = 0 \<or> header_payload d > kMaxRecordPayload"
  | (whole) ct minor payload rest where "d = tls_record ct minor payload @ rest" "valid_payload payload"
proof (cases "kRecordHeaderSize \<le> length d")
  case True
  show ?thesis
  proof (cases "d ! 1 \<noteq> 3 \<or> header_payload d = 0 \<or> header_payload d > kMaxRecordPayload \<or>
      length d < kRecordHeaderSize + header_payload d")
    case bad: True
    then show ?thesis using classify_header [OF True] incomplete invalid True by (auto split: if_splits)
  next
    case False
    then obtain minor payload rest where "d = tls_record (d ! 0) minor payload @ rest"
      "length payload = header_payload d"
      using record_split [of d] by auto
    then show ?thesis using False whole by (force simp: valid_payload_def)
  qed
next
  case False
  then show ?thesis using incomplete classify_short by simp
qed

lemma tls_record_longer: "length rest < length (tls_record ct minor payload @ rest)"
  by (simp add: tls_record_def)

text \<open>The flight the relay waits for: ChangeCipherSpec records, then a ServerHello record.\<close>

definition server_hello_flight :: "(byte \<times> byte list) list \<Rightarrow> byte \<Rightarrow> byte list \<Rightarrow> byte list" where
  "server_hello_flight ccs minor payload =
     concat (map (\<lambda>(m, p). tls_record kRecordChangeCipherSpec m p) ccs) @
     tls_record kRecordHandshake minor payload"

definition is_server_flight :: "(byte \<times> byte list) list \<Rightarrow> byte list \<Rightarrow> bool" where
  "is_server_flight ccs payload \<longleftrightarrow> list_all (valid_payload \<circ> snd) ccs \<and> valid_payload payload \<and>
     4 \<le> length payload \<and> payload ! 0 = kHandshakeServerHello"

lemma server_flight_accepted:
  "is_server_flight ccs payload \<Longrightarrow>
     classifyServerResponse (server_hello_flight ccs minor payload @ rest) = Some ServerHello"
  by (induction ccs)
    (auto simp: server_hello_flight_def is_server_flight_def classify_record kRecordHandshake_def
      kRecordAlert_def kRecordChangeCipherSpec_def)

lemma server_flight_found:
  "classifyServerResponse d = Some ServerHello \<Longrightarrow>
     \<exists>ccs minor payload rest. d = server_hello_flight ccs minor payload @ rest \<and> is_server_flight ccs payload"
proof (induction "length d" arbitrary: d rule: less_induct)
  case less
  show ?case
  proof (cases rule: classify_cases [of d])
    case (whole ct minor payload rest)
    note c = classify_record [OF whole(2), of ct minor rest]
    show ?thesis
    proof (cases "ct = kRecordChangeCipherSpec")
      case True
      then have "classifyServerResponse rest = Some ServerHello"
        using c less.prems whole(1) by (simp add: tls_const_defs)
      then obtain ccs m p r where "rest = server_hello_flight ccs m p @ r" "is_server_flight ccs p"
        using less.hyps [of rest] whole(1) tls_record_longer by blast
      then have "d = server_hello_flight ((minor, payload) # ccs) m p @ r"
        "is_server_flight ((minor, payload) # ccs) p"
        using whole True by (auto simp: server_hello_flight_def is_server_flight_def)
      then show ?thesis by blast
    next
      case False
      then have "d = server_hello_flight [] minor payload @ rest" "is_server_flight [] payload"
        using c less.prems whole by (auto simp: server_hello_flight_def is_server_flight_def split: if_splits)
      then show ?thesis by blast
    qed
  qed (use less.prems in simp_all)
qed

text \<open>
  C14. \<open>isServerHello\<close> accepts exactly the flights a TLS server that took the ClientHello
  sends: any number of complete ChangeCipherSpec records followed by a complete handshake
  record that starts with a ServerHello message. Nothing shorter, no alert, no HTTP error
  page counts as success, and whatever follows does not matter.
\<close>

theorem isServerHello_exact:
  "isServerHello data = Some True \<longleftrightarrow>
     (\<exists>ccs minor payload rest. data = server_hello_flight ccs minor payload @ rest \<and>
        is_server_flight ccs payload)"
  using server_flight_found server_flight_accepted by (auto simp: isServerHello_def)

text \<open>
  The classification stays inside the response buffer, ends with a verdict, and a
  verdict other than \<open>NeedMore\<close> is final: more bytes from the server do not change it.
\<close>

lemma classifyServerResponse_final:
  "\<exists>verdict. classifyServerResponse data = Some verdict \<and>
     (verdict = ServerResponseStatus.NeedMore \<or> classifyServerResponse (data @ rest) = Some verdict)"
proof (induction "length data" arbitrary: data rule: less_induct)
  case less
  show ?case
  proof (cases rule: classify_cases [of data])
    case invalid
    have nth: "(data @ rest) ! i = data ! i" if "i < 5" for i
      using that invalid(2) by (simp add: nth_append kRecordHeaderSize_def)
    have "kRecordHeaderSize \<le> length (data @ rest)" using invalid(2) by simp
    from classify_header [OF this] show ?thesis
      using invalid by (auto simp: nth)
  next
    case (whole ct minor payload tail)
    show ?thesis
      using less [of tail] whole tls_record_longer [of tail ct minor payload]
      by (auto simp: classify_record)
  qed simp
qed

end
