(* ===== verification/Diagnosis.thy ===== *)
theory Diagnosis
  imports Prelude
begin

text \<open>
  \<open>src/src/Diagnosis.hpp\<close> and \<open>Diagnosis.cpp\<close>: what the signals of one connection's
  attempts say about the path. A pointer result is an option.
\<close>

datatype ProbeSignal = ServerHello | Alert | Timeout | Reset | Closed | Unexpected

datatype Kind = Unknown | NoInterference | SniInterferenceLikely | TlsIncompatible
  | TransportFailure | ThrottlingSuspected | LearnedProfile | TransientFailure
  | InterferenceSuspected

record Attempt =
  attempt_profile :: string
  attempt_signal :: ProbeSignal
  elapsedMs :: u32

record Verdict =
  verdict_kind :: Kind
  verdict_confidence :: nat
  winningProfile :: string

record Context =
  rememberedProfile :: string
  baselineRecentlyHealthy_ctx :: bool

definition kSlowServerHelloMs :: u32 where "kSlowServerHelloMs = 1500"

definition diagnosis_findProfile :: "Attempt list \<Rightarrow> string \<Rightarrow> Attempt option" where
  "diagnosis_findProfile attempts profile = find (\<lambda>a. attempt_profile a = profile) attempts"

definition findSuccess :: "Attempt list \<Rightarrow> Attempt option" where
  "findSuccess attempts = find (\<lambda>a. attempt_signal a = ServerHello) attempts"

definition hasSignal :: "Attempt list \<Rightarrow> ProbeSignal \<Rightarrow> bool" where
  "hasSignal attempts signal = list_ex (\<lambda>a. attempt_signal a = signal) attempts"

definition isTransportFailure :: "ProbeSignal \<Rightarrow> bool" where
  "isTransportFailure signal \<longleftrightarrow> signal = Timeout \<or> signal = Reset \<or> signal = Closed"

definition mkVerdict :: "Kind \<Rightarrow> nat \<Rightarrow> string \<Rightarrow> Verdict" where
  "mkVerdict k c p = \<lparr>verdict_kind = k, verdict_confidence = c, winningProfile = p\<rparr>"

definition infer :: "Attempt list \<Rightarrow> Context \<Rightarrow> Verdict" where
  "infer attempts context =
     (if attempts = [] then mkVerdict Unknown 0 []
      else case findSuccess attempts of
        Some success \<Rightarrow>
          (if attempt_profile success = ''none'' then
             (if elapsedMs success \<ge> kSlowServerHelloMs
              then mkVerdict ThrottlingSuspected 55 (attempt_profile success)
              else mkVerdict NoInterference 95 (attempt_profile success))
           else case diagnosis_findProfile attempts ''none'' of
               None \<Rightarrow> mkVerdict LearnedProfile 65 (attempt_profile success)
             | Some baseline \<Rightarrow>
                 if attempt_signal baseline = ServerHello
                 then mkVerdict LearnedProfile 65 (attempt_profile success)
                 else if baselineRecentlyHealthy_ctx context
                 then mkVerdict TransientFailure 70 (attempt_profile success)
                 else if rememberedProfile context \<noteq> [] \<and>
                         rememberedProfile context \<noteq> attempt_profile success \<and>
                         (case diagnosis_findProfile attempts (rememberedProfile context) of
                            None \<Rightarrow> False
                          | Some remembered \<Rightarrow> isTransportFailure (attempt_signal remembered) \<and>
                              isTransportFailure (attempt_signal baseline))
                 then mkVerdict TransientFailure 60 (attempt_profile success)
                 else mkVerdict SniInterferenceLikely
                        (if attempt_signal baseline = Alert then 70 else 92)
                        (attempt_profile success))
      | None \<Rightarrow>
          if hasSignal attempts Alert then mkVerdict TlsIncompatible 75 []
          else if list_all (\<lambda>a. isTransportFailure (attempt_signal a)) attempts
          then mkVerdict TransportFailure 45 []
          else mkVerdict Unknown 25 [])"

definition isVerifiedBypass :: "Kind \<Rightarrow> bool" where
  "isVerifiedBypass kind \<longleftrightarrow> kind = SniInterferenceLikely"

fun kind_name :: "Kind \<Rightarrow> string" where
  "kind_name Unknown = ''unknown''"
| "kind_name NoInterference = ''no-interference''"
| "kind_name SniInterferenceLikely = ''sni-interference-likely''"
| "kind_name TlsIncompatible = ''tls-incompatible''"
| "kind_name TransportFailure = ''transport-failure''"
| "kind_name ThrottlingSuspected = ''throttling-suspected''"
| "kind_name LearnedProfile = ''learned-profile''"
| "kind_name TransientFailure = ''transient-failure''"
| "kind_name InterferenceSuspected = ''interference-suspected''"

fun signalName :: "ProbeSignal \<Rightarrow> string" where
  "signalName ServerHello = ''server-hello''"
| "signalName Alert = ''tls-alert''"
| "signalName Timeout = ''timeout''"
| "signalName Reset = ''reset''"
| "signalName Closed = ''closed''"
| "signalName Unexpected = ''unexpected''"

fun describe :: "ProbeSignal \<Rightarrow> string" where
  "describe ServerHello = ''ServerHello''"
| "describe Alert = ''TLS Alert''"
| "describe Timeout = ''zaman asimi''"
| "describe Reset = ''RST''"
| "describe Closed = ''baglanti kapatildi''"
| "describe Unexpected = ''beklenmeyen yanit''"

section \<open>Properties\<close>

lemma findSuccess_Some:
  "findSuccess attempts = Some a \<Longrightarrow> a \<in> set attempts \<and> attempt_signal a = ServerHello"
  by (auto simp: findSuccess_def find_Some_iff)

lemma findSuccess_None:
  "findSuccess attempts = None \<longleftrightarrow> (\<forall>a \<in> set attempts. attempt_signal a \<noteq> ServerHello)"
  by (auto simp: findSuccess_def find_None_iff)

lemma diagnosis_findProfile_Some:
  "diagnosis_findProfile attempts p = Some a \<Longrightarrow> a \<in> set attempts \<and> attempt_profile a = p"
  by (auto simp: diagnosis_findProfile_def find_Some_iff)

lemma verdict_simps [simp]:
  "verdict_kind (mkVerdict k c p) = k" "verdict_confidence (mkVerdict k c p) = c"
  "winningProfile (mkVerdict k c p) = p"
  by (simp_all add: mkVerdict_def)

text \<open>The baseline attempt and the winning attempt that make a differential.\<close>

definition differential :: "Attempt list \<Rightarrow> string \<Rightarrow> bool" where
  "differential attempts winner \<longleftrightarrow>
     (\<exists>b \<in> set attempts. attempt_profile b = ''none'' \<and> attempt_signal b \<noteq> ServerHello) \<and>
     (\<exists>w \<in> set attempts. attempt_profile w = winner \<and> attempt_signal w = ServerHello \<and> winner \<noteq> ''none'')"

lemma infer_success:
  assumes "findSuccess attempts = Some success"
  shows "winningProfile (infer attempts context) = attempt_profile success"
  using assms by (auto simp: infer_def findSuccess_def split: option.splits)

text \<open>
  C28. A verdict of interference is always backed by a controlled difference on this
  connection: the untouched hello failed and the winning profile, a different one, got a
  ServerHello. It is never given when the baseline worked recently, nor when the remembered
  bypass and the baseline both died of a transport failure while a third profile got
  through.
\<close>

theorem infer_interference_evidence:
  assumes "verdict_kind (infer attempts context) = SniInterferenceLikely"
  shows "differential attempts (winningProfile (infer attempts context)) \<and>
    \<not> baselineRecentlyHealthy_ctx context \<and>
    (rememberedProfile context \<in> {[], winningProfile (infer attempts context)} \<or>
      \<not> (\<exists>b r. diagnosis_findProfile attempts ''none'' = Some b \<and>
            diagnosis_findProfile attempts (rememberedProfile context) = Some r \<and>
            isTransportFailure (attempt_signal b) \<and> isTransportFailure (attempt_signal r)))"
proof -
  obtain s b where s: "findSuccess attempts = Some s" "attempt_profile s \<noteq> ''none''"
    and b: "diagnosis_findProfile attempts ''none'' = Some b" "attempt_signal b \<noteq> ServerHello"
    and c: "\<not> baselineRecentlyHealthy_ctx context"
    and r: "\<not> (rememberedProfile context \<noteq> [] \<and> rememberedProfile context \<noteq> attempt_profile s \<and>
      (case diagnosis_findProfile attempts (rememberedProfile context) of None \<Rightarrow> False
       | Some r \<Rightarrow> isTransportFailure (attempt_signal r) \<and> isTransportFailure (attempt_signal b)))"
    using assms by (auto simp: infer_def split: if_splits option.splits)
  have w: "winningProfile (infer attempts context) = attempt_profile s"
    by (rule infer_success [OF s(1)])
  have "differential attempts (attempt_profile s)"
    using findSuccess_Some [OF s(1)] diagnosis_findProfile_Some [OF b(1)] s b
    by (auto simp: differential_def)
  moreover note c
  moreover have "rememberedProfile context \<in> {[], attempt_profile s} \<or>
      \<not> (\<exists>b r. diagnosis_findProfile attempts ''none'' = Some b \<and>
            diagnosis_findProfile attempts (rememberedProfile context) = Some r \<and>
            isTransportFailure (attempt_signal b) \<and> isTransportFailure (attempt_signal r))"
    using r b(1) by (auto split: option.splits)
  ultimately show ?thesis unfolding w by blast
qed

definition blockedAttempts :: "Attempt list" where
  "blockedAttempts =
     [\<lparr>attempt_profile = ''none'', attempt_signal = Timeout, elapsedMs = 3000\<rparr>,
      \<lparr>attempt_profile = ''sni-mid'', attempt_signal = ServerHello, elapsedMs = 80\<rparr>]"

definition plainContext :: Context where
  "plainContext = \<lparr>rememberedProfile = [], baselineRecentlyHealthy_ctx = False\<rparr>"

theorem infer_interference_evidence_witness:
  "verdict_kind (infer blockedAttempts plainContext) = SniInterferenceLikely \<and>
   winningProfile (infer blockedAttempts plainContext) = ''sni-mid'' \<and>
   differential blockedAttempts ''sni-mid''"
proof -
  have v: "verdict_kind (infer blockedAttempts plainContext) = SniInterferenceLikely"
    "winningProfile (infer blockedAttempts plainContext) = ''sni-mid''" by code_simp+
  show ?thesis using infer_interference_evidence [OF v(1)] v by simp
qed

text \<open>
  Which family of verdicts a connection gets is decided by whether any attempt got a
  ServerHello: with one, the verdict names a winning profile that really succeeded; with
  none, no profile is named and the verdict claims at most an incompatibility or an outage.
  The confidence is a percentage and \<open>InterferenceSuspected\<close> is never inferred here.
\<close>

lemma infer_total:
  "verdict_confidence (infer attempts context) \<le> 100 \<and>
   verdict_kind (infer attempts context) \<noteq> InterferenceSuspected \<and>
   (if \<exists>a \<in> set attempts. attempt_signal a = ServerHello
    then (\<exists>a \<in> set attempts. attempt_signal a = ServerHello \<and>
            attempt_profile a = winningProfile (infer attempts context)) \<and>
         verdict_kind (infer attempts context) \<in> {NoInterference, ThrottlingSuspected,
           LearnedProfile, TransientFailure, SniInterferenceLikely}
    else winningProfile (infer attempts context) = [] \<and>
         verdict_kind (infer attempts context) \<in> {TlsIncompatible, TransportFailure, Unknown})"
proof (cases "findSuccess attempts")
  case None
  then have "\<not> (\<exists>a \<in> set attempts. attempt_signal a = ServerHello)" by (simp add: findSuccess_None)
  with None show ?thesis by (simp add: infer_def)
next
  case (Some s)
  have "verdict_confidence (infer attempts context) \<le> 100 \<and>
    verdict_kind (infer attempts context) \<in> {NoInterference, ThrottlingSuspected,
      LearnedProfile, TransientFailure, SniInterferenceLikely}"
    using Some by (auto simp: infer_def findSuccess_def split: option.splits)
  with findSuccess_Some [OF Some] infer_success [OF Some] show ?thesis by auto
qed

end
