(* ===== verification/Strategy_Plan.thy ===== *)
theory Strategy_Plan
  imports Tls_Hello Diagnosis
begin

text \<open>
  The first half of \<open>src/src/Strategy.hpp\<close> and \<open>Strategy.cpp\<close>: the table of fragmentation
  profiles and the plan a profile gives for one ClientHello. \<open>buildPlan\<close> returns the
  function's result together with the plan it wrote.
\<close>

record FragmentPlan =
  recordSplits :: "nat list"
  writeChunk :: nat
  delayMs :: u32

definition emptyPlan :: FragmentPlan where
  "emptyPlan = \<lparr>recordSplits = [], writeChunk = 0, delayMs = 0\<rparr>"

definition splitsAnything :: "FragmentPlan \<Rightarrow> bool" where
  "splitsAnything plan \<longleftrightarrow> recordSplits plan \<noteq> []"

record Profile =
  profile_name :: string
  requiresSni :: bool

definition mkProfile :: "string \<Rightarrow> bool \<Rightarrow> Profile" where
  "mkProfile n r = \<lparr>profile_name = n, requiresSni = r\<rparr>"

definition kSlowProfileMinDelayMs :: u32 where "kSlowProfileMinDelayMs = 40"

text \<open>The descriptions of the table are texts for the user and are left out.\<close>

definition profileTable :: "Profile list" where
  "profileTable =
     [mkProfile ''none'' False,
      mkProfile ''sni-mid'' True,
      mkProfile ''record-1'' False,
      mkProfile ''packet-reverse'' False,
      mkProfile ''packet-ipfrag'' False,
      mkProfile ''packet-fake-badseq'' False,
      mkProfile ''packet-autottl'' False,
      mkProfile ''packet-seqovl'' False,
      mkProfile ''sni-pre'' True,
      mkProfile ''sni-multi'' True,
      mkProfile ''packet-fake-badsum'' False,
      mkProfile ''sni-mid-slow'' True]"

definition findProfile :: "string \<Rightarrow> Profile option" where
  "findProfile name = find (\<lambda>p. profile_name p = name) profileTable"

definition normalizeHost :: "string \<Rightarrow> string" where
  "normalizeHost host = map tolower (strip_back (CHR ''.'') host)"

definition kDefaultNetwork :: string where "kDefaultNetwork = ''network-default''"

definition scopeKey :: "string \<Rightarrow> string \<Rightarrow> string" where
  "scopeKey networkId host =
     (if networkId = [] then kDefaultNetwork else networkId) @ ''|'' @ normalizeHost host"

text \<open>\<open>std::unique\<close> keeps the first of every run of equal elements: \<open>remdups_adj\<close>.\<close>

definition sanitize :: "nat list \<Rightarrow> nat \<Rightarrow> nat list" where
  "sanitize splits payloadLength =
     remdups_adj (sort (filter (\<lambda>s. \<not> (s < 1 \<or> s \<ge> payloadLength)) splits))"

text \<open>
  \<open>size_t\<close> arithmetic wraps at 64 bits. The source subtracts the record header from the
  name's offset without a check, so the model spells the wrap-around out.
\<close>

definition size_sub :: "nat \<Rightarrow> nat \<Rightarrow> nat" where
  "size_sub a b = (a + 2 ^ 64 - b) mod 2 ^ 64"

definition size_add :: "nat \<Rightarrow> nat \<Rightarrow> nat" where
  "size_add a b = (a + b) mod 2 ^ 64"

definition sniStart :: "ClientHello \<Rightarrow> nat" where
  "sniStart hello = (if hasSni hello then size_sub (sniOffset hello) kRecordHeaderSize else 0)"

definition sniMiddle :: "ClientHello \<Rightarrow> nat" where
  "sniMiddle hello = size_add (sniStart hello) (sniLength hello div 2)"

definition sniEnd :: "ClientHello \<Rightarrow> nat" where
  "sniEnd hello = size_add (sniStart hello) (sniLength hello)"

definition profileCuts :: "string \<Rightarrow> ClientHello \<Rightarrow> u32 \<Rightarrow> FragmentPlan option" where
  "profileCuts profileName hello baseDelayMs =
     (if profileName = ''sni-mid'' then
        Some \<lparr>recordSplits = [sniMiddle hello], writeChunk = 0, delayMs = baseDelayMs\<rparr>
      else if profileName = ''record-1'' then
        Some \<lparr>recordSplits = [1], writeChunk = 0, delayMs = baseDelayMs\<rparr>
      else if profileName = ''sni-pre'' then
        Some \<lparr>recordSplits = [sniStart hello], writeChunk = 0, delayMs = baseDelayMs\<rparr>
      else if profileName = ''sni-multi'' then
        Some \<lparr>recordSplits = [1, sniStart hello, sniMiddle hello, sniEnd hello], writeChunk = 0,
          delayMs = baseDelayMs\<rparr>
      else if profileName = ''sni-mid-slow'' then
        Some \<lparr>recordSplits = [sniMiddle hello], writeChunk = 4,
          delayMs = max (baseDelayMs * 2) kSlowProfileMinDelayMs\<rparr>
      else None)"

definition buildPlan :: "string \<Rightarrow> ClientHello \<Rightarrow> u32 \<Rightarrow> bool \<times> FragmentPlan" where
  "buildPlan profileName hello baseDelayMs =
     (case findProfile profileName of
        None \<Rightarrow> (False, emptyPlan)
      | Some profile \<Rightarrow>
          if profileName = ''none'' then (True, emptyPlan)
          else if starts_with profileName ''packet-'' then (True, emptyPlan)
          else if spansRecords hello then (False, emptyPlan)
          else if requiresSni profile \<and> \<not> hasSni hello then (False, emptyPlan)
          else if recordPayloadLength hello < 2 then (False, emptyPlan)
          else (case profileCuts profileName hello baseDelayMs of
              None \<Rightarrow> (False, emptyPlan\<lparr>delayMs := baseDelayMs\<rparr>)
            | Some cuts \<Rightarrow>
                let out = cuts\<lparr>recordSplits := sanitize (recordSplits cuts) (recordPayloadLength hello)\<rparr>
                in (splitsAnything out, out)))"

section \<open>Properties\<close>

text \<open>The comment on \<open>FragmentPlan.recordSplits\<close>, as a predicate.\<close>

definition splits_ok :: "nat \<Rightarrow> nat list \<Rightarrow> bool" where
  "splits_ok n splits \<longleftrightarrow> sorted_wrt (<) splits \<and> (\<forall>s \<in> set splits. 0 < s \<and> s < n)"

lemma sorted_remdups_adj_strict: "sorted xs \<Longrightarrow> sorted_wrt (<) (remdups_adj xs)"
  by (induction xs rule: remdups_adj.induct) (auto simp: less_le)

lemma set_sanitize: "set (sanitize splits n) = {s \<in> set splits. 0 < s \<and> s < n}"
  by (auto simp: sanitize_def)

lemma sanitize_ok: "splits_ok n (sanitize splits n)"
  unfolding splits_ok_def
proof
  show "sorted_wrt (<) (sanitize splits n)"
    by (simp add: sanitize_def sorted_remdups_adj_strict)
qed (simp add: set_sanitize)

lemma findProfile_Some: "findProfile name = Some p \<Longrightarrow> p \<in> set profileTable \<and> profile_name p = name"
  by (auto simp: findProfile_def find_Some_iff)

lemma splits_ok_Nil [simp]: "splits_ok n []"
  by (simp add: splits_ok_def)

lemma buildPlan_splits_ok:
  "splits_ok (recordPayloadLength hello) (recordSplits (snd (buildPlan profileName hello delay)))"
  by (auto simp: buildPlan_def emptyPlan_def Let_def sanitize_ok split: option.splits)

text \<open>
  What the comment on \<open>recordSplits\<close> promises: for every profile name, every hello and
  every base delay, the plan's cuts are strictly ascending (so without duplicates) and
  strictly inside the record payload; a plan reported as applicable has a cut unless the
  profile is the untouched baseline or works at packet level.
\<close>

lemma buildPlan_splits:
  "splits_ok (recordPayloadLength hello) (recordSplits (snd (buildPlan profileName hello delay))) \<and>
   (fst (buildPlan profileName hello delay) =
      (findProfile profileName \<noteq> None \<and>
       (profileName = ''none'' \<or> starts_with profileName ''packet-'' \<or>
        0 < length (recordSplits (snd (buildPlan profileName hello delay))))))"
  using buildPlan_splits_ok [of hello profileName delay]
  by (auto simp: buildPlan_def emptyPlan_def Let_def splitsAnything_def split: option.splits)

lemma sni_positions:
  assumes "hello_report data h" "hasSni h"
  shows "sniStart h = sniOffset h - kRecordHeaderSize"
    "sniMiddle h = sniStart h + sniLength h div 2" "sniEnd h = sniStart h + sniLength h"
    "4 \<le> sniStart h" "sniStart h + sniLength h \<le> recordPayloadLength h"
proof -
  have b: "9 \<le> sniOffset h" "sniOffset h + sniLength h \<le> 5 + recordPayloadLength h"
    "recordPayloadLength h \<le> 16384"
    using assms by (auto simp: hello_report_def sni_inside_def tls_const_defs)
  show start: "sniStart h = sniOffset h - kRecordHeaderSize"
    using assms b by (simp add: sniStart_def size_sub_def kRecordHeaderSize_def mod_if)
  show "sniMiddle h = sniStart h + sniLength h div 2" "sniEnd h = sniStart h + sniLength h"
    "4 \<le> sniStart h" "sniStart h + sniLength h \<le> recordPayloadLength h"
    using b by (auto simp: sniMiddle_def sniEnd_def size_add_def start kRecordHeaderSize_def)
qed

lemma findProfile_sni:
  "findProfile ''sni-mid'' = Some (mkProfile ''sni-mid'' True)"
  "findProfile ''sni-multi'' = Some (mkProfile ''sni-multi'' True)"
  "findProfile ''sni-mid-slow'' = Some (mkProfile ''sni-mid-slow'' True)"
  by code_simp+

lemma sni_not_packet:
  "\<not> starts_with ''sni-mid'' ''packet-''" "\<not> starts_with ''sni-multi'' ''packet-''"
  "\<not> starts_with ''sni-mid-slow'' ''packet-''"
  by code_simp+

lemma sni_profiles:
  assumes "name \<in> {''sni-mid'', ''sni-multi'', ''sni-mid-slow''}"
  shows "\<exists>p. findProfile name = Some p \<and> name \<noteq> ''none'' \<and> \<not> starts_with name ''packet-''"
    and "\<exists>cuts. profileCuts name h d = Some cuts \<and> sniMiddle h \<in> set (recordSplits cuts)"
  using assms
  by (elim insertE emptyE; simp add: findProfile_sni sni_not_packet; fail)
    (use assms in \<open>elim insertE emptyE; simp add: profileCuts_def; fail\<close>)

text \<open>
  C6. The point of the \<open>sni-mid\<close>, \<open>sni-multi\<close> and \<open>sni-mid-slow\<close> profiles: for any hello the
  parser reported with a name of at least two bytes, the plan applies and one of its cuts
  lies strictly inside the host name, so no single TLS record carries the whole name.
\<close>

theorem buildPlan_cuts_sni:
  assumes "parseClientHello data = Some (Ok, h)" and "2 \<le> sniLength h" and "\<not> spansRecords h"
    and "profileName \<in> {''sni-mid'', ''sni-multi'', ''sni-mid-slow''}"
  shows "fst (buildPlan profileName h delay) \<and>
    (\<exists>s \<in> set (recordSplits (snd (buildPlan profileName h delay))).
       sniOffset h < kRecordHeaderSize + s \<and> kRecordHeaderSize + s < sniOffset h + sniLength h)"
proof -
  have sni: "hasSni h" using assms(2) by (simp add: hasSni_def)
  have rep: "hello_report data h"
    using parseClientHello_report [of data] assms(1) by auto
  note pos = sni_positions [OF rep sni]
  obtain p where p: "findProfile profileName = Some p" "profileName \<noteq> ''none''"
    "\<not> starts_with profileName ''packet-''" using sni_profiles(1) [OF assms(4)] by blast
  obtain cuts where c: "profileCuts profileName h delay = Some cuts"
    "sniMiddle h \<in> set (recordSplits cuts)" using sni_profiles(2) [OF assms(4)] by blast
  have n: "2 \<le> recordPayloadLength h" using pos(4,5) by linarith
  let ?splits = "sanitize (recordSplits cuts) (recordPayloadLength h)"
  have plan: "buildPlan profileName h delay = (?splits \<noteq> [], cuts\<lparr>recordSplits := ?splits\<rparr>)"
    using p c(1) n assms(3) sni by (simp add: buildPlan_def Let_def splitsAnything_def)
  have "sniMiddle h < recordPayloadLength h" "0 < sniMiddle h"
    using pos assms(2) by linarith+
  then have mid: "sniMiddle h \<in> set ?splits" using c(2) by (simp add: set_sanitize)
  moreover have "sniOffset h < kRecordHeaderSize + sniMiddle h"
    "kRecordHeaderSize + sniMiddle h < sniOffset h + sniLength h"
    using pos assms(2) by (auto simp: kRecordHeaderSize_def)
  ultimately show ?thesis by (force simp: plan)
qed

theorem buildPlan_cuts_sni_witness:
  "fst (buildPlan ''sni-mid'' sampleReport 20)"
  using buildPlan_cuts_sni [OF parse_sampleHello, of "''sni-mid''" 20] by (simp add: sampleReport_def)

text \<open>Keys of the store are normalised: the same host in another spelling has the same key.\<close>

lemma strip_back_idem [simp]: "strip_back c (strip_back c s) = strip_back c s"
  by (simp add: strip_back_def dropWhile_idem)

lemma normalizeHost_idem: "normalizeHost (normalizeHost h) = normalizeHost h"
proof -
  have dot: "tolower c = CHR ''.'' \<longleftrightarrow> c = CHR ''.''" for c
  proof -
    have "(of_char (tolower c) :: nat) = 46 \<longleftrightarrow> (of_char c :: nat) = 46"
      by (auto simp: of_char_tolower)
    moreover have "(of_char (CHR ''.'') :: nat) = 46" by simp
    ultimately show ?thesis by (metis char_of_char)
  qed
  have "dropWhile (\<lambda>x. x = CHR ''.'') (map tolower xs) =
      map tolower (dropWhile (\<lambda>x. x = CHR ''.'') xs)" for xs
    by (induction xs) (auto simp: dot)
  then have "strip_back (CHR ''.'') (map tolower s) = map tolower (strip_back (CHR ''.'') s)" for s
    by (simp add: strip_back_def rev_map)
  then show ?thesis by (simp add: normalizeHost_def comp_def)
qed

lemma scopeKey_normalized [simp]: "scopeKey n (normalizeHost h) = scopeKey n h"
  by (simp add: scopeKey_def normalizeHost_idem)

end
