(* ===== verification/Tcp_Socket.thy ===== *)
theory Tcp_Socket
  imports Prelude "HOL-Library.Sublist"
begin

text \<open>
  \<open>src/src/TcpConnect.cpp\<close>: writing a whole buffer to a socket. The operating system is the
  environment: a socket carries the answers \<open>send()\<close> will give (\<open>script\<close>) and the trace of
  what reached the kernel and of the pauses taken. A call for which the environment has no
  further answer never returns; a read outside the caller's buffer is \<open>Overrun\<close>.
\<close>

datatype SendResult = Accepted nat | WouldBlock | SendError

datatype NetEvent = Sent "byte list" | Slept nat

record Socket =
  script :: "SendResult list"
  trace :: "NetEvent list"

datatype 's io = Done bool 's | Blocked | Overrun

fun event_bytes :: "NetEvent \<Rightarrow> byte list" where
  "event_bytes (Sent bs) = bs"
| "event_bytes (Slept ms) = []"

text \<open>The bytes the peer will see, in order.\<close>

definition wire :: "Socket \<Rightarrow> byte list" where
  "wire s = concat (map event_bytes (trace s))"

definition kMaxSendChunk :: nat where "kMaxSendChunk = 1048576"

text \<open>
  \<open>sendAll\<close> on the unsent rest of the buffer. The kernel never takes more than it was
  offered.
\<close>

fun sendLoop :: "SendResult list \<Rightarrow> byte list \<Rightarrow> NetEvent list \<Rightarrow> Socket io" where
  "sendLoop answers [] tr = Done True \<lparr>script = answers, trace = tr\<rparr>"
| "sendLoop [] (b # bs) tr = Blocked"
| "sendLoop (WouldBlock # answers) (b # bs) tr = sendLoop answers (b # bs) (tr @ [Slept 1])"
| "sendLoop (SendError # answers) (b # bs) tr = Done False \<lparr>script = answers, trace = tr\<rparr>"
| "sendLoop (Accepted n # answers) (b # bs) tr =
     (let sent = min n (min (length (b # bs)) kMaxSendChunk)
      in if sent = 0 then Done False \<lparr>script = answers, trace = tr\<rparr>
         else sendLoop answers (drop sent (b # bs)) (tr @ [Sent (take sent (b # bs))]))"

definition sendAll :: "byte list \<Rightarrow> Socket \<Rightarrow> Socket io" where
  "sendAll data sock = sendLoop (script sock) data (trace sock)"

definition pause :: "nat \<Rightarrow> Socket \<Rightarrow> Socket" where
  "pause ms sock = sock\<lparr>trace := trace sock @ [Slept ms]\<rparr>"

section \<open>The contract of a writer\<close>

text \<open>
  What callers rely on: a successful write put exactly the buffer on the wire, a failed one
  a strict prefix of it, and a write only fails to return when the environment stalls.
\<close>

locale stream_writer =
  fixes put :: "byte list \<Rightarrow> 's \<Rightarrow> 's io"
    and bytes :: "'s \<Rightarrow> byte list"
  assumes write_ok: "put data s = Done True s' \<Longrightarrow> bytes s' = bytes s @ data"
    and write_failed: "put data s = Done False s' \<Longrightarrow>
      \<exists>p. strict_prefix p data \<and> bytes s' = bytes s @ p"
    and write_in_bounds: "put data s \<noteq> Overrun"

text \<open>
  The same contract for a sequence of writes: \<open>emits bytes r s data\<close> says that the outcome
  \<open>r\<close> of a computation started in \<open>s\<close> is what writing \<open>data\<close> would give.
\<close>

definition emits :: "('s \<Rightarrow> byte list) \<Rightarrow> 's io \<Rightarrow> 's \<Rightarrow> byte list \<Rightarrow> bool" where
  "emits bytes r s data \<longleftrightarrow> r \<noteq> Overrun \<and>
     (\<forall>s'. r = Done True s' \<longrightarrow> bytes s' = bytes s @ data) \<and>
     (\<forall>s'. r = Done False s' \<longrightarrow> (\<exists>p. strict_prefix p data \<and> bytes s' = bytes s @ p))"

lemma strict_prefix_append: "strict_prefix p x \<Longrightarrow> strict_prefix p (x @ y)"
  by (auto simp: strict_prefix_def prefix_def)

lemma strict_prefix_same: "strict_prefix p y \<Longrightarrow> strict_prefix (x @ p) (x @ y)"
  by (auto simp: strict_prefix_def prefix_def)

lemma emits_nothing [simp]: "emits bytes (Done True s) s []"
  by (simp add: emits_def)

lemma emits_bind:
  assumes first: "emits bytes r s d1"
    and rest: "\<And>s1. r = Done True s1 \<Longrightarrow> emits bytes (f s1) s1 d2"
  shows "emits bytes (case r of Done True s1 \<Rightarrow> f s1 | r' \<Rightarrow> r') s (d1 @ d2)"
proof (cases r)
  case (Done b s1)
  show ?thesis
  proof (cases b)
    case True
    have "bytes s1 = bytes s @ d1" using first Done True by (simp add: emits_def)
    moreover have "emits bytes (f s1) s1 d2" using rest Done True by simp
    ultimately show ?thesis
      using Done True by (auto simp: emits_def) (metis append.assoc strict_prefix_same)
  next
    case False
    then show ?thesis using first Done by (auto simp: emits_def intro: strict_prefix_append)
  qed
qed (use first in \<open>simp_all add: emits_def\<close>)

lemma emits_start: "emits bytes r s1 d \<Longrightarrow> bytes s1 = bytes s \<Longrightarrow> emits bytes r s d"
  by (simp add: emits_def)

context stream_writer
begin

lemma emits_put: "emits bytes (put data s) s data"
  using write_ok write_failed write_in_bounds by (auto simp: emits_def)

lemma emits_put_then:
  "(\<And>s1. emits bytes (f s1) s1 d2) \<Longrightarrow>
     emits bytes (case put d1 s of Done True s1 \<Rightarrow> f s1 | r \<Rightarrow> r) s (d1 @ d2)"
  by (rule emits_bind [OF emits_put])

end

section \<open>\<open>sendAll\<close> is such a writer\<close>

lemma sendLoop_ok:
  "sendLoop answers data tr = Done True s' \<Longrightarrow>
     concat (map event_bytes (trace s')) = concat (map event_bytes tr) @ data"
  by (induction answers data tr rule: sendLoop.induct)
    (auto simp: Let_def split: if_splits)

lemma sendLoop_failed:
  "sendLoop answers data tr = Done False s' \<Longrightarrow>
     \<exists>p. strict_prefix p data \<and> concat (map event_bytes (trace s')) = concat (map event_bytes tr) @ p"
proof (induction answers data tr rule: sendLoop.induct)
  case (5 n answers b bs tr)
  let ?k = "min n (min (length (b # bs)) kMaxSendChunk)"
  show ?case
  proof (cases "?k = 0")
    case False
    then have "sendLoop answers (drop ?k (b # bs)) (tr @ [Sent (take ?k (b # bs))]) = Done False s'"
      using 5(2) by (simp only: sendLoop.simps Let_def if_False)
    then obtain p where "strict_prefix p (drop ?k (b # bs))"
      "concat (map event_bytes (trace s')) = (concat (map event_bytes tr) @ take ?k (b # bs)) @ p"
      using 5(1) [OF refl False] by auto
    then show ?thesis
      using strict_prefix_same [of p "drop ?k (b # bs)" "take ?k (b # bs)"]
      by (intro exI [of _ "take ?k (b # bs) @ p"]) simp
  qed (use 5 in \<open>auto simp: Let_def\<close>)
qed auto

lemma sendLoop_in_bounds: "sendLoop answers data tr \<noteq> Overrun"
  by (induction answers data tr rule: sendLoop.induct) (auto simp: Let_def)

interpretation tcp: stream_writer sendAll wire
  by unfold_locales
    (auto simp: sendAll_def wire_def sendLoop_in_bounds dest: sendLoop_ok sendLoop_failed)

lemma wire_pause [simp]: "wire (pause ms s) = wire s"
  by (simp add: wire_def pause_def)

text \<open>
  The write returns once the kernel has answered often enough, and succeeds when those
  answers take bytes.
\<close>

definition takes_bytes :: "SendResult \<Rightarrow> bool" where
  "takes_bytes a = (case a of Accepted n \<Rightarrow> 0 < n | _ \<Rightarrow> False)"

lemma sendLoop_returns:
  "length data \<le> length (filter takes_bytes answers) \<Longrightarrow> \<forall>a \<in> set answers. takes_bytes a \<or> a = WouldBlock \<Longrightarrow>
     \<exists>s'. sendLoop answers data tr = Done True s'"
  by (induction answers data tr rule: sendLoop.induct)
    (auto simp: Let_def takes_bytes_def kMaxSendChunk_def)

end
