(* ===== verification/Fragment_Writer.thy ===== *)
theory Fragment_Writer
  imports Strategy_Plan Tcp_Socket
begin

text \<open>
  \<open>DirectRelay::writeFragmented\<close> and \<open>writePlan\<close> of \<open>src/src/DirectRelay.cpp\<close>: how a plan
  becomes bytes on the socket. \<open>clientBuffer\<close> and \<open>hello\<close> are the relay's members; pointer
  arithmetic into the buffer is a checked slice.
\<close>

text \<open>The \<open>for (offset ...)\<close> loop that writes a record's payload in small pieces.\<close>

function writePieces :: "byte list \<Rightarrow> nat \<Rightarrow> nat \<Rightarrow> nat \<Rightarrow> nat \<Rightarrow> Socket \<Rightarrow> Socket io" where
  "writePieces payload start len chunk offset sock =
     (if \<not> offset < len \<or> chunk = 0 then Done True sock
      else let piece = min chunk (len - offset) in
        case slice payload (start + offset) piece of
          None \<Rightarrow> Overrun
        | Some bytes \<Rightarrow>
            (case sendAll bytes sock of
               Done True sock1 \<Rightarrow>
                 writePieces payload start len chunk (offset + chunk)
                   (if offset + piece < len then pause 1 sock1 else sock1)
             | r \<Rightarrow> r))"
  by pat_completeness auto
termination
  by (relation "measure (\<lambda>(payload, start, len, chunk, offset, sock). len - offset)") auto

declare writePieces.simps [simp del]

definition recordHeader :: "byte list \<Rightarrow> nat \<Rightarrow> byte list option" where
  "recordHeader data len =
     (case (at data 0, at data 1, at data 2) of
        (Some contentType, Some versionMajor, Some versionMinor) \<Rightarrow>
          Some [contentType, versionMajor, versionMinor, of_nat (len div 256), of_nat (len mod 256)]
      | _ \<Rightarrow> None)"

text \<open>One turn of the loop over the boundaries, and the loop.\<close>

definition writeRecord :: "FragmentPlan \<Rightarrow> byte list \<Rightarrow> nat \<Rightarrow> nat \<Rightarrow> Socket \<Rightarrow> Socket io" where
  "writeRecord plan data start end sock =
     (let payload = drop kRecordHeaderSize data; len = end - start in
      case recordHeader data len of None \<Rightarrow> Overrun | Some header \<Rightarrow>
      case sendAll header sock of
        Done True sock1 \<Rightarrow>
          (if writeChunk plan = 0 then
             (case slice payload start len of None \<Rightarrow> Overrun | Some bytes \<Rightarrow> sendAll bytes sock1)
           else writePieces payload start len (writeChunk plan) 0 sock1)
      | r \<Rightarrow> r)"

fun writeRecords :: "FragmentPlan \<Rightarrow> byte list \<Rightarrow> nat \<Rightarrow> nat \<Rightarrow> nat list \<Rightarrow> Socket \<Rightarrow> Socket io" where
  "writeRecords plan data payloadLength start [] sock = Done True sock"
| "writeRecords plan data payloadLength start (end # ends) sock =
     (case writeRecord plan data start end sock of
        Done True sock1 \<Rightarrow>
          writeRecords plan data payloadLength end ends
            (if end < payloadLength \<and> delayMs plan > 0 then pause (unat (delayMs plan)) sock1 else sock1)
      | r \<Rightarrow> r)"

definition writeFragmented :: "FragmentPlan \<Rightarrow> byte list \<Rightarrow> ClientHello \<Rightarrow> Socket \<Rightarrow> Socket io" where
  "writeFragmented plan clientBuffer hello sock =
     writeRecords plan clientBuffer (recordPayloadLength hello) 0
       (recordSplits plan @ [recordPayloadLength hello]) sock"

definition writePlan :: "bool \<Rightarrow> FragmentPlan \<Rightarrow> byte list \<Rightarrow> ClientHello \<Rightarrow> Socket \<Rightarrow> Socket io" where
  "writePlan helloComplete plan clientBuffer hello sock =
     (if helloComplete \<and> splitsAnything plan then writeFragmented plan clientBuffer hello sock
      else if helloComplete then
        (case slice clientBuffer 0 (recordTotalLength hello) of None \<Rightarrow> Overrun
         | Some bytes \<Rightarrow> sendAll bytes sock)
      else Done True sock)"

section \<open>Reference: TLS records on the wire\<close>

text \<open>A record as a peer sees it: type, version, payload.\<close>

definition frame :: "byte \<times> byte \<times> byte \<times> byte list \<Rightarrow> byte list" where
  "frame = (\<lambda>(ct, vmaj, vmin, payload).
     [ct, vmaj, vmin, hi8 (of_nat (length payload)), lo8 (of_nat (length payload))] @ payload)"

text \<open>The peer's reader: splits a byte stream into records; \<open>None\<close> when one is cut short.\<close>

function unframe :: "byte list \<Rightarrow> (byte \<times> byte \<times> byte \<times> byte list) list option" where
  "unframe data =
     (case data of
        [] \<Rightarrow> Some []
      | ct # vmaj # vmin # h # l # rest \<Rightarrow>
          (let n = unat (be16 h l) in
           if length rest < n then None
           else map_option (\<lambda>rs. (ct, vmaj, vmin, take n rest) # rs) (unframe (drop n rest)))
      | _ \<Rightarrow> None)"
  by pat_completeness auto
termination
  by (relation "measure length") auto

declare unframe.simps [simp del]

text \<open>The payload cut at the boundaries.\<close>

fun pieces :: "byte list \<Rightarrow> nat \<Rightarrow> nat list \<Rightarrow> byte list list" where
  "pieces payload start [] = []"
| "pieces payload start (e # ends) = take (e - start) (drop start payload) # pieces payload e ends"

section \<open>What the writer emits\<close>

lemma writePieces_emits:
  "0 < chunk \<Longrightarrow> offset \<le> len + chunk \<Longrightarrow> start + len \<le> length payload \<Longrightarrow>
     emits wire (writePieces payload start len chunk offset sock) sock
       (take (len - offset) (drop (start + offset) payload))"
proof (induction "len - offset" arbitrary: offset sock rule: less_induct)
  case less
  show ?case
  proof (cases "offset < len")
    case False
    then show ?thesis by (simp add: writePieces.simps [of _ _ _ _ offset])
  next
    case True
    let ?n = "min chunk (len - offset)"
    let ?w = "\<lambda>s. writePieces payload start len chunk (offset + chunk)
      (if offset + ?n < len then pause 1 s else s)"
    have split: "take (len - offset) (drop (start + offset) payload) =
        take ?n (drop (start + offset) payload) @
        take (len - (offset + chunk)) (drop (start + (offset + chunk)) payload)"
    proof (cases "chunk \<le> len - offset")
      case c: True
      then have "len - offset = chunk + (len - (offset + chunk))" by simp
      then show ?thesis
        using take_add [of chunk "len - (offset + chunk)" "drop (start + offset) payload"] c
        by (simp add: add.commute add.left_commute)
    qed simp
    have tail: "emits wire (?w s) s (take (len - (offset + chunk)) (drop (start + (offset + chunk)) payload))" for s
      by (rule emits_start [OF less.hyps]) (use less.prems True in auto)
    have sl: "slice payload (start + offset) ?n = Some (take ?n (drop (start + offset) payload))"
      using True less.prems by simp
    show ?thesis
      unfolding split writePieces.simps [of _ _ _ _ offset]
      using True less.prems(1) tcp.emits_put_then [OF tail]
      by (simp add: Let_def sl)
  qed
qed

definition piece_header :: "byte list \<Rightarrow> byte list \<Rightarrow> byte list" where
  "piece_header data = (\<lambda>p. frame (data ! 0, data ! 1, data ! 2, p))"

lemma byte_of_u16:
  "n < 65536 \<Longrightarrow> (of_nat (n div 256) :: byte) = hi8 (of_nat n)"
  "n < 65536 \<Longrightarrow> (of_nat (n mod 256) :: byte) = lo8 (of_nat n)"
  by (auto simp: word_eq_iff_unsigned unat_hi8 unat_lo8 unat_of_nat_u16 unat_of_nat
      intro!: word_unat_eq_iff [THEN iffD2])

lemma recordHeader_eq:
  "3 \<le> length data \<Longrightarrow> n < 65536 \<Longrightarrow>
     recordHeader data n = Some [data ! 0, data ! 1, data ! 2, hi8 (of_nat n), lo8 (of_nat n)]"
proof -
  assume len: "3 \<le> length data" and n: "n < 65536"
  have "at data i = Some (data ! i)" if "i < 3" for i
    using len that by simp
  then show ?thesis by (simp add: recordHeader_def byte_of_u16 [OF n])
qed

lemma writeRecord_emits:
  assumes "kRecordHeaderSize + e \<le> length data" "start \<le> e" "e - start < 65536"
  shows "emits wire (writeRecord plan data start e sock) sock
    (piece_header data (take (e - start) (drop start (drop kRecordHeaderSize data))))"
proof -
  let ?p = "take (e - start) (drop start (drop kRecordHeaderSize data))"
  have len: "length ?p = e - start" using assms by simp
  have hd: "recordHeader data (e - start) =
      Some [data ! 0, data ! 1, data ! 2, hi8 (of_nat (e - start)), lo8 (of_nat (e - start))]"
    by (rule recordHeader_eq) (use assms in \<open>simp_all add: kRecordHeaderSize_def\<close>)
  have "emits wire (if writeChunk plan = 0 then
      (case slice (drop kRecordHeaderSize data) start (e - start) of None \<Rightarrow> Overrun
       | Some bytes \<Rightarrow> sendAll bytes s)
      else writePieces (drop kRecordHeaderSize data) start (e - start) (writeChunk plan) 0 s) s ?p" for s
    using assms writePieces_emits [of "writeChunk plan" 0 "e - start" start "drop kRecordHeaderSize data" s]
    by (auto simp: tcp.emits_put)
  from tcp.emits_put_then [OF this] show ?thesis
    unfolding writeRecord_def Let_def hd option.case piece_header_def frame_def prod.case len .
qed

lemma writeRecords_emits:
  "kRecordHeaderSize + n \<le> length data \<Longrightarrow> n < 65536 \<Longrightarrow> sorted_wrt (<) (start # ends) \<Longrightarrow>
     \<forall>e \<in> set ends. e \<le> n \<Longrightarrow>
     emits wire (writeRecords plan data n start ends sock) sock
       (concat (map (piece_header data) (pieces (drop kRecordHeaderSize data) start ends)))"
proof (induction ends arbitrary: start sock)
  case (Cons e ends)
  have 1: "emits wire (writeRecord plan data start e sock) sock
    (piece_header data (take (e - start) (drop start (drop kRecordHeaderSize data))))"
    by (rule writeRecord_emits) (use Cons.prems in auto)
  have 2: "emits wire (writeRecords plan data n e ends
      (if e < n \<and> delayMs plan > 0 then pause (unat (delayMs plan)) s else s)) s
      (concat (map (piece_header data) (pieces (drop kRecordHeaderSize data) e ends)))" for s
    by (rule emits_start [OF Cons.IH]) (use Cons.prems in auto)
  show ?case using emits_bind [OF 1, OF 2] by simp
qed simp

lemma concat_pieces:
  "sorted_wrt (<) (start # ends) \<Longrightarrow> ends \<noteq> [] \<Longrightarrow>
     concat (pieces payload start ends) = take (last ends - start) (drop start payload)"
proof (induction ends arbitrary: start)
  case (Cons e ends)
  show ?case
  proof (cases "ends = []")
    case False
    then have "e \<le> last ends" using Cons.prems(1) by (auto simp: less_imp_le)
    with False Cons have "concat (pieces payload start (e # ends)) =
      take (e - start) (drop start payload) @ take (last ends - e) (drop e payload)" by simp
    also have "\<dots> = take ((e - start) + (last ends - e)) (drop start payload)"
      using Cons.prems(1) by (simp only: take_add drop_drop) simp
    finally show ?thesis using \<open>e \<le> last ends\<close> Cons.prems(1) False by simp
  qed simp
qed simp

lemma pieces_nonempty:
  "sorted_wrt (<) (start # ends) \<Longrightarrow> \<forall>e \<in> set ends. e \<le> length payload \<Longrightarrow>
     \<forall>p \<in> set (pieces payload start ends). p \<noteq> []"
  by (induction ends arbitrary: start) auto

lemma length_pieces [simp]: "length (pieces payload start ends) = length ends"
  by (induction ends arbitrary: start) auto

lemma unframe_frame:
  assumes "length p < 65536"
  shows "unframe (frame (ct, a, b, p) @ rest) = map_option (\<lambda>rs. (ct, a, b, p) # rs) (unframe rest)"
  using assms by (subst unframe.simps) (simp add: frame_def unat_of_nat_u16)

lemma unframe_concat:
  "\<forall>p \<in> set ps. length p < 65536 \<Longrightarrow>
     unframe (concat (map (\<lambda>p. frame (ct, a, b, p)) ps)) = Some (map (\<lambda>p. (ct, a, b, p)) ps)"
proof (induction ps)
  case Nil
  then show ?case by (simp add: unframe.simps)
qed (simp add: unframe_frame)

definition wire_sock :: "SendResult list \<Rightarrow> Socket" where
  "wire_sock answers = \<lparr>script = answers, trace = []\<rparr>"

lemma writeFragmented_emits:
  assumes "hello_report data h" and "splits_ok (recordPayloadLength h) (recordSplits plan)"
    and "recordPayloadLength h > 0"
  shows "emits wire (writeFragmented plan data h sock) sock
    (concat (map (piece_header data) (pieces (drop kRecordHeaderSize data) 0
       (recordSplits plan @ [recordPayloadLength h]))))"
  unfolding writeFragmented_def
proof (rule writeRecords_emits)
  show "sorted_wrt (<) (0 # recordSplits plan @ [recordPayloadLength h])"
    using assms(2,3) by (auto simp: splits_ok_def sorted_wrt_append)
qed (use assms in \<open>auto simp: hello_report_def splits_ok_def kMaxRecordPayload_def\<close>)

lemma fragment_pieces:
  assumes "hello_report data h" and "splits_ok (recordPayloadLength h) splits"
    and "recordPayloadLength h > 0"
  defines "ps \<equiv> pieces (drop kRecordHeaderSize data) 0 (splits @ [recordPayloadLength h])"
  shows "concat ps = take (recordPayloadLength h) (drop kRecordHeaderSize data)"
    and "\<forall>p \<in> set ps. p \<noteq> [] \<and> length p \<le> kMaxRecordPayload" and "length ps = Suc (length splits)"
proof -
  have sorted: "sorted_wrt (<) (0 # splits @ [recordPayloadLength h])"
    using assms(2,3) by (auto simp: splits_ok_def sorted_wrt_append)
  then show c: "concat ps = take (recordPayloadLength h) (drop kRecordHeaderSize data)"
    unfolding ps_def by (subst concat_pieces) auto
  have "\<forall>e \<in> set (splits @ [recordPayloadLength h]). e \<le> length (drop kRecordHeaderSize data)"
    using assms(1,2) by (auto simp: hello_report_def splits_ok_def)
  then have "\<forall>p \<in> set ps. p \<noteq> []" unfolding ps_def using pieces_nonempty [OF sorted] by blast
  moreover have "length p \<le> length (concat ps)" if "p \<in> set ps" for p
    using that by (induction ps) auto
  ultimately show "\<forall>p \<in> set ps. p \<noteq> [] \<and> length p \<le> kMaxRecordPayload"
    using c assms(1) by (force simp: hello_report_def)
  show "length ps = Suc (length splits)" by (simp add: ps_def)
qed

text \<open>
  C3. What the server receives after a successful fragmented write: a sequence of complete
  TLS records, one more than the plan has cuts, all with the original record's type and
  version and none empty or oversized, whose payloads joined together are exactly the
  original record's payload. The bypass changes the framing and nothing else; this holds
  whatever partial sends, stalls or chunking the socket goes through.
\<close>

theorem writeFragmented_reassembles:
  assumes "parseClientHello data = Some (Ok, h)"
    and "buildPlan name h delay = (True, plan)" and "splitsAnything plan"
    and "writeFragmented plan data h (wire_sock answers) = Done True sock"
  shows "\<exists>ps. unframe (wire sock) = Some (map (\<lambda>p. (data ! 0, data ! 1, data ! 2, p)) ps) \<and>
    concat ps = take (recordPayloadLength h) (drop kRecordHeaderSize data) \<and>
    length ps = Suc (length (recordSplits plan)) \<and>
    (\<forall>p \<in> set ps. p \<noteq> [] \<and> length p \<le> kMaxRecordPayload)"
proof -
  have rep: "hello_report data h" using parseClientHello_report [of data] assms(1) by auto
  have ok: "splits_ok (recordPayloadLength h) (recordSplits plan)"
    using buildPlan_splits_ok [of h name delay] assms(2) by simp
  have n: "recordPayloadLength h > 0"
    using ok assms(3) by (cases "recordSplits plan") (auto simp: splits_ok_def splitsAnything_def)
  let ?ps = "pieces (drop kRecordHeaderSize data) 0 (recordSplits plan @ [recordPayloadLength h])"
  note ps = fragment_pieces [OF rep ok n]
  have "wire sock = concat (map (\<lambda>p. frame (data ! 0, data ! 1, data ! 2, p)) ?ps)"
    using writeFragmented_emits [OF rep ok n, of "wire_sock answers"] assms(4)
    by (simp add: emits_def piece_header_def wire_sock_def wire_def [of "\<lparr>script = answers, trace = []\<rparr>"])
  moreover have "\<forall>p \<in> set ?ps. length p < 65536"
    using ps(2) by (force simp: kMaxRecordPayload_def)
  ultimately have "unframe (wire sock) = Some (map (\<lambda>p. (data ! 0, data ! 1, data ! 2, p)) ?ps)"
    by (simp only: unframe_concat)
  with ps show ?thesis by blast
qed

definition samplePlan :: FragmentPlan where
  "samplePlan = \<lparr>recordSplits = [57], writeChunk = 4, delayMs = 40\<rparr>"

definition sampleWrite :: "Socket io" where
  "sampleWrite = writeFragmented samplePlan sampleHello sampleReport
     (wire_sock (WouldBlock # replicate 40 (Accepted 3)))"

theorem writeFragmented_reassembles_witness:
  "\<exists>sock ps. sampleWrite = Done True sock \<and>
     unframe (wire sock) = Some (map (\<lambda>p. (0x16, 3, 1, p)) ps) \<and> length ps = 2"
proof -
  have plan: "buildPlan ''sni-mid-slow'' sampleReport 10 = (True, samplePlan)" by code_simp
  have hdr: "sampleHello ! 0 = 0x16" "sampleHello ! 1 = 3" "sampleHello ! 2 = 1" by code_simp+
  have "case sampleWrite of Done True _ \<Rightarrow> True | _ \<Rightarrow> False" by code_simp
  then obtain sock where w: "sampleWrite = Done True sock" by (auto split: io.splits bool.splits)
  have s: "splitsAnything samplePlan" "length (recordSplits samplePlan) = 1"
    by (simp_all add: splitsAnything_def samplePlan_def)
  show ?thesis
    using writeFragmented_reassembles [OF parse_sampleHello plan s(1) w [unfolded sampleWrite_def]]
      w hdr s(2) by (auto simp: numeral_2_eq_2)
qed

text \<open>
  What a byte stream has to be to carry the ClientHello: the record as the client sent it, or
  complete records of the same type and version whose payloads join to its payload.
\<close>

definition carries :: "byte list \<Rightarrow> ClientHello \<Rightarrow> byte list \<Rightarrow> bool" where
  "carries data h stream \<longleftrightarrow> stream = take (recordTotalLength h) data \<or>
     (\<exists>ps. unframe stream = Some (map (\<lambda>p. (data ! 0, data ! 1, data ! 2, p)) ps) \<and>
       concat ps = take (recordPayloadLength h) (drop kRecordHeaderSize data))"

lemma carries_pieces:
  assumes "hello_report data h" and "splits_ok (recordPayloadLength h) splits" and "recordPayloadLength h > 0"
  shows "carries data h (concat (map (piece_header data) (pieces (drop kRecordHeaderSize data) 0 (splits @ [recordPayloadLength h]))))"
proof -
  note ps = fragment_pieces [OF assms]
  have "\<forall>p \<in> set (pieces (drop kRecordHeaderSize data) 0 (splits @ [recordPayloadLength h])). length p < 65536"
    using ps(2) by (force simp: kMaxRecordPayload_def)
  from unframe_concat [OF this, of "data ! 0" "data ! 1" "data ! 2"] show ?thesis
    using ps(1) unfolding carries_def piece_header_def by blast
qed

text \<open>
  A write of a plan never reads outside the relay's buffer, and one that fails or
  stops half way has put a proper prefix of the intended byte stream on the wire.
\<close>

lemma writePlan_prefix:
  assumes "parseClientHello data = Some (Ok, h)" and "buildPlan name h delay = (True, plan)"
  shows "\<exists>stream. (\<forall>sock. emits wire (writePlan True plan data h sock) sock stream) \<and> carries data h stream \<and>
    (\<not> splitsAnything plan \<longrightarrow> stream = take (recordTotalLength h) data)"
proof -
  have rep: "hello_report data h" using parseClientHello_report [of data] assms(1) by auto
  have ok: "splits_ok (recordPayloadLength h) (recordSplits plan)"
    using buildPlan_splits_ok [of h name delay] assms(2) by simp
  show ?thesis
  proof (cases "splitsAnything plan")
    case True
    then have n: "recordPayloadLength h > 0"
      using ok by (cases "recordSplits plan") (auto simp: splits_ok_def splitsAnything_def)
    show ?thesis
      using True writeFragmented_emits [OF rep ok n] carries_pieces [OF rep ok n] by (auto simp: writePlan_def)
  next
    case False
    then show ?thesis
      using rep by (auto simp: writePlan_def hello_report_def tcp.emits_put carries_def)
  qed
qed

lemma writePlan_prefix_example:
  "\<exists>stream. \<forall>sock. emits wire (writePlan True emptyPlan sampleHello sampleReport sock) sock stream"
proof -
  have plan: "buildPlan ''none'' sampleReport 10 = (True, emptyPlan)" by code_simp
  show ?thesis using writePlan_prefix [OF parse_sampleHello plan] by blast
qed

end
