(* ===== verification/Json.thy ===== *)
theory Json
  imports Prelude
begin

text \<open>
  \<open>src/src/Json.hpp\<close>: the read-only JSON helpers and the escaping of strings. A position is a
  natural number and \<open>npos\<close> is \<open>None\<close>; every subscript below stands under the same bound the
  source tests.
\<close>

definition isWs :: "char \<Rightarrow> bool" where
  "isWs c \<longleftrightarrow> c = CHR '' '' \<or> c = CHR 0x09 \<or> c = CHR 0x0A \<or> c = CHR 0x0D"

function skipWs :: "string \<Rightarrow> nat \<Rightarrow> nat" where
  "skipWs s pos = (if pos < length s \<and> isWs (s ! pos) then skipWs s (pos + 1) else pos)"
  by pat_completeness auto
termination by (relation "measure (\<lambda>(s, pos). length s - pos)") auto

declare skipWs.simps [simp del]

text \<open>\<open>std::string::find(needle, from)\<close>\<close>

function find_from :: "string \<Rightarrow> string \<Rightarrow> nat \<Rightarrow> nat option" where
  "find_from s needle from =
     (if from + length needle > length s then None
      else if take (length needle) (drop from s) = needle then Some from
      else find_from s needle (from + 1))"
  by pat_completeness auto
termination by (relation "measure (\<lambda>(s, needle, from). Suc (length s) - from)") auto

declare find_from.simps [simp del]

lemma find_from_bound:
  "find_from s needle from = Some p \<Longrightarrow> from \<le> p \<and> p + length needle \<le> length s"
proof (induction s needle "from" rule: find_from.induct)
  case (1 s needle i)
  show ?case using 1 by (subst (asm) (2) find_from.simps) (auto split: if_splits)
qed

text \<open>The loop of \<open>findValue\<close> over the occurrences of the quoted key.\<close>

function findValueFrom :: "string \<Rightarrow> string \<Rightarrow> nat \<Rightarrow> nat option" where
  "findValueFrom s needle from =
     (case find_from s needle from of
        None \<Rightarrow> None
      | Some pos \<Rightarrow>
          let colon = skipWs s (pos + length needle) in
          if colon < length s \<and> s ! colon = CHR '':'' then Some (skipWs s (colon + 1))
          else findValueFrom s needle (pos + 1))"
  by pat_completeness auto
termination
  by (relation "measure (\<lambda>(s, needle, from). Suc (length s) - from)")
    (auto dest!: find_from_bound)

declare findValueFrom.simps [simp del]

definition quoted :: "string \<Rightarrow> string" where
  "quoted s = CHR 0x22 # s @ [CHR 0x22]"

definition findValue :: "string \<Rightarrow> string \<Rightarrow> nat \<Rightarrow> nat option" where
  "findValue s key from = findValueFrom s (quoted key) from"

definition isxdigit :: "char \<Rightarrow> bool" where
  "isxdigit c \<longleftrightarrow> (let n = (of_char c :: nat) in
     48 \<le> n \<and> n \<le> 57 \<or> 65 \<le> n \<and> n \<le> 70 \<or> 97 \<le> n \<and> n \<le> 102)"

definition hexValue :: "char \<Rightarrow> nat" where
  "hexValue c = (let n = (of_char c :: nat) in if n \<le> 57 then n - 48 else (n OR 32) - 97 + 10)"

text \<open>The digits of a unicode escape: at most four, as many as there are.\<close>

fun hexDigits :: "nat \<Rightarrow> string \<Rightarrow> nat \<Rightarrow> nat \<Rightarrow> nat \<times> nat \<times> nat" where
  "hexDigits 0 s pos code = (0, code, pos)"
| "hexDigits (Suc n) s pos code =
     (if pos < length s \<and> isxdigit (s ! pos)
      then (case hexDigits n s (pos + 1) (code * 16 + hexValue (s ! pos)) of
              (digits, code', pos') \<Rightarrow> (Suc digits, code', pos'))
      else (0, code, pos))"

lemma hexDigits_pos: "hexDigits n s pos code = (d, c, p) \<Longrightarrow> pos \<le> p"
  by (induction n arbitrary: pos code d) (fastforce split: if_splits prod.splits)+

definition unescape1 :: "char \<Rightarrow> char" where
  "unescape1 esc =
     (if esc = CHR ''n'' then CHR 0x0A else if esc = CHR ''t'' then CHR 0x09
      else if esc = CHR ''r'' then CHR 0x0D else if esc = CHR ''b'' then CHR 0x08
      else if esc = CHR ''f'' then CHR 0x0C else esc)"

text \<open>
  The loop of \<open>parseString\<close>. It returns the text read so far and the position where the loop
  stopped: at the closing quote or past the end.
\<close>

function parseStringLoop :: "string \<Rightarrow> nat \<Rightarrow> string \<Rightarrow> string \<times> nat" where
  "parseStringLoop s pos out =
     (if \<not> (pos < length s \<and> s ! pos \<noteq> CHR 0x22) then (out, pos)
      else if s ! pos \<noteq> CHR 0x5C then parseStringLoop s (pos + 1) (out @ [s ! pos])
      else if pos + 1 \<ge> length s then (out, pos + 1)
      else let esc = s ! (pos + 1) in
        if esc = CHR ''u'' then
          (case hexDigits 4 s (pos + 2) 0 of
             (digits, code, pos') \<Rightarrow>
               parseStringLoop s pos'
                 (out @ [if digits = 4 \<and> code < 0x80 then char_of code else CHR ''?'']))
        else parseStringLoop s (pos + 2) (out @ [unescape1 esc]))"
  by pat_completeness auto
termination
  by (relation "measure (\<lambda>(s, pos, out). length s - pos)") (auto dest: hexDigits_pos [OF sym])

declare parseStringLoop.simps [simp del]

definition parseString :: "string \<Rightarrow> nat \<Rightarrow> string \<times> nat" where
  "parseString s pos =
     (if pos \<ge> length s \<or> s ! pos \<noteq> CHR 0x22 then ([], pos)
      else case parseStringLoop s (pos + 1) [] of
        (out, p) \<Rightarrow> (out, if p < length s then p + 1 else length s))"

definition getString :: "string \<Rightarrow> string \<Rightarrow> nat \<Rightarrow> string" where
  "getString s key from =
     (case findValue s key from of None \<Rightarrow> [] | Some pos \<Rightarrow> fst (parseString s pos))"

definition getBool :: "string \<Rightarrow> string \<Rightarrow> bool" where
  "getBool s key =
     (case findValue s key 0 of None \<Rightarrow> False | Some pos \<Rightarrow> take 4 (drop pos s) = ''true'')"

text \<open>\<open>strtoll\<close> in base 10 at a digit or a minus sign; out of range saturates.\<close>

definition strtoll :: "string \<Rightarrow> int" where
  "strtoll s =
     (let neg = (s \<noteq> [] \<and> hd s = CHR ''-'');
          digits = takeWhile isdigit (if neg then tl s else s);
          v = int (decValue digits)
      in if neg then max (- (2 ^ 63)) (- v) else min (2 ^ 63 - 1) v)"

definition getInt :: "string \<Rightarrow> string \<Rightarrow> int \<Rightarrow> int" where
  "getInt s key fallback =
     (case findValue s key 0 of None \<Rightarrow> fallback
      | Some pos \<Rightarrow>
          if pos \<ge> length s \<or> (\<not> isdigit (s ! pos) \<and> s ! pos \<noteq> CHR ''-'') then fallback
          else strtoll (drop pos s))"

lemma skipWs_ge: "pos \<le> skipWs s pos"
proof (induction s pos rule: skipWs.induct)
  case (1 s pos)
  then show ?case by (subst skipWs.simps) auto
qed

lemma parseStringLoop_pos: "pos \<le> snd (parseStringLoop s pos out)"
proof (induction s pos out rule: parseStringLoop.induct)
  case (1 s pos out)
  show ?case
  proof (cases "pos < length s \<and> s ! pos = CHR 0x5C \<and> pos + 1 < length s \<and> s ! (pos + 1) = CHR ''u''")
    case True
    obtain d c p where h: "hexDigits 4 s (pos + 2) 0 = (d, c, p)" by (metis prod_cases3)
    then show ?thesis
      using 1(2) True hexDigits_pos [OF h] by (subst parseStringLoop.simps) (force simp: Let_def)
  next
    case False
    then show ?thesis using 1 by (subst parseStringLoop.simps) (auto simp: Let_def)
  qed
qed

lemma parseString_pos: "pos < length s \<Longrightarrow> s ! pos = CHR 0x22 \<Longrightarrow> pos < snd (parseString s pos)"
  using parseStringLoop_pos [of "pos + 1" s "[]"]
  by (auto simp: parseString_def split: prod.split)

function stringArrayFrom :: "string \<Rightarrow> nat \<Rightarrow> string list \<Rightarrow> string list" where
  "stringArrayFrom s pos out =
     (if \<not> pos < length s then out
      else let p = skipWs s pos in
        if p \<ge> length s \<or> s ! p = CHR '']'' then out
        else if s ! p = CHR '','' then stringArrayFrom s (p + 1) out
        else if s ! p \<noteq> CHR 0x22 then out
        else case parseString s p of (item, end) \<Rightarrow> stringArrayFrom s end (out @ [item]))"
  by pat_completeness auto
termination
proof (relation "measure (\<lambda>(s, pos, out). length s - pos)", goal_cases)
  case (2 s pos out p)
  then show ?case using skipWs_ge [of pos s] by auto
next
  case (3 s pos out p)
  then show ?case using skipWs_ge [of pos s] parseString_pos [of p s] by (auto simp: prod_eq_iff)
qed simp

declare stringArrayFrom.simps [simp del]

definition getStringArray :: "string \<Rightarrow> string \<Rightarrow> string list" where
  "getStringArray s key =
     (case findValue s key 0 of None \<Rightarrow> []
      | Some pos \<Rightarrow> if pos \<ge> length s \<or> s ! pos \<noteq> CHR ''['' then [] else stringArrayFrom s (pos + 1) [])"

text \<open>The scan of \<open>getRaw\<close> for the bracket that closes the first one.\<close>

function rawScan :: "string \<Rightarrow> char \<Rightarrow> char \<Rightarrow> nat \<Rightarrow> nat \<Rightarrow> int \<Rightarrow> bool \<Rightarrow> string" where
  "rawScan s opn close start pos depth inString =
     (if \<not> pos < length s then drop start s
      else let c = s ! pos in
        if inString then
          (if c = CHR 0x5C then rawScan s opn close start (pos + 2) depth True
           else rawScan s opn close start (pos + 1) depth (c \<noteq> CHR 0x22))
        else if c = CHR 0x22 then rawScan s opn close start (pos + 1) depth True
        else if c = opn then rawScan s opn close start (pos + 1) (depth + 1) False
        else if c = close then
          (if depth - 1 = 0 then take (pos - start + 1) (drop start s)
           else rawScan s opn close start (pos + 1) (depth - 1) False)
        else rawScan s opn close start (pos + 1) depth False)"
  by pat_completeness auto
termination by (relation "measure (\<lambda>(s, opn, close, start, pos, depth, inString). length s - pos)") auto

declare rawScan.simps [simp del]

definition getRaw :: "string \<Rightarrow> string \<Rightarrow> string" where
  "getRaw s key =
     (case findValue s key 0 of None \<Rightarrow> []
      | Some pos \<Rightarrow>
          if pos \<ge> length s then []
          else let opn = s ! pos in
            if opn \<noteq> CHR ''{'' \<and> opn \<noteq> CHR ''['' then drop pos s
            else rawScan s opn (if opn = CHR ''{'' then CHR ''}'' else CHR '']'') pos pos 0 False)"

definition hexDigit :: "nat \<Rightarrow> char" where
  "hexDigit n = ''0123456789abcdef'' ! n"

definition escape_char :: "char \<Rightarrow> string" where
  "escape_char c =
     (if c = CHR 0x22 then [CHR 0x5C, CHR 0x22]
      else if c = CHR 0x5C then [CHR 0x5C, CHR 0x5C]
      else if c = CHR 0x0A then [CHR 0x5C, CHR ''n'']
      else if c = CHR 0x0D then [CHR 0x5C, CHR ''r'']
      else if c = CHR 0x09 then [CHR 0x5C, CHR ''t'']
      else if (of_char c :: nat) < 0x20 then
        [CHR 0x5C, CHR ''u'', CHR ''0'', CHR ''0'', hexDigit (of_char c div 16), hexDigit (of_char c mod 16)]
      else [c])"

definition escape :: "string \<Rightarrow> string" where
  "escape s = concat (map escape_char s)"

section \<open>Round trip\<close>

lemma drop_Cons_nth: "drop p s = x # r \<Longrightarrow> p < length s \<and> s ! p = x \<and> drop (p + 1) s = r"
  by (metis Cons_nth_drop_Suc add.commute drop_all leI list.distinct(1) list.inject plus_1_eq_Suc)

lemma hexDigit_inverse: "n < 16 \<Longrightarrow> isxdigit (hexDigit n) \<and> hexValue (hexDigit n) = n"
proof -
  have "\<forall>n \<in> set [0..<16]. isxdigit (hexDigit n) \<and> hexValue (hexDigit n) = n" by code_simp
  then show "n < 16 \<Longrightarrow> ?thesis" by simp
qed

lemma hexDigits_read:
  assumes "drop p s = [hexDigit a, hexDigit b, hexDigit c, hexDigit d] @ r"
    and "a < 16" "b < 16" "c < 16" "d < 16"
  shows "hexDigits 4 s p 0 = (4, ((a * 16 + b) * 16 + c) * 16 + d, p + 4)"
proof -
  have 1: "p < length s \<and> s ! p = hexDigit a \<and> drop (p + 1) s = [hexDigit b, hexDigit c, hexDigit d] @ r"
    using drop_Cons_nth [of p s "hexDigit a"] assms(1) by simp
  then have 2: "p + 1 < length s \<and> s ! (p + 1) = hexDigit b \<and> drop (p + 1 + 1) s = [hexDigit c, hexDigit d] @ r"
    using drop_Cons_nth [of "p + 1" s "hexDigit b"] by simp
  then have 3: "p + 2 < length s \<and> s ! (p + 2) = hexDigit c \<and> drop (p + 2 + 1) s = [hexDigit d] @ r"
    using drop_Cons_nth [of "p + 2" s "hexDigit c"] by simp
  then have 4: "p + 3 < length s \<and> s ! (p + 3) = hexDigit d"
    using drop_Cons_nth [of "p + 3" s "hexDigit d" r] by (simp add: eval_nat_numeral)
  show ?thesis
    using 1 2 3 4 assms(2-5) by (simp add: hexDigit_inverse eval_nat_numeral)
qed

lemma escape_char_cases:
  obtains (plain) "escape_char c = [c]" "c \<noteq> CHR 0x22" "c \<noteq> CHR 0x5C"
  | (short) e where "escape_char c = [CHR 0x5C, e]" "unescape1 e = c" "e \<noteq> CHR ''u''"
  | (unicode) "escape_char c = [CHR 0x5C, CHR ''u'', hexDigit 0, hexDigit 0,
        hexDigit (of_char c div 16), hexDigit (of_char c mod 16)]" "(of_char c :: nat) < 0x20"
proof -
  consider "c = CHR 0x22" | "c = CHR 0x5C" | "c = CHR 0x0A" | "c = CHR 0x0D" | "c = CHR 0x09"
    | "c \<notin> {CHR 0x22, CHR 0x5C, CHR 0x0A, CHR 0x0D, CHR 0x09}" by blast
  then show thesis
  proof cases
    case 6
    have "hexDigit 0 = CHR ''0''" by code_simp
    with 6 plain unicode show ?thesis by (cases "(of_char c :: nat) < 0x20") (simp_all add: escape_char_def)
  qed (use short [of "CHR 0x22"] short [of "CHR 0x5C"] short [of "CHR ''n''"] short [of "CHR ''r''"]
      short [of "CHR ''t''"] in \<open>simp_all add: escape_char_def unescape1_def\<close>)
qed

lemma escaped_char_read:
  assumes "drop p s = escape_char c @ r"
  shows "parseStringLoop s p out = parseStringLoop s (p + length (escape_char c)) (out @ [c])"
proof -
  note step = parseStringLoop.simps [of s p out]
  consider (plain) "escape_char c = [c]" "c \<noteq> CHR 0x22" "c \<noteq> CHR 0x5C"
    | (short) e where "escape_char c = [CHR 0x5C, e]" "unescape1 e = c" "e \<noteq> CHR ''u''"
    | (unicode) "escape_char c = [CHR 0x5C, CHR ''u'', hexDigit 0, hexDigit 0,
        hexDigit (of_char c div 16), hexDigit (of_char c mod 16)]" "(of_char c :: nat) < 0x20"
    by (rule escape_char_cases)
  then show ?thesis
  proof cases
    case plain
    then show ?thesis using drop_Cons_nth [of p s c r] assms by (simp add: step)
  next
    case short
    then have "p < length s" "s ! p = CHR 0x5C" "drop (p + 1) s = e # r"
      using drop_Cons_nth [of p s "CHR 0x5C"] assms by auto
    then show ?thesis
      using drop_Cons_nth [of "p + 1" s e r] short by (simp add: step)
  next
    case unicode
    let ?n = "of_char c :: nat"
    have 1: "p < length s" "s ! p = CHR 0x5C" "drop (p + 1) s = CHR ''u'' # [hexDigit 0, hexDigit 0,
        hexDigit (?n div 16), hexDigit (?n mod 16)] @ r"
      using drop_Cons_nth [of p s "CHR 0x5C"] assms unicode(1) by auto
    have 2: "p + 1 < length s" "s ! (p + 1) = CHR ''u''"
      "drop (p + 2) s = [hexDigit 0, hexDigit 0, hexDigit (?n div 16), hexDigit (?n mod 16)] @ r"
      using drop_Cons_nth [OF 1(3)] by auto
    have "hexDigits 4 s (p + 2) 0 = (4, ?n, p + 6)"
      using hexDigits_read [OF 2(3)] unicode(2) by simp
    moreover have "p + 6 = p + length (escape_char c)" by (simp add: unicode)
    ultimately show ?thesis using 1 2 unicode(2) by (simp add: step)
  qed
qed

lemma escaped_read:
  "drop p s = escape t @ CHR 0x22 # r \<Longrightarrow> parseStringLoop s p out = (out @ t, p + length (escape t))"
proof (induction t arbitrary: p out)
  case Nil
  then show ?case using drop_Cons_nth [of p s "CHR 0x22" r]
    by (subst parseStringLoop.simps) (simp add: escape_def)
next
  case (Cons c t)
  have d: "drop p s = escape_char c @ escape t @ CHR 0x22 # r"
    using Cons.prems by (simp add: escape_def)
  then have "drop (p + length (escape_char c)) s = escape t @ CHR 0x22 # r"
    by (metis add.commute append_eq_conv_conj drop_drop)
  with escaped_char_read [OF d, of out] Cons.IH show ?case by (simp add: escape_def)
qed

lemma parseString_quoted:
  assumes "drop p s = quoted (escape t) @ r"
  shows "parseString s p = (t, p + length (escape t) + 2)"
proof -
  have 1: "p < length s" "s ! p = CHR 0x22" "drop (p + 1) s = escape t @ CHR 0x22 # r"
    using drop_Cons_nth [of p s "CHR 0x22"] assms by (auto simp: quoted_def)
  have "length (drop (p + 1) s) = length (escape t) + 1 + length r" using 1(3) by simp
  then have "p + 1 + length (escape t) < length s" by simp
  then show ?thesis using 1 escaped_read [OF 1(3), of "[]"] by (simp add: parseString_def)
qed

text \<open>
  Whatever string is written with \<open>escape\<close> between quotes is read back unchanged by
  \<open>parseString\<close>, wherever it stands in a document, and the reader stops right behind the
  closing quote: no value can end early or swallow what follows it.
\<close>

lemma parseString_escape:
  "parseString (pre @ quoted (escape t) @ post) (length pre) = (t, length pre + length (quoted (escape t)))"
  using parseString_quoted [of "length pre" "pre @ quoted (escape t) @ post" t post]
  by (simp add: quoted_def)

end
