(* ===== verification/Strategy_Store.thy ===== *)
theory Strategy_Store
  imports Strategy_Plan Json
begin

text \<open>
  \<open>strategy::Store\<close> of \<open>src/src/Strategy.hpp\<close> and \<open>Strategy.cpp\<close>: which profile works for
  which host. Time stamps are 64-bit words. The clocks are the environment: every operation
  gets the readings it takes (\<open>Clock\<close>), and an explicit time replaces both, as in the source.
  An operation returns the store and the snapshot it wants written; \<open>commit\<close> writes it.
\<close>

definition kMaxRememberedHosts :: nat where "kMaxRememberedHosts = 1000"
definition kLearningTtlSeconds :: u64 where "kLearningTtlSeconds = 604800"
definition kReverifyIntervalSeconds :: u64 where "kReverifyIntervalSeconds = 1800"
definition kReverifyHoldSeconds :: u64 where "kReverifyHoldSeconds = 15"
definition kBaselineHealthyWindowSeconds :: u64 where "kBaselineHealthyWindowSeconds = 900"
definition kMaxHealthyHosts :: nat where "kMaxHealthyHosts = 4096"
definition kConfirmMinGapSeconds :: u64 where "kConfirmMinGapSeconds = 60"
definition kCandidateTtlSeconds :: u64 where "kCandidateTtlSeconds = 21600"
definition kMaxCandidates :: nat where "kMaxCandidates = kMaxRememberedHosts"
definition kClockSkewSeconds :: u64 where "kClockSkewSeconds = 300"

datatype Outcome = Ignored | Forgotten | Candidate | Learned | Reverified | Refreshed

record Entry =
  entry_profile :: string
  entry_kind :: Kind
  entry_confidence :: u32
  entry_expiresAt :: u64
  entry_failures :: u32
  verifiedAt :: u64
  reverifyStartedAt :: u64

record Nomination =
  cand_profile :: string
  firstStrikeAt :: u64
  cand_expiresAt :: u64
  persistUntil :: u64

record Store =
  path :: string
  entries :: "(string, Entry) table"
  candidates :: "(string, Nomination) table"
  healthyAt :: "(string, u64) table"
  nextSeq :: nat

record Snapshot =
  seq :: nat
  snapshot_text :: string

definition noSnapshot :: Snapshot where
  "noSnapshot = \<lparr>seq = 0, snapshot_text = []\<rparr>"

text \<open>Readings of the clocks during one operation: on entry, and when a snapshot is taken.\<close>

record Clock =
  nowSeconds :: u64
  monoSeconds :: u64
  savedAt :: u64

definition resolveNow :: "u64 \<Rightarrow> Clock \<Rightarrow> u64" where
  "resolveNow explicitSeconds clock = (if explicitSeconds \<noteq> 0 then explicitSeconds else nowSeconds clock)"

definition resolveMono :: "u64 \<Rightarrow> Clock \<Rightarrow> u64" where
  "resolveMono explicitSeconds clock = (if explicitSeconds \<noteq> 0 then explicitSeconds else monoSeconds clock)"

definition candidateLive :: "Nomination \<Rightarrow> u64 \<Rightarrow> u64 \<Rightarrow> bool" where
  "candidateLive c wallNow monoNow =
     (if firstStrikeAt c = 0 then persistUntil c > wallNow else cand_expiresAt c > monoNow)"

section \<open>Making room\<close>

definition makeRoomForEntry :: "u64 \<Rightarrow> (string, Entry) table \<Rightarrow> (string, Entry) table" where
  "makeRoomForEntry wallNow t =
     (if length t < kMaxRememberedHosts then t
      else let t1 = erase_if (\<lambda>item. entry_expiresAt (snd item) \<le> wallNow) t in
        if length t1 < kMaxRememberedHosts then t1
        else erase_min (\<lambda>item. verifiedAt (snd item)) t1)"

definition makeRoomForCandidate ::
  "u64 \<times> u64 \<Rightarrow> (string, Nomination) table \<Rightarrow> (string, Nomination) table" where
  "makeRoomForCandidate now t =
     (if length t < kMaxCandidates then t
      else let t1 = erase_if (\<lambda>item. \<not> candidateLive (snd item) (fst now) (snd now)) t in
        if length t1 < kMaxCandidates then t1
        else erase_min (\<lambda>item. firstStrikeAt (snd item)) t1)"

definition makeRoomForHealthy :: "u64 \<Rightarrow> (string, u64) table \<Rightarrow> (string, u64) table" where
  "makeRoomForHealthy now t =
     (let t1 = erase_if (\<lambda>item. snd item + kBaselineHealthyWindowSeconds \<le> now) t in
      if length t1 \<ge> kMaxHealthyHosts then tl t1 else t1)"

section \<open>The file\<close>

definition entryText :: "Entry \<Rightarrow> string" where
  "entryText e = entry_profile e @ '';'' @ kind_name (entry_kind e) @ '';'' @
     dec_digits (unat (entry_confidence e)) @ '';'' @ dec_digits (unat (entry_expiresAt e)) @ '';'' @
     dec_digits (unat (entry_failures e)) @ '';'' @ dec_digits (unat (verifiedAt e))"

definition candidateText :: "Nomination \<Rightarrow> string" where
  "candidateText c = cand_profile c @ '';'' @ kind_name Unknown @ '';50;'' @
     dec_digits (unat (persistUntil c)) @ '';0;0''"

definition memberText :: "string \<times> string \<Rightarrow> string" where
  "memberText = (\<lambda>(key, encoded). ''    '' @ quoted (escape key) @ '': '' @ quoted (escape encoded))"

text \<open>The separator \<open>append\<close> puts before every member but the first.\<close>

fun joinMembers :: "(string \<times> string) list \<Rightarrow> string" where
  "joinMembers [] = []"
| "joinMembers [m] = memberText m"
| "joinMembers (m # n # ms) = memberText m @ '','' @ [CHR 0x0A] @ joinMembers (n # ms)"

definition storeMembers :: "u64 \<Rightarrow> Store \<Rightarrow> (string \<times> string) list" where
  "storeMembers now st =
     map (\<lambda>(key, e). (key, entryText e)) (filter (\<lambda>(key, e). \<not> entry_expiresAt e \<le> now) (entries st)) @
     map (\<lambda>(key, c). (key, candidateText c))
       (filter (\<lambda>(key, c). \<not> (persistUntil c \<le> now \<or> map_of (entries st) key \<noteq> None)) (candidates st))"

definition storeText :: "u64 \<Rightarrow> Store \<Rightarrow> string" where
  "storeText now st =
     ''{'' @ [CHR 0x0A] @ ''  '' @ quoted ''version'' @ '': 2,'' @ [CHR 0x0A] @
     ''  '' @ quoted ''domains'' @ '': {'' @ [CHR 0x0A] @
     joinMembers (storeMembers now st) @
     [CHR 0x0A] @ ''  }'' @ [CHR 0x0A] @ ''}'' @ [CHR 0x0A]"

definition snapshotLocked :: "Clock \<Rightarrow> Store \<Rightarrow> Snapshot \<times> Store" where
  "snapshotLocked clock st =
     (if path st = [] then (noSnapshot, st)
      else (\<lparr>seq = nextSeq st + 1, snapshot_text = storeText (savedAt clock) st\<rparr>,
            st\<lparr>nextSeq := nextSeq st + 1\<rparr>))"

text \<open>The writer's side, guarded by its own mutex: the last sequence number written and the file.\<close>

record Disk =
  writtenSeq :: nat
  saveFailing :: bool
  disk_file :: "string option"

definition commit :: "bool \<Rightarrow> Snapshot \<Rightarrow> Disk \<Rightarrow> Disk" where
  "commit writeAtomicOk snapshot d =
     (if seq snapshot = 0 then d
      else if seq snapshot \<le> writtenSeq d then d
      else if writeAtomicOk
      then d\<lparr>writtenSeq := seq snapshot, saveFailing := False, disk_file := Some (snapshot_text snapshot)\<rparr>
      else d\<lparr>saveFailing := True\<rparr>)"

text \<open>
  \<open>std::from_chars\<close> on an unsigned integer: an out-of-range or missing number leaves the value
  alone, trailing characters make the test fail but keep the number.
\<close>

definition parseUnsigned :: "string \<Rightarrow> 'a::len word \<Rightarrow> bool \<times> 'a word" where
  "parseUnsigned text value =
     (let digits = takeWhile isdigit text in
      if digits = [] \<or> decValue digits \<ge> 2 ^ LENGTH('a) then (False, value)
      else (digits = text, of_nat (decValue digits)))"

definition allKinds :: "Kind list" where
  "allKinds = [Unknown, NoInterference, SniInterferenceLikely, TlsIncompatible, TransportFailure,
     ThrottlingSuspected, LearnedProfile, TransientFailure, InterferenceSuspected]"

definition parseKind :: "string \<Rightarrow> Kind" where
  "parseKind text = (case find (\<lambda>k. text = kind_name k) allKinds of None \<Rightarrow> Unknown | Some k \<Rightarrow> k)"

fun splitFields :: "string \<Rightarrow> string list" where
  "splitFields [] = [[]]"
| "splitFields (c # cs) =
     (if c = CHR '';'' then [] # splitFields cs
      else case splitFields cs of [] \<Rightarrow> [[c]] | f # fs \<Rightarrow> (c # f) # fs)"

definition decodeEntry :: "u64 \<Rightarrow> string list \<Rightarrow> Entry" where
  "decodeEntry loadedAt parts =
     (let num32 = (\<lambda>i old. if length parts > i then snd (parseUnsigned (parts ! i) old) else old);
          num64 = (\<lambda>i old. if length parts > i then snd (parseUnsigned (parts ! i) old) else old);
          confidence = num32 2 (50::u32);
          expires = num64 3 (loadedAt + kLearningTtlSeconds);
          failures = num32 4 0;
          verified = num64 5 0
      in \<lparr>entry_profile = parts ! 0,
          entry_kind = (if length parts > 1 then parseKind (parts ! 1) else Unknown),
          entry_confidence = min confidence 100,
          entry_expiresAt = min expires (loadedAt + kLearningTtlSeconds),
          entry_failures = failures,
          verifiedAt = (if verified > loadedAt + kClockSkewSeconds then 0 else verified),
          reverifyStartedAt = 0\<rparr>)"

definition loadMember :: "u64 \<Rightarrow> string \<Rightarrow> string \<Rightarrow> Store \<Rightarrow> Store" where
  "loadMember loadedAt key0 encoded st =
     (let parts = splitFields encoded in
      if key0 = [] \<or> parts = [] \<or> findProfile (parts ! 0) = None \<or> parts ! 0 = ''none'' then st
      else let key = (if CHR ''|'' \<in> set key0 then key0 else scopeKey kDefaultNetwork key0);
               entry = decodeEntry loadedAt parts
        in if entry_expiresAt entry \<le> loadedAt then st
           else if verifiedAt entry = 0 then
             (if length (candidates st) < kMaxCandidates
              then st\<lparr>candidates := AList.update key
                     \<lparr>cand_profile = entry_profile entry, firstStrikeAt = 0, cand_expiresAt = 0,
                      persistUntil = entry_expiresAt entry\<rparr> (candidates st)\<rparr>
              else st)
           else if length (entries st) < kMaxRememberedHosts
           then st\<lparr>entries := AList.update key entry (entries st)\<rparr>
           else st)"

lemma loadLoop_advances:
  assumes "\<not> end2 < skipWs d (skipWs d end1 + 1) + 2" "(key, end1) = parseString d (skipWs d pos)"
    "skipWs d pos < length d" "d ! skipWs d pos = CHR 0x22"
  shows "pos < end2"
  using parseString_pos [OF assms(3,4)] assms skipWs_ge [of pos d] skipWs_ge [of end1 d]
    skipWs_ge [of "skipWs d end1 + 1" d] by (auto simp: prod_eq_iff)

function loadLoop :: "u64 \<Rightarrow> string \<Rightarrow> nat \<Rightarrow> Store \<Rightarrow> Store" where
  "loadLoop loadedAt domains pos st =
     (if \<not> pos < length domains then st
      else let p = skipWs domains pos in
        if p \<ge> length domains \<or> domains ! p = CHR ''}'' then st
        else if domains ! p = CHR '','' then loadLoop loadedAt domains (p + 1) st
        else if domains ! p \<noteq> CHR 0x22 then st
        else case parseString domains p of (key, end1) \<Rightarrow>
          let p2 = skipWs domains end1 in
          if p2 \<ge> length domains \<or> domains ! p2 \<noteq> CHR '':'' then st
          else let p3 = skipWs domains (p2 + 1) in
            if p3 \<ge> length domains \<or> domains ! p3 \<noteq> CHR 0x22 then st
            else case parseString domains p3 of (encoded, end2) \<Rightarrow>
              if end2 < p3 + 2 \<or> domains ! (end2 - 1) \<noteq> CHR 0x22 then st
              else loadLoop loadedAt domains end2 (loadMember loadedAt key encoded st))"
  by pat_completeness auto
termination
proof (relation "measure (\<lambda>(loadedAt, domains, pos, st). length domains - pos)", goal_cases)
  case (2 loadedAt domains pos st p)
  then show ?case using skipWs_ge [of pos domains] by auto
next
  case 3
  then show ?case by (auto intro!: diff_less_mono2 intro: loadLoop_advances)
qed simp

declare loadLoop.simps [simp del]

definition load :: "string option \<Rightarrow> Clock \<Rightarrow> Store \<Rightarrow> Store" where
  "load readAll clock st =
     (case readAll of
        None \<Rightarrow> st
      | Some content \<Rightarrow>
          if path st = [] then st
          else let domains = getRaw content ''domains'' in
            if domains = [] \<or> domains ! 0 \<noteq> CHR ''{'' then st
            else loadLoop (nowSeconds clock) domains 1 (st\<lparr>entries := [], candidates := []\<rparr>))"

section \<open>Operations\<close>

definition lookup :: "string \<Rightarrow> string \<Rightarrow> Clock \<Rightarrow> Store \<Rightarrow> string" where
  "lookup networkId host clock st =
     (case map_of (entries st) (scopeKey networkId host) of
        None \<Rightarrow> []
      | Some e \<Rightarrow> if entry_expiresAt e \<le> nowSeconds clock then [] else entry_profile e)"

text \<open>The promotion at the end of \<open>rememberLocked\<close>: the profile becomes the host's winner.\<close>

definition learn :: "string \<Rightarrow> string \<Rightarrow> Kind \<Rightarrow> u32 \<Rightarrow> u64 \<Rightarrow> Store \<Rightarrow> Store" where
  "learn key profile kind confidence now st =
     (let replacement = \<lparr>entry_profile = profile, entry_kind = kind,
            entry_confidence = min confidence 100, entry_expiresAt = now + kLearningTtlSeconds,
            entry_failures = 0, verifiedAt = now, reverifyStartedAt = 0\<rparr>;
          es = (if map_of (entries st) key = None then makeRoomForEntry now (entries st) else entries st)
      in st\<lparr>candidates := AList.delete key (candidates st),
            entries := AList.update key replacement es\<rparr>)"

text \<open>The nomination branch: \<open>Some\<close> when it returns \<open>Outcome::Candidate\<close>, \<open>None\<close> when it falls through.\<close>

definition nominate :: "string \<Rightarrow> string \<Rightarrow> u64 \<Rightarrow> u64 \<Rightarrow> Store \<Rightarrow> Store option" where
  "nominate key profile now monoNow st =
     (let cs = (case map_of (candidates st) key of
                  None \<Rightarrow> candidates st
                | Some c \<Rightarrow> if candidateLive c now monoNow then candidates st
                            else AList.delete key (candidates st))
      in case map_of cs key of
           None \<Rightarrow>
             Some (st\<lparr>candidates := AList.update key
               \<lparr>cand_profile = profile, firstStrikeAt = monoNow,
                cand_expiresAt = monoNow + kCandidateTtlSeconds, persistUntil = 0\<rparr>
               (makeRoomForCandidate (now, monoNow) cs)\<rparr>)
         | Some pending \<Rightarrow>
             if firstStrikeAt pending = 0 then
               Some (st\<lparr>candidates := AList.update key
                 (pending\<lparr>cand_profile := profile, firstStrikeAt := monoNow,
                          cand_expiresAt := monoNow + kCandidateTtlSeconds\<rparr>) cs\<rparr>)
             else if monoNow < firstStrikeAt pending + kConfirmMinGapSeconds then
               Some (st\<lparr>candidates := AList.update key (pending\<lparr>cand_profile := profile\<rparr>) cs\<rparr>)
             else None)"

text \<open>
  \<open>rememberLocked\<close> returns the outcome, the store and \<open>dirty\<close>. In the last step the source
  has erased the confirmed nomination already; \<open>learn\<close> deletes the key once more, which is
  the source's own second \<open>erase\<close>.
\<close>

definition rememberLocked ::
  "string \<Rightarrow> string \<Rightarrow> string \<Rightarrow> Kind \<Rightarrow> u32 \<Rightarrow> u64 \<Rightarrow> Clock \<Rightarrow> Store \<Rightarrow> Outcome \<times> Store \<times> bool" where
  "rememberLocked networkId host profile kind confidence explicitNow clock st =
     (let normalizedHost = normalizeHost host in
      if normalizedHost = [] \<or> findProfile profile = None then (Ignored, st, False)
      else let now = resolveNow explicitNow clock;
               monoNow = resolveMono explicitNow clock;
               key = scopeKey networkId normalizedHost;
               it = map_of (entries st) key
        in if profile = ''none'' then
             (let hadEntry = it \<noteq> None;
                  hadPersistedCandidate =
                    (case map_of (candidates st) key of None \<Rightarrow> False | Some c \<Rightarrow> persistUntil c \<noteq> 0)
              in (if hadEntry then Forgotten else Ignored,
                  st\<lparr>entries := AList.delete key (entries st),
                     candidates := AList.delete key (candidates st)\<rparr>,
                  hadEntry \<or> hadPersistedCandidate))
           else if kind = TransientFailure then (Ignored, st, False)
           else let live = (case it of None \<Rightarrow> False | Some e \<Rightarrow> entry_expiresAt e > now) in
             if kind = LearnedProfile then
               (case it of
                  None \<Rightarrow> (Ignored, st, False)
                | Some e \<Rightarrow>
                    if \<not> live \<or> entry_profile e \<noteq> profile then (Ignored, st, False)
                    else if entry_failures e \<noteq> 0
                    then (Refreshed, st\<lparr>entries := AList.update key (e\<lparr>entry_failures := 0\<rparr>) (entries st)\<rparr>, True)
                    else (Refreshed, st, False))
             else if live \<and> map_option entry_profile it = Some profile then
               (case it of
                  None \<Rightarrow> (Ignored, st, False)
                | Some e \<Rightarrow>
                    let e1 = e\<lparr>entry_failures := 0, verifiedAt := now, reverifyStartedAt := 0,
                               entry_expiresAt := now + kLearningTtlSeconds\<rparr>;
                        e2 = (if confidence > entry_confidence e1
                              then e1\<lparr>entry_confidence := min confidence 100, entry_kind := kind\<rparr> else e1)
                    in (Reverified, st\<lparr>entries := AList.update key e2 (entries st)\<rparr>, True))
             else if kind = SniInterferenceLikely then
               (case nominate key profile now monoNow st of
                  Some st' \<Rightarrow> (Candidate, st', False)
                | None \<Rightarrow> (Learned, learn key profile kind confidence now st, True))
             else (Learned, learn key profile kind confidence now st, True))"

definition remember ::
  "string \<Rightarrow> string \<Rightarrow> string \<Rightarrow> Kind \<Rightarrow> u32 \<Rightarrow> u64 \<Rightarrow> Clock \<Rightarrow> Store \<Rightarrow> Outcome \<times> Snapshot \<times> Store" where
  "remember networkId host profile kind confidence explicitNow clock st =
     (case rememberLocked networkId host profile kind confidence explicitNow clock st of
        (outcome, st1, dirty) \<Rightarrow>
          if dirty then (case snapshotLocked clock st1 of (snap, st2) \<Rightarrow> (outcome, snap, st2))
          else (outcome, noSnapshot, st1))"

definition noteBaselineHealthy :: "string \<Rightarrow> string \<Rightarrow> u64 \<Rightarrow> Clock \<Rightarrow> Store \<Rightarrow> Snapshot \<times> Store" where
  "noteBaselineHealthy networkId host explicitNow clock st =
     (let now = resolveMono explicitNow clock;
          key = scopeKey networkId host;
          persisted = (case map_of (candidates st) key of None \<Rightarrow> False | Some c \<Rightarrow> persistUntil c \<noteq> 0);
          st1 = st\<lparr>candidates := AList.delete key (candidates st)\<rparr>
      in case (if persisted then snapshotLocked clock st1 else (noSnapshot, st1)) of
           (snap, st2) \<Rightarrow>
             let hs = (if length (healthyAt st2) \<ge> kMaxHealthyHosts \<and> map_of (healthyAt st2) key = None
                       then makeRoomForHealthy now (healthyAt st2) else healthyAt st2)
             in (snap, st2\<lparr>healthyAt := AList.update key now hs\<rparr>))"

definition baselineRecentlyHealthy :: "string \<Rightarrow> string \<Rightarrow> u64 \<Rightarrow> Clock \<Rightarrow> Store \<Rightarrow> bool" where
  "baselineRecentlyHealthy networkId host explicitNow clock st =
     (let now = resolveMono explicitNow clock in
      case map_of (healthyAt st) (scopeKey networkId host) of
        None \<Rightarrow> False
      | Some t \<Rightarrow> t \<le> now \<and> t + kBaselineHealthyWindowSeconds > now)"

definition recordFailure :: "string \<Rightarrow> string \<Rightarrow> string \<Rightarrow> Clock \<Rightarrow> Store \<Rightarrow> Snapshot \<times> Store" where
  "recordFailure networkId host profile clock st =
     (let key = scopeKey networkId host in
      case map_of (entries st) key of
        None \<Rightarrow> (noSnapshot, st)
      | Some e \<Rightarrow>
          if entry_profile e \<noteq> profile then (noSnapshot, st)
          else let e1 = e\<lparr>entry_failures := entry_failures e + 1\<rparr> in
            snapshotLocked clock
              (if entry_failures e1 \<ge> 2 then st\<lparr>entries := AList.delete key (entries st)\<rparr>
               else st\<lparr>entries := AList.update key
                      (e1\<lparr>entry_confidence := (if entry_confidence e1 > 20 then entry_confidence e1 - 20 else 0)\<rparr>)
                      (entries st)\<rparr>))"

definition forget :: "string \<Rightarrow> Clock \<Rightarrow> Store \<Rightarrow> Snapshot \<times> Store" where
  "forget host clock st =
     (let suffix = ''|'' @ normalizeHost host;
          hit = (\<lambda>key. ends_with key suffix);
          changed = (list_ex (\<lambda>(key, e). hit key) (entries st) \<or>
                     list_ex (\<lambda>(key, c). hit key \<and> persistUntil c \<noteq> 0) (candidates st));
          st1 = st\<lparr>entries := erase_if (\<lambda>(key, e). hit key) (entries st),
                   candidates := erase_if (\<lambda>(key, c). hit key) (candidates st)\<rparr>
      in if changed then snapshotLocked clock st1 else (noSnapshot, st1))"

definition clear :: "Clock \<Rightarrow> Store \<Rightarrow> Snapshot \<times> Store" where
  "clear clock st = snapshotLocked clock (st\<lparr>entries := [], candidates := [], healthyAt := []\<rparr>)"

definition store_size :: "Clock \<Rightarrow> Store \<Rightarrow> nat" where
  "store_size clock st = length (filter (\<lambda>(key, e). entry_expiresAt e > nowSeconds clock) (entries st))"

definition candidateCount :: "Store \<Rightarrow> nat" where
  "candidateCount st = length (candidates st)"

text \<open>
  \<open>probeOrder\<close>: the part under the lock (the remembered profile, the pending one, whether a
  re-verification starts now) and the order built from it.
\<close>

definition probeState ::
  "string \<Rightarrow> u64 \<Rightarrow> u64 \<Rightarrow> Store \<Rightarrow> string \<times> string \<times> bool \<times> Store" where
  "probeState key now monoNow st =
     (let waiting = (case map_of (candidates st) key of
                       None \<Rightarrow> [] | Some c \<Rightarrow> if candidateLive c now monoNow then cand_profile c else [])
      in case map_of (entries st) key of
           None \<Rightarrow> ([], waiting, False, st)
         | Some e \<Rightarrow>
             if \<not> entry_expiresAt e > now then ([], waiting, False, st)
             else let due = (verifiedAt e > now + kClockSkewSeconds \<or>
                             verifiedAt e + kReverifyIntervalSeconds \<le> now)
               in if due \<and> (reverifyStartedAt e = 0 \<or> reverifyStartedAt e + kReverifyHoldSeconds \<le> monoNow)
                  then (entry_profile e, [], True,
                        st\<lparr>entries := AList.update key (e\<lparr>reverifyStartedAt := monoNow\<rparr>) (entries st)\<rparr>)
                  else (entry_profile e, [], False, st))"

definition orderFor :: "string \<Rightarrow> string \<Rightarrow> bool \<Rightarrow> ClientHello \<Rightarrow> string list" where
  "orderFor remembered pending reverify hello =
     (let front = (if remembered \<noteq> [] then (if reverify then [''none''] else []) @ [remembered]
                   else if pending \<noteq> [] then [''none'', pending] else []);
          lead = (if remembered \<noteq> [] then remembered else pending);
          baselineQueued = (if remembered \<noteq> [] then reverify else pending \<noteq> [])
      in front @ map profile_name (filter (\<lambda>p. profile_name p \<noteq> lead \<and>
           \<not> (baselineQueued \<and> profile_name p = ''none'') \<and>
           \<not> (requiresSni p \<and> \<not> hasSni hello)) profileTable))"

definition probeOrder ::
  "string \<Rightarrow> string \<Rightarrow> ClientHello \<Rightarrow> u64 \<Rightarrow> Clock \<Rightarrow> Store \<Rightarrow> string list \<times> Store" where
  "probeOrder networkId host hello explicitNow clock st =
     (if spansRecords hello then ([''none''], st)
      else case probeState (scopeKey networkId host) (resolveNow explicitNow clock)
                  (resolveMono explicitNow clock) st of
        (remembered, pending, reverify, st1) \<Rightarrow> (orderFor remembered pending reverify hello, st1))"

end
