(* ===== verification/Strategy_Learning.thy ===== *)
theory Strategy_Learning
  imports Strategy_Store
begin

text \<open>
  Properties of the strategy store: its tables stay within their bounds whatever happens, a
  winner is learned only after two separate strikes, and the probe order a connection gets.
\<close>

section \<open>Histories of the store\<close>

datatype store_op =
    Remember string string string Kind u32 u64 Clock
  | NoteHealthy string string u64 Clock
  | RecordFailure string string string Clock
  | Forget string Clock
  | Clear Clock
  | ProbeOrder string string ClientHello u64 Clock
  | Load "string option" Clock

fun store_step :: "store_op \<Rightarrow> Store \<Rightarrow> Store" where
  "store_step (Remember n h p k c t clk) st = snd (snd (remember n h p k c t clk st))"
| "store_step (NoteHealthy n h t clk) st = snd (noteBaselineHealthy n h t clk st)"
| "store_step (RecordFailure n h p clk) st = snd (recordFailure n h p clk st)"
| "store_step (Forget h clk) st = snd (forget h clk st)"
| "store_step (Clear clk) st = snd (clear clk st)"
| "store_step (ProbeOrder n h hello t clk) st = snd (probeOrder n h hello t clk st)"
| "store_step (Load content clk) st = load content clk st"

definition store_reorder :: "Store \<Rightarrow> Store \<Rightarrow> bool" where
  "store_reorder st st' \<longleftrightarrow>
     mset (entries st') = mset (entries st) \<and> mset (candidates st') = mset (candidates st) \<and>
     mset (healthyAt st') = mset (healthyAt st) \<and> path st' = path st \<and> nextSeq st' = nextSeq st"

definition emptyStore :: "string \<Rightarrow> Store" where
  "emptyStore p = \<lparr>path = p, entries = [], candidates = [], healthyAt = [], nextSeq = 0\<rparr>"

section \<open>The invariant\<close>

definition learnable :: "string \<Rightarrow> bool" where
  "learnable p \<longleftrightarrow> findProfile p \<noteq> None \<and> p \<noteq> ''none''"

definition entry_ok :: "Entry \<Rightarrow> bool" where
  "entry_ok e \<longleftrightarrow> learnable (entry_profile e) \<and> entry_confidence e \<le> 100"

definition store_ok :: "Store \<Rightarrow> bool" where
  "store_ok st \<longleftrightarrow>
     table_ok kMaxRememberedHosts entry_ok (entries st) \<and>
     table_ok kMaxCandidates (\<lambda>c. learnable (cand_profile c)) (candidates st) \<and>
     table_ok kMaxHealthyHosts (\<lambda>_. True) (healthyAt st)"

text \<open>The two nomination tables make room by the shared routine.\<close>

interpretation entry_room: evictor kMaxRememberedHosts
  "\<lambda>now item. entry_expiresAt (snd item :: Entry) \<le> now" "\<lambda>item. verifiedAt (snd item :: Entry)"
  by unfold_locales (simp add: kMaxRememberedHosts_def)

interpretation candidate_room: evictor kMaxCandidates
  "\<lambda>now item. \<not> candidateLive (snd item) (fst now) (snd now)" "\<lambda>item. firstStrikeAt (snd item :: Nomination)"
  by unfold_locales (simp add: kMaxCandidates_def kMaxRememberedHosts_def)

lemma makeRoomForEntry_evict:
  "makeRoomForEntry now = evict kMaxRememberedHosts (\<lambda>item. entry_expiresAt (snd item) \<le> now)
     (\<lambda>item. verifiedAt (snd item))"
  by (simp add: makeRoomForEntry_def evict_def fun_eq_iff)

lemma makeRoomForCandidate_evict:
  "makeRoomForCandidate now = evict kMaxCandidates (\<lambda>item. \<not> candidateLive (snd item) (fst now) (snd now))
     (\<lambda>item. firstStrikeAt (snd item))"
  by (simp add: makeRoomForCandidate_def evict_def fun_eq_iff)

lemma insert_entry_ok:
  "table_ok kMaxRememberedHosts P t \<Longrightarrow> P e \<Longrightarrow>
     table_ok kMaxRememberedHosts P (AList.update k e (makeRoomForEntry now t))"
  unfolding makeRoomForEntry_evict by (rule entry_room.insert_ok)

lemma insert_candidate_ok:
  "table_ok kMaxCandidates P t \<Longrightarrow> P c \<Longrightarrow>
     table_ok kMaxCandidates P (AList.update k c (makeRoomForCandidate now t))"
  unfolding makeRoomForCandidate_evict by (rule candidate_room.insert_ok)

lemma insert_healthy_ok:
  assumes "table_ok kMaxHealthyHosts P t" "P v"
  shows "table_ok kMaxHealthyHosts P (AList.update k v (makeRoomForHealthy now t))"
proof -
  let ?t1 = "erase_if (\<lambda>item. snd item + kBaselineHealthyWindowSeconds \<le> now) t"
  have ok: "table_ok kMaxHealthyHosts P ?t1" using assms(1) by simp
  show ?thesis
  proof (cases "length ?t1 \<ge> kMaxHealthyHosts")
    case True
    then have "?t1 \<noteq> []" by (auto simp: kMaxHealthyHosts_def)
    then have "table_ok kMaxHealthyHosts P (tl ?t1)" "length (tl ?t1) < kMaxHealthyHosts"
      using ok by (cases ?t1; auto simp: table_ok_def)+
    then show ?thesis using True assms(2) by (simp add: makeRoomForHealthy_def Let_def table_ok_update)
  next
    case False
    then show ?thesis using ok assms(2) by (simp add: makeRoomForHealthy_def Let_def table_ok_update)
  qed
qed

lemma snapshot_keeps:
  "entries (snd (snapshotLocked clk st)) = entries st"
  "candidates (snd (snapshotLocked clk st)) = candidates st"
  "healthyAt (snd (snapshotLocked clk st)) = healthyAt st"
  by (auto simp: snapshotLocked_def)

lemma store_ok_snapshot [simp]: "store_ok (snd (snapshotLocked clk st)) = store_ok st"
  by (simp add: store_ok_def snapshot_keeps)

lemma learn_ok:
  assumes "store_ok st" "learnable p"
  shows "store_ok (learn key p k c now st)"
proof -
  let ?e = "\<lparr>entry_profile = p, entry_kind = k, entry_confidence = min c 100,
     entry_expiresAt = now + kLearningTtlSeconds, entry_failures = 0, verifiedAt = now, reverifyStartedAt = 0\<rparr>"
  have "entry_ok ?e" using assms(2) by (simp add: entry_ok_def)
  then have "table_ok kMaxRememberedHosts entry_ok (AList.update key ?e
      (if map_of (entries st) key = None then makeRoomForEntry now (entries st) else entries st))"
    using assms(1) by (auto simp: store_ok_def intro: insert_entry_ok table_ok_update)
  then show ?thesis using assms(1) by (simp add: learn_def Let_def store_ok_def)
qed

lemma nominate_ok:
  assumes "store_ok st" "learnable p" "nominate key p now m st = Some st'"
  shows "store_ok st'"
proof -
  let ?cs = "case map_of (candidates st) key of None \<Rightarrow> candidates st
    | Some c \<Rightarrow> if candidateLive c now m then candidates st else AList.delete key (candidates st)"
  have "table_ok kMaxCandidates (\<lambda>c. learnable (cand_profile c)) ?cs"
    using assms(1) by (auto simp: store_ok_def split: option.splits)
  then show ?thesis
    using assms
    by (auto simp: nominate_def store_ok_def Let_def intro!: insert_candidate_ok table_ok_update
        split: if_splits option.splits)
qed

lemma update_entry_ok:
  "store_ok st \<Longrightarrow> map_of (entries st) key = Some e \<Longrightarrow> (entry_ok e \<Longrightarrow> entry_ok e') \<Longrightarrow>
     store_ok (st\<lparr>entries := AList.update key e' (entries st)\<rparr>)"
  using table_ok_value [of kMaxRememberedHosts entry_ok "entries st" key e]
  by (auto simp: store_ok_def intro!: table_ok_update)

lemma delete_ok [simp]:
  "store_ok st \<Longrightarrow> store_ok (st\<lparr>entries := AList.delete key (entries st)\<rparr>)"
  "store_ok st \<Longrightarrow> store_ok (st\<lparr>candidates := AList.delete key (candidates st)\<rparr>)"
  "store_ok st \<Longrightarrow> store_ok (st\<lparr>entries := AList.delete key (entries st),
     candidates := AList.delete key (candidates st)\<rparr>)"
  by (simp_all add: store_ok_def)

lemma rememberLocked_ok: "store_ok st \<Longrightarrow> store_ok (fst (snd (rememberLocked n h p k c t clk st)))"
  using learn_ok [of st p] nominate_ok [of st p]
  by (auto simp: rememberLocked_def Let_def learnable_def entry_ok_def intro!: update_entry_ok
      split: option.splits)

lemma loadMember_ok: "store_ok st \<Longrightarrow> store_ok (loadMember loadedAt key encoded st)"
  by (auto simp: loadMember_def Let_def store_ok_def learnable_def entry_ok_def decodeEntry_def
      intro!: table_ok_update)

lemma loadLoop_keeps:
  assumes "\<And>key encoded st. I st \<Longrightarrow> I (loadMember loadedAt key encoded st)"
  shows "I st \<Longrightarrow> I (loadLoop loadedAt d pos st)"
proof (induction "length d - pos" arbitrary: pos st rule: less_induct)
  case less
  have IH: "I (loadLoop loadedAt d q st')" if "pos < q" "pos < length d" "I st'" for q st'
    using less.hyps that by (simp add: diff_less_mono2)
  show ?case
  proof (cases "pos < length d \<and> skipWs d pos < length d \<and> d ! skipWs d pos = CHR 0x22")
    case True
    obtain key end1 where k: "parseString d (skipWs d pos) = (key, end1)" by (cases "parseString d (skipWs d pos)")
    obtain enc end2 where e: "parseString d (skipWs d (skipWs d end1 + 1)) = (enc, end2)"
      by (cases "parseString d (skipWs d (skipWs d end1 + 1))")
    have "pos < end2" if "\<not> end2 < skipWs d (skipWs d end1 + 1) + 2"
      using loadLoop_advances [OF that k [symmetric]] True by blast
    then show ?thesis
      using True k e less.prems by (subst loadLoop.simps) (auto simp: Let_def intro!: IH assms)
  next
    case False
    then show ?thesis
      using less.prems skipWs_ge [of pos d] by (subst loadLoop.simps) (auto simp: Let_def intro!: IH)
  qed
qed

lemmas loadLoop_ok = loadLoop_keeps [of store_ok, OF loadMember_ok]

lemma remember_ok: "store_ok st \<Longrightarrow> store_ok (snd (snd (remember n h p k c t clk st)))"
proof -
  assume ok: "store_ok st"
  obtain out st1 dirty where r: "rememberLocked n h p k c t clk st = (out, st1, dirty)"
    by (metis prod_cases3)
  have "store_ok st1" using rememberLocked_ok [OF ok, of n h p k c t clk] r by simp
  then show ?thesis
    using store_ok_snapshot [of clk st1] by (auto simp: remember_def r split: prod.splits)
qed

lemma noteBaselineHealthy_ok: "store_ok st \<Longrightarrow> store_ok (snd (noteBaselineHealthy n h t clk st))"
proof -
  assume ok: "store_ok st"
  have put: "store_ok (st'\<lparr>healthyAt := AList.update key now
      (if length (healthyAt st') \<ge> kMaxHealthyHosts \<and> map_of (healthyAt st') key = None
       then makeRoomForHealthy now (healthyAt st') else healthyAt st')\<rparr>)" if "store_ok st'" for st' key now
    using that by (auto simp: store_ok_def intro!: insert_healthy_ok table_ok_update)
  have "store_ok (snd (if c then snapshotLocked clk (st\<lparr>candidates := AList.delete key (candidates st)\<rparr>)
      else (noSnapshot, st\<lparr>candidates := AList.delete key (candidates st)\<rparr>)))" for c key
    using ok by simp
  then show ?thesis
    by (simp add: noteBaselineHealthy_def Let_def split_beta put del: store_ok_snapshot)
qed

lemma store_step_ok: "store_ok st \<Longrightarrow> store_ok (store_step op st)"
proof (cases op)
  case (Remember n h p k c t clk)
  then show "store_ok st \<Longrightarrow> ?thesis" by (simp add: remember_ok)
next
  case (NoteHealthy n h t clk)
  then show "store_ok st \<Longrightarrow> ?thesis" by (simp add: noteBaselineHealthy_ok)
next
  case (RecordFailure n h p clk)
  assume ok: "store_ok st"
  have "entry_ok e \<Longrightarrow> entry_confidence e - 20 \<le> 100" if "20 < entry_confidence e" for e
    using that by (simp add: entry_ok_def word_sub_le less_imp_le order_trans [OF word_sub_le])
  with RecordFailure ok show ?thesis
    by (auto simp: recordFailure_def Let_def entry_ok_def intro!: update_entry_ok split: option.splits)
next
  case (ProbeOrder n h hello t clk)
  then show "store_ok st \<Longrightarrow> ?thesis"
    by (auto simp: probeOrder_def probeState_def Let_def entry_ok_def intro!: update_entry_ok
        split: option.splits prod.splits if_splits)
next
  case (Load content clk)
  then show "store_ok st \<Longrightarrow> ?thesis"
    by (auto simp: load_def Let_def store_ok_def split: option.splits
        intro!: loadLoop_ok [unfolded store_ok_def])
qed (auto simp: forget_def clear_def Let_def store_ok_def snapshot_keeps)

interpretation store: machine store_step store_reorder store_ok
proof
  show "store_ok st \<Longrightarrow> store_ok (store_step op st)" for st op by (rule store_step_ok)
  show "store_ok st \<Longrightarrow> store_reorder st st' \<Longrightarrow> store_ok st'" for st st'
    by (auto simp: store_ok_def store_reorder_def intro: table_ok_reorder)
qed

lemma emptyStore_ok [simp]: "store_ok (emptyStore p)"
  by (simp add: store_ok_def emptyStore_def)

text \<open>
  In every state a history of operations can lead to, whatever the file contained and
  however the hash tables order their entries: at most 1000 winners, 1000 nominations and
  4096 healthy hosts are kept, each under one key, every winner and nomination is a known
  profile other than the baseline, and every confidence is a percentage.
\<close>

lemma store_bounded:
  "reach store_step store_reorder (emptyStore p) st \<Longrightarrow>
     length (entries st) \<le> 1000 \<and> length (candidates st) \<le> 1000 \<and> length (healthyAt st) \<le> 4096 \<and>
     distinct (keys (entries st)) \<and> distinct (keys (candidates st)) \<and> distinct (keys (healthyAt st)) \<and>
     (\<forall>(key, e) \<in> set (entries st). findProfile (entry_profile e) \<noteq> None \<and>
        entry_profile e \<noteq> ''none'' \<and> entry_confidence e \<le> 100) \<and>
     (\<forall>(key, c) \<in> set (candidates st). findProfile (cand_profile c) \<noteq> None \<and> cand_profile c \<noteq> ''none'')"
  using store.reach_inv [OF _ emptyStore_ok, of p st]
  by (simp add: store_ok_def table_ok_def entry_ok_def learnable_def kMaxRememberedHosts_def
      kMaxCandidates_def kMaxHealthyHosts_def case_prod_beta)

definition noonClock :: Clock where
  "noonClock = \<lparr>nowSeconds = 1000000, monoSeconds = 500, savedAt = 1000000\<rparr>"

lemma store_bounded_example:
  "length (entries (store_step (Remember [] ''a.example'' ''sni-mid'' Unknown 120 0 noonClock)
     (emptyStore ''f''))) \<le> 1000"
  by (rule store_bounded [OF reach.operation [OF reach.start], THEN conjunct1])

section \<open>Two strikes\<close>

text \<open>
  A strike on a host: the operation that reports a differential for it. What clears a
  nomination: a healthy baseline, the baseline as winner, forgetting the host, a reset.
\<close>

fun strike :: "string \<Rightarrow> u64 \<Rightarrow> store_op \<Rightarrow> bool" where
  "strike key t (Remember n h p k c e clk) \<longleftrightarrow>
     scopeKey n h = key \<and> p \<noteq> ''none'' \<and> k = SniInterferenceLikely \<and> resolveMono e clk = t"
| "strike key t _ \<longleftrightarrow> False"

fun heals :: "string \<Rightarrow> store_op \<Rightarrow> bool" where
  "heals key (Remember n h p k c e clk) \<longleftrightarrow> scopeKey n h = key \<and> p = ''none'' \<and> normalizeHost h \<noteq> []"
| "heals key (NoteHealthy n h e clk) \<longleftrightarrow> scopeKey n h = key"
| "heals key (Forget h clk) \<longleftrightarrow> ends_with key (''|'' @ normalizeHost h)"
| "heals key (Clear clk) \<longleftrightarrow> True"
| "heals key _ \<longleftrightarrow> False"

text \<open>The latest operation comes first: a strike at \<open>t\<close> that nothing has cleared since.\<close>

fun struck :: "string \<Rightarrow> u64 \<Rightarrow> store_op list \<Rightarrow> bool" where
  "struck key t [] \<longleftrightarrow> False"
| "struck key t (op # ops) \<longleftrightarrow> strike key t op \<or> (\<not> heals key op \<and> struck key t ops)"

definition hist_step :: "store_op \<Rightarrow> Store \<times> store_op list \<Rightarrow> Store \<times> store_op list" where
  "hist_step op = (\<lambda>(st, ops). (store_step op st, op # ops))"

definition hist_reorder :: "Store \<times> store_op list \<Rightarrow> Store \<times> store_op list \<Rightarrow> bool" where
  "hist_reorder = (\<lambda>(st, ops) (st', ops'). store_reorder st st' \<and> ops' = ops)"

definition strikes_recorded :: "Store \<times> store_op list \<Rightarrow> bool" where
  "strikes_recorded = (\<lambda>(st, ops). store_ok st \<and>
     (\<forall>key c. map_of (candidates st) key = Some c \<and> firstStrikeAt c \<noteq> 0 \<longrightarrow> struck key (firstStrikeAt c) ops))"

text \<open>Where a stamped nomination in the store after an operation comes from.\<close>

definition from_before :: "Store \<Rightarrow> Store \<Rightarrow> store_op \<Rightarrow> bool" where
  "from_before st st' op \<longleftrightarrow> (\<forall>key c'. map_of (candidates st') key = Some c' \<and> firstStrikeAt c' \<noteq> 0 \<longrightarrow>
     strike key (firstStrikeAt c') op \<or>
     (\<not> heals key op \<and> (\<exists>c. map_of (candidates st) key = Some c \<and> firstStrikeAt c = firstStrikeAt c')))"

lemma snapshot_from_before [simp]:
  "from_before st (snd (snapshotLocked clk st')) op = from_before st st' op"
  by (simp add: from_before_def snapshot_keeps)

lemma room_candidate_lookup:
  "distinct (keys t) \<Longrightarrow> map_of (makeRoomForCandidate now t) k = Some c \<Longrightarrow> map_of t k = Some c"
  unfolding makeRoomForCandidate_evict by (rule map_of_subset [OF _ evict_subset])

lemma nominate_lookup:
  assumes "distinct (keys (candidates st))" "nominate key p now m st = Some st'"
    "map_of (candidates st') k = Some c"
  shows "k = key \<and> (firstStrikeAt c = m \<or>
           (\<exists>c0. map_of (candidates st) k = Some c0 \<and> firstStrikeAt c0 = firstStrikeAt c)) \<or>
         k \<noteq> key \<and> map_of (candidates st) k = Some c"
proof (cases "k = key")
  case True
  then show ?thesis
    using assms(2,3) by (auto simp: nominate_def Let_def split: option.splits if_splits)
next
  case False
  let ?cs = "case map_of (candidates st) key of None \<Rightarrow> candidates st
    | Some c \<Rightarrow> if candidateLive c now m then candidates st else AList.delete key (candidates st)"
  have cs: "distinct (keys ?cs)" "map_of ?cs k = map_of (candidates st) k"
    using assms(1) False by (auto split: option.splits)
  have "map_of ?cs k = Some c"
    using assms(2,3) False room_candidate_lookup [OF cs(1), of "(now, m)" k c]
    by (auto simp: nominate_def Let_def split: option.splits if_splits)
  then show ?thesis using False cs(2) by simp
qed

lemma store_ok_distinct: "store_ok st \<Longrightarrow> distinct (keys (candidates st))"
  by (simp add: store_ok_def table_ok_def)

lemma rememberLocked_candidates:
  assumes "distinct (keys (candidates st))"
    and "map_of (candidates (fst (snd (rememberLocked n h p k c e clk st)))) key = Some x"
  shows "(scopeKey n h = key \<and> p \<noteq> ''none'' \<and> k = SniInterferenceLikely \<and>
           (firstStrikeAt x = resolveMono e clk \<or>
            (\<exists>c0. map_of (candidates st) key = Some c0 \<and> firstStrikeAt c0 = firstStrikeAt x))) \<or>
         (map_of (candidates st) key = Some x \<and>
          \<not> (scopeKey n h = key \<and> p = ''none'' \<and> normalizeHost h \<noteq> []))"
proof -
  have nom: "scopeKey n h = key \<and> (firstStrikeAt x = resolveMono e clk \<or>
        (\<exists>c0. map_of (candidates st) key = Some c0 \<and> firstStrikeAt c0 = firstStrikeAt x)) \<or>
      scopeKey n h \<noteq> key \<and> map_of (candidates st) key = Some x"
    if "nominate (scopeKey n h) p (resolveNow e clk) (resolveMono e clk) st = Some st'"
      "map_of (candidates st') key = Some x" for st'
    using nominate_lookup [OF assms(1) that] by auto
  show ?thesis
  proof (cases "normalizeHost h = [] \<or> findProfile p = None \<or> p = ''none'' \<or> k \<noteq> SniInterferenceLikely")
    case True
    have "findProfile ''none'' \<noteq> None" by code_simp
    with True show ?thesis
      using assms(2)
      by (auto simp: rememberLocked_def learn_def Let_def split: if_splits option.splits)
  next
    case False
    then show ?thesis
      using assms(2) nom
      by (auto simp: rememberLocked_def learn_def Let_def split: if_splits option.splits)
  qed
qed

lemma remember_candidates:
  "candidates (snd (snd (remember n h p k c e clk st))) =
     candidates (fst (snd (rememberLocked n h p k c e clk st)))"
  by (auto simp: remember_def snapshotLocked_def split: prod.splits)

lemma noteBaselineHealthy_candidates:
  "candidates (snd (noteBaselineHealthy n h e clk st)) = AList.delete (scopeKey n h) (candidates st)"
  by (simp add: noteBaselineHealthy_def Let_def split_beta snapshot_keeps)

lemma loadMember_legacy:
  "\<forall>key c. map_of (candidates st) key = Some c \<longrightarrow> firstStrikeAt c = 0 \<Longrightarrow>
   \<forall>key c. map_of (candidates (loadMember t k enc st)) key = Some c \<longrightarrow> firstStrikeAt c = 0"
  by (auto simp: loadMember_def Let_def)

lemma load_candidates:
  "map_of (candidates (load content clk st)) key = Some c \<Longrightarrow> firstStrikeAt c \<noteq> 0 \<Longrightarrow>
     map_of (candidates st) key = Some c"
proof -
  assume c: "map_of (candidates (load content clk st)) key = Some c" "firstStrikeAt c \<noteq> 0"
  let ?legacy = "\<lambda>st. \<forall>key c. map_of (candidates st) key = Some c \<longrightarrow> firstStrikeAt c = 0"
  have "?legacy (loadLoop t d pos (st\<lparr>entries := [], candidates := []\<rparr>))" for t d pos
    by (rule loadLoop_keeps [of ?legacy, OF loadMember_legacy]) simp_all
  moreover have "load content clk st = st \<or>
      (\<exists>d. load content clk st = loadLoop (nowSeconds clk) d 1 (st\<lparr>entries := [], candidates := []\<rparr>))"
    by (auto simp: load_def Let_def split: option.splits)
  ultimately show ?thesis using c by metis
qed

lemma store_step_from_before:
  assumes "store_ok st"
  shows "from_before st (store_step op st) op"
proof (cases op)
  case (Remember n h p k c e clk)
  then show ?thesis
    using rememberLocked_candidates [OF store_ok_distinct [OF assms], of n h p k c e clk]
    by (fastforce simp: from_before_def remember_candidates)
next
  case (RecordFailure n h p clk)
  have "candidates (snd (recordFailure n h p clk st)) = candidates st"
    by (auto simp: recordFailure_def Let_def snapshot_keeps split: option.splits)
  then show ?thesis by (simp add: RecordFailure from_before_def)
next
  case (Forget h clk)
  have "candidates (snd (forget h clk st)) =
      erase_if (\<lambda>(key, c). ends_with key (''|'' @ normalizeHost h)) (candidates st)"
    by (simp add: forget_def Let_def snapshot_keeps)
  then show ?thesis
    using store_ok_distinct [OF assms]
    by (auto simp: Forget from_before_def map_of_erase_if split: option.splits if_splits)
next
  case (ProbeOrder n h hello e clk)
  have "candidates (snd (probeOrder n h hello e clk st)) = candidates st"
    by (auto simp: probeOrder_def probeState_def Let_def split: option.splits prod.splits if_splits)
  then show ?thesis by (simp add: ProbeOrder from_before_def)
next
  case (Load content clk)
  then show ?thesis using load_candidates [of content clk st] by (auto simp: from_before_def)
qed (auto simp: from_before_def noteBaselineHealthy_candidates clear_def snapshot_keeps)

interpretation history: machine hist_step hist_reorder strikes_recorded
proof
  show "strikes_recorded s \<Longrightarrow> strikes_recorded (hist_step op s)" for s op
  proof -
    obtain st ops where s: "s = (st, ops)" by (cases s)
    assume "strikes_recorded s"
    then have ok: "store_ok st" and st: "\<And>key c. map_of (candidates st) key = Some c \<Longrightarrow>
        firstStrikeAt c \<noteq> 0 \<Longrightarrow> struck key (firstStrikeAt c) ops"
      by (auto simp: strikes_recorded_def s)
    show ?thesis
      using store_step_from_before [OF ok, of op] store_step_ok [OF ok, of op] st
      by (fastforce simp: strikes_recorded_def hist_step_def s from_before_def)
  qed
  show "strikes_recorded s \<Longrightarrow> hist_reorder s s' \<Longrightarrow> strikes_recorded s'" for s s'
    using map_of_reorder [of "candidates (fst s)" "candidates (fst s')"]
      store.inv_reorder [of "fst s" "fst s'"] store_ok_distinct [of "fst s"]
    by (cases s; cases s') (auto simp: strikes_recorded_def hist_reorder_def store_reorder_def)
qed

lemma learned_from_candidate:
  assumes "fst (remember n h p SniInterferenceLikely c e clk st) = Learned"
  shows "\<exists>x. map_of (candidates st) (scopeKey n h) = Some x \<and> firstStrikeAt x \<noteq> 0 \<and>
    firstStrikeAt x + kConfirmMinGapSeconds \<le> resolveMono e clk"
proof -
  have "fst (rememberLocked n h p SniInterferenceLikely c e clk st) = Learned"
    using assms by (auto simp: remember_def split: prod.splits if_splits)
  then have "nominate (scopeKey n h) p (resolveNow e clk) (resolveMono e clk) st = None"
    by (auto simp: rememberLocked_def Let_def split: if_splits option.splits)
  then show ?thesis
    by (auto simp: nominate_def Let_def not_less split: option.splits if_splits)
qed

text \<open>
  C19. The two-strike rule. In every history of the store, whatever was loaded from the file,
  a differential verdict makes a profile the remembered winner of a host only if an earlier
  operation of this run reported a differential for the same host and network, at least 60
  seconds before on the monotonic clock, and since then no healthy baseline, no success of
  the untouched hello, no removal and no reset came in between.
\<close>

theorem learned_needs_two_strikes:
  assumes "reach hist_step hist_reorder (emptyStore f, []) (st, ops)"
    and "fst (remember networkId host profile SniInterferenceLikely confidence explicitNow clock st) = Learned"
  shows "\<exists>t. struck (scopeKey networkId host) t ops \<and> t + 60 \<le> resolveMono explicitNow clock"
proof -
  have "strikes_recorded (st, ops)"
    by (rule history.reach_inv [OF assms(1)]) (simp add: strikes_recorded_def emptyStore_def
        store_ok_def)
  then show ?thesis
    using learned_from_candidate [OF assms(2)]
    by (auto simp: strikes_recorded_def kConfirmMinGapSeconds_def)
qed

definition firstStrike :: store_op where
  "firstStrike = Remember ''nla-1'' ''Blocked.example.'' ''sni-mid'' SniInterferenceLikely 92 1000 noonClock"

theorem learned_needs_two_strikes_witness:
  "fst (remember ''nla-1'' ''blocked.example'' ''sni-mid'' SniInterferenceLikely 92 1060 noonClock
     (store_step firstStrike (emptyStore ''f''))) = Learned \<and>
   (\<exists>t. struck (scopeKey ''nla-1'' ''blocked.example'') t [firstStrike] \<and>
      t + 60 \<le> resolveMono 1060 noonClock)"
proof -
  have l: "fst (remember ''nla-1'' ''blocked.example'' ''sni-mid'' SniInterferenceLikely 92 1060 noonClock
     (store_step firstStrike (emptyStore ''f''))) = Learned" by code_simp
  have "reach hist_step hist_reorder (emptyStore ''f'', [])
      (hist_step firstStrike (emptyStore ''f'', []))"
    by (rule reach.operation [OF reach.start])
  then have r: "reach hist_step hist_reorder (emptyStore ''f'', [])
      (store_step firstStrike (emptyStore ''f''), [firstStrike])"
    by (simp add: hist_step_def)
  show ?thesis using learned_needs_two_strikes [OF r l] l by blast
qed

section \<open>Probe order\<close>

text \<open>What the store holds for a host at a given time.\<close>

definition winner :: "Store \<Rightarrow> string \<Rightarrow> u64 \<Rightarrow> Entry option" where
  "winner st key now = (case map_of (entries st) key of None \<Rightarrow> None
     | Some e \<Rightarrow> if entry_expiresAt e > now then Some e else None)"

definition waiting :: "Store \<Rightarrow> string \<Rightarrow> u64 \<Rightarrow> u64 \<Rightarrow> string option" where
  "waiting st key now m = (case map_of (candidates st) key of None \<Rightarrow> None
     | Some c \<Rightarrow> if candidateLive c now m then Some (cand_profile c) else None)"

definition applicable :: "ClientHello \<Rightarrow> string list" where
  "applicable hello = map profile_name (filter (\<lambda>p. requiresSni p \<longrightarrow> hasSni hello) profileTable)"

lemma profile_names: "distinct (map profile_name profileTable)"
  by code_simp

lemma table_name: "p \<in> profile_name ` set profileTable \<longleftrightarrow> findProfile p \<noteq> None"
  by (auto simp: findProfile_def find_None_iff)

lemma orderFor_general:
  assumes "remembered = [] \<or> learnable remembered" "pending = [] \<or> learnable pending"
  shows "distinct (orderFor remembered pending reverify hello) \<and>
    set (orderFor remembered pending reverify hello) =
      set (applicable hello) \<union> (if remembered \<noteq> [] then {remembered}
        else if pending \<noteq> [] then {pending} else {})"
proof -
  let ?rest = "\<lambda>lead b. map profile_name (filter (\<lambda>p. profile_name p \<noteq> lead \<and>
    \<not> (b \<and> profile_name p = ''none'') \<and> \<not> (requiresSni p \<and> \<not> hasSni hello)) profileTable)"
  have rest: "set (?rest lead b) = set (applicable hello) - {lead} - (if b then {''none''} else {})"
    "distinct (?rest lead b)" for lead b
    using profile_names by (auto simp: applicable_def distinct_map_filter)
  have none: "''none'' \<in> set (applicable hello)"
    by (simp add: applicable_def profileTable_def mkProfile_def)
  consider "remembered \<noteq> []" reverify | "remembered \<noteq> []" "\<not> reverify"
    | "remembered = []" "pending \<noteq> []" | "remembered = []" "pending = []" by blast
  then show ?thesis
  proof cases
    case 1
    then have "orderFor remembered pending reverify hello = [''none'', remembered] @ ?rest remembered True"
      by (simp add: orderFor_def)
    then show ?thesis using 1 rest [of remembered True] none assms(1) by (auto simp: learnable_def)
  next
    case 2
    then have "orderFor remembered pending reverify hello = [remembered] @ ?rest remembered False"
      by (simp add: orderFor_def)
    then show ?thesis using 2 rest [of remembered False] by auto
  next
    case 3
    then have "orderFor remembered pending reverify hello = [''none'', pending] @ ?rest pending True"
      by (simp add: orderFor_def)
    then show ?thesis using 3 rest [of pending True] none assms(2) by (auto simp: learnable_def)
  next
    case 4
    then have "orderFor remembered pending reverify hello = ?rest [] False"
      by (simp add: orderFor_def)
    moreover have "[] \<notin> set (applicable hello)"
      by (auto simp: applicable_def profileTable_def mkProfile_def)
    ultimately show ?thesis using 4 rest [of "[]" False] by auto
  qed
qed

definition reverify_due :: "Entry \<Rightarrow> u64 \<Rightarrow> u64 \<Rightarrow> bool" where
  "reverify_due e now m \<longleftrightarrow>
     (verifiedAt e > now + kClockSkewSeconds \<or> verifiedAt e + kReverifyIntervalSeconds \<le> now) \<and>
     (reverifyStartedAt e = 0 \<or> reverifyStartedAt e + kReverifyHoldSeconds \<le> m)"

lemma probeState_eq:
  "probeState key now m st =
     (case winner st key now of
        Some e \<Rightarrow> (entry_profile e, [], reverify_due e now m,
          if reverify_due e now m
          then st\<lparr>entries := AList.update key (e\<lparr>reverifyStartedAt := m\<rparr>) (entries st)\<rparr> else st)
      | None \<Rightarrow> ([], case waiting st key now m of None \<Rightarrow> [] | Some p \<Rightarrow> p, False, st))"
  by (auto simp: probeState_def winner_def waiting_def reverify_due_def Let_def split: option.splits)

lemma winner_learnable: "store_ok st \<Longrightarrow> winner st key now = Some e \<Longrightarrow> learnable (entry_profile e)"
  using table_ok_value [of kMaxRememberedHosts entry_ok "entries st" key e]
  by (auto simp: winner_def store_ok_def entry_ok_def split: option.splits if_splits)

lemma waiting_learnable: "store_ok st \<Longrightarrow> waiting st key now m = Some p \<Longrightarrow> learnable p"
  using table_ok_value [of kMaxCandidates "\<lambda>c. learnable (cand_profile c)" "candidates st" key]
  by (auto simp: waiting_def store_ok_def split: option.splits if_splits)

lemma learnable_nonempty: "learnable p \<Longrightarrow> p \<noteq> []"
  by (auto simp: learnable_def findProfile_def profileTable_def mkProfile_def)

lemma orderFor_front:
  "remembered \<noteq> [] \<Longrightarrow> take 2 (orderFor remembered pending True hello) = [''none'', remembered]"
  "remembered \<noteq> [] \<Longrightarrow> hd (orderFor remembered pending False hello) = remembered"
  "pending \<noteq> [] \<Longrightarrow> take 2 (orderFor [] pending reverify hello) = [''none'', pending]"
  "hd (orderFor [] [] reverify hello) = ''none''"
  by (simp_all add: orderFor_def profileTable_def mkProfile_def)

text \<open>
  The order in which profiles are tried for a hello that may be replayed: no profile
  twice, every profile the hello can carry is there, and the front is what the store knows:
  the winner; the untouched baseline and then the winner when a re-verification is due; the
  baseline and then the nominated profile while a nomination is pending; the baseline alone
  for an unknown host.
\<close>

lemma probeOrder_sound:
  fixes networkId host :: string and explicitNow :: u64 and clock :: Clock
  assumes "reach store_step store_reorder (emptyStore f) st" and "\<not> spansRecords hello"
  defines "key \<equiv> scopeKey networkId host"
    and "now \<equiv> resolveNow explicitNow clock" and "m \<equiv> resolveMono explicitNow clock"
    and "order \<equiv> fst (probeOrder networkId host hello explicitNow clock st)"
  shows "distinct order \<and> set (applicable hello) \<subseteq> set order \<and>
    (case winner st key now of
       Some e \<Rightarrow> set order = insert (entry_profile e) (set (applicable hello)) \<and>
         (if reverify_due e now m then take 2 order = [''none'', entry_profile e]
          else hd order = entry_profile e)
     | None \<Rightarrow> (case waiting st key now m of
           Some p \<Rightarrow> set order = insert p (set (applicable hello)) \<and> take 2 order = [''none'', p]
         | None \<Rightarrow> set order = set (applicable hello) \<and> hd order = ''none''))"
proof -
  have ok: "store_ok st" by (rule store.reach_inv [OF assms(1) emptyStore_ok])
  have order: "order = (case probeState key now m st of (r, p, v, _) \<Rightarrow> orderFor r p v hello)"
    using assms(2) by (simp add: order_def probeOrder_def key_def now_def m_def split: prod.splits)
  show ?thesis
  proof (cases "winner st key now")
    case (Some e)
    have "learnable (entry_profile e)" by (rule winner_learnable [OF ok Some])
    then show ?thesis
      using orderFor_general [of "entry_profile e" "[]" "reverify_due e now m" hello]
        learnable_nonempty [of "entry_profile e"] orderFor_front(1,2) [of "entry_profile e" "[]" hello] Some
      by (auto simp: order probeState_eq)
  next
    case None
    show ?thesis
    proof (cases "waiting st key now m")
      case None2: None
      then show ?thesis
        using orderFor_general [of "[]" "[]" False hello] orderFor_front(4) [of False hello] None
        by (auto simp: order probeState_eq)
    next
      case (Some p)
      have "learnable p" by (rule waiting_learnable [OF ok Some])
      then show ?thesis
        using orderFor_general [of "[]" p False hello] learnable_nonempty [of p]
          orderFor_front(3) [of p False hello] None Some
        by (auto simp: order probeState_eq)
    qed
  qed
qed

lemma probeOrder_sound_example:
  "hd (fst (probeOrder ''nla-1'' ''new.example'' sampleReport 1000 noonClock (emptyStore ''f''))) = ''none''"
  using probeOrder_sound [OF reach.start, where hello = sampleReport and networkId = "''nla-1''"
      and host = "''new.example''" and explicitNow = 1000 and clock = noonClock]
  by (simp add: sampleReport_def winner_def waiting_def emptyStore_def)

text \<open>
  Only one connection at a time re-verifies a winner: once a probe has led with the
  baseline for a host, every probe of that host in the following 15 seconds (on the
  monotonic clock) that still finds the winner leads with the winner.
\<close>

lemma reverify_single_flight:
  assumes "reach store_step store_reorder (emptyStore f) st" and "\<not> spansRecords hello" "\<not> spansRecords hello'"
    and "winner st key now = Some e" "reverify_due e now m" "m \<noteq> 0"
    and "winner st key now' = Some e" and "m' < m + 15"
    and "key = scopeKey n h" "now = resolveNow t clk" "m = resolveMono t clk"
    and "now' = resolveNow t' clk'" "m' = resolveMono t' clk'"
  shows "hd (fst (probeOrder n h hello' t' clk' (snd (probeOrder n h hello t clk st)))) = entry_profile e"
proof -
  let ?e = "e\<lparr>reverifyStartedAt := m\<rparr>"
  let ?st = "st\<lparr>entries := AList.update key ?e (entries st)\<rparr>"
  have ok: "store_ok st" by (rule store.reach_inv [OF assms(1) emptyStore_ok])
  have st: "snd (probeOrder n h hello t clk st) = ?st"
    using assms(2,4,5) unfolding assms(9-11) by (simp add: probeOrder_def probeState_eq split: prod.splits)
  have w: "winner ?st key now' = Some ?e"
    using assms(7) by (auto simp: winner_def split: option.splits if_splits)
  have "\<not> reverify_due ?e now' m'"
    using assms(6,8) by (auto simp: reverify_due_def kReverifyHoldSeconds_def)
  then have "fst (probeOrder n h hello' t' clk' ?st) = orderFor (entry_profile e) [] False hello'"
    using assms(3) w unfolding assms(9,12,13) by (simp add: probeOrder_def probeState_eq)
  then show ?thesis
    using orderFor_front(2) learnable_nonempty [OF winner_learnable [OF ok assms(4)]] by (simp add: st)
qed

text \<open>A winner learned an hour ago is due; its probe and one five seconds later.\<close>

definition dueEntry :: Entry where
  "dueEntry = \<lparr>entry_profile = ''sni-mid'', entry_kind = Unknown, entry_confidence = 90,
     entry_expiresAt = 604900, entry_failures = 0, verifiedAt = 100, reverifyStartedAt = 0\<rparr>"

definition dueStore :: Store where
  "dueStore = store_step (Remember [] ''a'' ''sni-mid'' Unknown 90 100 noonClock) (emptyStore ''f'')"

lemma reverify_single_flight_example:
  "take 2 (fst (probeOrder [] ''a'' sampleReport 3700 noonClock dueStore)) = [''none'', ''sni-mid''] \<and>
   hd (fst (probeOrder [] ''a'' sampleReport 3705 noonClock
     (snd (probeOrder [] ''a'' sampleReport 3700 noonClock dueStore)))) = ''sni-mid''"
proof -
  have r: "reach store_step store_reorder (emptyStore ''f'') dueStore"
    unfolding dueStore_def by (rule reach.operation [OF reach.start])
  have w: "winner dueStore (scopeKey [] ''a'') 3700 = Some dueEntry"
    "winner dueStore (scopeKey [] ''a'') 3705 = Some dueEntry" by code_simp+
  have d: "reverify_due dueEntry 3700 3700" by code_simp
  have t: "take 2 (fst (probeOrder [] ''a'' sampleReport 3700 noonClock dueStore)) = [''none'', ''sni-mid'']"
    by code_simp
  have "hd (fst (probeOrder [] ''a'' sampleReport 3705 noonClock
      (snd (probeOrder [] ''a'' sampleReport 3700 noonClock dueStore)))) = entry_profile dueEntry"
    by (rule reverify_single_flight [OF r _ _ w(1) d _ w(2)])
      (simp_all add: sampleReport_def resolveNow_def resolveMono_def)
  then show ?thesis using t by (simp add: dueEntry_def)
qed

section \<open>Writing the file\<close>

text \<open>
  Snapshots are written outside the store's lock, so they can reach the disk in any
  order. Whatever order they are committed in and whichever writes fail, the file ends up
  with the newest snapshot that was written: an older one never replaces it.
\<close>

lemma commit_newest_wins:
  assumes "list_all (\<lambda>(ok, s). seq s \<noteq> 0) commits"
    and "d = foldl (\<lambda>d (ok, s). commit ok s d) \<lparr>writtenSeq = 0, saveFailing = False, disk_file = None\<rparr> commits"
  shows "(case disk_file d of
      None \<Rightarrow> writtenSeq d = 0 \<and> list_all (\<lambda>(ok, s). \<not> ok) commits
    | Some text \<Rightarrow> \<lparr>seq = writtenSeq d, snapshot_text = text\<rparr> \<in> set (map snd (filter fst commits)) \<and>
        list_all (\<lambda>(ok, s). \<not> ok \<or> seq s \<le> writtenSeq d) commits)"
  using assms
proof (induction commits arbitrary: d rule: rev_induct)
  case Nil
  then show ?case by simp
next
  case (snoc x commits)
  obtain ok s where x: "x = (ok, s)" by (cases x)
  let ?d0 = "foldl (\<lambda>d (ok, s). commit ok s d) \<lparr>writtenSeq = 0, saveFailing = False, disk_file = None\<rparr> commits"
  note IH = snoc.IH [OF _ refl]
  have "d = commit ok s ?d0" using snoc.prems(2) by (simp add: x)
  then show ?case
    using IH snoc.prems(1)
    by (cases s) (auto simp: x commit_def list_all_iff image_iff split: option.splits)
qed

lemma commit_newest_wins_example:
  "disk_file (foldl (\<lambda>d (ok, s). commit ok s d) \<lparr>writtenSeq = 0, saveFailing = False, disk_file = None\<rparr>
     [(True, \<lparr>seq = 2, snapshot_text = ''new''\<rparr>), (True, \<lparr>seq = 1, snapshot_text = ''old''\<rparr>)]) = Some ''new''"
  using commit_newest_wins [OF _ refl, of
      "[(True, \<lparr>seq = 2, snapshot_text = ''new''\<rparr>), (True, \<lparr>seq = 1, snapshot_text = ''old''\<rparr>)]"]
  by (simp add: commit_def)

end
