(* ===== verification/Transparent_Flow.thy ===== *)
theory Transparent_Flow
  imports Prelude
begin

text \<open>
  \<open>src/src/TransparentFlow.hpp\<close> and \<open>TransparentFlow.cpp\<close>: the registries that tie packets
  seen by the interceptor to connections accepted by the proxy, the table of rewritten TCP
  tuples, and the routing of packets by port. \<open>tick\<close> is the reading of \<open>GetTickCount64\<close>;
  \<open>inet_pton\<close> is a parameter.
\<close>

definition kPendingFlowTtlMs :: u64 where "kPendingFlowTtlMs = 15000"
definition kMaxPendingFlows :: nat where "kMaxPendingFlows = 8192"
definition kMaxPendingDatagramsPerTuple :: u32 where "kMaxPendingDatagramsPerTuple = 32"
definition flow_kPruneIntervalMs :: u64 where "flow_kPruneIntervalMs = 1000"
definition kTcpFlowIdleMs :: u64 where "kTcpFlowIdleMs = 14400000"
definition kTcpFlowClosingMs :: u64 where "kTcpFlowClosingMs = 120000"
definition kMaxTcpFlows :: nat where "kMaxTcpFlows = 65536"

definition clockMs :: "u64 \<Rightarrow> u64 \<Rightarrow> u64" where
  "clockMs supplied tick = (if supplied = 0 then tick else supplied)"

definition flowKey :: "string \<Rightarrow> u16 \<Rightarrow> string" where
  "flowKey address port = address @ ''|'' @ dec_digits (unat port)"

section \<open>Addresses\<close>

text \<open>An \<open>Address\<close> is sixteen bytes. The reads of \<open>memcpy\<close> are checked.\<close>

type_synonym Address = "byte list"

definition addressFromBytes :: "byte list \<Rightarrow> bool \<Rightarrow> Address option" where
  "addressFromBytes bytes ipv6 =
     (if ipv6 then slice bytes 0 16
      else map_option (\<lambda>b. replicate 10 0 @ [0xFF, 0xFF] @ b) (slice bytes 0 4))"

definition parseAddress ::
  "(string \<Rightarrow> byte list option) \<Rightarrow> (string \<Rightarrow> byte list option) \<Rightarrow> string \<Rightarrow> Address option" where
  "parseAddress inet_pton4 inet_pton6 text =
     (case inet_pton4 text of
        Some v4 \<Rightarrow> addressFromBytes v4 False
      | None \<Rightarrow> (case inet_pton6 text of Some v6 \<Rightarrow> addressFromBytes v6 True | None \<Rightarrow> None))"

record PeerKey =
  peer_address :: Address
  peer_port :: u16
  peer_kind :: byte

definition hash_add :: "u64 \<Rightarrow> byte \<Rightarrow> u64" where
  "hash_add hash value = (hash XOR ucast value) * 1099511628211"

definition PeerKeyHash :: "PeerKey \<Rightarrow> u64" where
  "PeerKeyHash key =
     hash_add (hash_add (hash_add (foldl hash_add 1469598103934665603 (peer_address key))
       (hi8 (peer_port key))) (lo8 (peer_port key))) (peer_kind key)"

section \<open>Pending TCP flows\<close>

record Target =
  target_address :: string
  targetPort :: u16
  connectPort :: u16

record FlowEntry =
  flow_target :: Target
  flow_expiresAtMs :: u64

record FlowRegistry =
  flow_entries :: "(string, FlowEntry) table"
  flow_nextPruneMs :: u64

definition flow_prune :: "u64 \<Rightarrow> (string, FlowEntry) table \<Rightarrow> (string, FlowEntry) table" where
  "flow_prune now t = erase_if (\<lambda>item. flow_expiresAtMs (snd item) \<le> now) t"

definition flow_room :: "u64 \<Rightarrow> (string, FlowEntry) table \<Rightarrow> (string, FlowEntry) table" where
  "flow_room now t =
     (if length t \<ge> kMaxPendingFlows then
        let t1 = flow_prune now t in
        if length t1 \<ge> kMaxPendingFlows then erase_min (\<lambda>item. flow_expiresAtMs (snd item)) t1 else t1
      else t)"

definition flow_observe :: "string \<Rightarrow> u16 \<Rightarrow> u16 \<Rightarrow> u16 \<Rightarrow> u64 \<Rightarrow> u64 \<Rightarrow> FlowRegistry \<Rightarrow> FlowRegistry" where
  "flow_observe serverAddress clientPort tPort cPort nowMs tick r =
     (if serverAddress = [] \<or> clientPort = 0 \<or> tPort = 0 \<or> cPort = 0 then r
      else let now = clockMs nowMs tick;
               r1 = (if now \<ge> flow_nextPruneMs r
                     then r\<lparr>flow_entries := flow_prune now (flow_entries r),
                            flow_nextPruneMs := now + flow_kPruneIntervalMs\<rparr> else r)
        in r1\<lparr>flow_entries := AList.update (flowKey serverAddress clientPort)
             \<lparr>flow_target = \<lparr>target_address = serverAddress, targetPort = tPort, connectPort = cPort\<rparr>,
              flow_expiresAtMs = now + kPendingFlowTtlMs\<rparr>
             (flow_room now (flow_entries r1))\<rparr>)"

definition flow_claim :: "string \<Rightarrow> u16 \<Rightarrow> u64 \<Rightarrow> u64 \<Rightarrow> FlowRegistry \<Rightarrow> Target option \<times> FlowRegistry" where
  "flow_claim peerAddress peerPort nowMs tick r =
     (let now = clockMs nowMs tick; key = flowKey peerAddress peerPort in
      case map_of (flow_entries r) key of
        None \<Rightarrow> (None, r)
      | Some e \<Rightarrow>
          (if flow_expiresAtMs e > now then Some (flow_target e) else None,
           r\<lparr>flow_entries := AList.delete key (flow_entries r)\<rparr>))"

definition flow_size :: "u64 \<Rightarrow> u64 \<Rightarrow> FlowRegistry \<Rightarrow> nat \<times> FlowRegistry" where
  "flow_size nowMs tick r =
     (let t = flow_prune (clockMs nowMs tick) (flow_entries r)
      in (length t, r\<lparr>flow_entries := t\<rparr>))"

definition flow_clear :: "FlowRegistry \<Rightarrow> FlowRegistry" where
  "flow_clear r = r\<lparr>flow_entries := []\<rparr>"

section \<open>Pending datagrams\<close>

record DatagramEntry =
  pending :: u32
  datagram_expiresAtMs :: u64

record DatagramRegistry =
  datagram_entries :: "(string, DatagramEntry) table"
  datagram_nextPruneMs :: u64

definition datagram_prune :: "u64 \<Rightarrow> (string, DatagramEntry) table \<Rightarrow> (string, DatagramEntry) table" where
  "datagram_prune now t = erase_if (\<lambda>item. datagram_expiresAtMs (snd item) \<le> now) t"

definition datagram_room :: "u64 \<Rightarrow> (string, DatagramEntry) table \<Rightarrow> (string, DatagramEntry) table" where
  "datagram_room now t =
     (if length t \<ge> kMaxPendingFlows then
        let t1 = datagram_prune now t in
        if length t1 \<ge> kMaxPendingFlows then erase_min (\<lambda>item. datagram_expiresAtMs (snd item)) t1 else t1
      else t)"

definition datagram_observe :: "string \<Rightarrow> u16 \<Rightarrow> u64 \<Rightarrow> u64 \<Rightarrow> DatagramRegistry \<Rightarrow> DatagramRegistry" where
  "datagram_observe serverAddress clientPort nowMs tick r =
     (if serverAddress = [] \<or> clientPort = 0 then r
      else let now = clockMs nowMs tick;
               r1 = (if now \<ge> datagram_nextPruneMs r
                     then r\<lparr>datagram_entries := datagram_prune now (datagram_entries r),
                            datagram_nextPruneMs := now + flow_kPruneIntervalMs\<rparr> else r);
               key = flowKey serverAddress clientPort
        in case map_of (datagram_entries r1) key of
             Some e \<Rightarrow>
               (let before = (if datagram_expiresAtMs e \<le> now then 0 else pending e)
                in r1\<lparr>datagram_entries := AList.update key
                     \<lparr>pending = min (before + 1) kMaxPendingDatagramsPerTuple,
                      datagram_expiresAtMs = now + kPendingFlowTtlMs\<rparr> (datagram_entries r1)\<rparr>)
           | None \<Rightarrow>
               r1\<lparr>datagram_entries := AList.update key
                 \<lparr>pending = 1, datagram_expiresAtMs = now + kPendingFlowTtlMs\<rparr>
                 (datagram_room now (datagram_entries r1))\<rparr>)"

definition datagram_claim :: "string \<Rightarrow> u16 \<Rightarrow> u64 \<Rightarrow> u64 \<Rightarrow> DatagramRegistry \<Rightarrow> bool \<times> DatagramRegistry" where
  "datagram_claim peerAddress peerPort nowMs tick r =
     (let now = clockMs nowMs tick; key = flowKey peerAddress peerPort in
      case map_of (datagram_entries r) key of
        None \<Rightarrow> (False, r)
      | Some e \<Rightarrow>
          if datagram_expiresAtMs e \<le> now \<or> pending e = 0
          then (False, r\<lparr>datagram_entries := AList.delete key (datagram_entries r)\<rparr>)
          else if pending e - 1 = 0
          then (True, r\<lparr>datagram_entries := AList.delete key (datagram_entries r)\<rparr>)
          else (True, r\<lparr>datagram_entries := AList.update key (e\<lparr>pending := pending e - 1\<rparr>)
                  (datagram_entries r)\<rparr>))"

definition datagram_size :: "u64 \<Rightarrow> u64 \<Rightarrow> DatagramRegistry \<Rightarrow> nat \<times> DatagramRegistry" where
  "datagram_size nowMs tick r =
     (let t = datagram_prune (clockMs nowMs tick) (datagram_entries r)
      in (length t, r\<lparr>datagram_entries := t\<rparr>))"

definition datagram_clear :: "DatagramRegistry \<Rightarrow> DatagramRegistry" where
  "datagram_clear r = r\<lparr>datagram_entries := []\<rparr>"

section \<open>Rewritten TCP tuples\<close>

datatype TupleKind = Client | Upstream

fun kind_byte :: "TupleKind \<Rightarrow> byte" where
  "kind_byte Client = 1"
| "kind_byte Upstream = 2"

record TcpEntry =
  tcp_expiresAtMs :: u64
  closing :: bool

record TcpFlowTable =
  tcp_entries :: "(PeerKey, TcpEntry) table"
  nextSweepMs :: u64

definition tupleKey :: "TupleKind \<Rightarrow> Address \<Rightarrow> u16 \<Rightarrow> PeerKey" where
  "tupleKey kind server localPort =
     \<lparr>peer_address = server, peer_port = localPort, peer_kind = kind_byte kind\<rparr>"

text \<open>
  \<open>std::nth_element\<close> puts the entries with the earliest expiry in front. Among equal expiries
  it may pick any; the sort below picks by iteration order, which is arbitrary as well.
\<close>

definition tcp_evictOldest :: "(PeerKey, TcpEntry) table \<Rightarrow> (PeerKey, TcpEntry) table" where
  "tcp_evictOldest t =
     (let victims = take (max 1 (length t div 16)) (sort_key (\<lambda>item. tcp_expiresAtMs (snd item)) t)
      in erase_if (\<lambda>item. fst item \<in> set (map fst victims)) t)"

definition tcp_makeRoom :: "u64 \<Rightarrow> TcpFlowTable \<Rightarrow> TcpFlowTable" where
  "tcp_makeRoom now table =
     (if now \<ge> nextSweepMs table then
        let table1 = table\<lparr>nextSweepMs := now + flow_kPruneIntervalMs,
              tcp_entries := erase_if (\<lambda>item. tcp_expiresAtMs (snd item) \<le> now) (tcp_entries table)\<rparr>
        in if length (tcp_entries table1) < kMaxTcpFlows then table1
           else table1\<lparr>tcp_entries := tcp_evictOldest (tcp_entries table1)\<rparr>
      else table\<lparr>tcp_entries := tcp_evictOldest (tcp_entries table)\<rparr>)"

definition tcp_add :: "TupleKind \<Rightarrow> Address \<Rightarrow> u16 \<Rightarrow> u64 \<Rightarrow> u64 \<Rightarrow> TcpFlowTable \<Rightarrow> TcpFlowTable" where
  "tcp_add kind server localPort nowMs tick table =
     (if localPort = 0 then table
      else let now = clockMs nowMs tick;
               key = tupleKey kind server localPort;
               entry = \<lparr>tcp_expiresAtMs = now + kTcpFlowIdleMs, closing = False\<rparr>
        in if map_of (tcp_entries table) key \<noteq> None
           then table\<lparr>tcp_entries := AList.update key entry (tcp_entries table)\<rparr>
           else let table1 = (if length (tcp_entries table) \<ge> kMaxTcpFlows
                              then tcp_makeRoom now table else table)
             in table1\<lparr>tcp_entries := AList.update key entry (tcp_entries table1)\<rparr>)"

definition tcp_track ::
  "TupleKind \<Rightarrow> Address \<Rightarrow> u16 \<Rightarrow> bool \<Rightarrow> bool \<Rightarrow> u64 \<Rightarrow> u64 \<Rightarrow> TcpFlowTable \<Rightarrow> bool \<times> TcpFlowTable" where
  "tcp_track kind server localPort fin rst nowMs tick table =
     (let now = clockMs nowMs tick; key = tupleKey kind server localPort in
      case map_of (tcp_entries table) key of
        None \<Rightarrow> (False, table)
      | Some e \<Rightarrow>
          if tcp_expiresAtMs e \<le> now \<or> rst
          then (tcp_expiresAtMs e > now, table\<lparr>tcp_entries := AList.delete key (tcp_entries table)\<rparr>)
          else let e1 = (if fin then e\<lparr>closing := True\<rparr> else e);
                   e2 = e1\<lparr>tcp_expiresAtMs := now + (if closing e1 then kTcpFlowClosingMs else kTcpFlowIdleMs)\<rparr>
            in (True, table\<lparr>tcp_entries := AList.update key e2 (tcp_entries table)\<rparr>))"

definition tcp_remove :: "TupleKind \<Rightarrow> Address \<Rightarrow> u16 \<Rightarrow> TcpFlowTable \<Rightarrow> TcpFlowTable" where
  "tcp_remove kind server localPort table =
     table\<lparr>tcp_entries := AList.delete (tupleKey kind server localPort) (tcp_entries table)\<rparr>"

definition tcp_size :: "TcpFlowTable \<Rightarrow> nat" where
  "tcp_size table = length (tcp_entries table)"

definition tcp_clear :: "TcpFlowTable \<Rightarrow> TcpFlowTable" where
  "tcp_clear table = table\<lparr>tcp_entries := [], nextSweepMs := 0\<rparr>"

section \<open>Routing\<close>

datatype PacketRoute = Pass | ReflectClientToProxy | ReflectProxyToClient
  | RedirectProxyToTarget | RedirectTargetToProxy

definition routePacket :: "bool \<Rightarrow> u16 \<Rightarrow> u16 \<Rightarrow> u16 \<Rightarrow> u16 \<Rightarrow> u16 \<Rightarrow> PacketRoute" where
  "routePacket outbound sourcePort destinationPort tPort proxyPort cPort =
     (if outbound then
        (if sourcePort = proxyPort then ReflectProxyToClient
         else if destinationPort = cPort then RedirectProxyToTarget
         else if destinationPort = tPort then ReflectClientToProxy
         else Pass)
      else if sourcePort = tPort then RedirectTargetToProxy
      else Pass)"

datatype DatagramRoute = PassDatagram | ReflectDnsToProxy | ReflectDnsToClient

definition routeDatagram :: "bool \<Rightarrow> u16 \<Rightarrow> u16 \<Rightarrow> u16 \<Rightarrow> u16 \<Rightarrow> DatagramRoute" where
  "routeDatagram outbound sourcePort destinationPort dnsPort proxyPort =
     (if \<not> outbound then PassDatagram
      else if sourcePort = proxyPort then ReflectDnsToClient
      else if destinationPort = dnsPort then ReflectDnsToProxy
      else PassDatagram)"

section \<open>Keys\<close>

lemma bar_not_digit: "CHR ''|'' \<notin> set (dec_digits n)"
  using isdigit_dec_digits [of "CHR ''|''" n] by (auto simp: isdigit_def)

lemma flowKey_inject: "flowKey a p = flowKey a' p' \<longleftrightarrow> a = a' \<and> p = p'"
proof
  assume "flowKey a p = flowKey a' p'"
  then have "a = a' \<and> dec_digits (unat p) = dec_digits (unat p')"
    using last_separator_unique [of a "CHR ''|''" "dec_digits (unat p)" a'] bar_not_digit
    by (simp add: flowKey_def)
  then show "a = a' \<and> p = p'" by (simp add: dec_digits_inject word_unat_eq_iff)
qed simp

section \<open>A claim needs an observation\<close>

datatype flow_op =
    FlowObserve string u16 u16 u16 u64 u64
  | FlowClaim string u16 u64 u64
  | FlowSize u64 u64
  | FlowClear

fun flow_step :: "flow_op \<Rightarrow> FlowRegistry \<Rightarrow> FlowRegistry" where
  "flow_step (FlowObserve a p tp cp n k) r = flow_observe a p tp cp n k r"
| "flow_step (FlowClaim a p n k) r = snd (flow_claim a p n k r)"
| "flow_step (FlowSize n k) r = snd (flow_size n k r)"
| "flow_step FlowClear r = flow_clear r"

text \<open>
  What the registry is allowed to know about a peer, from the operations so far (latest
  first): the target and expiry of the last valid observation that nothing has used up.
\<close>

fun flow_log :: "flow_op list \<Rightarrow> string \<Rightarrow> u16 \<Rightarrow> (Target \<times> u64) option" where
  "flow_log [] addr port = None"
| "flow_log (FlowObserve a p tp cp n k # ops) addr port =
     (if a = addr \<and> p = port \<and> a \<noteq> [] \<and> p \<noteq> 0 \<and> tp \<noteq> 0 \<and> cp \<noteq> 0
      then Some (\<lparr>target_address = a, targetPort = tp, connectPort = cp\<rparr>, clockMs n k + 15000)
      else flow_log ops addr port)"
| "flow_log (FlowClaim a p n k # ops) addr port =
     (if a = addr \<and> p = port then None else flow_log ops addr port)"
| "flow_log (FlowSize n k # ops) addr port = flow_log ops addr port"
| "flow_log (FlowClear # ops) addr port = None"

definition flow_hist_step :: "flow_op \<Rightarrow> FlowRegistry \<times> flow_op list \<Rightarrow> FlowRegistry \<times> flow_op list" where
  "flow_hist_step op = (\<lambda>(r, ops). (flow_step op r, op # ops))"

definition flow_reorder :: "FlowRegistry \<times> flow_op list \<Rightarrow> FlowRegistry \<times> flow_op list \<Rightarrow> bool" where
  "flow_reorder = (\<lambda>(r, ops) (r', ops'). mset (flow_entries r') = mset (flow_entries r) \<and>
     flow_nextPruneMs r' = flow_nextPruneMs r \<and> ops' = ops)"

definition emptyFlows :: FlowRegistry where
  "emptyFlows = \<lparr>flow_entries = [], flow_nextPruneMs = 0\<rparr>"

definition flows_logged :: "FlowRegistry \<times> flow_op list \<Rightarrow> bool" where
  "flows_logged = (\<lambda>(r, ops). table_ok kMaxPendingFlows (\<lambda>_. True) (flow_entries r) \<and>
     (\<forall>a p e. map_of (flow_entries r) (flowKey a p) = Some e \<longrightarrow>
        flow_log ops a p = Some (flow_target e, flow_expiresAtMs e)))"

interpretation flow_evict: evictor kMaxPendingFlows
  "\<lambda>now item. flow_expiresAtMs (snd item :: FlowEntry) \<le> now" "\<lambda>item. flow_expiresAtMs (snd item :: FlowEntry)"
  by unfold_locales (simp add: kMaxPendingFlows_def)

lemma flow_room_evict:
  "flow_room now = evict kMaxPendingFlows (\<lambda>item. flow_expiresAtMs (snd item) \<le> now)
     (\<lambda>item. flow_expiresAtMs (snd item))"
  by (auto simp: flow_room_def flow_prune_def evict_def Let_def fun_eq_iff)

lemma flow_prune_lookup:
  "distinct (keys t) \<Longrightarrow> map_of (flow_prune now t) k = Some e \<Longrightarrow> map_of t k = Some e"
  by (auto simp: flow_prune_def map_of_erase_if split: option.splits if_splits)

lemma flow_room_lookup:
  "distinct (keys t) \<Longrightarrow> map_of (flow_room now t) k = Some e \<Longrightarrow> map_of t k = Some e"
  unfolding flow_room_evict by (rule map_of_subset [OF _ evict_subset])

lemma flow_observe_logged:
  fixes a :: string and p tp cp :: u16 and n k :: u64
  assumes ok: "table_ok kMaxPendingFlows (\<lambda>_. True) (flow_entries r)"
  defines "r' \<equiv> flow_observe a p tp cp n k r"
  shows "table_ok kMaxPendingFlows (\<lambda>_. True) (flow_entries r') \<and>
    (\<forall>key e. map_of (flow_entries r') key = Some e \<longrightarrow>
       (a \<noteq> [] \<and> p \<noteq> 0 \<and> tp \<noteq> 0 \<and> cp \<noteq> 0 \<and> key = flowKey a p \<and>
        e = \<lparr>flow_target = \<lparr>target_address = a, targetPort = tp, connectPort = cp\<rparr>,
             flow_expiresAtMs = clockMs n k + 15000\<rparr>) \<or>
       (\<not> (a \<noteq> [] \<and> p \<noteq> 0 \<and> tp \<noteq> 0 \<and> cp \<noteq> 0 \<and> key = flowKey a p) \<and>
        map_of (flow_entries r) key = Some e))"
proof (cases "a = [] \<or> p = 0 \<or> tp = 0 \<or> cp = 0")
  case True
  then show ?thesis using ok by (auto simp: r'_def flow_observe_def)
next
  case False
  let ?now = "clockMs n k"
  let ?t = "if ?now \<ge> flow_nextPruneMs r then flow_prune ?now (flow_entries r) else flow_entries r"
  let ?e = "\<lparr>flow_target = \<lparr>target_address = a, targetPort = tp, connectPort = cp\<rparr>,
             flow_expiresAtMs = ?now + 15000\<rparr>"
  have t: "table_ok kMaxPendingFlows (\<lambda>_. True) ?t" using ok by (simp add: flow_prune_def)
  then have "table_ok kMaxPendingFlows (\<lambda>_. True) (AList.update (flowKey a p) ?e (flow_room ?now ?t))"
    unfolding flow_room_evict by (rule flow_evict.insert_ok) simp
  moreover have "map_of (flow_entries r) key = Some e" if "map_of (flow_room ?now ?t) key = Some e" for key e
  proof -
    have "map_of ?t key = Some e" using flow_room_lookup [OF _ that] t by (simp add: table_ok_def)
    then show ?thesis
      using flow_prune_lookup [of "flow_entries r"] ok by (auto simp: table_ok_def split: if_splits)
  qed
  moreover have "flow_entries r' = AList.update (flowKey a p) ?e (flow_room ?now ?t)"
    using False by (simp add: r'_def flow_observe_def Let_def kPendingFlowTtlMs_def)
  ultimately show ?thesis using False by (auto split: if_splits)
qed

interpretation flow_history: machine flow_hist_step flow_reorder flows_logged
proof
  show "flows_logged s \<Longrightarrow> flows_logged (flow_hist_step op s)" for s op
  proof -
    obtain r ops where s: "s = (r, ops)" by (cases s)
    assume "flows_logged s"
    then have ok: "table_ok kMaxPendingFlows (\<lambda>_. True) (flow_entries r)"
      and known: "\<And>a p e. map_of (flow_entries r) (flowKey a p) = Some e \<Longrightarrow>
        flow_log ops a p = Some (flow_target e, flow_expiresAtMs e)"
      by (auto simp: flows_logged_def s)
    show ?thesis
    proof (cases op)
      case (FlowObserve a p tp cp n k)
      then show ?thesis
        using flow_observe_logged [OF ok, of a p tp cp n k] known
        by (fastforce simp: flows_logged_def flow_hist_step_def s flowKey_inject)
    next
      case (FlowClaim a p n k)
      then show ?thesis
        using ok known
        by (auto simp: flows_logged_def flow_hist_step_def s flow_claim_def Let_def flowKey_inject
            split: option.splits if_splits)
    next
      case (FlowSize n k)
      then show ?thesis
        using ok known flow_prune_lookup [of "flow_entries r" "clockMs n k"]
        by (auto simp: flows_logged_def flow_hist_step_def s flow_size_def Let_def table_ok_def
            flow_prune_def [of _ "flow_entries r"] intro: order_trans [OF length_erase_if])
    qed (simp add: flows_logged_def flow_hist_step_def s flow_clear_def)
  qed
  show "flows_logged s \<Longrightarrow> flow_reorder s s' \<Longrightarrow> flows_logged s'" for s s'
    using map_of_reorder [of "flow_entries (fst s)" "flow_entries (fst s')"]
      table_ok_reorder [of kMaxPendingFlows "\<lambda>_. True" "flow_entries (fst s)" "flow_entries (fst s')"]
    by (cases s; cases s') (auto simp: flows_logged_def flow_reorder_def table_ok_def)
qed

text \<open>
  An accepted connection is treated as a redirected one only if the interceptor saw its
  SYN: in every history, a claim that succeeds returns exactly the target of the last
  observation of that peer address and port, at most 15 seconds old and not claimed before.
  Different peers never share an entry, and at most 8192 observations are pending.
\<close>

lemma flow_claim_authentic:
  assumes "reach flow_hist_step flow_reorder (emptyFlows, []) (r, ops)"
  shows "length (flow_entries r) \<le> 8192 \<and>
    (case fst (flow_claim peerAddress peerPort nowMs tick r) of
       None \<Rightarrow> True
     | Some target \<Rightarrow> \<exists>expiry. flow_log ops peerAddress peerPort = Some (target, expiry) \<and>
         clockMs nowMs tick < expiry)"
proof -
  have "flows_logged (r, ops)"
    by (rule flow_history.reach_inv [OF assms]) (simp add: flows_logged_def emptyFlows_def)
  then show ?thesis
    by (auto simp: flows_logged_def flow_claim_def Let_def table_ok_def kMaxPendingFlows_def
        split: option.splits)
qed

definition sampleObserve :: flow_op where
  "sampleObserve = FlowObserve ''192.0.2.7'' 50000 443 61000 1000 0"

lemma flow_claim_authentic_example:
  "fst (flow_claim ''192.0.2.7'' 50000 2000 0 (flow_step sampleObserve emptyFlows)) =
     Some \<lparr>target_address = ''192.0.2.7'', targetPort = 443, connectPort = 61000\<rparr> \<and>
   (\<exists>expiry. flow_log [sampleObserve] ''192.0.2.7'' 50000 =
      Some (\<lparr>target_address = ''192.0.2.7'', targetPort = 443, connectPort = 61000\<rparr>, expiry))"
proof -
  have c: "fst (flow_claim ''192.0.2.7'' 50000 2000 0 (flow_step sampleObserve emptyFlows)) =
     Some \<lparr>target_address = ''192.0.2.7'', targetPort = 443, connectPort = 61000\<rparr>" by code_simp
  have "reach flow_hist_step flow_reorder (emptyFlows, []) (flow_hist_step sampleObserve (emptyFlows, []))"
    by (rule reach.operation [OF reach.start])
  then have "reach flow_hist_step flow_reorder (emptyFlows, []) (flow_step sampleObserve emptyFlows, [sampleObserve])"
    by (simp add: flow_hist_step_def)
  from flow_claim_authentic [OF this, of "''192.0.2.7''" 50000 2000 0] show ?thesis
    using c by auto
qed

text \<open>
  The other direction: a SYN that was just observed can be claimed once, within 15
  seconds, with its own target; the second claim fails.
\<close>

lemma flow_observe_claim:
  assumes "serverAddress \<noteq> []" "clientPort \<noteq> 0" "tPort \<noteq> 0" "cPort \<noteq> 0"
    and "clockMs nowMs' tick' < clockMs nowMs tick + 15000"
  shows "fst (flow_claim serverAddress clientPort nowMs' tick'
      (flow_observe serverAddress clientPort tPort cPort nowMs tick r)) =
      Some \<lparr>target_address = serverAddress, targetPort = tPort, connectPort = cPort\<rparr> \<and>
    fst (flow_claim serverAddress clientPort nowMs'' tick'' (snd (flow_claim serverAddress clientPort nowMs' tick'
      (flow_observe serverAddress clientPort tPort cPort nowMs tick r)))) = None"
  using assms by (auto simp: flow_claim_def flow_observe_def Let_def kPendingFlowTtlMs_def)

lemma flow_observe_claim_witness:
  "fst (flow_claim ''192.0.2.7'' 50000 2000 0 (flow_observe ''192.0.2.7'' 50000 443 61000 1000 0 emptyFlows)) =
     Some \<lparr>target_address = ''192.0.2.7'', targetPort = 443, connectPort = 61000\<rparr>"
  using flow_observe_claim [of "''192.0.2.7''" 50000 443 61000 2000 0 1000 0 emptyFlows]
  by (simp add: clockMs_def)

end
