(* ===== verification/Flow_Tables.thy ===== *)
theory Flow_Tables
  imports Transparent_Flow
begin

text \<open>
  Properties of the datagram registry and of the table of rewritten TCP tuples: no datagram is
  answered more often than it was seen, and a packet is rewritten only for a tuple whose SYN
  was.
\<close>

section \<open>Datagrams\<close>

datatype datagram_op =
    DatagramObserve string u16 u64 u64
  | DatagramClaim string u16 u64 u64
  | DatagramSize u64 u64
  | DatagramClear

datatype datagram_event = Seen string u16 | Granted string u16

text \<open>A registry with the log of datagrams seen and claims granted so far.\<close>

fun datagram_step :: "datagram_op \<Rightarrow> DatagramRegistry \<times> datagram_event list \<Rightarrow> DatagramRegistry \<times> datagram_event list" where
  "datagram_step (DatagramObserve a p n k) (r, events) =
     (datagram_observe a p n k r, if a = [] \<or> p = 0 then events else Seen a p # events)"
| "datagram_step (DatagramClaim a p n k) (r, events) =
     (case datagram_claim a p n k r of (ok, r') \<Rightarrow> (r', if ok then Granted a p # events else events))"
| "datagram_step (DatagramSize n k) (r, events) = (snd (datagram_size n k r), events)"
| "datagram_step DatagramClear (r, events) = (datagram_clear r, events)"

definition datagram_reorder :: "DatagramRegistry \<times> datagram_event list \<Rightarrow> DatagramRegistry \<times> datagram_event list \<Rightarrow> bool" where
  "datagram_reorder = (\<lambda>(r, ev) (r', ev'). mset (datagram_entries r') = mset (datagram_entries r) \<and>
     datagram_nextPruneMs r' = datagram_nextPruneMs r \<and> ev' = ev)"

definition emptyDatagrams :: DatagramRegistry where
  "emptyDatagrams = \<lparr>datagram_entries = [], datagram_nextPruneMs = 0\<rparr>"

definition owed :: "(string, DatagramEntry) table \<Rightarrow> string \<Rightarrow> u16 \<Rightarrow> nat" where
  "owed t a p = (case map_of t (flowKey a p) of None \<Rightarrow> 0 | Some e \<Rightarrow> unat (pending e))"

definition datagrams_paid :: "DatagramRegistry \<times> datagram_event list \<Rightarrow> bool" where
  "datagrams_paid = (\<lambda>(r, events).
     table_ok kMaxPendingFlows (\<lambda>e. unat (pending e) \<le> 32) (datagram_entries r) \<and>
     (\<forall>a p. count_list events (Granted a p) + owed (datagram_entries r) a p \<le> count_list events (Seen a p)))"

interpretation datagram_evict: evictor kMaxPendingFlows
  "\<lambda>now item. datagram_expiresAtMs (snd item :: DatagramEntry) \<le> now"
  "\<lambda>item. datagram_expiresAtMs (snd item :: DatagramEntry)"
  by unfold_locales (simp add: kMaxPendingFlows_def)

lemma datagram_room_evict:
  "datagram_room now = evict kMaxPendingFlows (\<lambda>item. datagram_expiresAtMs (snd item) \<le> now)
     (\<lambda>item. datagram_expiresAtMs (snd item))"
  by (auto simp: datagram_room_def datagram_prune_def evict_def Let_def fun_eq_iff)

lemma owed_subset: "distinct (keys t) \<Longrightarrow> set t' \<subseteq> set t \<Longrightarrow> owed t' a p \<le> owed t a p"
  using map_of_subset [of t t' "flowKey a p"]
  by (cases "map_of t' (flowKey a p)") (simp_all add: owed_def)

lemma owed_update:
  "owed (AList.update (flowKey a p) e t) a' p' = (if a' = a \<and> p' = p then unat (pending e) else owed t a' p')"
  by (simp add: owed_def flowKey_inject)

lemma owed_delete:
  "owed (AList.delete (flowKey a p) t) a' p' = (if a' = a \<and> p' = p then 0 else owed t a' p')"
  by (simp add: owed_def flowKey_inject)

text \<open>An observation raises what is owed to its peer by at most one.\<close>

lemma datagram_observe_owed:
  assumes ok: "table_ok kMaxPendingFlows (\<lambda>e. unat (pending e) \<le> 32) (datagram_entries r)"
    and valid: "a \<noteq> []" "p \<noteq> 0"
  shows "table_ok kMaxPendingFlows (\<lambda>e. unat (pending e) \<le> 32) (datagram_entries (datagram_observe a p n k r)) \<and>
    owed (datagram_entries (datagram_observe a p n k r)) a' p' \<le>
      owed (datagram_entries r) a' p' + (if a' = a \<and> p' = p then 1 else 0)"
proof -
  let ?now = "clockMs n k"
  define r1 where "r1 = (if ?now \<ge> datagram_nextPruneMs r
    then r\<lparr>datagram_entries := datagram_prune ?now (datagram_entries r),
           datagram_nextPruneMs := ?now + flow_kPruneIntervalMs\<rparr> else r)"
  let ?t = "datagram_entries r1" and ?k = "flowKey a p"
  have t: "table_ok kMaxPendingFlows (\<lambda>e. unat (pending e) \<le> 32) ?t" "set ?t \<subseteq> set (datagram_entries r)"
    using ok by (auto simp: r1_def datagram_prune_def)
  have le: "owed ?t a' p' \<le> owed (datagram_entries r) a' p'"
    using owed_subset [OF _ t(2)] ok by (simp add: table_ok_def)
  show ?thesis
  proof (cases "map_of ?t ?k")
    case (Some e)
    let ?before = "if datagram_expiresAtMs e \<le> ?now then 0 else pending e"
    let ?n = "min (?before + 1) kMaxPendingDatagramsPerTuple"
    have e: "unat (pending e) \<le> 32" using table_ok_value [OF t(1) Some] .
    then have "unat (?before + 1) = unat ?before + 1"
      by (auto simp: unat_word_ariths)
    then have n: "unat ?n \<le> unat (pending e) + 1" "unat ?n \<le> 32"
      by (auto simp: min_def word_le_nat_alt kMaxPendingDatagramsPerTuple_def)
    have upd: "datagram_entries (datagram_observe a p n k r) = AList.update ?k
        \<lparr>pending = ?n, datagram_expiresAtMs = ?now + kPendingFlowTtlMs\<rparr> ?t"
      using valid Some by (simp add: datagram_observe_def Let_def r1_def [symmetric] split: option.splits)
    have "owed ?t a p = unat (pending e)" by (simp add: owed_def Some)
    then show ?thesis
      unfolding upd using n le Some t(1) by (auto simp: owed_update intro!: table_ok_update)
  next
    case None
    have upd: "datagram_entries (datagram_observe a p n k r) = AList.update ?k
        \<lparr>pending = 1, datagram_expiresAtMs = ?now + kPendingFlowTtlMs\<rparr> (datagram_room ?now ?t)"
      using valid None by (simp add: datagram_observe_def Let_def r1_def [symmetric] split: option.splits)
    have "owed (datagram_room ?now ?t) a' p' \<le> owed ?t a' p'"
      unfolding datagram_room_evict by (rule owed_subset [OF _ evict_subset]) (use t in \<open>simp add: table_ok_def\<close>)
    then show ?thesis
      unfolding upd using le t(1) by (auto simp: owed_update datagram_room_evict intro!: datagram_evict.insert_ok)
  qed
qed

lemma datagram_step_paid: "datagrams_paid s \<Longrightarrow> datagrams_paid (datagram_step op s)"
proof -
  assume inv: "datagrams_paid s"
  obtain r ev where s: "s = (r, ev)" by (cases s)
  have ok: "table_ok kMaxPendingFlows (\<lambda>e. unat (pending e) \<le> 32) (datagram_entries r)"
    and paid: "count_list ev (Granted a p) + owed (datagram_entries r) a p \<le> count_list ev (Seen a p)" for a p
    using inv by (auto simp: datagrams_paid_def s)
  show ?thesis
  proof (cases op)
    case (DatagramObserve a p n k)
    show ?thesis
    proof (cases "a = [] \<or> p = 0")
      case True
      then show ?thesis using inv by (auto simp: DatagramObserve s datagram_observe_def)
    next
      case False
      then have o: "table_ok kMaxPendingFlows (\<lambda>e. unat (pending e) \<le> 32)
          (datagram_entries (datagram_observe a p n k r))"
        "owed (datagram_entries (datagram_observe a p n k r)) a' p' \<le>
          owed (datagram_entries r) a' p' + (if a' = a \<and> p' = p then 1 else 0)" for a' p'
        using datagram_observe_owed [OF ok, of a p n k] by auto
      have "count_list (Seen a p # ev) (Granted a' p') + owed (datagram_entries (datagram_observe a p n k r)) a' p'
          \<le> count_list (Seen a p # ev) (Seen a' p')" for a' p'
        using o(2) [of a' p'] paid [of a' p'] by (auto split: if_splits)
      then show ?thesis using False o(1) by (simp add: DatagramObserve s datagrams_paid_def)
    qed
  next
    case (DatagramClaim a p n k)
    show ?thesis
    proof (cases "map_of (datagram_entries r) (flowKey a p)")
      case None
      then show ?thesis using inv by (simp add: DatagramClaim s datagram_claim_def)
    next
      case (Some e)
      have e: "unat (pending e) \<le> 32" using table_ok_value [OF ok Some] .
      have o: "owed (datagram_entries r) a p = unat (pending e)" by (simp add: owed_def Some)
      have dec: "unat (pending e - 1) = unat (pending e) - 1" if "pending e \<noteq> 0"
        using that by (simp add: unat_minus_one)
      have pos: "0 < unat (pending e)" if "pending e \<noteq> 0"
        using that by (simp add: unat_gt_0)
      show ?thesis
        using Some ok paid [of a p] paid e o dec pos
        by (auto simp: DatagramClaim s datagram_claim_def Let_def datagrams_paid_def owed_update owed_delete
            intro!: table_ok_update)
    qed
  next
    case (DatagramSize n k)
    let ?t = "datagram_prune (clockMs n k) (datagram_entries r)"
    have "owed ?t a p \<le> owed (datagram_entries r) a p" for a p
      by (rule owed_subset) (use ok in \<open>auto simp: table_ok_def datagram_prune_def\<close>)
    then have "count_list ev (Granted a p) + owed ?t a p \<le> count_list ev (Seen a p)" for a p
      using paid [of a p] by (meson add_left_mono order_trans)
    moreover have "table_ok kMaxPendingFlows (\<lambda>e. unat (pending e) \<le> 32) ?t"
      using ok by (simp add: datagram_prune_def)
    ultimately show ?thesis by (simp add: DatagramSize s datagrams_paid_def datagram_size_def Let_def)
  next
    case DatagramClear
    then show ?thesis
      using add_leD1 [OF paid] by (simp add: s datagrams_paid_def datagram_clear_def owed_def)
  qed
qed

interpretation datagram_history: machine datagram_step datagram_reorder datagrams_paid
proof
  show "datagrams_paid s \<Longrightarrow> datagrams_paid (datagram_step op s)" for s op
    by (rule datagram_step_paid)
  show "datagrams_paid s \<Longrightarrow> datagram_reorder s s' \<Longrightarrow> datagrams_paid s'" for s s'
    using map_of_reorder [of "datagram_entries (fst s)" "datagram_entries (fst s')"]
      table_ok_reorder [of kMaxPendingFlows "\<lambda>e. unat (pending e) \<le> 32"
        "datagram_entries (fst s)" "datagram_entries (fst s')"]
    by (cases s; cases s') (auto simp: datagrams_paid_def datagram_reorder_def table_ok_def owed_def)
qed

text \<open>
  The DNS proxy never answers more datagrams than the interceptor reflected: in every
  history, the claims granted to a peer address and port are at most the datagrams seen from
  it. At most 32 are pending per peer and at most 8192 peers are remembered.
\<close>

lemma datagram_claims_bounded:
  assumes "reach datagram_step datagram_reorder (emptyDatagrams, []) (r, events)"
  shows "count_list events (Granted a p) \<le> count_list events (Seen a p) \<and>
    length (datagram_entries r) \<le> 8192 \<and> list_all (\<lambda>(key, e). unat (pending e) \<le> 32) (datagram_entries r)"
proof -
  have "datagrams_paid (r, events)"
    by (rule datagram_history.reach_inv [OF assms])
      (simp add: datagrams_paid_def emptyDatagrams_def owed_def)
  then have "table_ok kMaxPendingFlows (\<lambda>e. unat (pending e) \<le> 32) (datagram_entries r)"
    and "count_list events (Granted a p) + owed (datagram_entries r) a p \<le> count_list events (Seen a p)"
    by (auto simp: datagrams_paid_def)
  then show ?thesis
    by (auto simp: table_ok_def kMaxPendingFlows_def list_all_iff dest: add_leD1)
qed

lemma datagram_claims_bounded_example:
  "count_list (snd (datagram_step (DatagramClaim ''192.0.2.53'' 5353 20 0)
     (datagram_step (DatagramObserve ''192.0.2.53'' 5353 10 0) (emptyDatagrams, [])))) (Granted ''192.0.2.53'' 5353) = 1 \<and>
   count_list (snd (datagram_step (DatagramClaim ''192.0.2.53'' 5353 20 0)
     (datagram_step (DatagramObserve ''192.0.2.53'' 5353 10 0) (emptyDatagrams, [])))) (Seen ''192.0.2.53'' 5353) \<ge> 1"
proof -
  let ?s = "datagram_step (DatagramClaim ''192.0.2.53'' 5353 20 0)
     (datagram_step (DatagramObserve ''192.0.2.53'' 5353 10 0) (emptyDatagrams, []))"
  have g: "count_list (snd ?s) (Granted ''192.0.2.53'' 5353) = 1" by code_simp
  have "reach datagram_step datagram_reorder (emptyDatagrams, []) (fst ?s, snd ?s)"
    unfolding prod.collapse by (intro reach.operation reach.start)
  from datagram_claims_bounded [OF this, of "''192.0.2.53''" 5353] show ?thesis using g by simp
qed

section \<open>Rewritten TCP tuples\<close>

datatype tcp_op =
    TcpAdd TupleKind Address u16 u64 u64
  | TcpTrack TupleKind Address u16 bool bool u64 u64
  | TcpRemove TupleKind Address u16
  | TcpClear

fun tcp_step :: "tcp_op \<Rightarrow> TcpFlowTable \<Rightarrow> TcpFlowTable" where
  "tcp_step (TcpAdd k s p n t) table = tcp_add k s p n t table"
| "tcp_step (TcpTrack k s p fin rst n t) table = snd (tcp_track k s p fin rst n t table)"
| "tcp_step (TcpRemove k s p) table = tcp_remove k s p table"
| "tcp_step TcpClear table = tcp_clear table"

text \<open>Whether a tuple was added and not ended since, from the operations so far (latest first).\<close>

fun tcp_known :: "tcp_op list \<Rightarrow> TupleKind \<Rightarrow> Address \<Rightarrow> u16 \<Rightarrow> bool" where
  "tcp_known [] kind server port \<longleftrightarrow> False"
| "tcp_known (TcpAdd k s p n t # ops) kind server port \<longleftrightarrow>
     k = kind \<and> s = server \<and> p = port \<and> p \<noteq> 0 \<or> tcp_known ops kind server port"
| "tcp_known (TcpTrack k s p fin rst n t # ops) kind server port \<longleftrightarrow>
     \<not> (k = kind \<and> s = server \<and> p = port \<and> rst) \<and> tcp_known ops kind server port"
| "tcp_known (TcpRemove k s p # ops) kind server port \<longleftrightarrow>
     \<not> (k = kind \<and> s = server \<and> p = port) \<and> tcp_known ops kind server port"
| "tcp_known (TcpClear # ops) kind server port \<longleftrightarrow> False"

definition tcp_hist_step :: "tcp_op \<Rightarrow> TcpFlowTable \<times> tcp_op list \<Rightarrow> TcpFlowTable \<times> tcp_op list" where
  "tcp_hist_step op = (\<lambda>(t, ops). (tcp_step op t, op # ops))"

definition tcp_reorder :: "TcpFlowTable \<times> tcp_op list \<Rightarrow> TcpFlowTable \<times> tcp_op list \<Rightarrow> bool" where
  "tcp_reorder = (\<lambda>(t, ops) (t', ops'). mset (tcp_entries t') = mset (tcp_entries t) \<and>
     nextSweepMs t' = nextSweepMs t \<and> ops' = ops)"

definition emptyTcp :: TcpFlowTable where
  "emptyTcp = \<lparr>tcp_entries = [], nextSweepMs = 0\<rparr>"

abbreviation tcp_ok :: "TcpFlowTable \<Rightarrow> bool" where
  "tcp_ok table \<equiv> table_ok kMaxTcpFlows (\<lambda>_. True) (tcp_entries table)"

definition tuples_known :: "TcpFlowTable \<times> tcp_op list \<Rightarrow> bool" where
  "tuples_known = (\<lambda>(table, ops). tcp_ok table \<and>
     (\<forall>k s p. map_of (tcp_entries table) (tupleKey k s p) \<noteq> None \<longrightarrow> tcp_known ops k s p))"

lemma tupleKey_inject [simp]: "tupleKey k s p = tupleKey k' s' p' \<longleftrightarrow> k = k' \<and> s = s' \<and> p = p'"
  by (cases k; cases k') (auto simp: tupleKey_def)

lemma evictOldest_subset: "set (tcp_evictOldest t) \<subseteq> set t"
  by (auto simp: tcp_evictOldest_def Let_def)

lemma evictOldest_shrinks:
  assumes "t \<noteq> []"
  shows "length (tcp_evictOldest t) < length t"
proof -
  let ?sorted = "sort_key (\<lambda>item. tcp_expiresAtMs (snd item)) t"
  have "?sorted \<noteq> []" using assms by (metis length_0_conv length_sort)
  then obtain v vs where v: "take (max 1 (length t div 16)) ?sorted = v # vs"
    by (cases ?sorted; cases "max 1 (length t div 16)") auto
  then have "v \<in> set t" by (metis list.set_intros(1) set_sort set_take_subset subset_code(1))
  then show ?thesis
    unfolding tcp_evictOldest_def Let_def erase_if_def v by (intro length_filter_less) auto
qed

lemma tcp_makeRoom_frees:
  assumes "tcp_ok table"
  shows "tcp_ok (tcp_makeRoom now table)" "length (tcp_entries (tcp_makeRoom now table)) < kMaxTcpFlows"
    "set (tcp_entries (tcp_makeRoom now table)) \<subseteq> set (tcp_entries table)"
proof -
  have shrink: "length (tcp_evictOldest t) < kMaxTcpFlows" if "length t \<le> kMaxTcpFlows" for t
    using evictOldest_shrinks [of t] that by (cases t) (auto simp: kMaxTcpFlows_def tcp_evictOldest_def erase_if_def)
  have keep: "distinct (keys (tcp_evictOldest t))" if "distinct (keys t)" for t
    using that by (simp add: tcp_evictOldest_def Let_def)
  let ?live = "erase_if (\<lambda>item. tcp_expiresAtMs (snd item) \<le> now) (tcp_entries table)"
  have live: "length ?live \<le> kMaxTcpFlows" "distinct (keys ?live)"
    using assms order_trans [OF length_erase_if] by (auto simp: table_ok_def)
  show len: "length (tcp_entries (tcp_makeRoom now table)) < kMaxTcpFlows"
    using assms live shrink by (auto simp: tcp_makeRoom_def Let_def table_ok_def)
  show sub: "set (tcp_entries (tcp_makeRoom now table)) \<subseteq> set (tcp_entries table)"
    using evictOldest_subset [of ?live] evictOldest_subset [of "tcp_entries table"]
    by (auto simp: tcp_makeRoom_def Let_def)
  show "tcp_ok (tcp_makeRoom now table)"
    using len keep live(2) assms by (auto simp: tcp_makeRoom_def Let_def table_ok_def)
qed

lemma tcp_add_known:
  assumes ok: "tcp_ok table"
  shows "tcp_ok (tcp_add k s p n t table) \<and>
    (map_of (tcp_entries (tcp_add k s p n t table)) key \<noteq> None \<longrightarrow>
      (p \<noteq> 0 \<and> key = tupleKey k s p) \<or> map_of (tcp_entries table) key \<noteq> None)"
proof (cases "p = 0 \<or> map_of (tcp_entries table) (tupleKey k s p) \<noteq> None \<or> length (tcp_entries table) < kMaxTcpFlows")
  case True
  then show ?thesis using ok by (auto simp: tcp_add_def Let_def intro!: table_ok_update)
next
  case False
  note room = tcp_makeRoom_frees [OF ok, of "clockMs n t"]
  have "map_of (tcp_entries table) key \<noteq> None" if "map_of (tcp_entries (tcp_makeRoom (clockMs n t) table)) key = Some e" for e
    using map_of_subset [OF _ room(3) that] ok by (simp add: table_ok_def)
  then show ?thesis
    using False room(1,2) by (auto simp: tcp_add_def Let_def intro!: table_ok_update)
qed

interpretation tcp_history: machine tcp_hist_step tcp_reorder tuples_known
proof
  show "tuples_known s \<Longrightarrow> tuples_known (tcp_hist_step op s)" for s op
  proof -
    obtain table ops where s: "s = (table, ops)" by (cases s)
    assume "tuples_known s"
    then have ok: "tcp_ok table"
      and known: "\<And>k s p. map_of (tcp_entries table) (tupleKey k s p) \<noteq> None \<Longrightarrow> tcp_known ops k s p"
      by (auto simp: tuples_known_def s)
    show ?thesis
    proof (cases op)
      case (TcpAdd k sv p n t)
      then show ?thesis
        using tcp_add_known [OF ok, of k sv p n t] known by (fastforce simp: tuples_known_def tcp_hist_step_def s)
    next
      case (TcpTrack k sv p fin rst n t)
      then show ?thesis
        using ok known
        by (auto simp: tuples_known_def tcp_hist_step_def s tcp_track_def Let_def
            intro!: table_ok_update split: option.splits if_splits)
    qed (use ok known in \<open>auto simp: tuples_known_def tcp_hist_step_def s tcp_remove_def tcp_clear_def\<close>)
  qed
  show "tuples_known s \<Longrightarrow> tcp_reorder s s' \<Longrightarrow> tuples_known s'" for s s'
    using map_of_reorder [of "tcp_entries (fst s)" "tcp_entries (fst s')"]
      table_ok_reorder [of kMaxTcpFlows "\<lambda>_. True" "tcp_entries (fst s)" "tcp_entries (fst s')"]
    by (cases s; cases s') (auto simp: tuples_known_def tcp_reorder_def table_ok_def)
qed

text \<open>
  A packet is rewritten only for a tuple that was added on its SYN: in every history, if
  \<open>track\<close> accepts a tuple then it was added and since then neither reset, removed nor
  cleared. The table holds at most 65536 tuples.
\<close>

lemma tcp_track_authentic:
  assumes "reach tcp_hist_step tcp_reorder (emptyTcp, []) (table, ops)"
  shows "length (tcp_entries table) \<le> 65536 \<and>
    (if fst (tcp_track kind server localPort fin rst nowMs tick table)
     then tcp_known ops kind server localPort else True)"
proof -
  have "tuples_known (table, ops)"
    by (rule tcp_history.reach_inv [OF assms]) (simp add: tuples_known_def emptyTcp_def)
  then show ?thesis
    by (auto simp: tuples_known_def tcp_track_def Let_def table_ok_def kMaxTcpFlows_def
        split: option.splits if_splits)
qed

lemma tcp_track_authentic_example:
  "fst (tcp_track Client (replicate 16 1) 50000 False False 20 0
     (tcp_step (TcpAdd Client (replicate 16 1) 50000 10 0) emptyTcp)) \<and>
   tcp_known [TcpAdd Client (replicate 16 1) 50000 10 0] Client (replicate 16 1) 50000"
proof -
  let ?op = "TcpAdd Client (replicate 16 1) 50000 10 0"
  have c: "fst (tcp_track Client (replicate 16 1) 50000 False False 20 0 (tcp_step ?op emptyTcp))" by code_simp
  have "reach tcp_hist_step tcp_reorder (emptyTcp, []) (tcp_hist_step ?op (emptyTcp, []))"
    by (rule reach.operation [OF reach.start])
  then have "reach tcp_hist_step tcp_reorder (emptyTcp, []) (tcp_step ?op emptyTcp, [?op])"
    by (simp add: tcp_hist_step_def)
  from tcp_track_authentic [OF this, of Client "replicate 16 1" 50000 False False 20 0] show ?thesis
    using c by simp
qed

text \<open>
  The life of a tuple: once added it is accepted for the next four hours, a FIN shortens
  that to two minutes for every later packet, and after an RST it is gone.
\<close>

lemma tcp_track_lifetime:
  fixes kind :: TupleKind and server :: Address and table :: TcpFlowTable
  assumes "localPort \<noteq> 0" and "clockMs nB tB < clockMs nA tA + kTcpFlowIdleMs"
    and "clockMs nC tC < clockMs nB tB + kTcpFlowClosingMs"
  defines "added \<equiv> tcp_add kind server localPort nA tA table"
  shows "fst (tcp_track kind server localPort True False nB tB added) \<and>
    fst (tcp_track kind server localPort fin rst nC tC (snd (tcp_track kind server localPort True False nB tB added))) \<and>
    \<not> fst (tcp_track kind server localPort fin' rst' nD tD
        (snd (tcp_track kind server localPort fin True nB tB added))) \<and>
    (if clockMs nB tB + kTcpFlowClosingMs \<le> clockMs nD tD
     then \<not> fst (tcp_track kind server localPort fin' rst' nD tD
        (snd (tcp_track kind server localPort True False nB tB added))) else True)"
proof -
  have e: "map_of (tcp_entries added) (tupleKey kind server localPort) =
      Some \<lparr>tcp_expiresAtMs = clockMs nA tA + kTcpFlowIdleMs, closing = False\<rparr>"
    using assms(1) by (simp add: added_def tcp_add_def Let_def)
  then show ?thesis using assms(2,3) by (auto simp: tcp_track_def Let_def)
qed

lemma tcp_track_lifetime_witness:
  "fst (tcp_track Client [1] 50000 True False 20 0 (tcp_add Client [1] 50000 10 0 emptyTcp))"
  using tcp_track_lifetime [where localPort = 50000 and kind = Client and server = "[1]" and
      table = emptyTcp and nA = 10 and nB = 20 and nC = 30 and tA = 0 and tB = 0 and tC = 0]
  by (simp add: clockMs_def kTcpFlowIdleMs_def kTcpFlowClosingMs_def)

end
