(* ===== verification/Packet_Strategy.thy ===== *)
theory Packet_Strategy
  imports Strategy_Plan
begin

text \<open>
  The packet transformations of \<open>src/src/PacketStrategy.hpp\<close> and \<open>PacketStrategy.cpp\<close>: the
  policy of a profile, the cover ClientHello, TCP segments in another order, and IPv4
  fragments. A masked \<open>& ~7\<close> on a size is a multiple of eight below it.
\<close>

datatype Mode = NoMode | ReverseOrder | FakeBadSequence | FakeBadChecksum | FakeAutoTtl
  | SequenceOverlap | IpFragment

record Policy =
  mode :: Mode
  splitOffset :: nat
  overlapBytes :: nat
  fakeSequenceDelta :: int
  fakeTtl :: byte
  coverSni :: string
  sniBegin :: nat
  policy_sniEnd :: nat

definition defaultPolicy :: Policy where
  "defaultPolicy = \<lparr>mode = NoMode, splitOffset = 2, overlapBytes = 8, fakeSequenceDelta = -10000,
     fakeTtl = 0, coverSni = ''www.google.com'', sniBegin = 0, policy_sniEnd = 0\<rparr>"

record Segment =
  sequenceOffset :: "32 word"
  segment_payload :: "byte list"

definition append16 :: "u16 \<Rightarrow> byte list" where
  "append16 v = [hi8 v, lo8 v]"

definition append24 :: "nat \<Rightarrow> byte list" where
  "append24 v = [of_nat (v div 65536), of_nat (v div 256), of_nat v]"

definition inferPathHops :: "byte \<Rightarrow> byte" where
  "inferPathHops receivedTtl =
     (if receivedTtl \<le> 64 then 64 - receivedTtl
      else if receivedTtl \<le> 128 then 128 - receivedTtl
      else if receivedTtl \<le> 255 then 255 - receivedTtl
      else 0)"

definition isPacketProfile :: "string \<Rightarrow> bool" where
  "isPacketProfile profile = starts_with profile ''packet-''"

definition profileMode :: "string \<Rightarrow> Mode option" where
  "profileMode profile =
     (if profile = ''packet-reverse'' then Some ReverseOrder
      else if profile = ''packet-fake-badseq'' then Some FakeBadSequence
      else if profile = ''packet-fake-badsum'' then Some FakeBadChecksum
      else if profile = ''packet-autottl'' then Some FakeAutoTtl
      else if profile = ''packet-seqovl'' then Some SequenceOverlap
      else if profile = ''packet-ipfrag'' then Some IpFragment
      else None)"

definition policyForProfile :: "string \<Rightarrow> ClientHello \<Rightarrow> bool \<times> Policy" where
  "policyForProfile profile hello =
     (let preferredSplit = (if hasSni hello then sniOffset hello + sniLength hello div 2 else 2) in
      case profileMode profile of
        None \<Rightarrow> (False, defaultPolicy)
      | Some m \<Rightarrow>
          let out = defaultPolicy\<lparr>mode := m, splitOffset := max 2 preferredSplit\<rparr> in
          (True, if hasSni hello
                 then out\<lparr>sniBegin := sniOffset hello, policy_sniEnd := sniOffset hello + sniLength hello\<rparr>
                 else out))"

section \<open>The cover ClientHello\<close>

definition fakeExtensions :: "string \<Rightarrow> byte list" where
  "fakeExtensions hostname =
     (let n = length hostname in
      append16 0x0000 @ append16 (of_nat (n + 5)) @ append16 (of_nat (n + 3)) @ [0] @
      append16 (of_nat n) @ map char_byte hostname @
      append16 0x002b @ append16 3 @ [2] @ append16 0x0304)"

definition fakeBody :: "string \<Rightarrow> byte list" where
  "fakeBody hostname =
     (let extensions = fakeExtensions hostname in
      append16 0x0303 @ map (\<lambda>v. of_nat (v + 1)) [0..<32] @ [0] @ append16 2 @ append16 0x1301 @
      [1] @ [0] @ append16 (of_nat (length extensions)) @ extensions)"

definition buildFakeClientHello :: "string \<Rightarrow> byte list" where
  "buildFakeClientHello hostname =
     (if hostname = [] \<or> length hostname > 253 then []
      else let body = fakeBody hostname;
               handshake = [1] @ append24 (length body) @ body
        in [0x16] @ append16 0x0301 @ append16 (of_nat (length handshake)) @ handshake)"

section \<open>TCP segments\<close>

definition segmentSplit :: "Policy \<Rightarrow> nat \<Rightarrow> nat" where
  "segmentSplit policy len = (if len < 2 then 0 else clamp (splitOffset policy) 1 (len - 1))"

definition splitsSni :: "Policy \<Rightarrow> nat \<Rightarrow> bool" where
  "splitsSni policy split \<longleftrightarrow>
     policy_sniEnd policy = 0 \<or> (split > sniBegin policy \<and> split < policy_sniEnd policy)"

definition overlapCover :: "Policy \<Rightarrow> nat \<Rightarrow> byte list" where
  "overlapCover policy overlap =
     (let fake = buildFakeClientHello (coverSni policy)
      in map (\<lambda>index. if fake = [] then 0x20 else fake ! (index mod length fake)) [0..<overlap])"

definition buildSegments :: "byte list \<Rightarrow> Policy \<Rightarrow> Segment list" where
  "buildSegments payload policy =
     (if length payload < 2 then []
      else let split = segmentSplit policy (length payload) in
        if mode policy = ReverseOrder then
          [\<lparr>sequenceOffset = of_nat split, segment_payload = drop split payload\<rparr>,
           \<lparr>sequenceOffset = 0, segment_payload = take split payload\<rparr>]
        else if mode policy = SequenceOverlap then
          (let overlap = clamp (overlapBytes policy) 1 split
           in [\<lparr>sequenceOffset = of_nat (split - overlap),
                segment_payload = overlapCover policy overlap @ drop split payload\<rparr>,
               \<lparr>sequenceOffset = 0, segment_payload = take split payload\<rparr>])
        else [])"

section \<open>IPv4 fragments\<close>

definition distance :: "nat \<Rightarrow> nat \<Rightarrow> nat" where
  "distance target value = (if value > target then value - target else target - value)"

definition cutRange :: "Policy \<Rightarrow> nat \<Rightarrow> nat \<times> nat" where
  "cutRange policy payloadLength =
     (if policy_sniEnd policy > sniBegin policy
      then (max 1 (sniBegin policy + 1), min (payloadLength - 1) (policy_sniEnd policy - 1))
      else (1, payloadLength - 1))"

definition ipv4FragmentBoundary :: "nat \<Rightarrow> Policy \<Rightarrow> nat \<Rightarrow> nat" where
  "ipv4FragmentBoundary transportHeaderLength policy payloadLength =
     (if payloadLength < 2 then 0
      else case cutRange policy payloadLength of (lo, hi) \<Rightarrow>
        if lo > hi then 0
        else let target = transportHeaderLength + clamp (splitOffset policy) lo hi;
                 down = 8 * (target div 8);
                 up = 8 * ((target + 7) div 8)
          in foldl (\<lambda>best candidate.
               if candidate < transportHeaderLength + lo \<or> candidate > transportHeaderLength + hi then best
               else if best = 0 \<or> distance target candidate < distance target best then candidate
               else best) 0 [down, up])"

text \<open>The one's complement sum of the header, two bytes at a time, and its folding.\<close>

fun sum16 :: "byte list \<Rightarrow> nat" where
  "sum16 (a # b # rest) = 256 * unat a + unat b + sum16 rest"
| "sum16 [a] = 256 * unat a"
| "sum16 [] = 0"

function fold16 :: "nat \<Rightarrow> nat" where
  "fold16 acc = (if acc div 65536 = 0 then acc else fold16 (acc mod 65536 + acc div 65536))"
  by pat_completeness auto
termination
proof (relation "measure id")
  fix acc :: nat
  assume "acc div 65536 \<noteq> 0"
  then have "acc div 65536 < 65536 * (acc div 65536)" by simp
  moreover have "acc = 65536 * (acc div 65536) + acc mod 65536" by simp
  ultimately show "(acc mod 65536 + acc div 65536, acc) \<in> measure id"
    by (simp only: in_measure id_apply)
qed simp

declare fold16.simps [simp del]

text \<open>
  \<open>finishHeader\<close>. For the last odd byte of a header the source reads one byte of the payload
  behind it, which is in the fragment; header lengths are multiples of four on the wire.
\<close>

definition headerSum :: "nat \<Rightarrow> byte list \<Rightarrow> nat" where
  "headerSum ipHeaderLength fragment = sum16 (take (2 * ((ipHeaderLength + 1) div 2)) fragment)"

definition finishHeader :: "nat \<Rightarrow> byte list \<Rightarrow> u16 \<Rightarrow> byte list" where
  "finishHeader ipHeaderLength fragment fragmentField =
     (let totalLength = (of_nat (length fragment) :: u16);
          f1 = fragment[2 := hi8 totalLength, 3 := lo8 totalLength,
                        6 := hi8 fragmentField, 7 := lo8 fragmentField, 10 := 0, 11 := 0];
          checksum = NOT (of_nat (fold16 (headerSum ipHeaderLength f1)) :: u16)
      in f1[10 := hi8 checksum, 11 := lo8 checksum])"

definition buildIpv4Fragments :: "byte list \<Rightarrow> nat \<Rightarrow> nat \<Rightarrow> byte list list" where
  "buildIpv4Fragments packet ipHeaderLength firstFragmentEnd =
     (if packet = [] \<or> length packet > 0xFFFF \<or> ipHeaderLength < 20 \<or> ipHeaderLength > length packet \<or>
         firstFragmentEnd \<le> ipHeaderLength \<or> firstFragmentEnd \<ge> length packet \<or>
         unat (packet ! 0) div 16 \<noteq> 4
      then []
      else if be16 (packet ! 6) (packet ! 7) AND 0x3FFF \<noteq> 0 then []
      else let ipPayloadLength = length packet - ipHeaderLength;
               firstPayloadLength = 8 * ((firstFragmentEnd - ipHeaderLength + 7) div 8)
        in if firstPayloadLength = 0 \<or> firstPayloadLength \<ge> ipPayloadLength then []
           else [finishHeader ipHeaderLength (take (ipHeaderLength + firstPayloadLength) packet) 0x2000,
                 finishHeader ipHeaderLength
                   (take ipHeaderLength packet @ drop (ipHeaderLength + firstPayloadLength) packet)
                   (of_nat (firstPayloadLength div 8))])"

section \<open>Segments reassemble\<close>

text \<open>
  The receiver's stream after segments arrive in order, later bytes replacing earlier ones
  at the same sequence offset: what the in-order delivery of the last segment gives.
\<close>

definition deliver :: "(nat \<Rightarrow> byte option) \<Rightarrow> Segment \<Rightarrow> nat \<Rightarrow> byte option" where
  "deliver stream seg i =
     (let off = unat (sequenceOffset seg) in
      if off \<le> i \<and> i < off + length (segment_payload seg) then Some (segment_payload seg ! (i - off))
      else stream i)"

definition received :: "Segment list \<Rightarrow> nat \<Rightarrow> byte option" where
  "received segs = foldl deliver (\<lambda>_. None) segs"

lemma segmentSplit_bounds:
  "2 \<le> n \<Longrightarrow> 1 \<le> segmentSplit policy n \<and> segmentSplit policy n < n"
  by (auto simp: segmentSplit_def clamp_def)

lemma length_overlapCover [simp]: "length (overlapCover policy n) = n"
  by (simp add: overlapCover_def Let_def)

lemma unat_of_nat_u32: "n < 4294967296 \<Longrightarrow> unat (of_nat n :: 32 word) = n"
  by (simp add: unat_of_nat)

text \<open>
  The out-of-order and the overlapping segments carry the ClientHello intact: for any
  payload of a packet, a receiver that puts the segments together in sequence order gets
  exactly the payload and nothing beyond it, whatever cover bytes the overlap sent first;
  the segments are two, and each is non-empty.
\<close>

lemma buildSegments_reassemble:
  assumes "2 \<le> length payload" "length payload \<le> 65535"
    and "mode policy = ReverseOrder \<or> mode policy = SequenceOverlap"
  shows "length (buildSegments payload policy) = 2 \<and>
    list_all (\<lambda>seg. segment_payload seg \<noteq> []) (buildSegments payload policy) \<and>
    received (buildSegments payload policy) i = at payload i"
proof -
  let ?k = "segmentSplit policy (length payload)"
  let ?o = "clamp (overlapBytes policy) 1 ?k"
  have k: "1 \<le> ?k" "?k < length payload" using segmentSplit_bounds [OF assms(1)] by auto
  have o: "1 \<le> ?o" "?o \<le> ?k" using clamp_bounds [OF k(1)] by auto
  have u: "unat (of_nat ?k :: 32 word) = ?k" "unat (of_nat (?k - ?o) :: 32 word) = ?k - ?o"
    using k(2) assms(2) by (auto intro!: unat_of_nat_u32)
  show ?thesis
  proof (cases "mode policy = ReverseOrder")
    case True
    then have "buildSegments payload policy =
        [\<lparr>sequenceOffset = of_nat ?k, segment_payload = drop ?k payload\<rparr>,
         \<lparr>sequenceOffset = 0, segment_payload = take ?k payload\<rparr>]"
      using assms(1) by (simp add: buildSegments_def Let_def)
    then show ?thesis using k u(1) by (auto simp: received_def deliver_def at_def Let_def)
  next
    case False
    then have "buildSegments payload policy =
        [\<lparr>sequenceOffset = of_nat (?k - ?o), segment_payload = overlapCover policy ?o @ drop ?k payload\<rparr>,
         \<lparr>sequenceOffset = 0, segment_payload = take ?k payload\<rparr>]"
      using assms by (simp add: buildSegments_def Let_def)
    then show ?thesis
      using k o u(2) by (auto simp: received_def deliver_def at_def Let_def nth_append)
  qed
qed

lemma buildSegments_reassemble_example:
  "received (buildSegments [10, 20, 30, 40] (defaultPolicy\<lparr>mode := SequenceOverlap\<rparr>)) 1 = Some 20"
  using buildSegments_reassemble [of "[10, 20, 30, 40]" "defaultPolicy\<lparr>mode := SequenceOverlap\<rparr>" 1]
  by (simp add: at_def)

section \<open>The fragment boundary\<close>

lemma cutRange_eq:
  "cutRange policy n = (lo, hi) \<Longrightarrow> 2 \<le> n \<Longrightarrow> 1 \<le> lo \<and> hi < n \<and>
     (policy_sniEnd policy > sniBegin policy \<longrightarrow> sniBegin policy < lo \<and> hi < policy_sniEnd policy)"
  by (auto simp: cutRange_def split: if_splits)

lemma eight_bounds:
  "8 * (t div 8) \<le> (t::nat)" "t < 8 * (t div 8) + 8" "t \<le> 8 * ((t + 7) div 8)" "8 * ((t + 7) div 8) < t + 8"
  by presburger+

lemma multiple_between: "8 dvd (m::nat) \<Longrightarrow> m \<le> t \<Longrightarrow> m \<le> 8 * (t div 8)"
  "8 dvd (m::nat) \<Longrightarrow> t \<le> m \<Longrightarrow> 8 * ((t + 7) div 8) \<le> m"
  by (auto elim!: dvdE simp: div_le_mono less_eq_div_iff_mult_less_eq)

text \<open>What a usable boundary is: on the 8-byte grid, bytes on both sides, inside the name if known.\<close>

definition usable_boundary :: "nat \<Rightarrow> Policy \<Rightarrow> nat \<Rightarrow> nat \<Rightarrow> bool" where
  "usable_boundary h policy n m \<longleftrightarrow> 8 dvd m \<and> h < m \<and> m < h + n \<and>
     (policy_sniEnd policy > sniBegin policy \<longrightarrow> h + sniBegin policy < m \<and> m < h + policy_sniEnd policy)"

definition preferredCut :: "nat \<Rightarrow> Policy \<Rightarrow> nat \<Rightarrow> nat" where
  "preferredCut h policy n = (case cutRange policy n of (lo, hi) \<Rightarrow> h + clamp (splitOffset policy) lo hi)"

lemma usable_iff:
  assumes "2 \<le> n" "cutRange policy n = (lo, hi)"
  shows "usable_boundary h policy n m \<longleftrightarrow> 8 dvd m \<and> h + lo \<le> m \<and> m \<le> h + hi"
  using assms by (auto simp: usable_boundary_def cutRange_def split: if_splits)

lemma best_of_two:
  fixes ok :: "nat \<Rightarrow> bool"
  assumes "\<not> ok 0" "d \<le> t" "t \<le> u"
    and "\<And>m. ok m \<Longrightarrow> m \<le> t \<Longrightarrow> ok d \<and> m \<le> d" and "\<And>m. ok m \<Longrightarrow> t \<le> m \<Longrightarrow> ok u \<and> u \<le> m"
  defines "b \<equiv> foldl (\<lambda>best c. if \<not> ok c then best
      else if best = 0 \<or> distance t c < distance t best then c else best) 0 [d, u]"
  shows "if b = 0 then \<not> (\<exists>m. ok m) else ok b \<and> \<not> (\<exists>m. ok m \<and> distance t m < distance t b)"
proof -
  have d0: "ok d \<Longrightarrow> d \<noteq> 0" and u0: "ok u \<Longrightarrow> u \<noteq> 0" using assms(1) by metis+
  have near: "distance t d \<le> distance t m" if "ok m" "m \<le> t" for m
    using assms(4) [OF that] assms(2) that by (auto simp: distance_def)
  have near': "distance t u \<le> distance t m" if "ok m" "t \<le> m" for m
    using assms(5) [OF that] assms(3) that by (auto simp: distance_def)
  have none: "ok m \<Longrightarrow> ok d \<or> ok u" for m using assms(4,5) nat_le_linear by blast
  show ?thesis
    using near near' none assms(4,5) d0 u0 nat_le_linear
    unfolding b_def by (simp split: if_splits) (metis leD le_less_trans not_le_imp_less order.trans)
qed

text \<open>
  The fragment boundary is the best there is: zero exactly when no multiple of eight lies
  strictly inside the payload and the host name, otherwise such a multiple, and none closer
  to the policy's split point exists.
\<close>

lemma ipv4FragmentBoundary_optimal:
  "if ipv4FragmentBoundary h policy n = 0 then \<not> (\<exists>m. usable_boundary h policy n m)
   else usable_boundary h policy n (ipv4FragmentBoundary h policy n) \<and>
     \<not> (\<exists>m. usable_boundary h policy n m \<and>
        distance (preferredCut h policy n) m < distance (preferredCut h policy n) (ipv4FragmentBoundary h policy n))"
proof (cases "n < 2")
  case True
  then show ?thesis by (auto simp: ipv4FragmentBoundary_def usable_boundary_def)
next
  case False
  obtain lo hi where r: "cutRange policy n = (lo, hi)" by (cases "cutRange policy n")
  have n: "2 \<le> n" using False by simp
  note u = usable_iff [OF n r, of h] and b = cutRange_eq [OF r n]
  show ?thesis
  proof (cases "lo > hi")
    case True
    then show ?thesis using False r u by (auto simp: ipv4FragmentBoundary_def)
  next
    case le: False
    let ?t = "h + clamp (splitOffset policy) lo hi"
    have t: "h + lo \<le> ?t" "?t \<le> h + hi" using clamp_bounds [of lo hi "splitOffset policy"] le by auto
    have "if foldl (\<lambda>best c. if \<not> usable_boundary h policy n c then best
        else if best = 0 \<or> distance ?t c < distance ?t best then c else best) 0
          [8 * (?t div 8), 8 * ((?t + 7) div 8)] = 0
      then \<not> (\<exists>m. usable_boundary h policy n m)
      else usable_boundary h policy n (foldl (\<lambda>best c. if \<not> usable_boundary h policy n c then best
        else if best = 0 \<or> distance ?t c < distance ?t best then c else best) 0
          [8 * (?t div 8), 8 * ((?t + 7) div 8)]) \<and>
        \<not> (\<exists>m. usable_boundary h policy n m \<and> distance ?t m <
          distance ?t (foldl (\<lambda>best c. if \<not> usable_boundary h policy n c then best
            else if best = 0 \<or> distance ?t c < distance ?t best then c else best) 0
              [8 * (?t div 8), 8 * ((?t + 7) div 8)]))"
    proof (rule best_of_two)
      show "\<not> usable_boundary h policy n 0" by (simp add: usable_boundary_def)
      show "usable_boundary h policy n (8 * (?t div 8)) \<and> m \<le> 8 * (?t div 8)"
        if "usable_boundary h policy n m" "m \<le> ?t" for m
        using multiple_between(1) [of m ?t] eight_bounds(1) [of ?t] that t by (auto simp: u)
      show "usable_boundary h policy n (8 * ((?t + 7) div 8)) \<and> 8 * ((?t + 7) div 8) \<le> m"
        if "usable_boundary h policy n m" "?t \<le> m" for m
        using multiple_between(2) [of m ?t] eight_bounds(3) [of ?t] that t by (auto simp: u)
    qed (rule eight_bounds)+
    moreover have "ipv4FragmentBoundary h policy n = foldl (\<lambda>best c. if \<not> usable_boundary h policy n c then best
        else if best = 0 \<or> distance ?t c < distance ?t best then c else best) 0
          [8 * (?t div 8), 8 * ((?t + 7) div 8)]"
      using False le r by (simp add: ipv4FragmentBoundary_def Let_def u not_less not_le)
    ultimately show ?thesis by (simp only: preferredCut_def r prod.case)
  qed
qed

section \<open>Fragments\<close>

lemma fold16_props:
  "fold16 n < 65536 \<and> fold16 n mod 65535 = n mod 65535 \<and> (fold16 n = 0 \<longleftrightarrow> n = 0) \<and> fold16 n \<le> n"
proof (induction n rule: fold16.induct)
  case (1 n)
  show ?case
  proof (cases "n div 65536 = 0")
    case True
    then have "fold16 n = n" by (simp add: fold16.simps [of n])
    with True show ?thesis by auto
  next
    case False
    let ?m = "n mod 65536 + n div 65536"
    have n: "n = ?m + 65535 * (n div 65536)" by simp
    then have "n mod 65535 = ?m mod 65535" by (metis mod_mult_self2)
    moreover have "?m \<noteq> 0" using False by simp
    moreover have "?m \<le> n" using n by linarith
    moreover have "fold16 n = fold16 ?m" using False by (simp only: fold16.simps [of n] if_False)
    moreover have "n \<noteq> 0" using False by (metis div_0)
    ultimately show ?thesis using 1 [OF False] by (simp only: simp_thms) (blast intro: le_trans)
  qed
qed

lemma unat_not16: "unat (NOT (w :: u16)) = 65535 - unat w"
proof -
  have "NOT w = - 1 - w" by (simp add: not_eq_complement)
  moreover have "unat (- 1 :: u16) = 65535" by (simp add: unsigned_minus_1_eq_mask mask_eq_exp_minus_1)
  ultimately show ?thesis by (simp add: unat_sub)
qed

text \<open>Writing the complement of a header's sum into its zeroed checksum field makes it valid.\<close>

lemma sum16_checksum:
  assumes "12 \<le> length xs" "xs ! 10 = 0" "xs ! 11 = 0"
  shows "sum16 (xs[10 := hi8 c, 11 := lo8 c]) = sum16 xs + unat c"
proof -
  obtain a0 a1 a2 a3 a4 a5 a6 a7 a8 a9 a10 a11 rest
    where "xs = a0 # a1 # a2 # a3 # a4 # a5 # a6 # a7 # a8 # a9 # a10 # a11 # rest"
    using assms(1) by (auto simp: Suc_le_length_iff eval_nat_numeral)
  then show ?thesis using assms(2,3) by (simp add: unat_hi8 unat_lo8)
qed

lemma checksum_valid:
  assumes "12 \<le> length xs" "xs ! 10 = 0" "xs ! 11 = 0"
  defines "c \<equiv> NOT (of_nat (fold16 (sum16 xs)) :: u16)"
  shows "fold16 (sum16 (xs[10 := hi8 c, 11 := lo8 c])) = 65535"
proof -
  let ?S = "sum16 xs" and ?s = "fold16 (sum16 xs)"
  note f = fold16_props [of ?S]
  have "unat c = 65535 - ?s" using f by (simp add: c_def unat_not16 unat_of_nat_u16)
  then have v: "sum16 (xs[10 := hi8 c, 11 := lo8 c]) = ?S - ?s + 65535"
    using sum16_checksum [OF assms(1-3)] f by simp
  have "(?S - ?s) mod 65535 = 0"
    using f by (metis mod_eq_dvd_iff_nat mod_eq_0_iff_dvd)
  then have m: "(?S - ?s + 65535) mod 65535 = 0" by simp
  have "x = 65535" if x: "x < 65536" "x mod 65535 = 0" "x \<noteq> 0" for x :: nat
  proof -
    obtain k where k: "x = 65535 * k" using x(2) by (auto simp: mod_eq_0_iff_dvd elim: dvdE)
    with x have "k = 1" by simp
    with k show ?thesis by simp
  qed
  then show ?thesis
    unfolding v using fold16_props [of "?S - ?s + 65535"] m by (metis add_is_0 zero_neq_numeral)
qed

text \<open>A receiver's view of one fragment.\<close>

definition ip_total_length :: "byte list \<Rightarrow> nat" where
  "ip_total_length f = unat (be16 (f ! 2) (f ! 3))"

definition ip_fragment_field :: "byte list \<Rightarrow> u16" where
  "ip_fragment_field f = be16 (f ! 6) (f ! 7)"

definition ip_checksum_ok :: "nat \<Rightarrow> byte list \<Rightarrow> bool" where
  "ip_checksum_ok ipHeaderLength f \<longleftrightarrow> fold16 (sum16 (take ipHeaderLength f)) = 0xFFFF"

lemma finishHeader_props:
  fixes field :: u16
  assumes "20 \<le> h" "h \<le> length f" "even h" "length f \<le> 65535"
  defines "g \<equiv> finishHeader h f field"
  shows "length g = length f" "drop h g = drop h f" "ip_total_length g = length f"
    "ip_fragment_field g = field" "ip_checksum_ok h g"
    "i < h \<Longrightarrow> i \<notin> {2, 3, 6, 7, 10, 11} \<Longrightarrow> g ! i = f ! i"
proof -
  let ?n = "of_nat (length f) :: u16"
  let ?f1 = "f[2 := hi8 ?n, 3 := lo8 ?n, 6 := hi8 field, 7 := lo8 field, 10 := 0, 11 := 0]"
  let ?c = "NOT (of_nat (fold16 (sum16 (take h ?f1))) :: u16)"
  have even: "2 * ((h + 1) div 2) = h" using assms(3) by presburger
  have g: "g = ?f1[10 := hi8 ?c, 11 := lo8 ?c]"
    unfolding g_def finishHeader_def headerSum_def even Let_def ..
  show "length g = length f" "drop h g = drop h f" using assms(1) by (simp_all add: g drop_update_cancel)
  show "ip_total_length g = length f" "ip_fragment_field g = field"
    using assms(1-4) by (simp_all add: g ip_total_length_def ip_fragment_field_def unat_of_nat_u16)
  have "take h g = (take h ?f1)[10 := hi8 ?c, 11 := lo8 ?c]"
    by (simp add: g take_update_swap)
  then show "ip_checksum_ok h g"
    using checksum_valid [of "take h ?f1"] assms(1,2) by (simp add: ip_checksum_ok_def)
  show "i < h \<Longrightarrow> i \<notin> {2, 3, 6, 7, 10, 11} \<Longrightarrow> g ! i = f ! i" by (simp add: g)
qed

text \<open>
  C27. The two IPv4 fragments a packet is cut into are well formed and reassemble: each has its
  own total length and a valid header checksum; the first says more fragments follow at
  offset zero, the second is the last one and its offset is exactly where the first ends;
  all other header bytes are the packet's, and the payloads joined are the packet's payload.
\<close>

theorem buildIpv4Fragments_reassemble:
  assumes "buildIpv4Fragments packet ipHeaderLength firstFragmentEnd = [first, second]"
    and "even ipHeaderLength"
  shows "drop ipHeaderLength first @ drop ipHeaderLength second = drop ipHeaderLength packet \<and>
    ip_fragment_field first = 0x2000 \<and>
    8 * unat (ip_fragment_field second) = length (drop ipHeaderLength first) \<and>
    ip_total_length first = length first \<and> ip_total_length second = length second \<and>
    ip_checksum_ok ipHeaderLength first \<and> ip_checksum_ok ipHeaderLength second \<and>
    firstFragmentEnd \<le> length first \<and> length first < firstFragmentEnd + 8 \<and>
    list_all (\<lambda>i. i \<in> {2, 3, 6, 7, 10, 11} \<or> first ! i = packet ! i \<and> second ! i = packet ! i) [0..<ipHeaderLength]"
proof -
  let ?h = ipHeaderLength
  define k where "k = 8 * ((firstFragmentEnd - ?h + 7) div 8)"
  let ?f1 = "take (?h + k) packet" and ?f2 = "take ?h packet @ drop (?h + k) packet"
  have guards: "length packet \<le> 65535" "20 \<le> ?h" "?h \<le> length packet" "k \<noteq> 0" "k < length packet - ?h"
      "?h < firstFragmentEnd"
    and f: "first = finishHeader ?h ?f1 0x2000" "second = finishHeader ?h ?f2 (of_nat (k div 8))"
    using assms(1) by (auto simp: buildIpv4Fragments_def Let_def k_def split: if_splits)
  have len: "length ?f1 = ?h + k" "length ?f2 = length packet - k" using guards by auto
  have k8: "8 * (k div 8) = k" "k div 8 < 65536" using guards by (auto simp: k_def)
  have k: "firstFragmentEnd \<le> ?h + k" "?h + k < firstFragmentEnd + 8"
    using eight_bounds(3,4) [of "firstFragmentEnd - ?h"] guards(6) by (auto simp: k_def)
  note p1 = finishHeader_props [OF guards(2) _ assms(2), where f = ?f1 and field = "0x2000"]
  note p2 = finishHeader_props [OF guards(2) _ assms(2), where f = ?f2 and field = "of_nat (k div 8)"]
  have "list_all (\<lambda>i. i \<in> {2, 3, 6, 7, 10, 11} \<or> first ! i = packet ! i \<and> second ! i = packet ! i) [0..<?h]"
    using p1(6) p2(6) guards len unfolding f list_all_iff by (auto simp: nth_append)
  moreover have "8 * unat (ip_fragment_field second) = length (drop ?h first)"
    using p1(1) p2(4) guards len k8 unfolding f by (simp add: unat_of_nat_u16)
  moreover have "drop ?h first @ drop ?h second = drop ?h packet"
    using p1(2) p2(2) guards len append_take_drop_id [of k "drop ?h packet"]
    unfolding f by (simp add: drop_take add.commute)
  ultimately show ?thesis
    using p1 p2 guards len k unfolding f by auto
qed

definition samplePacket :: "byte list" where
  "samplePacket = [0x45, 0, 0, 60, 0x12, 0x34, 0x40, 0, 64, 6, 0, 0, 10, 0, 0, 1, 192, 0, 2, 7] @ replicate 40 0xAB"

theorem buildIpv4Fragments_reassemble_witness:
  "\<exists>f g. buildIpv4Fragments samplePacket 20 44 = [f, g] \<and> ip_checksum_ok 20 f \<and>
     drop 20 f @ drop 20 g = drop 20 samplePacket"
proof -
  have "length (buildIpv4Fragments samplePacket 20 44) = 2" by code_simp
  then obtain f g where "buildIpv4Fragments samplePacket 20 44 = [f, g]"
    by (auto simp: numeral_2_eq_2 length_Suc_conv)
  then show ?thesis using buildIpv4Fragments_reassemble [of samplePacket 20 44 f g] by simp
qed

end
