(* ===== verification/Cover_Hello.thy ===== *)
theory Cover_Hello
  imports Packet_Strategy
begin

text \<open>
  The cover ClientHello that \<open>PacketStrategy.cpp\<close> builds is a ClientHello: the parser of
  \<open>TlsHello.cpp\<close> reads the cover name back from it.
\<close>

text \<open>Everything in front of the host name; the record is this, the name and one more extension.\<close>

definition coverPrefix :: "nat \<Rightarrow> byte list" where
  "coverPrefix n = [0x16, 3, 1, hi8 (of_nat (n + 63)), lo8 (of_nat (n + 63)), 1] @ append24 (n + 59) @
     [3, 3] @ map (\<lambda>v. of_nat (v + 1)) [0..<32] @ [0, 0, 2, 0x13, 1, 1, 0] @
     append16 (of_nat (n + 16)) @ [0, 0] @ append16 (of_nat (n + 5)) @ append16 (of_nat (n + 3)) @ [0] @
     append16 (of_nat n)"

definition coverSuffix :: "byte list" where
  "coverSuffix = [0, 0x2b, 0, 3, 2, 3, 4]"

lemma const16 [simp]:
  "hi8 0 = 0" "lo8 0 = 0" "hi8 0x2b = 0" "lo8 0x2b = 0x2b" "hi8 3 = 0" "lo8 3 = 3" "hi8 0x304 = 3" "lo8 0x304 = 4"
  "hi8 0x303 = 3" "lo8 0x303 = 3" "hi8 2 = 0" "lo8 2 = 2" "hi8 0x1301 = 0x13" "lo8 0x1301 = 1"
  "hi8 0x301 = 3" "lo8 0x301 = 1"
  by code_simp+

lemma cover_eq:
  assumes "0 < length host" "length host \<le> 253"
  shows "buildFakeClientHello host = coverPrefix (length host) @ map char_byte host @ coverSuffix"
  using assms
  by (simp add: buildFakeClientHello_def fakeBody_def fakeExtensions_def coverPrefix_def coverSuffix_def
      append16_def append24_def Let_def add.commute add.left_commute)

lemma length_coverPrefix [simp]: "length (coverPrefix n) = 61"
  by (simp add: coverPrefix_def append16_def append24_def)

lemma coverPrefix_nth:
  "coverPrefix n ! 0 = 0x16" "coverPrefix n ! Suc 0 = 3"
  "coverPrefix n ! 3 = hi8 (of_nat (n + 63))" "coverPrefix n ! 4 = lo8 (of_nat (n + 63))"
  "coverPrefix n ! 5 = 1" "coverPrefix n ! 6 = of_nat ((n + 59) div 65536)"
  "coverPrefix n ! 7 = of_nat ((n + 59) div 256)" "coverPrefix n ! 8 = of_nat (n + 59)"
  "coverPrefix n ! 43 = 0" "coverPrefix n ! 44 = 0" "coverPrefix n ! 45 = 2" "coverPrefix n ! 48 = 1"
  "coverPrefix n ! 50 = hi8 (of_nat (n + 16))" "coverPrefix n ! 51 = lo8 (of_nat (n + 16))"
  "coverPrefix n ! 52 = 0" "coverPrefix n ! 53 = 0"
  "coverPrefix n ! 54 = hi8 (of_nat (n + 5))" "coverPrefix n ! 55 = lo8 (of_nat (n + 5))"
  "coverPrefix n ! 56 = hi8 (of_nat (n + 3))" "coverPrefix n ! 57 = lo8 (of_nat (n + 3))"
  "coverPrefix n ! 58 = 0" "coverPrefix n ! 59 = hi8 (of_nat n)" "coverPrefix n ! 60 = lo8 (of_nat n)"
  by (simp_all add: coverPrefix_def append16_def append24_def nth_append nth_Cons')

definition is_cover :: "string \<Rightarrow> byte list \<Rightarrow> bool" where
  "is_cover host d \<longleftrightarrow> 0 < length host \<and> length host \<le> 253 \<and>
     d = coverPrefix (length host) @ map char_byte host @ coverSuffix"

lemma cover_length: "is_cover host d \<Longrightarrow> length d = length host + 68"
  by (auto simp: is_cover_def coverSuffix_def)

lemma cover_nth: "is_cover host d \<Longrightarrow> i < 61 \<Longrightarrow> d ! i = coverPrefix (length host) ! i"
  by (auto simp: is_cover_def nth_append)

lemma cover_nth_suffix: "is_cover host d \<Longrightarrow> i < 7 \<Longrightarrow> d ! (61 + length host + i) = coverSuffix ! i"
  by (auto simp: is_cover_def nth_append)

lemma cover_name: "is_cover host d \<Longrightarrow> map byte_char (take (length host) (drop 61 d)) = host"
  by (auto simp: is_cover_def)

lemma cover_u16: "m \<le> 400 \<Longrightarrow> unat (be16 (hi8 (of_nat m)) (lo8 (of_nat m))) = m"
  by (simp add: unat_of_nat_u16)

definition coverReport :: "string \<Rightarrow> ClientHello" where
  "coverReport host = \<lparr>recordPayloadLength = length host + 63, recordTotalLength = length host + 68,
     sniOffset = 61, sniLength = length host, serverName = host, hasEch = False, spansRecords = False\<rparr>"

text \<open>The extension block, from the server name to the end of the record.\<close>

lemma cover_serverName:
  assumes c: "is_cover host d" and out: "\<not> hasSni out"
  shows "readServerName d 56 (61 + length host) out =
    Some (True, out\<lparr>sniOffset := 61, sniLength := length host, serverName := host\<rparr>)"
proof -
  have n: "length host \<le> 253" using c by (simp add: is_cover_def)
  let ?l = "\<lparr>reader_pos = 58, reader_end = 61 + length host\<rparr>"
  have ok: "reader_ok d ?l" by (simp add: reader_ok_def cover_length [OF c])
  have e: "entry_length d ?l = length host" "d ! 58 = 0"
    using n by (simp_all add: cover_nth [OF c] coverPrefix_nth cover_u16 del: hi8_lo8 of_nat_add)
  have l: "serverNameLoop d ?l out =
      Some (True, out\<lparr>sniOffset := 61, sniLength := length host, serverName := host\<rparr>)"
    using serverNameLoop_turn [OF ok] e cover_name [OF c] by (simp add: remaining_def)
  have "reader_u16 d \<lparr>reader_pos = 56, reader_end = 61 + length host\<rparr> =
      Got (of_nat (length host + 3), \<lparr>reader_pos = 58, reader_end = 61 + length host\<rparr>)"
    by (subst reader_u16_ok)
      (simp_all add: reader_ok_def cover_length [OF c] remaining_def cover_nth [OF c] coverPrefix_nth)
  moreover have "unat (of_nat (length host + 3) :: u16) = length host + 3"
    using n by (simp only: unat_of_nat_u16)
  ultimately show ?thesis
    using l by (simp add: readServerName_def remaining_def add.commute add.left_commute)
qed

lemma cover_extensions:
  assumes c: "is_cover host d" and out: "\<not> hasSni out"
  shows "extensionsLoop d \<lparr>reader_pos = 52, reader_end = length host + 68\<rparr> out =
    Some (Ok, out\<lparr>sniOffset := 61, sniLength := length host, serverName := host\<rparr>)"
proof -
  have n: "length host \<le> 253" using c by (simp add: is_cover_def)
  let ?r1 = "\<lparr>reader_pos = 52, reader_end = length host + 68\<rparr>"
  let ?r2 = "\<lparr>reader_pos = 61 + length host, reader_end = length host + 68\<rparr>"
  let ?r3 = "\<lparr>reader_pos = length host + 68, reader_end = length host + 68\<rparr>"
  let ?out = "out\<lparr>sniOffset := 61, sniLength := length host, serverName := host\<rparr>"
  have ok: "reader_ok d ?r1" "reader_ok d ?r2" "reader_ok d ?r3"
    by (simp_all add: reader_ok_def cover_length [OF c])
  have t1: "ext_type d ?r1 = 0" "ext_length d ?r1 = length host + 5"
    using n by (simp_all add: cover_nth [OF c] coverPrefix_nth cover_u16 del: hi8_lo8 of_nat_add) code_simp
  have t2: "ext_type d ?r2 = 0x2b" "ext_length d ?r2 = 3"
    using cover_nth_suffix [OF c, of 0] cover_nth_suffix [OF c, of 1] cover_nth_suffix [OF c, of 2]
      cover_nth_suffix [OF c, of 3] by (simp_all add: coverSuffix_def add.commute) (code_simp | simp)+
  have ext: "kExtEncryptedClientHello \<noteq> 0" "kExtServerName = 0" "kExtEncryptedClientHello \<noteq> 0x2b"
    by code_simp+
  have e1: "ext_effect d ?r1 out = Some ?out"
    using cover_serverName [OF c out] out t1 ext by (auto simp: ext_effect_def add.commute)
  have e2: "ext_effect d ?r2 ?out = Some ?out"
    using t2(1) ext by (auto simp: ext_effect_def)
  have "extensionsLoop d ?r1 out = extensionsLoop d ?r2 ?out"
    using extensionsLoop_turn [OF ok(1), of out] e1 t1(2) by (simp add: remaining_def add.commute add.left_commute)
  also have "\<dots> = extensionsLoop d ?r3 ?out"
    using extensionsLoop_turn [OF ok(2), of ?out] e2 t2(2) by (simp add: remaining_def add.commute add.left_commute)
  also have "\<dots> = Some (Ok, ?out)"
    using extensionsLoop_turn [OF ok(3), of ?out] by (simp add: remaining_def)
  finally show ?thesis .
qed

lemma cover_handshakeLength: "m \<le> 400 \<Longrightarrow> be24 0 (of_nat (m div 256)) (of_nat m) = m"
  by (simp add: be24_eq unat_of_nat)

lemma cover_body:
  assumes c: "is_cover host d"
  shows "helloBodyPrefix d \<lparr>reader_pos = 9, reader_end = length host + 68\<rparr> =
    Got \<lparr>reader_pos = 50, reader_end = length host + 68\<rparr>"
proof -
  have at: "at d i = Some (coverPrefix (length host) ! i)" if "i < 61" for i
    using that cover_nth [OF c that] cover_length [OF c] by simp
  have two: "unat (be16 0 2) = 2" by code_simp
  show ?thesis
    by (simp add: helloBodyPrefix_eq reader_skip_def remaining_def skip_u8_vector_def skip_u16_vector_def
        reader_u8_def reader_u16_def at coverPrefix_nth two)
qed

text \<open>
  The cover packet is a real ClientHello: for every cover name of 1 to 253 bytes, the
  parser accepts \<open>buildFakeClientHello\<close>'s record as complete and reads exactly that name
  from it, at offset 61.
\<close>

lemma buildFakeClientHello_parses:
  assumes "0 < length host" "length host \<le> 253"
  shows "parseClientHello (buildFakeClientHello host) =
    Some (Ok, \<lparr>recordPayloadLength = length host + 63, recordTotalLength = length host + 68,
       sniOffset = 61, sniLength = length host, serverName = host, hasEch = False, spansRecords = False\<rparr>)"
proof -
  let ?d = "buildFakeClientHello host" and ?n = "length host"
  have c: "is_cover host ?d" using assms by (simp add: is_cover_def cover_eq)
  let ?out = "header_hello ?d"
  have len: "length ?d = ?n + 68" by (rule cover_length [OF c])
  have hdr: "?d ! 0 = kRecordHandshake" "?d ! 1 = 3" "header_payload ?d = ?n + 63"
    using assms by (simp_all add: cover_nth [OF c] coverPrefix_nth cover_u16 kRecordHandshake_def del: hi8_lo8 of_nat_add)
  have "parseClientHello ?d = parseCompleteRecord ?d ?out"
    using assms len hdr by (simp add: parseClientHello_header kRecordHeaderSize_def kMaxRecordPayload_def)
  also have "\<dots> = parseExtensions ?d 50 (?n + 68) ?out"
  proof -
    have at: "at ?d i = Some (coverPrefix ?n ! i)" if "i < 61" for i
      using that cover_nth [OF c that] len by simp
    show ?thesis
      using assms hdr(3) cover_body [OF c]
      by (simp add: parseCompleteRecord_def at coverPrefix_nth kRecordHeaderSize_def kHandshakeClientHello_def
          cover_handshakeLength Let_def remaining_def add.commute add.left_commute del: of_nat_add)
  qed
  also have "\<dots> = extensionsLoop ?d \<lparr>reader_pos = 52, reader_end = ?n + 68\<rparr> ?out"
  proof -
    have "reader_u16 ?d \<lparr>reader_pos = 50, reader_end = ?n + 68\<rparr> =
        Got (of_nat (?n + 16), \<lparr>reader_pos = 52, reader_end = ?n + 68\<rparr>)"
      by (subst reader_u16_ok)
        (simp_all add: reader_ok_def len remaining_def cover_nth [OF c] coverPrefix_nth)
    moreover have "unat (of_nat (?n + 16) :: u16) = ?n + 16" using assms by (simp only: unat_of_nat_u16)
    ultimately show ?thesis by (simp add: parseExtensions_def remaining_def add.commute add.left_commute)
  qed
  also have "\<dots> = Some (Ok, ?out\<lparr>sniOffset := 61, sniLength := ?n, serverName := host\<rparr>)"
    by (rule cover_extensions [OF c]) simp
  finally show ?thesis using hdr(3) by (simp add: header_hello_def noHello_def kRecordHeaderSize_def add.commute)
qed

lemma buildFakeClientHello_parses_example:
  "map_option (serverName \<circ> snd) (parseClientHello (buildFakeClientHello ''www.google.com'')) = Some ''www.google.com''"
  using buildFakeClientHello_parses [of "''www.google.com''"] by simp

end
