(* ===== verification/Packet_Registry.thy ===== *)
theory Packet_Registry
  imports Packet_Strategy Transparent_Flow
begin

text \<open>
  \<open>packet_strategy::PolicyRegistry\<close> of \<open>src/src/PacketStrategy.hpp\<close> and \<open>PacketStrategy.cpp\<close>:
  joins the socket a relay opened with the packet the interceptor sees. \<open>parse\<close> is
  \<open>transparent::parseAddress\<close> over the system's \<open>inet_pton\<close>; \<open>tick\<close> the system tick count.
\<close>

definition kPolicyTtlMs :: u64 where "kPolicyTtlMs = 15000"
definition kAppliedTtlMs :: u64 where "kAppliedTtlMs = 60000"
definition kPruneIntervalMs :: u64 where "kPruneIntervalMs = 1000"
definition kMaxEntries :: nat where "kMaxEntries = 8192"

record RegEntry =
  reg_policy :: Policy
  reg_expiresAtMs :: u64
  taken :: bool
  hasSequence :: bool
  reg_sequence :: u32
  applied :: bool

record HopEntry =
  pathHops :: byte
  hop_expiresAtMs :: u64

record PolicyRegistry =
  policies :: "(PeerKey, RegEntry) table"
  hops :: "(PeerKey, HopEntry) table"
  nextPruneMs :: u64

definition regKey :: "Address \<Rightarrow> u16 \<Rightarrow> PeerKey" where
  "regKey target sourcePort = \<lparr>peer_address = target, peer_port = sourcePort, peer_kind = 0\<rparr>"

definition makeRoom :: "('v \<Rightarrow> u64) \<Rightarrow> u64 \<Rightarrow> (PeerKey, 'v) table \<Rightarrow> (PeerKey, 'v) table" where
  "makeRoom expires now t =
     (let t1 = erase_if (\<lambda>item. expires (snd item) \<le> now) t in
      if length t1 < kMaxEntries then t1 else erase_min (\<lambda>item. expires (snd item)) t1)"

definition pruneIfDue :: "u64 \<Rightarrow> PolicyRegistry \<Rightarrow> PolicyRegistry" where
  "pruneIfDue now r =
     (if now < nextPruneMs r then r
      else r\<lparr>nextPruneMs := now + kPruneIntervalMs,
             policies := erase_if (\<lambda>item. reg_expiresAtMs (snd item) \<le> now) (policies r),
             hops := erase_if (\<lambda>item. hop_expiresAtMs (snd item) \<le> now) (hops r)\<rparr>)"

definition roomFor :: "('v \<Rightarrow> u64) \<Rightarrow> u64 \<Rightarrow> PeerKey \<Rightarrow> (PeerKey, 'v) table \<Rightarrow> (PeerKey, 'v) table" where
  "roomFor expires now key t =
     (if length t \<ge> kMaxEntries \<and> map_of t key = None then makeRoom expires now t else t)"

definition arm :: "(string \<Rightarrow> Address option) \<Rightarrow> string \<Rightarrow> u16 \<Rightarrow> Policy \<Rightarrow> u64 \<Rightarrow> u64 \<Rightarrow> PolicyRegistry \<Rightarrow> PolicyRegistry" where
  "arm parse targetAddress sourcePort policy nowMs tick r =
     (case parse targetAddress of
        None \<Rightarrow> r
      | Some address \<Rightarrow>
          if sourcePort = 0 \<or> mode policy = NoMode then r
          else let now = clockMs nowMs tick; key = regKey address sourcePort; r1 = pruneIfDue now r
            in r1\<lparr>policies := AList.update key
                 \<lparr>reg_policy = policy, reg_expiresAtMs = now + kPolicyTtlMs, taken = False,
                  hasSequence = False, reg_sequence = 0, applied = False\<rparr>
                 (roomFor reg_expiresAtMs now key (policies r1))\<rparr>)"

definition observeHop :: "Address \<Rightarrow> u16 \<Rightarrow> byte \<Rightarrow> u64 \<Rightarrow> u64 \<Rightarrow> PolicyRegistry \<Rightarrow> PolicyRegistry" where
  "observeHop target sourcePort receivedTtl nowMs tick r =
     (if sourcePort = 0 \<or> receivedTtl = 0 then r
      else let hopCount = inferPathHops receivedTtl in
        if hopCount = 0 then r
        else let now = clockMs nowMs tick; key = regKey target sourcePort; r1 = pruneIfDue now r
          in r1\<lparr>hops := AList.update key \<lparr>pathHops = hopCount, hop_expiresAtMs = now + kPolicyTtlMs\<rparr>
               (roomFor hop_expiresAtMs now key (hops r1))\<rparr>)"

definition observeHopText ::
  "(string \<Rightarrow> Address option) \<Rightarrow> string \<Rightarrow> u16 \<Rightarrow> byte \<Rightarrow> u64 \<Rightarrow> u64 \<Rightarrow> PolicyRegistry \<Rightarrow> PolicyRegistry" where
  "observeHopText parse targetAddress sourcePort receivedTtl nowMs tick r =
     (case parse targetAddress of None \<Rightarrow> r
      | Some address \<Rightarrow> observeHop address sourcePort receivedTtl nowMs tick r)"

text \<open>The policy handed out on the first take: the AutoTTL profile is settled here.\<close>

definition settlePolicy :: "HopEntry option \<Rightarrow> u64 \<Rightarrow> Policy \<Rightarrow> Policy" where
  "settlePolicy hop now policy =
     (if mode policy = FakeAutoTtl then
        (case hop of
           None \<Rightarrow> policy\<lparr>mode := FakeBadSequence, fakeSequenceDelta := -10000\<rparr>
         | Some h \<Rightarrow>
             if hop_expiresAtMs h \<le> now \<or> pathHops h < 3
             then policy\<lparr>mode := FakeBadSequence, fakeSequenceDelta := -10000\<rparr>
             else policy\<lparr>fakeTtl := max 2 (pathHops h - 1)\<rparr>)
      else policy)"

definition take_policy ::
  "Address \<Rightarrow> u16 \<Rightarrow> u32 option \<Rightarrow> u64 \<Rightarrow> u64 \<Rightarrow> PolicyRegistry \<Rightarrow> Policy option \<times> PolicyRegistry" where
  "take_policy target sourcePort sequence nowMs tick r =
     (let now = clockMs nowMs tick; key = regKey target sourcePort in
      case map_of (policies r) key of
        None \<Rightarrow> (None, r)
      | Some entry \<Rightarrow>
          if reg_expiresAtMs entry \<le> now
          then (None, r\<lparr>policies := AList.delete key (policies r)\<rparr>)
          else if taken entry then
            (if hasSequence entry \<and> sequence = Some (reg_sequence entry)
             then (Some (reg_policy entry), r) else (None, r))
          else let e1 = entry\<lparr>taken := True\<rparr>;
                   e2 = (case sequence of None \<Rightarrow> e1
                         | Some s \<Rightarrow> e1\<lparr>hasSequence := True, reg_sequence := s\<rparr>);
                   e3 = e2\<lparr>reg_policy := settlePolicy (map_of (hops r) key) now (reg_policy e2)\<rparr>
            in (Some (reg_policy e3), r\<lparr>policies := AList.update key e3 (policies r)\<rparr>))"

definition takeText ::
  "(string \<Rightarrow> Address option) \<Rightarrow> string \<Rightarrow> u16 \<Rightarrow> u64 \<Rightarrow> u64 \<Rightarrow> PolicyRegistry \<Rightarrow> Policy option \<times> PolicyRegistry" where
  "takeText parse targetAddress sourcePort nowMs tick r =
     (case parse targetAddress of None \<Rightarrow> (None, r)
      | Some address \<Rightarrow> take_policy address sourcePort None nowMs tick r)"

definition noteApplied :: "Address \<Rightarrow> u16 \<Rightarrow> u64 \<Rightarrow> u64 \<Rightarrow> PolicyRegistry \<Rightarrow> PolicyRegistry" where
  "noteApplied target sourcePort nowMs tick r =
     (let now = clockMs nowMs tick; key = regKey target sourcePort in
      case map_of (policies r) key of
        None \<Rightarrow> r
      | Some e \<Rightarrow> r\<lparr>policies := AList.update key
          (e\<lparr>applied := True, reg_expiresAtMs := max (reg_expiresAtMs e) (now + kAppliedTtlMs)\<rparr>) (policies r)\<rparr>)"

definition consumeApplied ::
  "(string \<Rightarrow> Address option) \<Rightarrow> string \<Rightarrow> u16 \<Rightarrow> u64 \<Rightarrow> u64 \<Rightarrow> PolicyRegistry \<Rightarrow> bool \<times> PolicyRegistry" where
  "consumeApplied parse targetAddress sourcePort nowMs tick r =
     (case parse targetAddress of
        None \<Rightarrow> (False, r)
      | Some address \<Rightarrow>
          let now = clockMs nowMs tick; key = regKey address sourcePort in
          (case map_of (policies r) key of
             None \<Rightarrow> (False, r)
           | Some e \<Rightarrow> (applied e \<and> reg_expiresAtMs e > now,
               r\<lparr>policies := AList.delete key (policies r)\<rparr>)))"

definition registry_clear :: "PolicyRegistry \<Rightarrow> PolicyRegistry" where
  "registry_clear r = r\<lparr>policies := [], hops := [], nextPruneMs := 0\<rparr>"

section \<open>Histories\<close>

datatype reg_op =
    RegArm string u16 Policy u64 u64
  | RegHop Address u16 byte u64 u64
  | RegTake Address u16 "u32 option" u64 u64
  | RegNote Address u16 u64 u64
  | RegConsume string u16 u64 u64
  | RegClear

fun reg_step :: "(string \<Rightarrow> Address option) \<Rightarrow> reg_op \<Rightarrow> PolicyRegistry \<Rightarrow> PolicyRegistry" where
  "reg_step parse (RegArm a p pol n t) r = arm parse a p pol n t r"
| "reg_step parse (RegHop a p ttl n t) r = observeHop a p ttl n t r"
| "reg_step parse (RegTake a p s n t) r = snd (take_policy a p s n t r)"
| "reg_step parse (RegNote a p n t) r = noteApplied a p n t r"
| "reg_step parse (RegConsume a p n t) r = snd (consumeApplied parse a p n t r)"
| "reg_step parse RegClear r = registry_clear r"

text \<open>
  Whether the policy armed last for a connection was reported as applied since, and not asked
  for yet, from the operations so far (latest first).
\<close>

fun reported :: "(string \<Rightarrow> Address option) \<Rightarrow> reg_op list \<Rightarrow> Address \<Rightarrow> u16 \<Rightarrow> bool" where
  "reported parse [] addr port \<longleftrightarrow> False"
| "reported parse (RegArm a p pol n t # ops) addr port \<longleftrightarrow>
     \<not> (parse a = Some addr \<and> p = port \<and> p \<noteq> 0 \<and> mode pol \<noteq> NoMode) \<and> reported parse ops addr port"
| "reported parse (RegNote a p n t # ops) addr port \<longleftrightarrow> a = addr \<and> p = port \<or> reported parse ops addr port"
| "reported parse (RegConsume a p n t # ops) addr port \<longleftrightarrow>
     \<not> (parse a = Some addr \<and> p = port) \<and> reported parse ops addr port"
| "reported parse (RegHop a p ttl n t # ops) addr port \<longleftrightarrow> reported parse ops addr port"
| "reported parse (RegTake a p s n t # ops) addr port \<longleftrightarrow> reported parse ops addr port"
| "reported parse (RegClear # ops) addr port \<longleftrightarrow> False"

definition reg_hist_step ::
  "(string \<Rightarrow> Address option) \<Rightarrow> reg_op \<Rightarrow> PolicyRegistry \<times> reg_op list \<Rightarrow> PolicyRegistry \<times> reg_op list" where
  "reg_hist_step parse op = (\<lambda>(r, ops). (reg_step parse op r, op # ops))"

definition reg_reorder :: "PolicyRegistry \<times> reg_op list \<Rightarrow> PolicyRegistry \<times> reg_op list \<Rightarrow> bool" where
  "reg_reorder = (\<lambda>(r, ops) (r', ops'). mset (policies r') = mset (policies r) \<and> mset (hops r') = mset (hops r) \<and>
     nextPruneMs r' = nextPruneMs r \<and> ops' = ops)"

definition emptyRegistry :: PolicyRegistry where
  "emptyRegistry = \<lparr>policies = [], hops = [], nextPruneMs = 0\<rparr>"

text \<open>A policy that was handed out never has an unsettled AutoTTL.\<close>

definition entry_settled :: "RegEntry \<Rightarrow> bool" where
  "entry_settled e \<longleftrightarrow> (taken e \<and> mode (reg_policy e) = FakeAutoTtl \<longrightarrow> 2 \<le> fakeTtl (reg_policy e))"

definition registry_ok :: "(string \<Rightarrow> Address option) \<Rightarrow> PolicyRegistry \<times> reg_op list \<Rightarrow> bool" where
  "registry_ok parse = (\<lambda>(r, ops). table_ok kMaxEntries entry_settled (policies r) \<and>
     table_ok kMaxEntries (\<lambda>_. True) (hops r) \<and>
     (\<forall>a p e. map_of (policies r) (regKey a p) = Some e \<and> applied e \<longrightarrow> reported parse ops a p))"

lemma regKey_inject [simp]: "regKey a p = regKey a' p' \<longleftrightarrow> a = a' \<and> p = p'"
  by (auto simp: regKey_def)

lemma makeRoom_evict:
  "kMaxEntries \<le> length t \<Longrightarrow> makeRoom expires now t =
     evict kMaxEntries (\<lambda>item. expires (snd item) \<le> now) (\<lambda>item. expires (snd item)) t"
  by (simp add: makeRoom_def evict_def Let_def)

interpretation policy_evict: evictor kMaxEntries
  "\<lambda>now item. (expires :: 'v \<Rightarrow> u64) (snd item) \<le> now" "\<lambda>item. expires (snd item)" for expires
  by unfold_locales (simp add: kMaxEntries_def)

lemma roomFor_insert:
  assumes "table_ok kMaxEntries P t" "P v"
  shows "table_ok kMaxEntries P (AList.update key v (roomFor expires now key t))"
proof (cases "length t \<ge> kMaxEntries \<and> map_of t key = None")
  case True
  then show ?thesis
    using policy_evict.insert_ok [OF assms, of key expires now] by (simp add: roomFor_def makeRoom_evict)
next
  case False
  then show ?thesis using assms by (auto simp: roomFor_def intro!: table_ok_update)
qed

lemma roomFor_lookup:
  "distinct (keys t) \<Longrightarrow> map_of (roomFor expires now key t) k = Some e \<Longrightarrow> map_of t k = Some e"
  using map_of_subset [OF _ evict_subset] by (fastforce simp: roomFor_def makeRoom_evict split: if_splits)

lemma pruneIfDue_ok:
  assumes "table_ok kMaxEntries P (policies r)" "table_ok kMaxEntries Q (hops r)"
  shows "table_ok kMaxEntries P (policies (pruneIfDue now r))" "table_ok kMaxEntries Q (hops (pruneIfDue now r))"
    "map_of (policies (pruneIfDue now r)) k = Some e \<Longrightarrow> map_of (policies r) k = Some e"
  using assms map_of_erase_if [of "policies r"]
  by (auto simp: pruneIfDue_def table_ok_def [of _ _ "policies r"] split: option.splits if_splits
      intro: table_ok_erase_if)

lemma settlePolicy_ttl:
  "mode (settlePolicy hop now p) = FakeAutoTtl \<Longrightarrow> 2 \<le> fakeTtl (settlePolicy hop now p)"
  by (auto simp: settlePolicy_def split: option.splits if_splits)

lemma reg_arm_ok:
  assumes "registry_ok parse (r, ops)"
  shows "registry_ok parse (arm parse a p pol n t r, RegArm a p pol n t # ops)"
proof (cases "parse a = None \<or> p = 0 \<or> mode pol = NoMode")
  case True
  then show ?thesis using assms by (auto simp: registry_ok_def arm_def split: option.splits)
next
  case False
  then obtain addr where addr: "parse a = Some addr" by auto
  let ?now = "clockMs n t" and ?key = "regKey addr p"
  let ?r1 = "pruneIfDue ?now r"
  let ?e = "\<lparr>reg_policy = pol, reg_expiresAtMs = ?now + kPolicyTtlMs, taken = False,
                  hasSequence = False, reg_sequence = 0, applied = False\<rparr>"
  have ok: "table_ok kMaxEntries entry_settled (policies r)" "table_ok kMaxEntries (\<lambda>_. True) (hops r)"
    using assms by (auto simp: registry_ok_def)
  note prune = pruneIfDue_ok [OF ok, of ?now]
  have arm: "arm parse a p pol n t r = ?r1\<lparr>policies := AList.update ?key ?e
      (roomFor reg_expiresAtMs ?now ?key (policies ?r1))\<rparr>"
    using False addr by (simp add: arm_def Let_def)
  have "map_of (policies r) k = Some e" if "map_of (roomFor reg_expiresAtMs ?now ?key (policies ?r1)) k = Some e" for k e
    using roomFor_lookup [OF _ that] prune by (auto simp: table_ok_def)
  then show ?thesis
    using assms prune False addr
    by (auto simp: arm registry_ok_def entry_settled_def intro!: roomFor_insert split: if_splits)
qed

lemma reg_hop_ok:
  assumes "registry_ok parse (r, ops)"
  shows "registry_ok parse (observeHop a p ttl n t r, RegHop a p ttl n t # ops)"
proof -
  have ok: "table_ok kMaxEntries entry_settled (policies r)" "table_ok kMaxEntries (\<lambda>_. True) (hops r)"
    using assms by (auto simp: registry_ok_def)
  note prune = pruneIfDue_ok [OF ok, of "clockMs n t"]
  show ?thesis
    using assms prune by (auto simp: registry_ok_def observeHop_def Let_def intro!: roomFor_insert)
qed

interpretation registry: machine "reg_hist_step parse" reg_reorder "registry_ok parse" for parse
proof
  show "registry_ok parse s \<Longrightarrow> registry_ok parse (reg_hist_step parse op s)" for s op
  proof -
    obtain r ops where s: "s = (r, ops)" by (cases s)
    assume inv: "registry_ok parse s"
    have settled: "entry_settled e" if "map_of (policies r) k = Some e" for k e
      using inv table_ok_value [OF _ that, of kMaxEntries entry_settled] by (auto simp: registry_ok_def s)
    show ?thesis
    proof (cases op)
      case (RegArm a p pol n t)
      then show ?thesis using reg_arm_ok inv by (simp add: reg_hist_step_def s)
    next
      case (RegHop a p ttl n t)
      then show ?thesis using reg_hop_ok inv by (simp add: reg_hist_step_def s)
    next
      case (RegTake a p sq n t)
      then show ?thesis
        using inv settled
        by (auto simp: registry_ok_def reg_hist_step_def s take_policy_def Let_def entry_settled_def
            dest: settlePolicy_ttl
            intro!: table_ok_update split: option.splits if_splits)
    next
      case (RegNote a p n t)
      then show ?thesis
        using inv settled
        by (auto simp: registry_ok_def reg_hist_step_def s noteApplied_def Let_def entry_settled_def
            intro!: table_ok_update split: option.splits if_splits)
    next
      case (RegConsume a p n t)
      then show ?thesis
        using inv
        by (auto simp: registry_ok_def reg_hist_step_def s consumeApplied_def Let_def
            split: option.splits if_splits)
    qed (simp add: registry_ok_def reg_hist_step_def s registry_clear_def)
  qed
  show "registry_ok parse s \<Longrightarrow> reg_reorder s s' \<Longrightarrow> registry_ok parse s'" for s s'
    using map_of_reorder [of "policies (fst s)" "policies (fst s')"]
      table_ok_reorder [of kMaxEntries entry_settled "policies (fst s)" "policies (fst s')"]
      table_ok_reorder [of kMaxEntries "\<lambda>_. True" "hops (fst s)" "hops (fst s')"]
    by (cases s; cases s') (auto simp: registry_ok_def reg_reorder_def table_ok_def)
qed

lemma emptyRegistry_ok: "registry_ok parse (emptyRegistry, [])"
  by (simp add: registry_ok_def emptyRegistry_def)

text \<open>
  A profile counts as applied only if the packet loop said so: in every history, when
  \<open>consumeApplied\<close> answers yes, \<open>noteApplied\<close> was called for the same server and port after
  the policy was armed last, and nobody asked in between. Both tables stay within 8192
  entries.
\<close>

lemma consumeApplied_authentic:
  assumes "reach (reg_hist_step parse) reg_reorder (emptyRegistry, []) (r, ops)"
  shows "length (policies r) \<le> 8192 \<and> length (hops r) \<le> 8192 \<and>
    (if fst (consumeApplied parse targetAddress sourcePort nowMs tick r)
     then \<exists>address. parse targetAddress = Some address \<and> reported parse ops address sourcePort else True)"
proof -
  have "registry_ok parse (r, ops)" by (rule registry.reach_inv [OF assms emptyRegistry_ok])
  then show ?thesis
    by (auto simp: registry_ok_def consumeApplied_def Let_def table_ok_def kMaxEntries_def
        split: option.splits if_splits)
qed

definition sampleParse :: "string \<Rightarrow> Address option" where
  "sampleParse s = (if s = ''192.0.2.7'' then Some (replicate 10 0 @ [0xFF, 0xFF, 192, 0, 2, 7]) else None)"

definition sampleOps :: "reg_op list" where
  "sampleOps = [RegNote (replicate 10 0 @ [0xFF, 0xFF, 192, 0, 2, 7]) 40000 120 0,
     RegArm ''192.0.2.7'' 40000 (defaultPolicy\<lparr>mode := ReverseOrder\<rparr>) 100 0]"

lemma sampleOps_reach:
  "reach (reg_hist_step sampleParse) reg_reorder (emptyRegistry, [])
     (foldr (reg_step sampleParse) sampleOps emptyRegistry, sampleOps)"
proof -
  have "foldr (reg_hist_step sampleParse) sampleOps (emptyRegistry, []) =
      (foldr (reg_step sampleParse) sampleOps emptyRegistry, sampleOps)"
    by (simp add: sampleOps_def reg_hist_step_def)
  moreover have "reach (reg_hist_step sampleParse) reg_reorder (emptyRegistry, [])
      (foldr (reg_hist_step sampleParse) sampleOps (emptyRegistry, []))"
    unfolding sampleOps_def foldr.simps comp_def id_def by (intro reach.operation reach.start)
  ultimately show ?thesis by simp
qed

lemma consumeApplied_authentic_example:
  "fst (consumeApplied sampleParse ''192.0.2.7'' 40000 200 0 (foldr (reg_step sampleParse) sampleOps emptyRegistry)) \<and>
   (\<exists>address. reported sampleParse sampleOps address 40000)"
proof -
  have c: "fst (consumeApplied sampleParse ''192.0.2.7'' 40000 200 0
      (foldr (reg_step sampleParse) sampleOps emptyRegistry))" by code_simp
  show ?thesis
    using consumeApplied_authentic [OF sampleOps_reach, of "''192.0.2.7''" 40000 200 0] c by auto
qed

text \<open>
  An AutoTTL policy never leaves the registry without a usable hop count: in every
  history, a policy handed out is never an AutoTTL one with a time to live below two, be it
  the first packet or a retransmission.
\<close>

lemma take_policy_ttl:
  assumes "reach (reg_hist_step parse) reg_reorder (emptyRegistry, []) (r, ops)"
    and "fst (take_policy target sourcePort sequence nowMs tick r) = Some policy"
    and "mode policy = FakeAutoTtl"
  shows "2 \<le> fakeTtl policy"
proof -
  have ok: "registry_ok parse (r, ops)" by (rule registry.reach_inv [OF assms(1) emptyRegistry_ok])
  have "entry_settled e" if "map_of (policies r) k = Some e" for k e
    using ok table_ok_value [OF _ that, of kMaxEntries entry_settled] by (auto simp: registry_ok_def)
  then show ?thesis
    using assms(2,3)
    by (auto simp: take_policy_def Let_def entry_settled_def settlePolicy_def split: option.splits if_splits)
qed

text \<open>
  A retransmitted ClientHello gets the treatment of the original: after a policy was
  handed out for a packet, the same sequence number gets the same policy until it expires
  and every other sequence number gets none, so neither is the name sent in the clear nor a
  later record touched.
\<close>

lemma take_policy_retransmission:
  assumes "take_policy target sourcePort (Some s) nowMs tick r = (Some policy, r')"
    and "map_of (policies r) (regKey target sourcePort) = Some e" and "\<not> taken e"
    and "clockMs nowMs' tick' < reg_expiresAtMs e"
  shows "take_policy target sourcePort (Some s) nowMs' tick' r' = (Some policy, r') \<and>
    (if s' = Some s then True else fst (take_policy target sourcePort s' nowMs' tick' r') = None)"
proof -
  let ?key = "regKey target sourcePort"
  let ?e = "e\<lparr>taken := True, hasSequence := True, reg_sequence := s,
    reg_policy := settlePolicy (map_of (hops r) ?key) (clockMs nowMs tick) (reg_policy e)\<rparr>"
  have r': "r' = r\<lparr>policies := AList.update ?key ?e (policies r)\<rparr>" and p: "policy = reg_policy ?e"
    using assms(1-3) by (auto simp: take_policy_def Let_def split: if_splits)
  have "map_of (policies r') ?key = Some ?e" by (simp add: r')
  then show ?thesis using assms(4) p by (auto simp: take_policy_def Let_def)
qed

definition autoTtlOps :: "reg_op list" where
  "autoTtlOps = [RegHop (replicate 10 0 @ [0xFF, 0xFF, 192, 0, 2, 7]) 40000 52 110 0,
     RegArm ''192.0.2.7'' 40000 (defaultPolicy\<lparr>mode := FakeAutoTtl\<rparr>) 100 0]"

definition autoTtlPolicy :: Policy where
  "autoTtlPolicy = defaultPolicy\<lparr>mode := FakeAutoTtl, fakeTtl := 11\<rparr>"

lemma take_policy_ttl_witness:
  "fst (take_policy (replicate 10 0 @ [0xFF, 0xFF, 192, 0, 2, 7]) 40000 (Some 7) 120 0
     (foldr (reg_step sampleParse) autoTtlOps emptyRegistry)) = Some autoTtlPolicy \<and> 2 \<le> fakeTtl autoTtlPolicy"
proof -
  have "foldr (reg_hist_step sampleParse) autoTtlOps (emptyRegistry, []) =
      (foldr (reg_step sampleParse) autoTtlOps emptyRegistry, autoTtlOps)"
    by (simp add: autoTtlOps_def reg_hist_step_def)
  moreover have "reach (reg_hist_step sampleParse) reg_reorder (emptyRegistry, [])
      (foldr (reg_hist_step sampleParse) autoTtlOps (emptyRegistry, []))"
    unfolding autoTtlOps_def foldr.simps comp_def id_def by (intro reach.operation reach.start)
  ultimately have r: "reach (reg_hist_step sampleParse) reg_reorder (emptyRegistry, [])
      (foldr (reg_step sampleParse) autoTtlOps emptyRegistry, autoTtlOps)" by simp
  have t: "fst (take_policy (replicate 10 0 @ [0xFF, 0xFF, 192, 0, 2, 7]) 40000 (Some 7) 120 0
     (foldr (reg_step sampleParse) autoTtlOps emptyRegistry)) = Some autoTtlPolicy" by code_simp
  show ?thesis using take_policy_ttl [OF r t] t by (simp add: autoTtlPolicy_def)
qed

definition armedRegistry :: PolicyRegistry where
  "armedRegistry = \<lparr>policies = [(regKey [1] 40000, \<lparr>reg_policy = autoTtlPolicy, reg_expiresAtMs = 15100,
     taken = False, hasSequence = False, reg_sequence = 0, applied = False\<rparr>)], hops = [], nextPruneMs = 0\<rparr>"

lemma take_policy_retransmission_example:
  "fst (take_policy [1] 40000 (Some 7) 300 0 (snd (take_policy [1] 40000 (Some 7) 200 0 armedRegistry))) =
     fst (take_policy [1] 40000 (Some 7) 200 0 armedRegistry)"
proof -
  have t: "take_policy [1] 40000 (Some 7) 200 0 armedRegistry =
      (Some (autoTtlPolicy\<lparr>mode := FakeBadSequence\<rparr>), snd (take_policy [1] 40000 (Some 7) 200 0 armedRegistry))"
    by code_simp
  have e: "map_of (policies armedRegistry) (regKey [1] 40000) = Some \<lparr>reg_policy = autoTtlPolicy,
      reg_expiresAtMs = 15100, taken = False, hasSequence = False, reg_sequence = 0, applied = False\<rparr>"
    by (simp add: armedRegistry_def)
  show ?thesis
    using take_policy_retransmission [OF t e, of 300 0] t by (simp add: clockMs_def)
qed

end
