(* ===== verification/Quic_Strategy.thy ===== *)
theory Quic_Strategy
  imports Transparent_Flow "HOL-Library.Monad_Syntax"
begin

text \<open>
  \<open>src/src/QuicStrategy.hpp\<close> and \<open>QuicStrategy.cpp\<close>: recognising QUIC Initial packets, the
  datagram sent ahead of the first one, and the registry that keeps QUIC for servers that
  answer and drops it for those that do not. The atomic counters are fields of the state;
  \<open>size_t\<close> is 64 bits wide, so \<open>fetch_sub\<close> at zero wraps. What \<open>BCryptGenRandom\<close> returns is
  a parameter, with \<open>None\<close> its failure.
\<close>

definition kQuicV2 :: u32 where "kQuicV2 = 0x6B3343CF"
definition kMinimumInitialSize :: nat where "kMinimumInitialSize = 1200"

datatype QuicMode = QuicBlock | QuicAdaptive | QuicAllow

datatype Decision = PassQuic | PrimeAndPass | DropQuic

definition readU32 :: "byte list \<Rightarrow> nat \<Rightarrow> u32 option" where
  "readU32 value off =
     do {a \<leftarrow> at value off; b \<leftarrow> at value (off + 1); c \<leftarrow> at value (off + 2); d \<leftarrow> at value (off + 3);
         Some (push_bit 24 (ucast a) OR push_bit 16 (ucast b) OR push_bit 8 (ucast c) OR ucast d)}"

text \<open>\<open>None\<close> is a read outside the datagram; \<open>Some False\<close> and \<open>Some True\<close> are the answers.\<close>

definition looksLikeInitial :: "byte list \<Rightarrow> bool option" where
  "looksLikeInitial payload =
     (if length payload < kMinimumInitialSize then Some False
      else do {
        first \<leftarrow> at payload 0;
        if first AND 0xC0 \<noteq> 0xC0 then Some False
        else do {
          version \<leftarrow> readU32 payload 1;
          if version = 0 then Some False
          else let longPacketType = first AND 0x30
            in Some (if version = kQuicV2 then longPacketType = 0x10 else longPacketType = 0x00)}})"

definition buildPrimePayload :: "byte list option \<Rightarrow> byte list" where
  "buildPrimePayload random =
     (let payload = (case random of Some r \<Rightarrow> r
                     | None \<Rightarrow> map (\<lambda>i. 0xA5 XOR of_nat (i * 29)) [0..<32])
      in payload[0 := payload ! 0 AND 0x3F])"

section \<open>The adaptive registry\<close>

record QuicFlow =
  startedMs :: u64
  touchedMs :: u64
  answered :: bool

record AdaptiveRegistry =
  responseTimeoutMs :: u64
  fallbackMs :: u64
  nextPurgeAtMs :: u64
  unansweredFlows :: u64
  blockedServers :: u64
  flows :: "(string, QuicFlow) table"
  blockedUntil :: "(string, u64) table"

definition newAdaptive :: "u64 \<Rightarrow> u64 \<Rightarrow> AdaptiveRegistry" where
  "newAdaptive timeout fallback =
     (let t = max timeout 1 in
      \<lparr>responseTimeoutMs = t, fallbackMs = max fallback t, nextPurgeAtMs = 0,
       unansweredFlows = 0, blockedServers = 0, flows = [], blockedUntil = []\<rparr>)"

definition needsOutbound :: "bool \<Rightarrow> AdaptiveRegistry \<Rightarrow> bool" where
  "needsOutbound initial r \<longleftrightarrow> initial \<or> blockedServers r \<noteq> 0"

definition needsInbound :: "AdaptiveRegistry \<Rightarrow> bool" where
  "needsInbound r \<longleftrightarrow> unansweredFlows r \<noteq> 0"

definition quic_flowKey :: "string \<Rightarrow> u16 \<Rightarrow> string" where
  "quic_flowKey server localPort = server @ ''|'' @ dec_digits (unat localPort)"

definition publishBlocked :: "AdaptiveRegistry \<Rightarrow> AdaptiveRegistry" where
  "publishBlocked r = r\<lparr>blockedServers := of_nat (length (blockedUntil r))\<rparr>"

text \<open>The first loop of \<open>purgeIfDue\<close>, with the counter it decrements.\<close>

fun purge_flows :: "u64 \<Rightarrow> u64 \<Rightarrow> (string, QuicFlow) table \<Rightarrow> u64 \<Rightarrow> (string, QuicFlow) table \<times> u64" where
  "purge_flows fallback nowMs [] n = ([], n)"
| "purge_flows fallback nowMs ((key, f) # t) n =
     (if nowMs - touchedMs f > fallback
      then purge_flows fallback nowMs t (if answered f then n else n - 1)
      else let (t', n') = purge_flows fallback nowMs t n in ((key, f) # t', n'))"

definition purgeIfDue :: "u64 \<Rightarrow> AdaptiveRegistry \<Rightarrow> AdaptiveRegistry" where
  "purgeIfDue nowMs r =
     (if nowMs < nextPurgeAtMs r then r
      else let (t, n) = purge_flows (fallbackMs r) nowMs (flows r) (unansweredFlows r)
        in publishBlocked (r\<lparr>nextPurgeAtMs := nowMs + min (responseTimeoutMs r) 1000,
             flows := t, unansweredFlows := n,
             blockedUntil := erase_if (\<lambda>item. snd item \<le> nowMs) (blockedUntil r)\<rparr>))"

definition quic_outbound :: "string \<Rightarrow> u16 \<Rightarrow> bool \<Rightarrow> u64 \<Rightarrow> AdaptiveRegistry \<Rightarrow> Decision \<times> AdaptiveRegistry" where
  "quic_outbound server localPort initial nowMs r0 =
     (let r1 = purgeIfDue nowMs r0; blocked = map_of (blockedUntil r1) server in
      if (case blocked of Some untilMs \<Rightarrow> untilMs > nowMs | None \<Rightarrow> False) then (DropQuic, r1)
      else let r2 = (if blocked = None then r1
                     else publishBlocked (r1\<lparr>blockedUntil := AList.delete server (blockedUntil r1)\<rparr>))
        in if \<not> initial then (PassQuic, r2)
           else let key = quic_flowKey server localPort in
             case map_of (flows r2) key of
               None \<Rightarrow> (PrimeAndPass, r2\<lparr>
                 flows := AList.update key \<lparr>startedMs = nowMs, touchedMs = nowMs, answered = False\<rparr> (flows r2),
                 unansweredFlows := unansweredFlows r2 + 1\<rparr>)
             | Some f \<Rightarrow>
                 let f1 = f\<lparr>touchedMs := nowMs\<rparr>; r3 = r2\<lparr>flows := AList.update key f1 (flows r2)\<rparr>
                 in if answered f1 then (PassQuic, r3)
                    else if nowMs - startedMs f1 \<ge> responseTimeoutMs r3
                    then (DropQuic, publishBlocked (r3\<lparr>
                      blockedUntil := AList.update server (nowMs + fallbackMs r3) (blockedUntil r3)\<rparr>))
                    else (PassQuic, r3))"

definition quic_inbound :: "string \<Rightarrow> u16 \<Rightarrow> u64 \<Rightarrow> AdaptiveRegistry \<Rightarrow> AdaptiveRegistry" where
  "quic_inbound server localPort nowMs r0 =
     (let r1 = purgeIfDue nowMs r0; key = quic_flowKey server localPort in
      case map_of (flows r1) key of
        None \<Rightarrow> r1
      | Some f \<Rightarrow> publishBlocked (r1\<lparr>
          unansweredFlows := (if answered f then unansweredFlows r1 else unansweredFlows r1 - 1),
          flows := AList.update key (f\<lparr>answered := True, touchedMs := nowMs\<rparr>) (flows r1),
          blockedUntil := AList.delete server (blockedUntil r1)\<rparr>))"

definition quic_clear :: "AdaptiveRegistry \<Rightarrow> AdaptiveRegistry" where
  "quic_clear r = publishBlocked (r\<lparr>flows := [], blockedUntil := [], unansweredFlows := 0\<rparr>)\<lparr>nextPurgeAtMs := 0\<rparr>"

section \<open>Recognising an Initial\<close>

lemma looksLikeInitial_safe: "looksLikeInitial payload \<noteq> None"
proof (cases "length payload < 1200")
  case False
  then have "at payload i = Some (payload ! i)" if "i < 5" for i using that by simp
  then show ?thesis by (auto simp: looksLikeInitial_def readU32_def Let_def)
qed (simp add: looksLikeInitial_def kMinimumInitialSize_def)

lemma buildPrimePayload_ignored:
  "(case random of Some r \<Rightarrow> length r = 32 | None \<Rightarrow> True) \<Longrightarrow>
   length (buildPrimePayload random) = 32 \<and> \<not> bit (buildPrimePayload random ! 0) 6 \<and>
   \<not> bit (buildPrimePayload random ! 0) 7"
proof -
  have "\<not> bit (b AND 0x3F :: byte) 6" "\<not> bit (b AND 0x3F :: byte) 7" for b :: byte
    by (simp_all add: bit_and_iff bit_numeral_word_iff)
  then show ?thesis if "case random of Some r \<Rightarrow> length r = 32 | None \<Rightarrow> True"
    using that by (cases random) (simp_all add: buildPrimePayload_def)
qed

section \<open>Histories of the registry\<close>

datatype quic_op =
    QuicOut string u16 bool u64
  | QuicIn string u16 u64
  | QuicClear

fun quic_step :: "quic_op \<Rightarrow> AdaptiveRegistry \<Rightarrow> AdaptiveRegistry" where
  "quic_step (QuicOut s p i n) r = snd (quic_outbound s p i n r)"
| "quic_step (QuicIn s p n) r = quic_inbound s p n r"
| "quic_step QuicClear r = quic_clear r"

definition quic_hist_step :: "quic_op \<Rightarrow> AdaptiveRegistry \<times> quic_op list \<Rightarrow> AdaptiveRegistry \<times> quic_op list" where
  "quic_hist_step op = (\<lambda>(r, ops). (quic_step op r, op # ops))"

definition quic_reorder :: "AdaptiveRegistry \<times> quic_op list \<Rightarrow> AdaptiveRegistry \<times> quic_op list \<Rightarrow> bool" where
  "quic_reorder = (\<lambda>(r, ops) (r', ops'). ops' = ops \<and> mset (flows r') = mset (flows r) \<and>
     mset (blockedUntil r') = mset (blockedUntil r) \<and>
     r' = r\<lparr>flows := flows r', blockedUntil := blockedUntil r'\<rparr>)"

text \<open>Operations whose clock is far from the end of its range (some 146 million years).\<close>

fun tame :: "quic_op \<Rightarrow> bool" where
  "tame (QuicOut s p i n) \<longleftrightarrow> n < 2 ^ 62"
| "tame (QuicIn s p n) \<longleftrightarrow> n < 2 ^ 62"
| "tame QuicClear \<longleftrightarrow> True"

text \<open>An Initial sent to the server from the port at that time, with no answer since (latest first).\<close>

fun unansweredSince :: "quic_op list \<Rightarrow> string \<Rightarrow> u16 \<Rightarrow> u64 \<Rightarrow> bool" where
  "unansweredSince [] server port t \<longleftrightarrow> False"
| "unansweredSince (QuicOut s p i n # ops) server port t \<longleftrightarrow>
     s = server \<and> p = port \<and> i \<and> n = t \<or> unansweredSince ops server port t"
| "unansweredSince (QuicIn s p n # ops) server port t \<longleftrightarrow>
     \<not> (s = server \<and> p = port) \<and> unansweredSince ops server port t"
| "unansweredSince (QuicClear # ops) server port t \<longleftrightarrow> False"

definition openFlows :: "(string, QuicFlow) table \<Rightarrow> nat" where
  "openFlows t = length (filter (\<lambda>item. \<not> answered (snd item)) t)"

lemma quic_flowKey_inject [simp]: "quic_flowKey a p = quic_flowKey a' p' \<longleftrightarrow> a = a' \<and> p = p'"
  using flowKey_inject [of a p a' p'] by (simp add: quic_flowKey_def flowKey_def)

lemma purge_flows_eq:
  "purge_flows fb now t n =
     (let t' = erase_if (\<lambda>item. now - touchedMs (snd item) > fb) t
      in (t', n + of_nat (openFlows t') - of_nat (openFlows t)))"
  by (induction fb now t n rule: purge_flows.induct)
    (auto simp: Let_def erase_if_def openFlows_def algebra_simps)

lemma openFlows_update:
  assumes "distinct (keys t)"
  shows "openFlows (AList.update k f t) + (case map_of t k of Some g \<Rightarrow> if answered g then 0 else 1 | None \<Rightarrow> 0) =
    openFlows t + (if answered f then 0 else 1)"
  using assms
proof (induction t)
  case Nil
  then show ?case by (simp add: openFlows_def)
next
  case (Cons e t)
  have "fst e = k \<Longrightarrow> map_of t k = None" using Cons.prems by (auto simp: map_of_eq_None_iff)
  with Cons show ?case by (cases e) (auto simp: openFlows_def split: option.splits if_splits)
qed

section \<open>The invariant\<close>

text \<open>What holds whatever the clock does: distinct keys and exact counters.\<close>

definition counters_ok :: "AdaptiveRegistry \<Rightarrow> bool" where
  "counters_ok r \<longleftrightarrow> distinct (keys (flows r)) \<and> distinct (keys (blockedUntil r)) \<and>
     blockedServers r = of_nat (length (blockedUntil r)) \<and>
     unansweredFlows r = of_nat (openFlows (flows r))"

text \<open>A blocked server has a flow whose Initials went unanswered for the response timeout.\<close>

definition blocker :: "AdaptiveRegistry \<Rightarrow> string \<Rightarrow> u64 \<Rightarrow> u16 \<Rightarrow> QuicFlow \<Rightarrow> bool" where
  "blocker r server untilMs port f \<longleftrightarrow> map_of (flows r) (quic_flowKey server port) = Some f \<and>
     \<not> answered f \<and> unat untilMs = unat (touchedMs f) + unat (fallbackMs r) \<and>
     touchedMs f - startedMs f \<ge> responseTimeoutMs r"

definition history_ok :: "AdaptiveRegistry \<Rightarrow> quic_op list \<Rightarrow> bool" where
  "history_ok r ops \<longleftrightarrow>
     responseTimeoutMs r < 2 ^ 62 \<and> 0 < responseTimeoutMs r \<and>
     fallbackMs r < 2 ^ 62 \<and> responseTimeoutMs r \<le> fallbackMs r \<and>
     (\<forall>e \<in> set (flows r). touchedMs (snd e) < nextPurgeAtMs r) \<and>
     (\<forall>s u. map_of (blockedUntil r) s = Some u \<longrightarrow> (\<exists>q f. blocker r s u q f)) \<and>
     (\<forall>s q f. map_of (flows r) (quic_flowKey s q) = Some f \<longrightarrow> \<not> answered f \<longrightarrow>
        unansweredSince ops s q (startedMs f))"

definition quic_inv :: "AdaptiveRegistry \<times> quic_op list \<Rightarrow> bool" where
  "quic_inv = (\<lambda>(r, ops). counters_ok r \<and> (list_all tame ops \<longrightarrow> history_ok r ops))"

lemma publishBlocked_simps [simp]:
  "flows (publishBlocked r) = flows r" "blockedUntil (publishBlocked r) = blockedUntil r"
  "unansweredFlows (publishBlocked r) = unansweredFlows r" "nextPurgeAtMs (publishBlocked r) = nextPurgeAtMs r"
  "fallbackMs (publishBlocked r) = fallbackMs r" "responseTimeoutMs (publishBlocked r) = responseTimeoutMs r"
  "blockedServers (publishBlocked r) = of_nat (length (blockedUntil r))"
  by (simp_all add: publishBlocked_def)

lemma blocker_fields:
  "flows r' = flows r \<Longrightarrow> fallbackMs r' = fallbackMs r \<Longrightarrow> responseTimeoutMs r' = responseTimeoutMs r \<Longrightarrow>
    blocker r' = blocker r"
  by (intro ext) (simp add: blocker_def)

lemma history_ok_blocker:
  assumes "history_ok r ops" "map_of (blockedUntil r) s = Some u"
  obtains q f where "blocker r s u q f"
  using assms unfolding history_ok_def by blast

lemma counters_ok_purge: "counters_ok r \<Longrightarrow> counters_ok (purgeIfDue now r)"
  by (auto simp: purgeIfDue_def purge_flows_eq Let_def counters_ok_def)

lemma history_ok_purge:
  assumes r: "history_ok r ops" "counters_ok r" and now: "now < 2 ^ 62"
  shows "history_ok (purgeIfDue now r) ops" "now < nextPurgeAtMs (purgeIfDue now r)"
proof -
  let ?r = "purgeIfDue now r"
  have c: "responseTimeoutMs ?r = responseTimeoutMs r" "fallbackMs ?r = fallbackMs r"
    by (simp_all add: purgeIfDue_def case_prod_beta)
  show "now < nextPurgeAtMs ?r"
  proof -
    have m: "0 < min (responseTimeoutMs r) 1000" "min (responseTimeoutMs r) 1000 < 2 ^ 62"
      using r(1) by (auto simp: history_ok_def min_def)
    then show ?thesis using now
      by (auto simp: purgeIfDue_def case_prod_beta word_less_nat_alt unat_word_ariths)
  qed
  show "history_ok ?r ops"
  proof (cases "now < nextPurgeAtMs r")
    case True
    then show ?thesis using r by (simp add: purgeIfDue_def)
  next
    case False
    have t: "\<forall>e \<in> set (flows r). touchedMs (snd e) < nextPurgeAtMs r" using r(1) by (simp add: history_ok_def)
    have f: "flows ?r = erase_if (\<lambda>item. now - touchedMs (snd item) > fallbackMs r) (flows r)"
      and b: "blockedUntil ?r = erase_if (\<lambda>item. snd item \<le> now) (blockedUntil r)"
      using False by (simp_all add: purgeIfDue_def purge_flows_eq Let_def)
    have d: "distinct (keys (flows r))" "distinct (keys (blockedUntil r))"
      using r(2) by (auto simp: counters_ok_def)
    have 1: "\<forall>e \<in> set (flows ?r). touchedMs (snd e) < nextPurgeAtMs ?r"
      using t False \<open>now < nextPurgeAtMs ?r\<close> by (fastforce simp: f)
    have 2: "\<exists>q f. blocker ?r s u q f" if su: "map_of (blockedUntil ?r) s = Some u" for s u
    proof -
      have "map_of (blockedUntil r) s = Some u" "now < u"
        using su d by (auto simp: b map_of_erase_if split: option.splits if_splits)
      then obtain q g where g: "blocker r s u q g" using history_ok_blocker [OF r(1)] by metis
      have "touchedMs g < nextPurgeAtMs r" using g t by (force simp: blocker_def dest: map_of_SomeD)
      then have "touchedMs g \<le> now" using False by simp
      then have "unat (now - touchedMs g) = unat now - unat (touchedMs g)"
        by (simp add: unat_sub word_le_nat_alt)
      moreover have "unat now < unat (touchedMs g) + unat (fallbackMs r)"
        using \<open>now < u\<close> g by (simp add: blocker_def word_less_nat_alt)
      ultimately have "\<not> now - touchedMs g > fallbackMs r"
        by (simp add: word_less_nat_alt)
      then have "blocker ?r s u q g"
        using g d by (simp add: blocker_def c f map_of_erase_if del: map_of_eq_Some_iff)
      then show ?thesis by blast
    qed
    have 3: "unansweredSince ops s q (startedMs g)"
      if "map_of (flows ?r) (quic_flowKey s q) = Some g" "\<not> answered g" for s q g
      using that r(1) d by (auto simp: f map_of_erase_if history_ok_def split: option.splits if_splits)
    show ?thesis using r(1) 1 2 3 by (simp add: history_ok_def c)
  qed
qed

lemma history_ok_out: "history_ok r ops \<Longrightarrow> history_ok r (QuicOut s p i n # ops)"
  by (simp add: history_ok_def)

lemma history_ok_unblock:
  "history_ok r ops \<Longrightarrow> distinct (keys (blockedUntil r)) \<Longrightarrow>
    history_ok (publishBlocked (r\<lparr>blockedUntil := AList.delete s (blockedUntil r)\<rparr>)) ops"
  by (auto simp: history_ok_def blocker_def split: if_splits)

text \<open>Touching one flow of a server that is not blocked.\<close>

lemma history_ok_touch:
  assumes r: "history_ok r ops" and "map_of (blockedUntil r) s = None" "touchedMs f < nextPurgeAtMs r"
    and ops: "\<And>s' q t. unansweredSince ops s' q t \<Longrightarrow> (s', q) \<noteq> (s, p) \<Longrightarrow> unansweredSince ops' s' q t"
    and f: "answered f \<or> unansweredSince ops' s p (startedMs f)"
    and d: "distinct (keys (flows r))"
  shows "history_ok (r\<lparr>flows := AList.update (quic_flowKey s p) f (flows r), unansweredFlows := n\<rparr>) ops'"
proof -
  have "\<exists>q g. blocker (r\<lparr>flows := AList.update (quic_flowKey s p) f (flows r), unansweredFlows := n\<rparr>) s' u q g"
    if su: "map_of (blockedUntil r) s' = Some u" for s' u
  proof -
    obtain q g where "blocker r s' u q g" using history_ok_blocker [OF r su] by metis
    moreover have "s' \<noteq> s" using su assms(2) by auto
    ultimately show ?thesis by (auto simp: blocker_def)
  qed
  then show ?thesis using assms
    by (auto simp: history_ok_def set_update_alist split: if_splits)
qed

lemma history_ok_block:
  assumes r: "history_ok r ops" and f: "map_of (flows r) (quic_flowKey s p) = Some f" "\<not> answered f"
    and late: "touchedMs f - startedMs f \<ge> responseTimeoutMs r" and now: "touchedMs f < 2 ^ 62"
    and d: "distinct (keys (blockedUntil r))"
  shows "history_ok (publishBlocked (r\<lparr>blockedUntil :=
    AList.update s (touchedMs f + fallbackMs r) (blockedUntil r)\<rparr>)) ops"
proof -
  let ?r = "publishBlocked (r\<lparr>blockedUntil := AList.update s (touchedMs f + fallbackMs r) (blockedUntil r)\<rparr>)"
  have "unat (touchedMs f + fallbackMs r) = unat (touchedMs f) + unat (fallbackMs r)"
    using now r by (simp add: history_ok_def word_less_nat_alt unat_word_ariths)
  then have "blocker ?r s (touchedMs f + fallbackMs r) p f"
    using f late by (simp add: blocker_def)
  moreover have "blocker ?r = blocker r" by (rule blocker_fields) simp_all
  ultimately show ?thesis using r unfolding history_ok_def by auto
qed

lemma counters_ok_unblock:
  "counters_ok r \<Longrightarrow> counters_ok (publishBlocked (r\<lparr>blockedUntil := AList.delete s (blockedUntil r)\<rparr>))"
  by (simp add: counters_ok_def)

lemma counters_ok_touch:
  assumes "counters_ok r"
    and "n = (unansweredFlows r - (case map_of (flows r) k of Some g \<Rightarrow> if answered g then 0 else 1 | None \<Rightarrow> 0)) +
      (if answered f then 0 else 1)"
  shows "counters_ok (r\<lparr>flows := AList.update k f (flows r), unansweredFlows := n\<rparr>)"
proof -
  let ?c = "case map_of (flows r) k of Some g \<Rightarrow> if answered g then 0 else 1 | None \<Rightarrow> (0 :: nat)"
  let ?d = "if answered f then 0 else (1 :: nat)"
  have "(of_nat (openFlows (AList.update k f (flows r)) + ?c) :: u64) = of_nat (openFlows (flows r) + ?d)"
    using openFlows_update [of "flows r" k f] assms(1) by (simp only: counters_ok_def)
  then have "(of_nat (openFlows (AList.update k f (flows r))) :: u64) = of_nat (openFlows (flows r)) + of_nat ?d - of_nat ?c"
    by (simp only: of_nat_add eq_diff_eq)
  then show ?thesis using assms
    by (auto simp: counters_ok_def split: option.splits if_splits)
qed

section \<open>Every operation keeps it\<close>

lemma quic_outbound_inv:
  assumes "quic_inv (r0, ops)"
  shows "quic_inv (snd (quic_outbound s p i now r0), QuicOut s p i now # ops)"
proof -
  define r1 where "r1 = purgeIfDue now r0"
  define r2 where "r2 = (if map_of (blockedUntil r1) s = None then r1
    else publishBlocked (r1\<lparr>blockedUntil := AList.delete s (blockedUntil r1)\<rparr>))"
  let ?ops = "QuicOut s p i now # ops" and ?k = "quic_flowKey s p"
  have c1: "counters_ok r1" using assms by (simp add: r1_def quic_inv_def counters_ok_purge)
  have c2: "counters_ok r2" using c1 by (simp add: r2_def counters_ok_unblock)
  have d: "distinct (keys (flows r2))" "distinct (keys (blockedUntil r2))" using c2 by (auto simp: counters_ok_def)
  have nb: "map_of (blockedUntil r2) s = None" by (simp add: r2_def)
  have h1: "history_ok r1 ?ops \<and> history_ok r2 ?ops \<and> now < nextPurgeAtMs r2 \<and> now < 2 ^ 62" if "list_all tame ?ops"
  proof -
    have "history_ok r1 ?ops" "now < nextPurgeAtMs r1"
      using history_ok_purge [of r0 ops now] assms that
      by (auto simp: r1_def quic_inv_def simp del: tame.simps intro!: history_ok_out) (auto)
    then show ?thesis using c1 that by (auto simp: r2_def counters_ok_def history_ok_unblock)
  qed
  have touch: "quic_inv (r2\<lparr>flows := AList.update ?k f (flows r2), unansweredFlows := n\<rparr>, ?ops)"
    if "touchedMs f = now" "answered f \<or> (list_all tame ?ops \<longrightarrow> unansweredSince ?ops s p (startedMs f))"
      "n = (unansweredFlows r2 - (case map_of (flows r2) ?k of Some g \<Rightarrow> if answered g then 0 else 1 | None \<Rightarrow> 0)) +
        (if answered f then 0 else 1)" for f n
    using h1 that nb d c2 unfolding quic_inv_def
    by (auto intro!: counters_ok_touch history_ok_touch [where ops = ?ops])
  show ?thesis
  proof (cases "map_of (flows r2) ?k")
    case None
    have "quic_inv (r2, ?ops)" "quic_inv (r1, ?ops)" using c1 c2 h1 by (auto simp: quic_inv_def)
    then show ?thesis
      using None touch [of "\<lparr>startedMs = now, touchedMs = now, answered = False\<rparr>" "unansweredFlows r2 + 1"]
      by (cases i) (auto simp: quic_outbound_def Let_def r1_def [symmetric] r2_def [symmetric])
  next
    case (Some f)
    let ?f = "f\<lparr>touchedMs := now\<rparr>"
    let ?r3 = "r2\<lparr>flows := AList.update ?k ?f (flows r2)\<rparr>"
    have b: "quic_inv (r2, ?ops)" "quic_inv (r1, ?ops)" using c1 c2 h1 by (auto simp: quic_inv_def)
    have since: "answered f \<or> (list_all tame ?ops \<longrightarrow> unansweredSince ?ops s p (startedMs f))"
      using h1 Some unfolding history_ok_def by blast
    have r3: "quic_inv (?r3, ?ops)"
      using touch [of ?f "unansweredFlows r2"] Some since by simp
    have blk: "quic_inv (publishBlocked (?r3\<lparr>blockedUntil := AList.update s (now + fallbackMs ?r3) (blockedUntil ?r3)\<rparr>), ?ops)"
      if "\<not> answered f" "now - startedMs f \<ge> responseTimeoutMs r2"
      using r3 that h1 history_ok_block [of ?r3 ?ops s p ?f] d
      by (auto simp: quic_inv_def counters_ok_def)
    show ?thesis
      using b r3 blk Some
      by (cases i) (auto simp: quic_outbound_def Let_def r1_def [symmetric] r2_def [symmetric])
  qed
qed

lemma quic_inbound_inv:
  assumes "quic_inv (r0, ops)"
  shows "quic_inv (quic_inbound s p now r0, QuicIn s p now # ops)"
proof -
  define r1 where "r1 = purgeIfDue now r0"
  let ?ops = "QuicIn s p now # ops" and ?k = "quic_flowKey s p"
  have c1: "counters_ok r1" using assms by (simp add: r1_def quic_inv_def counters_ok_purge)
  have h1: "history_ok r1 ops \<and> now < nextPurgeAtMs r1" if "list_all tame ?ops"
    using history_ok_purge [of r0 ops now] assms that by (auto simp: r1_def quic_inv_def)
  show ?thesis
  proof (cases "map_of (flows r1) ?k")
    case None
    have "history_ok r1 ?ops" if "list_all tame ?ops"
      using h1 [OF that] None unfolding history_ok_def by auto
    then show ?thesis using None c1 by (simp add: quic_inbound_def r1_def [symmetric] quic_inv_def)
  next
    case (Some f)
    let ?f = "f\<lparr>answered := True, touchedMs := now\<rparr>"
    let ?n = "if answered f then unansweredFlows r1 else unansweredFlows r1 - 1"
    let ?r = "publishBlocked (r1\<lparr>blockedUntil := AList.delete s (blockedUntil r1)\<rparr>)"
    let ?r' = "?r\<lparr>flows := AList.update ?k ?f (flows ?r), unansweredFlows := ?n\<rparr>"
    have c: "counters_ok ?r'"
      using counters_ok_touch [OF counters_ok_unblock [OF c1, where s = s], where k = ?k and f = ?f and n = ?n] Some
      by (cases "answered f") simp_all
    have "history_ok ?r' ?ops" if tm: "list_all tame ?ops"
    proof (rule history_ok_touch [where ops = ops])
      show "history_ok ?r ops"
        using history_ok_unblock [of r1 ops s] h1 [OF tm] c1 by (simp add: counters_ok_def)
    qed (use h1 [OF tm] c1 in \<open>auto simp: counters_ok_def\<close>)
    moreover have "quic_inbound s p now r0 = ?r'"
      using Some by (intro AdaptiveRegistry.equality)
        (simp_all add: quic_inbound_def r1_def [symmetric])
    ultimately show ?thesis using c by (auto simp only: quic_inv_def prod.case)
  qed
qed

lemma quic_step_inv: "quic_inv h \<Longrightarrow> quic_inv (quic_hist_step op h)"
proof (cases op)
  case QuicClear
  then show "quic_inv h \<Longrightarrow> quic_inv (quic_hist_step op h)"
    by (cases h) (auto simp: quic_hist_step_def quic_clear_def quic_inv_def counters_ok_def history_ok_def openFlows_def)
qed (auto simp: quic_hist_step_def quic_outbound_inv quic_inbound_inv split: prod.splits)

lemma quic_reorder_inv: "quic_inv h \<Longrightarrow> quic_reorder h h' \<Longrightarrow> quic_inv h'"
proof -
  assume inv: "quic_inv h" and re: "quic_reorder h h'"
  obtain r ops r' where h: "h = (r, ops)" "h' = (r', ops)"
    and m: "mset (flows r') = mset (flows r)" "mset (blockedUntil r') = mset (blockedUntil r)"
    and r': "r' = r\<lparr>flows := flows r', blockedUntil := blockedUntil r'\<rparr>"
    using re by (auto simp: quic_reorder_def split: prod.splits)
  have e: "responseTimeoutMs r' = responseTimeoutMs r" "fallbackMs r' = fallbackMs r" "nextPurgeAtMs r' = nextPurgeAtMs r"
    "unansweredFlows r' = unansweredFlows r" "blockedServers r' = blockedServers r"
    by (subst r', simp)+
  have c: "counters_ok r" using inv h by (simp add: quic_inv_def)
  have d: "distinct (keys (flows r'))" "distinct (keys (blockedUntil r'))"
    using c mset_distinct_keys [OF m(1)] mset_distinct_keys [OF m(2)] by (auto simp: counters_ok_def)
  have o: "map_of (flows r') = map_of (flows r)" "map_of (blockedUntil r') = map_of (blockedUntil r)"
    using c m by (auto simp: counters_ok_def intro!: map_of_reorder)
  have "openFlows (flows r') = openFlows (flows r)"
    unfolding openFlows_def using m(1) by (metis mset_eq_length mset_filter)
  then have "counters_ok r'" using c d m e mset_eq_length [OF m(2)] by (simp add: counters_ok_def)
  moreover have "history_ok r' ops" if "history_ok r ops"
    using that mset_eq_setD [OF m(1)] by (simp add: history_ok_def e o blocker_def)
  ultimately show "quic_inv h'" using inv h by (simp add: quic_inv_def)
qed

interpretation quic: machine quic_hist_step quic_reorder quic_inv
  by unfold_locales (auto intro: quic_step_inv quic_reorder_inv)

lemma newAdaptive_inv:
  "t < 2 ^ 62 \<Longrightarrow> fb < 2 ^ 62 \<Longrightarrow> quic_inv (newAdaptive t fb, [])"
  by (auto simp: quic_inv_def newAdaptive_def Let_def counters_ok_def history_ok_def openFlows_def less_max_iff_disj)

lemma quic_reach_inv:
  assumes "reach quic_hist_step quic_reorder (newAdaptive t fb, []) (r, ops)" "t < 2 ^ 62" "fb < 2 ^ 62"
  shows "quic_inv (r, ops)"
  using quic.reach_inv [OF assms(1) newAdaptive_inv [OF assms(2,3)]] .

section \<open>The pre-checks\<close>

lemma of_nat_zero_u64: "n < 2 ^ 64 \<Longrightarrow> (of_nat n :: u64) = 0 \<longleftrightarrow> n = 0"
  by (simp add: word_unat_eq_iff unat_of_nat)

text \<open>
  The lock-free pre-checks of the datagram path never skip a call that matters. In
  every state a history of operations can reach, the two atomic counters are exact; when
  \<open>needsOutbound\<close> says no, \<open>outbound\<close> would let the datagram pass; and when \<open>needsInbound\<close>
  says no, no flow is waiting for an answer and no server is blocked, so \<open>inbound\<close> would
  lift no block.
\<close>

lemma quic_prechecks_sound:
  assumes "reach quic_hist_step quic_reorder (newAdaptive t fb, []) (r, ops)"
    and "t < 2 ^ 62" "fb < 2 ^ 62" "list_all tame ops"
    and "length (flows r) < 2 ^ 64" "length (blockedUntil r) < 2 ^ 64"
  shows "unat (unansweredFlows r) = length (filter (\<lambda>item. \<not> answered (snd item)) (flows r)) \<and>
    unat (blockedServers r) = length (blockedUntil r) \<and>
    (if needsOutbound initial r then True else fst (quic_outbound server port initial now r) = PassQuic) \<and>
    (if needsInbound r then True else blockedUntil r = [] \<and> list_all (\<lambda>item. answered (snd item)) (flows r))"
proof -
  have inv: "counters_ok r" "history_ok r ops"
    using quic_reach_inv [OF assms(1-3)] assms(4) by (auto simp: quic_inv_def)
  have n: "openFlows (flows r) < 2 ^ 64"
    using assms(5) length_filter_le [of _ "flows r"] by (metis openFlows_def order_le_less_trans)
  have u: "unat (unansweredFlows r) = openFlows (flows r)" "unat (blockedServers r) = length (blockedUntil r)"
    using inv(1) n assms(6) by (simp_all add: counters_ok_def unat_of_nat)
  have pass: "fst (quic_outbound server port False now r) = PassQuic" if "blockedServers r = 0"
  proof -
    have "blockedUntil r = []" using that u(2) by simp
    then have "blockedUntil (purgeIfDue now r) = []"
      by (simp add: purgeIfDue_def case_prod_beta erase_if_def)
    then show ?thesis by (simp add: quic_outbound_def Let_def)
  qed
  have quiet: "blockedUntil r = [] \<and> list_all (\<lambda>item. answered (snd item)) (flows r)" if "unansweredFlows r = 0"
  proof -
    have a: "list_all (\<lambda>item. answered (snd item)) (flows r)"
      using that u(1) by (auto simp: openFlows_def filter_empty_conv list_all_iff)
    moreover have False if e: "e \<in> set (blockedUntil r)" for e
    proof -
      have "map_of (blockedUntil r) (fst e) = Some (snd e)"
        using e inv(1) by (simp add: counters_ok_def)
      then obtain q f where "blocker r (fst e) (snd e) q f" using history_ok_blocker [OF inv(2)] by metis
      then show False using a by (force simp: blocker_def list_all_iff dest: map_of_SomeD)
    qed
    ultimately show ?thesis using last_in_set by blast
  qed
  show ?thesis
    using u pass quiet by (auto simp: needsOutbound_def needsInbound_def openFlows_def)
qed

text \<open>A server that never answers is blocked; the counters and pre-checks see it.\<close>

definition quic_demo :: "quic_op list" where
  "quic_demo = [QuicOut ''1.2.3.4'' 5000 True 11000, QuicOut ''1.2.3.4'' 5000 True 10000]"

lemma quic_demo_tame: "list_all tame quic_demo"
  by (simp add: quic_demo_def)

lemma quic_demo_reach:
  "reach quic_hist_step quic_reorder (newAdaptive 900 300000, [])
     (quic_step (QuicOut ''1.2.3.4'' 5000 True 11000) (quic_step (QuicOut ''1.2.3.4'' 5000 True 10000) (newAdaptive 900 300000)),
      quic_demo)"
proof -
  let ?a = "QuicOut ''1.2.3.4'' 5000 True 10000" and ?b = "QuicOut ''1.2.3.4'' 5000 True 11000"
  have "reach quic_hist_step quic_reorder (newAdaptive 900 300000, [])
      (quic_hist_step ?b (quic_hist_step ?a (newAdaptive 900 300000, [])))"
    by (intro reach.operation reach.start)
  then show ?thesis by (simp only: quic_hist_step_def prod.case quic_demo_def)
qed

lemma quic_prechecks_sound_example:
  "let r = quic_step (QuicOut ''1.2.3.4'' 5000 True 11000) (quic_step (QuicOut ''1.2.3.4'' 5000 True 10000) (newAdaptive 900 300000))
   in needsInbound r \<and> needsOutbound False r \<and> unat (unansweredFlows r) = 1 \<and> unat (blockedServers r) = 1 \<and>
      \<not> needsOutbound False (newAdaptive 900 300000) \<and>
      fst (quic_outbound ''1.2.3.4'' 5000 False 9000 (newAdaptive 900 300000)) = PassQuic"
proof -
  define r where "r = quic_step (QuicOut ''1.2.3.4'' 5000 True 11000) (quic_step (QuicOut ''1.2.3.4'' 5000 True 10000) (newAdaptive 900 300000))"
  have f: "flows r = [(''1.2.3.4|5000'', \<lparr>startedMs = 10000, touchedMs = 11000, answered = False\<rparr>)]"
    "blockedUntil r = [(''1.2.3.4'', 311000)]" "needsInbound r \<and> needsOutbound False r"
    unfolding r_def by code_simp+
  have small: "(900::u64) < 2 ^ 62" "(300000::u64) < 2 ^ 62" by simp_all
  have "reach quic_hist_step quic_reorder (newAdaptive 900 300000, []) (r, quic_demo)"
    unfolding r_def by (rule quic_demo_reach)
  then have a: "unat (unansweredFlows r) = 1" "unat (blockedServers r) = 1"
    using quic_prechecks_sound [OF _ small quic_demo_tame] f by simp_all
  have n: "\<not> needsOutbound False (newAdaptive 900 300000)" by code_simp
  have "fst (quic_outbound ''1.2.3.4'' 5000 False 9000 (newAdaptive 900 300000)) = PassQuic"
    using quic_prechecks_sound [OF reach.start small, where initial = False and server = "''1.2.3.4''" and port = 5000 and now = 9000] n
    by (simp add: newAdaptive_def Let_def)
  then show ?thesis using f(3) a n unfolding r_def [symmetric] by simp
qed

text \<open>
  A datagram is dropped only for cause. When \<open>outbound\<close> decides to drop, some Initial
  sent earlier to that server has had no answer since, a later Initial of the same flow went
  out at least the response timeout after it, and the block that followed is not older than
  the fallback time.
\<close>

lemma quic_drop_justified:
  assumes "reach quic_hist_step quic_reorder (newAdaptive t fb, []) (r, ops)"
    and "t < 2 ^ 62" "fb < 2 ^ 62" "list_all tame ops" "now < 2 ^ 62"
    and drop: "quic_outbound server port initial now r = (DropQuic, r')"
  shows "\<exists>q f. map_of (flows r') (quic_flowKey server q) = Some f \<and>
    unansweredSince (QuicOut server port initial now # ops) server q (startedMs f) \<and>
    touchedMs f - startedMs f \<ge> responseTimeoutMs r' \<and>
    unat now < unat (touchedMs f) + unat (fallbackMs r')"
proof -
  have "quic_inv (r', QuicOut server port initial now # ops)"
    using quic_outbound_inv [OF quic_reach_inv [OF assms(1-3)], of server port initial now] drop by simp
  then have h: "history_ok r' (QuicOut server port initial now # ops)"
    using assms(4,5) by (simp add: quic_inv_def)
  have "\<exists>u. map_of (blockedUntil r') server = Some u \<and> now < u"
  proof -
    have "now < now + fallbackMs r'"
      using h assms(5) by (auto simp: history_ok_def word_less_nat_alt word_le_nat_alt unat_word_ariths)
    then show ?thesis using drop
      by (auto simp: quic_outbound_def Let_def split: if_splits option.splits)
  qed
  then obtain u where u: "map_of (blockedUntil r') server = Some u" "now < u" by blast
  then obtain q f where b: "blocker r' server u q f" using history_ok_blocker [OF h] by metis
  then have "unansweredSince (QuicOut server port initial now # ops) server q (startedMs f)"
    using h unfolding history_ok_def blocker_def by blast
  then show ?thesis using b u(2) by (auto simp: blocker_def word_less_nat_alt)
qed

lemma quic_drop_justified_example:
  "fst (quic_outbound ''1.2.3.4'' 6000 False 12000
     (quic_step (QuicOut ''1.2.3.4'' 5000 True 11000) (quic_step (QuicOut ''1.2.3.4'' 5000 True 10000) (newAdaptive 900 300000)))) =
     DropQuic \<and>
   (\<exists>q t. unansweredSince (QuicOut ''1.2.3.4'' 6000 False 12000 # quic_demo) ''1.2.3.4'' q t)"
proof -
  let ?r = "quic_step (QuicOut ''1.2.3.4'' 5000 True 11000) (quic_step (QuicOut ''1.2.3.4'' 5000 True 10000) (newAdaptive 900 300000))"
  have d: "fst (quic_outbound ''1.2.3.4'' 6000 False 12000 ?r) = DropQuic" by code_simp
  have small: "(900::u64) < 2 ^ 62" "(300000::u64) < 2 ^ 62" "(12000::u64) < 2 ^ 62" by simp_all
  have e: "quic_outbound ''1.2.3.4'' 6000 False 12000 ?r = (DropQuic, snd (quic_outbound ''1.2.3.4'' 6000 False 12000 ?r))"
    using d by (simp only: prod_eq_iff fst_conv snd_conv simp_thms)
  show ?thesis
    using quic_drop_justified [OF quic_demo_reach small(1,2) quic_demo_tame small(3) e] d by blast
qed

end
