(* ===== verification/Recovery_Policy.thy ===== *)
theory Recovery_Policy
  imports Prelude
begin

text \<open>
  \<open>src/src/RecoveryPolicy.hpp\<close> and \<open>RecoveryPolicy.cpp\<close>: which errors are worth a retry and
  how long to wait, when the Worker counts as unavailable, and how many automatic restarts
  the engine gets. The \<open>WSA\<close> and \<open>ERROR\<close> constants are those of the Windows headers; the
  clocks are 64-bit and their differences wrap, as in the code.
\<close>

definition kMaxWinDivertReadRetries :: u32 where "kMaxWinDivertReadRetries = 3"
definition kRestartWindowMs :: u64 where "kRestartWindowMs = 10 * 60 * 1000"
definition kMaxAutomaticRestarts :: u32 where "kMaxAutomaticRestarts = 3"
definition kWorkerUnavailableExitCode :: int where "kWorkerUnavailableExitCode = 3"
definition kWorkerFailureThreshold :: u32 where "kWorkerFailureThreshold = 5"
definition kWorkerFailureGapMs :: u64 where "kWorkerFailureGapMs = 60000"
definition kWorkerMinStreakMs :: u64 where "kWorkerMinStreakMs = 15000"
definition kRateLimitDefaultBackoffMs :: u64 where "kRateLimitDefaultBackoffMs = 5000"
definition kRateLimitMaxBackoffMs :: u64 where "kRateLimitMaxBackoffMs = 30000"

section \<open>Retries\<close>

definition shouldContinueDnsReceive :: "int \<Rightarrow> bool" where
  "shouldContinueDnsReceive error \<longleftrightarrow>
     error = 10040 \<or> error = 10060 \<or> error = 10035 \<or> error = 10054"

definition isTransientWinDivertReadError :: "u32 \<Rightarrow> bool" where
  "isTransientWinDivertReadError error \<longleftrightarrow>
     error = 8 \<or> error = 1450 \<or> error = 1453 \<or> error = 1455 \<or> error = 1816"

definition shouldRetryWinDivertRead :: "u32 \<Rightarrow> u32 \<Rightarrow> bool" where
  "shouldRetryWinDivertRead error completedRetries \<longleftrightarrow>
     isTransientWinDivertReadError error \<and> completedRetries < kMaxWinDivertReadRetries"

definition winDivertRetryDelayMs :: "u32 \<Rightarrow> u32" where
  "winDivertRetryDelayMs completedRetries =
     (let shift = min completedRetries 3 in min (push_bit (unat shift) 50) 500)"

definition automaticRestartDelayMs :: "u32 \<Rightarrow> u32" where
  "automaticRestartDelayMs attemptNumber =
     (if attemptNumber = 0 then 0
      else let shift = min (attemptNumber - 1) 3 in min (push_bit (unat shift) 1000) 8000)"

section \<open>Worker health\<close>

record WorkerHealth =
  failures :: u32
  streakStartMs :: u64
  lastFailureMs :: u64
  backoffUntilMs :: u64
  unavailable_flag :: bool

definition newHealth :: WorkerHealth where
  "newHealth = \<lparr>failures = 0, streakStartMs = 0, lastFailureMs = 0, backoffUntilMs = 0,
     unavailable_flag = False\<rparr>"

definition failedStatus :: "int \<Rightarrow> bool" where
  "failedStatus httpStatus \<longleftrightarrow>
     httpStatus < 0 \<or> httpStatus = 401 \<or> httpStatus = 403 \<or> httpStatus \<ge> 500"

definition health_observe :: "int \<Rightarrow> u64 \<Rightarrow> u32 \<Rightarrow> WorkerHealth \<Rightarrow> bool \<times> WorkerHealth" where
  "health_observe httpStatus nowMs retryAfterSeconds h =
     (if unavailable_flag h then (True, h)
      else if httpStatus = 429 then
        let requested = (if retryAfterSeconds \<noteq> 0 then ucast retryAfterSeconds * 1000
                         else kRateLimitDefaultBackoffMs)
        in (False, h\<lparr>backoffUntilMs := max (backoffUntilMs h)
              (nowMs + min requested kRateLimitMaxBackoffMs)\<rparr>)
      else if \<not> failedStatus httpStatus then (False, h\<lparr>failures := 0\<rparr>)
      else let h1 = (if failures h = 0 \<or> nowMs - lastFailureMs h > kWorkerFailureGapMs
                     then h\<lparr>failures := 0, streakStartMs := nowMs\<rparr> else h);
               h2 = h1\<lparr>lastFailureMs := nowMs, failures := failures h1 + 1\<rparr>;
               u = (failures h2 \<ge> kWorkerFailureThreshold \<and>
                    nowMs - streakStartMs h2 \<ge> kWorkerMinStreakMs)
        in (u, h2\<lparr>unavailable_flag := u\<rparr>))"

definition health_unavailable :: "WorkerHealth \<Rightarrow> bool" where
  "health_unavailable h = unavailable_flag h"

definition backingOff :: "u64 \<Rightarrow> WorkerHealth \<Rightarrow> bool" where
  "backingOff nowMs h \<longleftrightarrow> nowMs < backoffUntilMs h"

section \<open>Restart budget\<close>

record RestartBudget =
  maxAttempts :: u32
  windowMs :: u64
  attempts :: "u64 list"

definition newBudget :: "u32 \<Rightarrow> u64 \<Rightarrow> RestartBudget" where
  "newBudget n w = \<lparr>maxAttempts = max n 1, windowMs = max w 1, attempts = []\<rparr>"

fun purge_front :: "u64 \<Rightarrow> u64 \<Rightarrow> u64 list \<Rightarrow> u64 list" where
  "purge_front w nowMs [] = []"
| "purge_front w nowMs (a # as) = (if nowMs - a \<ge> w then purge_front w nowMs as else a # as)"

definition budget_purge :: "u64 \<Rightarrow> RestartBudget \<Rightarrow> RestartBudget" where
  "budget_purge nowMs b = b\<lparr>attempts := purge_front (windowMs b) nowMs (attempts b)\<rparr>"

definition budget_consume :: "u64 \<Rightarrow> RestartBudget \<Rightarrow> u32 \<times> RestartBudget" where
  "budget_consume nowMs b =
     (let b1 = budget_purge nowMs b in
      if length (attempts b1) \<ge> unat (maxAttempts b1) then (0, b1)
      else let b2 = b1\<lparr>attempts := attempts b1 @ [nowMs]\<rparr>
        in (of_nat (length (attempts b2)), b2))"

definition budget_reset :: "RestartBudget \<Rightarrow> RestartBudget" where
  "budget_reset b = b\<lparr>attempts := []\<rparr>"

section \<open>When the Worker counts as unavailable\<close>

text \<open>
  The rule the header documents, on the statuses observed so far (latest first). The
  current streak is the failures since the last success, each at most a minute after the
  one before; a 429 neither continues nor ends it.
\<close>

type_synonym observation = "int \<times> u64 \<times> u32"

fun streak :: "observation list \<Rightarrow> u64 list" where
  "streak [] = []"
| "streak ((status, now, retry) # obs) =
     (if status = 429 then streak obs
      else if \<not> failedStatus status then []
      else now # (case streak obs of [] \<Rightarrow> []
                  | prev # older \<Rightarrow> if now - prev > 60000 then [] else prev # older))"

definition sustained :: "u64 list \<Rightarrow> bool" where
  "sustained s \<longleftrightarrow> 5 \<le> length s \<and> hd s - last s \<ge> 15000"

fun outage :: "observation list \<Rightarrow> bool" where
  "outage [] \<longleftrightarrow> False"
| "outage (ob # obs) \<longleftrightarrow> outage obs \<or> sustained (streak (ob # obs))"

fun health_after :: "observation list \<Rightarrow> WorkerHealth" where
  "health_after [] = newHealth"
| "health_after ((status, now, retry) # obs) = snd (health_observe status now retry (health_after obs))"

definition health_tracks :: "WorkerHealth \<Rightarrow> u64 list \<Rightarrow> bool" where
  "health_tracks h s \<longleftrightarrow> unat (failures h) = length s \<and>
     (s \<noteq> [] \<longrightarrow> lastFailureMs h = hd s \<and> streakStartMs h = last s)"

lemma length_streak: "length (streak obs) \<le> length obs"
  by (induction obs rule: streak.induct) (auto split: list.splits if_splits)

lemma health_tracks_failure:
  assumes h: "health_tracks h s" "\<not> unavailable_flag h" and f: "failedStatus st" "st \<noteq> 429"
    and bound: "Suc (length s) < 2 ^ 32"
    and s': "s' = now # (case s of [] \<Rightarrow> [] | p # older \<Rightarrow> if now - p > 60000 then [] else p # older)"
  shows "health_tracks (snd (health_observe st now retry h)) s' \<and>
    unavailable_flag (snd (health_observe st now retry h)) = sustained s'"
proof -
  define fresh where "fresh \<longleftrightarrow> failures h = 0 \<or> now - lastFailureMs h > kWorkerFailureGapMs"
  have z: "failures h = 0 \<longleftrightarrow> s = []"
    using h(1) by (auto simp: health_tracks_def unat_eq_zero)
  let ?f = "(if fresh then 0 else failures h) + 1"
  have uf: "unat ?f = length s'"
  proof (cases fresh)
    case True
    then show ?thesis using z h(1)
      by (auto simp: fresh_def s' health_tracks_def kWorkerFailureGapMs_def split: list.splits)
  next
    case False
    then have "length s' = Suc (length s)" using z h(1)
      by (auto simp: fresh_def s' health_tracks_def kWorkerFailureGapMs_def split: list.splits)
    moreover have "unat (failures h + 1) = Suc (unat (failures h))"
      using h(1) bound by (simp add: health_tracks_def unat_word_ariths)
    ultimately show ?thesis using False h(1) by (simp add: health_tracks_def)
  qed
  have st: "(if fresh then now else streakStartMs h) = last s'"
    using z h(1) by (auto simp: fresh_def s' health_tracks_def kWorkerFailureGapMs_def split: list.splits)
  have five: "?f \<ge> kWorkerFailureThreshold \<longleftrightarrow> 5 \<le> length s'"
    by (simp only: word_le_nat_alt uf kWorkerFailureThreshold_def) simp
  have r: "snd (health_observe st now retry h) =
      h\<lparr>failures := ?f, streakStartMs := last s', lastFailureMs := now, unavailable_flag := sustained s'\<rparr>"
    using h(2) f five st
    by (auto simp: health_observe_def Let_def fresh_def [symmetric] sustained_def s' kWorkerMinStreakMs_def)
  show ?thesis unfolding r using uf by (simp add: health_tracks_def s')
qed

lemma health_after_tracks:
  "length obs < 2 ^ 32 \<Longrightarrow> unavailable_flag (health_after obs) = outage obs \<and>
    (\<not> outage obs \<longrightarrow> health_tracks (health_after obs) (streak obs))"
proof (induction obs rule: health_after.induct)
  case 1
  then show ?case by (simp add: newHealth_def health_tracks_def)
next
  case (2 st now retry obs)
  let ?h = "health_after obs"
  have IH: "unavailable_flag ?h = outage obs" "\<not> outage obs \<Longrightarrow> health_tracks ?h (streak obs)"
    using 2 by auto
  consider "outage obs" | "\<not> outage obs" "st = 429" | "\<not> outage obs" "st \<noteq> 429" "\<not> failedStatus st"
    | "\<not> outage obs" "st \<noteq> 429" "failedStatus st" by blast
  then show ?case
  proof cases
    case 1
    then show ?thesis using IH by (simp add: health_observe_def)
  next
    case 2
    have "\<not> sustained (streak obs)" using 2(1) by (cases obs) (auto simp: sustained_def)
    then show ?thesis using IH 2 by (simp add: health_observe_def Let_def health_tracks_def)
  next
    case 3
    then show ?thesis using IH by (simp add: health_observe_def health_tracks_def sustained_def)
  next
    case 4
    have "Suc (length (streak obs)) < 2 ^ 32"
      using 2(2) length_streak [of obs] by (simp del: power_numeral)
    from health_tracks_failure [OF IH(2) [OF 4(1)] _ 4(3,2) this refl, of now retry]
    show ?thesis using IH(1) 4 by simp
  qed
qed

text \<open>
  C39. \<open>WorkerHealth\<close> latches exactly as documented: after any sequence of fewer than
  \<open>2^32\<close> observed responses it reports the Worker unavailable if and only if at some point
  there were at least five failures with no success among them, each within a minute of
  the one before, spread over at least fifteen seconds. A 429 is neither failure nor
  success, and one success ends the streak.
\<close>

theorem worker_unavailable_iff_outage:
  "length obs < 2 ^ 32 \<Longrightarrow> health_unavailable (health_after obs) \<longleftrightarrow> outage obs"
  using health_after_tracks [of obs] by (simp add: health_unavailable_def)

text \<open>Five failures over sixteen seconds with a 429 among them latch; a success in between prevents it.\<close>

theorem worker_unavailable_iff_outage_witness:
  "health_unavailable (health_after
     [(500, 116000, 0), (-1, 112000, 0), (429, 110000, 3), (401, 108000, 0), (403, 104000, 0), (503, 100000, 0)]) \<and>
   \<not> health_unavailable (health_after
     [(500, 116000, 0), (-1, 112000, 0), (200, 110000, 0), (401, 108000, 0), (403, 104000, 0), (503, 100000, 0)])"
proof -
  have a: "outage [(500, 116000, 0), (-1, 112000, 0), (429, 110000, 3), (401, 108000, 0), (403, 104000, 0), (503, 100000, 0)]"
    by code_simp
  have b: "\<not> outage [(500, 116000, 0), (-1, 112000, 0), (200, 110000, 0), (401, 108000, 0), (403, 104000, 0), (503, 100000, 0)]"
    by code_simp
  show ?thesis
    by (subst (1 2) worker_unavailable_iff_outage) (use a b in simp_all)
qed

section \<open>The restart budget\<close>

text \<open>
  The budget after asking for a restart at each of the times (latest first), with the times
  at which one was granted.
\<close>

fun budget_after :: "u32 \<Rightarrow> u64 \<Rightarrow> u64 list \<Rightarrow> RestartBudget \<times> u64 list" where
  "budget_after n w [] = (newBudget n w, [])"
| "budget_after n w (now # asked) =
     (let (b, granted) = budget_after n w asked; (k, b') = budget_consume now b
      in (b', if k \<noteq> 0 then now # granted else granted))"

definition recent :: "u64 \<Rightarrow> u64 \<Rightarrow> u64 list \<Rightarrow> u64 list" where
  "recent w now granted = filter (\<lambda>g. now - g < w) granted"

lemma word_minus_mono: "g \<le> (g'::u64) \<Longrightarrow> g' \<le> t \<Longrightarrow> t - g' \<le> t - g"
  using unat_sub [of g' t] unat_sub [of g t] by (simp add: word_le_nat_alt)

lemma word_minus_mono2: "g \<le> (t::u64) \<Longrightarrow> t \<le> t' \<Longrightarrow> t - g \<le> t' - g"
  using unat_sub [of g t] unat_sub [of g t'] by (simp add: word_le_nat_alt)

lemma purge_front_sorted:
  "sorted as \<Longrightarrow> \<forall>a \<in> set as. a \<le> now \<Longrightarrow> purge_front w now as = filter (\<lambda>g. now - g < w) as"
proof (induction w now as rule: purge_front.induct)
  case (2 w now a as)
  show ?case
  proof (cases "now - a \<ge> w")
    case True
    then show ?thesis using 2 by simp
  next
    case False
    have "\<forall>g \<in> set as. now - g < w"
    proof
      fix g assume "g \<in> set as"
      then have "a \<le> g" "g \<le> now" using 2 by auto
      then have "now - g \<le> now - a" by (rule word_minus_mono)
      then show "now - g < w" using False by simp
    qed
    then show ?thesis using False by simp
  qed
qed simp

definition budget_holds :: "u32 \<Rightarrow> u64 \<Rightarrow> u64 \<Rightarrow> RestartBudget \<Rightarrow> u64 list \<Rightarrow> bool" where
  "budget_holds n w now b granted \<longleftrightarrow>
     maxAttempts b = max n 1 \<and> windowMs b = max w 1 \<and> sorted (rev granted) \<and> (\<forall>g \<in> set granted. g \<le> now) \<and>
     rev (attempts b) = recent (max w 1) now granted \<and> length (attempts b) \<le> unat (max n 1)"

lemma recent_recent: "t \<le> now \<Longrightarrow> \<forall>g \<in> set granted. g \<le> t \<Longrightarrow> recent w now (recent w t granted) = recent w now granted"
  unfolding recent_def by (auto intro!: filter_cong intro: order_le_less_trans [OF word_minus_mono2])

lemma budget_consume_holds:
  assumes b: "budget_holds n w t b granted" and now: "t \<le> now"
  defines "k \<equiv> length (recent (max w 1) now granted)"
  shows "fst (budget_consume now b) = (if k \<ge> unat (max n 1) then 0 else of_nat (Suc k)) \<and>
    budget_holds n w now (snd (budget_consume now b)) (if k \<ge> unat (max n 1) then granted else now # granted)"
proof -
  have as: "attempts b = rev (recent (max w 1) t granted)" using b by (metis budget_holds_def rev_swap)
  have g: "\<forall>g \<in> set granted. g \<le> t" "sorted (rev granted)" using b by (auto simp: budget_holds_def)
  have le: "\<forall>g \<in> set granted. g \<le> now" using g(1) now by auto
  have p: "attempts (budget_purge now b) = rev (recent (max w 1) now granted)"
  proof -
    have "sorted (attempts b)" using g(2) by (simp add: as recent_def rev_filter sorted_wrt_filter)
    moreover have "\<forall>a \<in> set (attempts b). a \<le> now" using le by (auto simp: as recent_def)
    ultimately have "attempts (budget_purge now b) = filter (\<lambda>g. now - g < max w 1) (attempts b)"
      using b purge_front_sorted [of "attempts b" now "max w 1"]
      by (simp add: budget_purge_def budget_holds_def)
    also have "\<dots> = rev (recent (max w 1) now (recent (max w 1) t granted))"
      by (simp add: as recent_def rev_filter)
    finally show ?thesis using recent_recent [OF now g(1)] by simp
  qed
  have w: "0 < max w 1" by (simp add: less_max_iff_disj)
  have f: "maxAttempts (budget_purge now b) = max n 1" "windowMs (budget_purge now b) = max w 1"
    using b by (simp_all add: budget_purge_def budget_holds_def)
  show ?thesis
  proof (cases "k \<ge> unat (max n 1)")
    case True
    have "k \<le> length (attempts b)"
    proof -
      have "length (purge_front w now as) \<le> length as" for w now as
        by (induction w now as rule: purge_front.induct) auto
      then show ?thesis using p k_def by (metis budget_purge_def length_rev RestartBudget.select_convs(3) RestartBudget.surjective RestartBudget.update_convs(3))
    qed
    then have "k \<le> unat (max n 1)" using b by (simp add: budget_holds_def)
    then show ?thesis using True p f le g(2)
      by (simp add: budget_consume_def Let_def k_def budget_holds_def)
  next
    case False
    then show ?thesis using p f le g(2) w
      by (auto simp: budget_consume_def Let_def k_def budget_holds_def recent_def sorted_append)
  qed
qed

lemma budget_after_holds:
  "sorted (rev asked) \<Longrightarrow> case budget_after n w asked of (b, granted) \<Rightarrow>
     budget_holds n w (case asked of [] \<Rightarrow> 0 | t # _ \<Rightarrow> t) b granted \<and> set granted \<subseteq> set asked"
proof (induction asked)
  case Nil
  then show ?case by (simp add: budget_holds_def newBudget_def recent_def)
next
  case (Cons now asked)
  obtain b granted where ba: "budget_after n w asked = (b, granted)" by fastforce
  let ?t = "case asked of [] \<Rightarrow> 0 | t # _ \<Rightarrow> t"
  have "?t \<le> now" using Cons.prems by (auto simp: sorted_append split: list.split)
  moreover have h: "budget_holds n w ?t b granted" "set granted \<subseteq> set asked"
    using Cons ba by (auto simp: sorted_append)
  ultimately have r: "fst (budget_consume now b) = (if length (recent (max w 1) now granted) \<ge> unat (max n 1)
        then 0 else of_nat (Suc (length (recent (max w 1) now granted))))"
    "budget_holds n w now (snd (budget_consume now b))
      (if length (recent (max w 1) now granted) \<ge> unat (max n 1) then granted else now # granted)"
    using budget_consume_holds [of n w ?t b granted now] by auto
  have nz: "(of_nat (Suc k) :: u32) \<noteq> 0" if "k < unat (max n 1)" for k
  proof -
    have "Suc k < 2 ^ 32" using that unsigned_less [of "max n 1", where ?'a = nat] by simp
    then show ?thesis by (auto simp: word_unat_eq_iff unat_of_nat simp del: of_nat_Suc)
  qed
  show ?case
    using r h nz by (auto simp: ba split: prod.split if_splits)
qed

text \<open>
  C40. The restart budget cannot be exceeded, whatever the crashes: when restarts are asked
  for at times that never go back, a request is refused exactly when the maximal number of
  restarts has already been granted within the trailing window, and otherwise it gets the
  number of restarts in that window, itself included. So no window ever sees more than the
  maximum.
\<close>

theorem budget_consume_window:
  assumes "sorted (rev (now # asked))"
  shows "case budget_after n w asked of (b, granted) \<Rightarrow>
    let k = length (recent (max w 1) now granted) in
    k \<le> unat (max n 1) \<and>
    fst (budget_consume now b) = (if k = unat (max n 1) then 0 else of_nat (Suc k)) \<and>
    attempts (snd (budget_consume now b)) =
      rev (recent (max w 1) now (if k = unat (max n 1) then granted else now # granted))"
proof -
  obtain b granted where ba: "budget_after n w asked = (b, granted)" by fastforce
  let ?t = "case asked of [] \<Rightarrow> 0 | t # _ \<Rightarrow> t"
  let ?k = "length (recent (max w 1) now granted)"
  have t: "?t \<le> now" using assms by (auto simp: sorted_append split: list.split)
  have h: "budget_holds n w ?t b granted"
    using budget_after_holds [of asked n w] assms ba by (simp add: sorted_append)
  have "recent (max w 1) now granted = recent (max w 1) now (recent (max w 1) ?t granted)"
    using recent_recent [OF t, of granted] h by (simp add: budget_holds_def)
  then have "?k \<le> length (recent (max w 1) ?t granted)"
    by (metis length_filter_le recent_def)
  also have "\<dots> = length (attempts b)" using h by (metis budget_holds_def length_rev)
  also have "\<dots> \<le> unat (max n 1)" using h by (simp add: budget_holds_def)
  finally have k: "?k \<le> unat (max n 1)" .
  have c: "fst (budget_consume now b) = (if ?k = unat (max n 1) then 0 else of_nat (Suc ?k))"
    "budget_holds n w now (snd (budget_consume now b)) (if ?k = unat (max n 1) then granted else now # granted)"
    using budget_consume_holds [OF h t] k by (auto simp: order_antisym_conv)
  then have "attempts (snd (budget_consume now b)) =
      rev (recent (max w 1) now (if ?k = unat (max n 1) then granted else now # granted))"
    by (simp only: budget_holds_def rev_swap rev_rev_ident)
  then show ?thesis using c(1) k by (simp add: ba Let_def)
qed

text \<open>With the defaults, a fourth crash within ten minutes is refused and one after them is not.\<close>

theorem budget_consume_window_witness:
  "fst (budget_consume 540000 (fst (budget_after kMaxAutomaticRestarts kRestartWindowMs [300000, 60000, 1000]))) = 0 \<and>
   fst (budget_consume 640000 (fst (budget_after kMaxAutomaticRestarts kRestartWindowMs [300000, 60000, 1000]))) = 3"
proof -
  have g: "snd (budget_after kMaxAutomaticRestarts kRestartWindowMs [300000, 60000, 1000]) = [300000, 60000, 1000]"
    by code_simp
  have k: "length (recent (max kRestartWindowMs 1) 540000 [300000, 60000, 1000]) = 3"
    "length (recent (max kRestartWindowMs 1) 640000 [300000, 60000, 1000]) = 2"
    "unat (max kMaxAutomaticRestarts 1) = 3"
    by code_simp+
  have s: "sorted (rev [540000, 300000, 60000, 1000 :: u64])" "sorted (rev [640000, 300000, 60000, 1000 :: u64])"
    by code_simp+
  show ?thesis
    using budget_consume_window [OF s(1), where n = kMaxAutomaticRestarts and w = kRestartWindowMs]
      budget_consume_window [OF s(2), where n = kMaxAutomaticRestarts and w = kRestartWindowMs] g k
    by (simp add: case_prod_beta Let_def)
qed

end
