(* ===== verification/Dns_Message.thy ===== *)
theory Dns_Message
  imports Prelude "HOL-Library.Monad_Syntax"
begin

text \<open>
  \<open>src/src/DnsMessage.hpp\<close> and \<open>DnsMessage.cpp\<close>: parsing DNS queries, building replies, and
  the helpers for replies relayed from a resolver. A read or write outside the message is
  \<open>None\<close> in every function below, so that memory safety is a theorem. \<open>inet_pton\<close> is a
  parameter.
\<close>

definition kTypeA :: u16 where "kTypeA = 1"
definition kTypeAaaa :: u16 where "kTypeAaaa = 28"
definition kRcodeNoError :: byte where "kRcodeNoError = 0"
definition kRcodeFormErr :: byte where "kRcodeFormErr = 1"
definition kRcodeServFail :: byte where "kRcodeServFail = 2"
definition kRcodeNxDomain :: byte where "kRcodeNxDomain = 3"
definition kRcodeNotImp :: byte where "kRcodeNotImp = 4"
definition kClassicUdpPayload :: nat where "kClassicUdpPayload = 512"
definition kHeaderSize :: nat where "kHeaderSize = 12"
definition kClassInternet :: u16 where "kClassInternet = 1"
definition kTypeOpt :: u16 where "kTypeOpt = 41"
definition kMaxNameLength :: nat where "kMaxNameLength = 253"
definition kMaxAnswers :: nat where "kMaxAnswers = 8"
definition kAdvertisedPayload :: u16 where "kAdvertisedPayload = 1232"

record Query =
  query_id :: u16
  query_type :: u16
  recursionDesired :: bool
  opcode :: byte
  ednsPayload :: u16
  dnssecOk :: bool
  query_error :: byte
  query_name :: string
  question :: "byte list"

definition noQuery :: Query where
  "noQuery = \<lparr>query_id = 0, query_type = 0, recursionDesired = False, opcode = 0, ednsPayload = 0,
     dnssecOk = False, query_error = 0, query_name = [], question = []\<rparr>"

section \<open>Fields\<close>

definition be32 :: "byte \<Rightarrow> byte \<Rightarrow> byte \<Rightarrow> byte \<Rightarrow> u32" where
  "be32 a b c d = push_bit 24 (ucast a) OR push_bit 16 (ucast b) OR push_bit 8 (ucast c) OR ucast d"

definition bytes16 :: "u16 \<Rightarrow> byte list" where
  "bytes16 v = [hi8 v, lo8 v]"

definition bytes32 :: "u32 \<Rightarrow> byte list" where
  "bytes32 v = [ucast (drop_bit 24 v), ucast (drop_bit 16 v), ucast (drop_bit 8 v), ucast v]"

definition read16 :: "byte list \<Rightarrow> nat \<Rightarrow> u16 option" where
  "read16 data off = do {a \<leftarrow> at data off; b \<leftarrow> at data (off + 1); Some (be16 a b)}"

definition read32 :: "byte list \<Rightarrow> nat \<Rightarrow> u32 option" where
  "read32 data off = do {a \<leftarrow> at data off; b \<leftarrow> at data (off + 1); c \<leftarrow> at data (off + 2);
     d \<leftarrow> at data (off + 3); Some (be32 a b c d)}"

definition put_bytes :: "byte list \<Rightarrow> nat \<Rightarrow> byte list \<Rightarrow> byte list option" where
  "put_bytes data off bytes =
     (if off + length bytes \<le> length data
      then Some (take off data @ bytes @ drop (off + length bytes) data) else None)"

definition write16 :: "byte list \<Rightarrow> nat \<Rightarrow> u16 \<Rightarrow> byte list option" where
  "write16 data off v = put_bytes data off (bytes16 v)"

definition write32 :: "byte list \<Rightarrow> nat \<Rightarrow> u32 \<Rightarrow> byte list option" where
  "write32 data off v = put_bytes data off (bytes32 v)"

definition isNameChar :: "byte \<Rightarrow> bool" where
  "isNameChar c \<longleftrightarrow> 97 \<le> c \<and> c \<le> 122 \<or> 48 \<le> c \<and> c \<le> 57 \<or> c = 45 \<or> c = 95"

definition lowerAscii :: "byte \<Rightarrow> byte" where
  "lowerAscii c = (if 65 \<le> c \<and> c \<le> 90 then c + 32 else c)"

section \<open>Queries\<close>

text \<open>The loop of \<open>parseEdns\<close>, counting the records down.\<close>

fun ednsLoop :: "byte list \<Rightarrow> nat \<Rightarrow> nat \<Rightarrow> Query \<Rightarrow> Query option" where
  "ednsLoop data offset 0 out = Some out"
| "ednsLoop data offset (Suc n) out =
     (if offset + 11 > length data then Some out
      else do {
        root \<leftarrow> at data offset;
        if root \<noteq> 0 then Some out
        else do {
          type \<leftarrow> read16 data (offset + 1);
          recordClass \<leftarrow> read16 data (offset + 3);
          ttl \<leftarrow> read32 data (offset + 5);
          rdLength \<leftarrow> read16 data (offset + 9);
          if offset + 11 + unat rdLength > length data then Some out
          else if type = kTypeOpt
          then Some (out\<lparr>ednsPayload := recordClass, dnssecOk := ttl AND 0x8000 \<noteq> 0\<rparr>)
          else ednsLoop data (offset + (11 + unat rdLength)) n out}})"

definition parseEdns :: "byte list \<Rightarrow> nat \<Rightarrow> Query \<Rightarrow> Query option" where
  "parseEdns data offset out =
     do {an \<leftarrow> read16 data 6; ns \<leftarrow> read16 data 8;
         if an \<noteq> 0 \<or> ns \<noteq> 0 then Some out
         else do {ar \<leftarrow> read16 data 10; ednsLoop data offset (unat ar) out}}"

text \<open>
  The label loop of \<open>parseQuery\<close>: the name and the offset after it, \<open>Some None\<close> when the
  source returns false.
\<close>

function nameLoop :: "byte list \<Rightarrow> nat \<Rightarrow> string \<Rightarrow> (string \<times> nat) option option" where
  "nameLoop data offset name =
     (if offset \<ge> length data then Some None
      else do {
        labelLength \<leftarrow> at data offset;
        if labelLength = 0 then Some (Some (name, offset + 1))
        else if labelLength AND 0xC0 \<noteq> 0 \<or> labelLength > 63 \<or>
                offset + 1 + unat labelLength > length data then Some None
        else let name1 = (if name \<noteq> [] then name @ ''.'' else name) in
          if length name1 + unat labelLength > kMaxNameLength then Some None
          else do {
            label \<leftarrow> slice data (offset + 1) (unat labelLength);
            if list_all isNameChar (map lowerAscii label)
            then nameLoop data (offset + 1 + unat labelLength) (name1 @ map (byte_char \<circ> lowerAscii) label)
            else Some None}})"
  by pat_completeness auto
termination
  by (relation "measure (\<lambda>(data, offset, name). length data - offset)") auto

declare nameLoop.simps [simp del]

definition parseQuery :: "byte list \<Rightarrow> (bool \<times> Query) option" where
  "parseQuery data =
     (if length data < kHeaderSize then Some (False, noQuery)
      else do {
        flags \<leftarrow> read16 data 2;
        if flags AND 0x8000 \<noteq> 0 then Some (False, noQuery)
        else do {
          id \<leftarrow> read16 data 0;
          let out1 = noQuery\<lparr>query_id := id, opcode := ucast (drop_bit 11 flags AND 0x0F),
                recursionDesired := flags AND 0x0100 \<noteq> 0\<rparr> in
          if opcode out1 \<noteq> 0 then Some (False, out1\<lparr>query_error := kRcodeNotImp\<rparr>)
          else let bad = (False, out1\<lparr>query_error := kRcodeFormErr\<rparr>) in do {
            qdcount \<leftarrow> read16 data 4;
            if qdcount \<noteq> 1 then Some bad
            else do {
              parsed \<leftarrow> nameLoop data kHeaderSize [];
              case parsed of None \<Rightarrow> Some bad
              | Some (name, offset) \<Rightarrow>
                  if name = [] \<or> offset + 4 > length data then Some bad
                  else do {
                    type \<leftarrow> read16 data offset;
                    queryClass \<leftarrow> read16 data (offset + 2);
                    if queryClass \<noteq> kClassInternet then Some (False, out1\<lparr>query_error := kRcodeNotImp\<rparr>)
                    else do {
                      q \<leftarrow> slice data kHeaderSize (offset + 4 - kHeaderSize);
                      out2 \<leftarrow> parseEdns data (offset + 4)
                        (out1\<lparr>query_error := 0, query_type := type, query_name := name, question := q\<rparr>);
                      Some (True, out2)}}}}}})"

section \<open>Building replies\<close>

text \<open>The loop that encodes at most eight addresses into sixteen-byte arrays.\<close>

fun encodeLoop :: "(string \<Rightarrow> byte list option) \<Rightarrow> string list \<Rightarrow> byte list list \<Rightarrow> byte list list" where
  "encodeLoop pton [] encoded = encoded"
| "encodeLoop pton (address # addresses) encoded =
     (case pton address of
        None \<Rightarrow> encodeLoop pton addresses encoded
      | Some bytes \<Rightarrow>
          let encoded1 = encoded @ [take 16 (bytes @ replicate 16 0)] in
          if length encoded1 \<ge> kMaxAnswers then encoded1 else encodeLoop pton addresses encoded1)"

definition effectiveRcode :: "bool \<Rightarrow> byte \<Rightarrow> byte" where
  "effectiveRcode failed rcode = (if failed \<and> rcode = 0 then kRcodeServFail else rcode)"

definition addressLength :: "Query \<Rightarrow> nat" where
  "addressLength query = (if query_type query = kTypeA then 4 else 16)"

definition encodedAddresses ::
  "(string \<Rightarrow> byte list option) \<Rightarrow> (string \<Rightarrow> byte list option) \<Rightarrow> Query \<Rightarrow> string list \<Rightarrow> byte \<Rightarrow> byte list list" where
  "encodedAddresses pton4 pton6 query addresses rcode =
     (if rcode = 0 \<and> (query_type query = kTypeA \<or> query_type query = kTypeAaaa)
      then encodeLoop (if query_type query = kTypeA then pton4 else pton6) addresses [] else [])"

definition answerRecord :: "Query \<Rightarrow> u32 \<Rightarrow> byte list \<Rightarrow> byte list" where
  "answerRecord query ttlSeconds address =
     bytes16 0xC00C @ bytes16 (query_type query) @ bytes16 kClassInternet @ bytes32 ttlSeconds @
     bytes16 (of_nat (addressLength query)) @ take (addressLength query) address"

definition optRecord :: "byte list" where
  "optRecord = [0] @ bytes16 kTypeOpt @ bytes16 kAdvertisedPayload @ bytes32 0 @ bytes16 0"

definition buildResponse ::
  "(string \<Rightarrow> byte list option) \<Rightarrow> (string \<Rightarrow> byte list option) \<Rightarrow>
    Query \<Rightarrow> string list \<Rightarrow> u32 \<Rightarrow> bool \<Rightarrow> byte \<Rightarrow> byte list" where
  "buildResponse pton4 pton6 query addresses ttlSeconds failed rcode =
     (let effective = effectiveRcode failed rcode;
          encoded = encodedAddresses pton4 pton6 query addresses effective;
          withOpt = ednsPayload query \<noteq> 0;
          flags0 = (if recursionDesired query then 0x8080 OR 0x0100 else 0x8080);
          flags = flags0 OR ucast (effective AND 0x0F)
      in bytes16 (query_id query) @ bytes16 flags @ bytes16 1 @ bytes16 (of_nat (length encoded)) @
         bytes16 0 @ bytes16 (if withOpt then 1 else 0) @ question query @
         concat (map (answerRecord query ttlSeconds) encoded) @ (if withOpt then optRecord else []))"

definition buildError :: "Query \<Rightarrow> byte \<Rightarrow> byte list" where
  "buildError query rcode =
     (let flags0 = 0x8080 OR push_bit 11 (ucast (opcode query AND 0x0F));
          flags1 = (if recursionDesired query then flags0 OR 0x0100 else flags0);
          flags = flags1 OR ucast (rcode AND 0x0F)
      in bytes16 (query_id query) @ bytes16 flags @ concat (replicate 4 (bytes16 0)))"

section \<open>Walking a message\<close>

function skipName :: "byte list \<Rightarrow> nat \<Rightarrow> nat option option" where
  "skipName data offset =
     (if offset \<ge> length data then Some None
      else do {
        first \<leftarrow> at data offset;
        if first = 0 then Some (Some (offset + 1))
        else if first AND 0xC0 = 0xC0
        then (if offset + 2 > length data then Some None else Some (Some (offset + 2)))
        else if first AND 0xC0 \<noteq> 0 then Some None
        else skipName data (offset + (1 + unat first))})"
  by pat_completeness auto
termination
  by (relation "measure (\<lambda>(data, offset). length data - offset)") auto

declare skipName.simps [simp del]

record RecordRef =
  ref_type :: u16
  section_no :: nat
  ttlOffset :: nat

fun walkQuestions :: "byte list \<Rightarrow> nat \<Rightarrow> nat \<Rightarrow> nat option option" where
  "walkQuestions data offset 0 = Some (Some offset)"
| "walkQuestions data offset (Suc n) =
     do {skipped \<leftarrow> skipName data offset;
         case skipped of None \<Rightarrow> Some None
         | Some off \<Rightarrow> if off + 4 > length data then Some None else walkQuestions data (off + 4) n}"

fun walkRecords :: "byte list \<Rightarrow> nat \<Rightarrow> nat \<Rightarrow> nat \<Rightarrow> (nat \<times> RecordRef list) option option" where
  "walkRecords data sect offset 0 = Some (Some (offset, []))"
| "walkRecords data sect offset (Suc n) =
     do {skipped \<leftarrow> skipName data offset;
         case skipped of None \<Rightarrow> Some None
         | Some off \<Rightarrow>
             if off + 10 > length data then Some None
             else do {
               type \<leftarrow> read16 data off;
               rdLength \<leftarrow> read16 data (off + 8);
               if off + 10 + unat rdLength > length data then Some None
               else do {
                 rest \<leftarrow> walkRecords data sect (off + 10 + unat rdLength) n;
                 Some (map_option (\<lambda>(e, refs).
                   (e, \<lparr>ref_type = type, section_no = sect, ttlOffset = off + 4\<rparr> # refs)) rest)}}}"

fun walkSections :: "byte list \<Rightarrow> nat \<Rightarrow> nat \<Rightarrow> nat list \<Rightarrow> (nat \<times> RecordRef list) option option" where
  "walkSections data sect offset [] = Some (Some (offset, []))"
| "walkSections data sect offset (n # ns) =
     do {found \<leftarrow> walkRecords data sect offset n;
         case found of None \<Rightarrow> Some None
         | Some (off, refs) \<Rightarrow> do {
             rest \<leftarrow> walkSections data (sect + 1) off ns;
             Some (map_option (\<lambda>(e, refs'). (e, refs @ refs')) rest)}}"

text \<open>\<open>walk\<close>: \<open>questionEnd\<close> and the records, \<open>Some None\<close> when the source returns false.\<close>

definition walk :: "byte list \<Rightarrow> (nat \<times> RecordRef list) option option" where
  "walk data =
     (if length data < kHeaderSize then Some None
      else do {
        questions \<leftarrow> read16 data 4; an \<leftarrow> read16 data 6; ns \<leftarrow> read16 data 8; ar \<leftarrow> read16 data 10;
        if unat questions * 5 + (unat an + unat ns + unat ar) * 11 > length data then Some None
        else do {
          skipped \<leftarrow> walkQuestions data kHeaderSize (unat questions);
          case skipped of None \<Rightarrow> Some None
          | Some questionEnd \<Rightarrow> do {
              found \<leftarrow> walkSections data 0 questionEnd [unat an, unat ns, unat ar];
              Some (map_option (\<lambda>(_, refs). (questionEnd, refs)) found)}}})"

section \<open>Relayed replies\<close>

record ResponseInfo =
  response :: bool
  truncated :: bool
  info_rcode :: byte
  answers :: nat
  hasAnswerTtl :: bool
  answerTtl :: u32
  hasAuthorityTtl :: bool
  authorityTtl :: u32

definition noInfo :: ResponseInfo where
  "noInfo = \<lparr>response = False, truncated = False, info_rcode = 0, answers = 0, hasAnswerTtl = False,
     answerTtl = 0, hasAuthorityTtl = False, authorityTtl = 0\<rparr>"

fun inspectLoop :: "byte list \<Rightarrow> RecordRef list \<Rightarrow> ResponseInfo \<Rightarrow> ResponseInfo option" where
  "inspectLoop data [] out = Some out"
| "inspectLoop data (ref # refs) out =
     (if ref_type ref = kTypeOpt then inspectLoop data refs out
      else do {
        ttl \<leftarrow> read32 data (ttlOffset ref);
        inspectLoop data refs
          (if section_no ref = 0
           then out\<lparr>answerTtl := if hasAnswerTtl out then min (answerTtl out) ttl else ttl, hasAnswerTtl := True\<rparr>
           else if section_no ref = 1
           then out\<lparr>authorityTtl := if hasAuthorityTtl out then min (authorityTtl out) ttl else ttl, hasAuthorityTtl := True\<rparr>
           else out)})"

definition inspectResponse :: "byte list \<Rightarrow> (bool \<times> ResponseInfo) option" where
  "inspectResponse data =
     do {walked \<leftarrow> walk data;
         case walked of None \<Rightarrow> Some (False, noInfo)
         | Some (_, refs) \<Rightarrow> do {
             flags \<leftarrow> read16 data 2; an \<leftarrow> read16 data 6;
             out \<leftarrow> inspectLoop data refs (noInfo\<lparr>response := flags AND 0x8000 \<noteq> 0,
               truncated := flags AND 0x0200 \<noteq> 0, info_rcode := ucast (flags AND 0x000F), answers := unat an\<rparr>);
             Some (True, out)}}"

definition echoesQuestion :: "byte list \<Rightarrow> Query \<Rightarrow> bool option" where
  "echoesQuestion data query =
     (if length data < kHeaderSize + length (question query) then Some False
      else do {
        qdcount \<leftarrow> read16 data 4;
        if qdcount \<noteq> 1 \<or> question query = [] then Some False
        else do {
          echoed \<leftarrow> slice data kHeaderSize (length (question query));
          Some (map lowerAscii echoed = map lowerAscii (question query))}})"

definition setId :: "byte list \<Rightarrow> u16 \<Rightarrow> byte list option" where
  "setId message newId = (if length message \<ge> 2 then write16 message 0 newId else Some message)"

definition agedTtl :: "u32 \<Rightarrow> u32 \<Rightarrow> u32" where
  "agedTtl ageSeconds ttl = (if ttl > ageSeconds then ttl - ageSeconds else if ttl > 0 then 1 else 0)"

fun ageLoop :: "RecordRef list \<Rightarrow> u32 \<Rightarrow> byte list \<Rightarrow> byte list option" where
  "ageLoop [] ageSeconds message = Some message"
| "ageLoop (ref # refs) ageSeconds message =
     (if ref_type ref = kTypeOpt then ageLoop refs ageSeconds message
      else do {
        ttl \<leftarrow> read32 message (ttlOffset ref);
        message1 \<leftarrow> write32 message (ttlOffset ref) (agedTtl ageSeconds ttl);
        ageLoop refs ageSeconds message1})"

definition ageTtls :: "byte list \<Rightarrow> u32 \<Rightarrow> byte list option" where
  "ageTtls message ageSeconds =
     do {walked \<leftarrow> walk message;
         case walked of None \<Rightarrow> Some message | Some (_, refs) \<Rightarrow> ageLoop refs ageSeconds message}"

definition truncateForUdp :: "byte list \<Rightarrow> nat \<Rightarrow> (bool \<times> byte list) option" where
  "truncateForUdp message limit =
     (if length message \<le> limit \<or> length message < kHeaderSize then Some (False, message)
      else do {
        walked \<leftarrow> walk message;
        let m0 = take (case walked of Some (questionEnd, _) \<Rightarrow> questionEnd | None \<Rightarrow> kHeaderSize) message in do {
          flags \<leftarrow> read16 m0 2;
          m1 \<leftarrow> write16 m0 2 (flags OR 0x0200);
          m2 \<leftarrow> (if walked = None then write16 m1 4 0 else Some m1);
          m3 \<leftarrow> write16 m2 6 0;
          m4 \<leftarrow> write16 m3 8 0;
          m5 \<leftarrow> write16 m4 10 0;
          Some (True, m5)}})"

section \<open>Memory safety\<close>

lemma be16_bytes [simp]: "bytes16 (be16 a b) = [a, b]"
  by (simp add: bytes16_def)

lemma read16_Some [simp]: "off + 2 \<le> length data \<Longrightarrow> read16 data off = Some (be16 (data ! off) (data ! (off + 1)))"
  by (simp add: read16_def)

lemma read32_Some [simp]:
  "off + 4 \<le> length data \<Longrightarrow>
    read32 data off = Some (be32 (data ! off) (data ! (off + 1)) (data ! (off + 2)) (data ! (off + 3)))"
  by (simp add: read32_def)

lemma length_bytes [simp]: "length (bytes16 v) = 2" "length (bytes32 w) = 4"
  by (simp_all add: bytes16_def bytes32_def)

lemma put_bytes_Some [simp]:
  "off + length bs \<le> length data \<Longrightarrow> put_bytes data off bs = Some (take off data @ bs @ drop (off + length bs) data)"
  by (simp add: put_bytes_def)

lemma read16_at: "data = pre @ bytes16 v @ rest \<Longrightarrow> off = length pre \<Longrightarrow> read16 data off = Some v"
  by (simp add: bytes16_def nth_append)

lemma be32_bytes32: "be32 (ucast (drop_bit 24 v)) (ucast (drop_bit 16 v)) (ucast (drop_bit 8 v)) (ucast v) = v"
proof (rule bit_word_eqI)
  fix n assume "n < LENGTH(32)"
  then show "bit (be32 (ucast (drop_bit 24 v)) (ucast (drop_bit 16 v)) (ucast (drop_bit 8 v)) (ucast v)) n = bit v n"
    by (cases "n < 8"; cases "n < 16"; cases "n < 24")
      (auto simp: be32_def bit_or_iff bit_push_bit_iff bit_ucast_iff bit_drop_bit_eq)
qed

lemma read32_at: "data = pre @ bytes32 v @ rest \<Longrightarrow> off = length pre \<Longrightarrow> read32 data off = Some v"
  by (simp add: bytes32_def nth_append be32_bytes32)

lemma ednsLoop_safe: "ednsLoop data offset n out \<noteq> None"
  by (induction data offset n out rule: ednsLoop.induct) (auto split: if_splits)

lemma nameLoop_safe:
  "nameLoop data offset name \<noteq> None \<and>
   (\<forall>n off. nameLoop data offset name = Some (Some (n, off)) \<longrightarrow> offset < off \<and> off \<le> length data)"
proof (induction data offset name rule: nameLoop.induct)
  case (1 data offset name)
  show ?case
    using 1 by (subst (1 2) nameLoop.simps) (fastforce simp: Let_def split: if_splits)
qed

lemma parseQuery_safe: "parseQuery data \<noteq> None"
proof (cases "length data < 12")
  case False
  obtain parsed where n: "nameLoop data 12 [] = Some parsed"
    using nameLoop_safe [of data 12 "[]"] by auto
  have e: "\<exists>a b. (parseEdns data off q \<bind> (\<lambda>out. Some (True, out))) = Some (a, b)" for off q
  proof -
    obtain q' where "ednsLoop data off (unat (be16 (data ! 10) (data ! 11))) q = Some q'"
      using ednsLoop_safe [of data off] by auto
    then show ?thesis using False by (auto simp: parseEdns_def)
  qed
  have "12 < snd p \<and> snd p \<le> length data" if "parsed = Some p" for p
    using nameLoop_safe [of data 12 "[]"] n that by (cases p) auto
  then show ?thesis
    using False n e by (auto simp: parseQuery_def kHeaderSize_def Let_def split: option.split)
qed (simp add: parseQuery_def kHeaderSize_def)

lemma skipName_safe:
  "skipName data offset \<noteq> None \<and>
   (\<forall>off. skipName data offset = Some (Some off) \<longrightarrow> offset < off \<and> off \<le> length data)"
proof (induction data offset rule: skipName.induct)
  case (1 data offset)
  show ?case
    using 1 by (subst (1 2) skipName.simps) (fastforce simp: Let_def split: if_splits)
qed

lemma walkQuestions_safe:
  "walkQuestions data offset n \<noteq> None \<and>
   (offset \<le> length data \<longrightarrow> (\<forall>off. walkQuestions data offset n = Some (Some off) \<longrightarrow> offset \<le> off \<and> off \<le> length data))"
proof (induction data offset n rule: walkQuestions.induct)
  case (2 data offset n)
  show ?case using 2 skipName_safe [of data offset] by (fastforce split: option.splits if_splits)
qed simp

definition ref_inside :: "byte list \<Rightarrow> RecordRef \<Rightarrow> bool" where
  "ref_inside data ref \<longleftrightarrow> ttlOffset ref + 6 \<le> length data"

lemma walkRecords_safe:
  "walkRecords data sect offset n \<noteq> None \<and>
   (\<forall>off refs. walkRecords data sect offset n = Some (Some (off, refs)) \<longrightarrow> offset \<le> off \<and> list_all (ref_inside data) refs)"
proof (induction data sect offset n rule: walkRecords.induct)
  case (2 data sect offset n)
  obtain skipped where s: "skipName data offset = Some skipped" using skipName_safe [of data offset] by auto
  show ?case
  proof (cases skipped)
    case None
    then show ?thesis using s by simp
  next
    case (Some off)
    have off: "offset < off" using skipName_safe [of data offset] s Some by simp
    show ?thesis
    proof (cases "off + 10 > length data")
      case True
      then show ?thesis using s Some by simp
    next
      case False
      then obtain ty rd where rd: "read16 data off = Some ty" "read16 data (off + 8) = Some rd" by simp
      show ?thesis
      proof (cases "off + 10 + unat rd > length data")
        case True
        then show ?thesis using s Some False rd by (simp del: read16_Some)
      next
        case in_range: False
        note IH = 2 [OF s Some False rd in_range]
        then show ?thesis
          using False s Some off rd in_range by (auto simp: ref_inside_def simp del: read16_Some)
      qed
    qed
  qed
qed simp

lemma walkSections_safe:
  "walkSections data sect offset ns \<noteq> None \<and>
   (\<forall>off refs. walkSections data sect offset ns = Some (Some (off, refs)) \<longrightarrow> list_all (ref_inside data) refs)"
proof (induction data sect offset ns rule: walkSections.induct)
  case (2 data sect offset n ns)
  obtain found where f: "walkRecords data sect offset n = Some found" using walkRecords_safe [of data sect offset n] by auto
  show ?case
  proof (cases found)
    case (Some p)
    obtain off refs where p: "p = (off, refs)" by fastforce
    have "list_all (ref_inside data) refs" using walkRecords_safe [of data sect offset n] f Some p by simp
    then show ?thesis using 2 [OF f Some p [symmetric]] f Some p by auto
  qed (simp add: f)
qed simp

text \<open>What a successful walk says about the message, whatever its bytes.\<close>

lemma walk_safe:
  "walk data \<noteq> None \<and> (\<forall>qe refs. walk data = Some (Some (qe, refs)) \<longrightarrow>
     12 \<le> qe \<and> qe \<le> length data \<and> list_all (ref_inside data) refs)"
proof (cases "length data < 12")
  case False
  have q: "\<exists>r. walkQuestions data 12 n = Some r \<and> (\<forall>qe. r = Some qe \<longrightarrow> 12 \<le> qe \<and> qe \<le> length data)" for n
    using walkQuestions_safe [of data 12 n] False by auto
  have s: "\<exists>r. walkSections data 0 qe ns = Some r \<and> (\<forall>off refs. r = Some (off, refs) \<longrightarrow> list_all (ref_inside data) refs)" for qe ns
    using walkSections_safe [of data 0 qe ns] by auto
  let ?n = "unat (be16 (data ! 4) (data ! 5))"
  let ?ns = "[unat (be16 (data ! 6) (data ! 7)), unat (be16 (data ! 8) (data ! 9)), unat (be16 (data ! 10) (data ! 11))]"
  obtain r where r: "walkQuestions data 12 ?n = Some r" "\<And>qe. r = Some qe \<Longrightarrow> 12 \<le> qe \<and> qe \<le> length data"
    using q by blast
  show ?thesis
  proof (cases r)
    case None
    then show ?thesis using False r by (simp add: walk_def kHeaderSize_def)
  next
    case (Some qe)
    obtain t where "walkSections data 0 qe ?ns = Some t"
      "\<And>off refs. t = Some (off, refs) \<Longrightarrow> list_all (ref_inside data) refs" using s by blast
    then show ?thesis using False r Some by (auto simp: walk_def kHeaderSize_def simp del: walkSections.simps)
  qed
qed (simp add: walk_def kHeaderSize_def)

lemma inspectLoop_safe: "list_all (ref_inside data) refs \<Longrightarrow> inspectLoop data refs out \<noteq> None"
  by (induction data refs out rule: inspectLoop.induct) (auto simp: ref_inside_def)

lemma ageLoop_safe:
  "list_all (ref_inside message) refs \<Longrightarrow> \<exists>m. ageLoop refs age message = Some m \<and> length m = length message"
proof (induction refs age message rule: ageLoop.induct)
  case (2 ref refs age message)
  show ?case
  proof (cases "ref_type ref = kTypeOpt")
    case False
    obtain ttl where t: "read32 message (ttlOffset ref) = Some ttl" using 2(3) by (simp add: ref_inside_def)
    obtain m where m: "write32 message (ttlOffset ref) (agedTtl age ttl) = Some m" "length m = length message"
      using 2(3) by (simp add: write32_def ref_inside_def)
    then have "list_all (ref_inside m) refs" using 2(3) by (simp add: ref_inside_def list_all_iff)
    then show ?thesis using 2(2) [OF False t m(1)] m False t by (auto simp del: read32_Some)
  qed (use 2 in simp)
qed simp

lemma ageTtls_safe: "\<exists>m. ageTtls message age = Some m \<and> length m = length message"
  using walk_safe [of message] by (auto simp: ageTtls_def ageLoop_safe split: option.split)

lemma inspectResponse_safe: "inspectResponse data \<noteq> None"
proof -
  obtain w where w: "walk data = Some w" using walk_safe [of data] by auto
  show ?thesis
  proof (cases w)
    case (Some p)
    obtain qe refs where p: "p = (qe, refs)" by fastforce
    have "12 \<le> length data" "list_all (ref_inside data) refs" using walk_safe [of data] w Some p by auto
    moreover obtain out where "inspectLoop data refs (noInfo\<lparr>response := be16 (data ! 2) (data ! 3) AND 0x8000 \<noteq> 0,
        truncated := be16 (data ! 2) (data ! 3) AND 0x0200 \<noteq> 0, info_rcode := ucast (be16 (data ! 2) (data ! 3) AND 0x000F),
        answers := unat (be16 (data ! 6) (data ! 7))\<rparr>) = Some out"
      using inspectLoop_safe [OF \<open>list_all (ref_inside data) refs\<close>] by blast
    ultimately show ?thesis using w Some p by (simp add: inspectResponse_def)
  qed (simp add: inspectResponse_def w)
qed

lemma header_split:
  assumes "12 \<le> length m"
  obtains a b c d e f g h i j k l rest where "m = [a, b, c, d, e, f, g, h, i, j, k, l] @ rest"
proof -
  define hd12 where "hd12 = take 12 m"
  have "length hd12 = Suc (Suc (Suc (Suc (Suc (Suc (Suc (Suc (Suc (Suc (Suc (Suc 0)))))))))))"
    using assms by (simp add: hd12_def)
  then obtain a b c d e f g h i j k l where "hd12 = [a, b, c, d, e, f, g, h, i, j, k, l]"
    by (auto simp: length_Suc_conv)
  then show ?thesis using append_take_drop_id [of 12 m] that hd12_def by metis
qed

lemma truncateForUdp_eq:
  assumes "\<not> (length message \<le> limit \<or> length message < 12)"
  shows "\<exists>w. walk message = Some w \<and> (let qe = (case w of Some (q, _) \<Rightarrow> q | None \<Rightarrow> 12) in
    12 \<le> qe \<and> qe \<le> length message \<and>
    truncateForUdp message limit = Some (True,
      take 2 message @ bytes16 (be16 (message ! 2) (message ! 3) OR 0x0200) @
      (if w = None then [0, 0] else [message ! 4, message ! 5]) @ replicate 6 0 @ take (qe - 12) (drop 12 message)))"
proof -
  obtain w where w: "walk message = Some w" using walk_safe [of message] by auto
  define qe where "qe = (case w of Some (q, _) \<Rightarrow> q | None \<Rightarrow> 12)"
  have qe: "12 \<le> qe" "qe \<le> length message"
    using walk_safe [of message] w assms by (auto simp: qe_def split: option.split)
  have "12 \<le> length message" using qe by simp
  then obtain a b c d e f g h i j k l rest where m: "message = [a, b, c, d, e, f, g, h, i, j, k, l] @ rest"
    by (rule header_split)
  define t where "t = take (qe - 12) rest"
  have tk: "take qe message = [a, b, c, d, e, f, g, h, i, j, k, l] @ t"
  proof -
    define h12 where "h12 = [a, b, c, d, e, f, g, h, i, j, k, l]"
    have "length h12 = 12" by (simp add: h12_def)
    then have "take qe (h12 @ rest) = h12 @ t" using qe(1) by (simp add: t_def)
    then show ?thesis by (simp only: m h12_def)
  qed
  have "truncateForUdp message limit = Some (True,
      [a, b] @ bytes16 (be16 c d OR 0x0200) @ (if w = None then [0, 0] else [e, f]) @ replicate 6 0 @ t)"
    using assms w tk unfolding truncateForUdp_def kHeaderSize_def qe_def [symmetric]
    by (cases w) (auto simp: write16_def qe_def bytes16_def numeral_eq_Suc hi8_def lo8_def)
  then show ?thesis using w qe by (simp add: qe_def [symmetric] Let_def m t_def)
qed

lemma truncateForUdp_safe: "truncateForUdp message limit \<noteq> None"
  using truncateForUdp_eq [of message limit] by (cases "length message \<le> limit \<or> length message < 12")
    (auto simp: truncateForUdp_def kHeaderSize_def Let_def)

lemma echoesQuestion_safe: "echoesQuestion data query \<noteq> None"
  by (auto simp: echoesQuestion_def kHeaderSize_def)

text \<open>
  C16. No DNS message makes the code read or write outside its buffer: parsing a query,
  inspecting a reply, comparing its question, setting its id, ageing its records and
  truncating it all stay inside the message, for arbitrary bytes. Ageing also keeps the
  length.
\<close>

theorem dns_memory_safe:
  "parseQuery data \<noteq> None \<and> inspectResponse data \<noteq> None \<and> echoesQuestion data query \<noteq> None \<and>
   setId data newId \<noteq> None \<and> truncateForUdp data limit \<noteq> None \<and>
   (\<exists>m. ageTtls data age = Some m \<and> length m = length data)"
  using parseQuery_safe inspectResponse_safe echoesQuestion_safe truncateForUdp_safe ageTtls_safe
  by (auto simp: setId_def write16_def)

section \<open>Which queries are accepted\<close>

text \<open>A name on the wire, as labels, and the dotted lower-case text the parser makes of it.\<close>

definition label_ok :: "byte list \<Rightarrow> bool" where
  "label_ok l \<longleftrightarrow> 1 \<le> length l \<and> length l \<le> 63 \<and> list_all isNameChar (map lowerAscii l)"

definition wireName :: "byte list list \<Rightarrow> byte list" where
  "wireName labels = concat (map (\<lambda>l. of_nat (length l) # l) labels) @ [0]"

fun dotted :: "string \<Rightarrow> byte list list \<Rightarrow> string" where
  "dotted name [] = name"
| "dotted name (l # labels) =
     dotted ((if name \<noteq> [] then name @ ''.'' else name) @ map (byte_char \<circ> lowerAscii) l) labels"

lemma dotted_length: "length name \<le> length (dotted name labels)"
  by (induction name labels rule: dotted.induct) (auto split: if_splits)

lemma wireName_simps: "wireName [] = [0]" "wireName (l # ls) = (of_nat (length l) # l) @ wireName ls"
  by (simp_all add: wireName_def)

lemma label_length:
  assumes "label_ok l"
  shows "unat (of_nat (length l) :: byte) = length l" "(of_nat (length l) :: byte) \<noteq> 0"
    "(of_nat (length l) :: byte) AND 0xC0 = 0" "\<not> (of_nat (length l) :: byte) > 63"
proof -
  have l: "1 \<le> length l" "length l \<le> 63" using assms by (auto simp: label_ok_def)
  show u: "unat (of_nat (length l) :: byte) = length l" using l by (simp add: unat_of_nat)
  show "(of_nat (length l) :: byte) \<noteq> 0" using u l by auto
  show "\<not> (of_nat (length l) :: byte) > 63" using u l by (simp add: word_less_nat_alt)
  have "\<forall>n \<in> set [0..<64]. (of_nat n :: byte) AND 0xC0 = 0" by code_simp
  then show "(of_nat (length l) :: byte) AND 0xC0 = 0" using l by simp
qed

lemma nameLoop_complete:
  "list_all label_ok labels \<Longrightarrow> labels = [] \<or> length (dotted name labels) \<le> 253 \<Longrightarrow>
   nameLoop (pre @ wireName labels @ rest) (length pre) name =
     Some (Some (dotted name labels, length pre + length (wireName labels)))"
proof (induction labels arbitrary: pre name)
  case Nil
  show ?case by (subst nameLoop.simps) (simp add: wireName_simps)
next
  case (Cons l labels)
  have l: "label_ok l" "list_all isNameChar (map lowerAscii l)" using Cons.prems by (auto simp: label_ok_def)
  let ?name = "(if name \<noteq> [] then name @ ''.'' else name) @ map (byte_char \<circ> lowerAscii) l"
  have "length ?name \<le> 253" using Cons.prems dotted_length [of ?name labels] by (auto split: if_splits)
  moreover have "nameLoop ((pre @ of_nat (length l) # l) @ wireName labels @ rest) (length (pre @ of_nat (length l) # l)) ?name =
      Some (Some (dotted ?name labels, length (pre @ of_nat (length l) # l) + length (wireName labels)))"
    using Cons.prems by (intro Cons.IH) auto
  ultimately show ?case
    using label_length [OF l(1)] l(2)
    by (subst nameLoop.simps) (auto simp: wireName_simps kMaxNameLength_def at_def Let_def add.assoc)
qed

lemma nameLoop_sound:
  "nameLoop data offset name = Some (Some (name', off)) \<Longrightarrow>
   \<exists>labels. list_all label_ok labels \<and> (labels = [] \<or> length (dotted name labels) \<le> 253) \<and> name' = dotted name labels \<and>
     off = offset + length (wireName labels) \<and> off \<le> length data \<and>
     take (length (wireName labels)) (drop offset data) = wireName labels"
proof (induction data offset name rule: nameLoop.induct)
  case (1 data offset name)
  have inside: "offset < length data" using "1.prems" by (subst (asm) nameLoop.simps) (auto split: if_splits)
  define n where "n = data ! offset"
  have d: "drop offset data = n # drop (offset + 1) data" using inside by (simp add: n_def Cons_nth_drop_Suc)
  show ?case
  proof (cases "n = 0")
    case True
    then show ?thesis using "1.prems" inside
      by (subst (asm) nameLoop.simps) (auto simp: n_def [symmetric] d wireName_simps intro!: exI [of _ "[]"])
  next
    case False
    let ?name1 = "if name \<noteq> [] then name @ ''.'' else name"
    let ?l = "take (unat n) (drop (offset + 1) data)"
    have c: "n AND 0xC0 = 0" "\<not> n > 63" "offset + 1 + unat n \<le> length data" "length ?name1 + unat n \<le> 253"
      "list_all isNameChar (map lowerAscii ?l)"
      "nameLoop data (offset + 1 + unat n) (?name1 @ map (byte_char \<circ> lowerAscii) ?l) = Some (Some (name', off))"
      using "1.prems" inside False
      by (subst (asm) nameLoop.simps, auto simp: n_def [symmetric] kMaxNameLength_def Let_def split: if_splits)+
    have ll: "length ?l = unat n" using c(3) by simp
    have "0 < unat n" using False by (simp add: unat_gt_0)
    then have ok: "label_ok ?l" using c(2,5) ll by (simp add: label_ok_def word_less_nat_alt)
    have "n = of_nat (length ?l)" using ll by simp
    obtain labels where ls: "list_all label_ok labels"
      "labels = [] \<or> length (dotted (?name1 @ map (byte_char \<circ> lowerAscii) ?l) labels) \<le> 253"
      "name' = dotted (?name1 @ map (byte_char \<circ> lowerAscii) ?l) labels"
      "off = offset + 1 + unat n + length (wireName labels)" "off \<le> length data"
      "take (length (wireName labels)) (drop (offset + 1 + unat n) data) = wireName labels"
      using "1.IH" [of n ?name1 ?l] inside False c by (auto simp: n_def [symmetric] kMaxNameLength_def)
    have len: "length (dotted name (?l # labels)) \<le> 253" using ls(2) c(4) ll by auto
    have "drop offset data = n # ?l @ drop (offset + 1 + unat n) data"
      using append_take_drop_id [of "unat n" "drop (offset + 1) data"] by (simp add: d add.commute)
    then have "take (length (wireName (?l # labels))) (drop offset data) = wireName (?l # labels)"
      using ls(6) ll \<open>n = of_nat (length ?l)\<close> by (simp add: wireName_simps)
    then show ?thesis
      using ls ok len ll by (intro exI [of _ "?l # labels"]) (simp add: wireName_simps)
  qed
qed

text \<open>The header of an ordinary query: not a reply, opcode \<open>QUERY\<close>, one question.\<close>

definition plainHeader :: "byte list \<Rightarrow> bool" where
  "plainHeader h \<longleftrightarrow> length h = 12 \<and> be16 (h ! 2) (h ! 3) AND 0x8000 = 0 \<and>
     (ucast (drop_bit 11 (be16 (h ! 2) (h ! 3)) AND 0x0F) :: byte) = 0 \<and> h ! 4 = 0 \<and> h ! 5 = 1"

lemma be16_1: "be16 a b = 1 \<longleftrightarrow> a = 0 \<and> b = 1"
proof -
  have one: "be16 0 1 = 1" by code_simp
  show ?thesis
  proof
    assume "be16 a b = 1"
    then have "be16 a b = be16 0 1" by (simp only: one)
    then show "a = 0 \<and> b = 1" by (metis hi8_be16 lo8_be16)
  qed (use one in simp)
qed

lemma parseEdns_keeps:
  "12 \<le> length data \<Longrightarrow> \<exists>p d. parseEdns data off q = Some (q\<lparr>ednsPayload := p, dnssecOk := d\<rparr>)"
proof -
  have "\<exists>p d. ednsLoop data off n q = Some (q\<lparr>ednsPayload := p, dnssecOk := d\<rparr>)" for n
  proof (induction data off n q rule: ednsLoop.induct)
    case (1 data off q)
    show ?case by (auto intro!: exI [of _ "ednsPayload q"] exI [of _ "dnssecOk q"])
  next
    case (2 data off n q)
    have same: "\<exists>p d. q = q\<lparr>ednsPayload := p, dnssecOk := d\<rparr>"
      by (rule exI [of _ "ednsPayload q"], rule exI [of _ "dnssecOk q"]) simp
    show ?case using 2 same by (auto split: if_splits)
  qed
  moreover have "\<exists>p d. q = q\<lparr>ednsPayload := p, dnssecOk := d\<rparr>"
    by (rule exI [of _ "ednsPayload q"], rule exI [of _ "dnssecOk q"]) simp
  ultimately show "12 \<le> length data \<Longrightarrow> ?thesis" by (auto simp: parseEdns_def)
qed

definition queryBytes :: "byte list \<Rightarrow> byte list list \<Rightarrow> u16 \<Rightarrow> byte list \<Rightarrow> byte list" where
  "queryBytes header labels type rest =
     header @ (wireName labels @ bytes16 type @ bytes16 1) @ rest"

lemma parseQuery_sound:
  assumes "parseQuery data = Some (True, q)"
  shows "\<exists>h labels rest. data = queryBytes h labels (query_type q) rest \<and> plainHeader h \<and>
    list_all label_ok labels \<and> labels \<noteq> [] \<and> length (query_name q) \<le> 253 \<and> query_name q = dotted [] labels \<and>
    query_error q = 0 \<and> question q = wireName labels @ bytes16 (query_type q) @ bytes16 1"
proof -
  have len: "12 \<le> length data" using assms by (auto simp: parseQuery_def kHeaderSize_def split: if_splits)
  have hd: "be16 (data ! 2) (data ! 3) AND 0x8000 = 0"
    "(ucast (drop_bit 11 (be16 (data ! 2) (data ! 3)) AND 0x0F) :: byte) = 0" "be16 (data ! 4) (data ! 5) = 1"
    using assms len by (auto simp: parseQuery_def kHeaderSize_def Let_def split: if_splits)
  obtain name off where n: "nameLoop data 12 [] = Some (Some (name, off))" "name \<noteq> []" "off + 4 \<le> length data"
    "be16 (data ! Suc (Suc off)) (data ! Suc (Suc (Suc off))) = 1"
    and e: "parseEdns data (off + 4) (noQuery\<lparr>query_id := be16 (data ! 0) (data ! Suc 0), opcode := 0,
      recursionDesired := be16 (data ! 2) (data ! 3) AND 256 \<noteq> 0, query_error := 0,
      query_type := be16 (data ! off) (data ! Suc off), query_name := name, question := take (off - 8) (drop 12 data)\<rparr>) = Some q"
    using assms len hd
    by (auto simp: parseQuery_def kHeaderSize_def Let_def kClassInternet_def split: if_splits option.splits bind_splits)
  obtain labels where l: "list_all label_ok labels" "labels = [] \<or> length (dotted [] labels) \<le> 253" "name = dotted [] labels"
    "off = 12 + length (wireName labels)" "take (length (wireName labels)) (drop 12 data) = wireName labels"
    using nameLoop_sound [OF n(1)] by auto
  have q: "query_error q = 0" "query_name q = name" "query_type q = be16 (data ! off) (data ! (off + 1))"
    "question q = take (off - 8) (drop 12 data)"
    using e parseEdns_keeps [OF len, of "off + 4" "noQuery\<lparr>query_id := be16 (data ! 0) (data ! Suc 0), opcode := 0,
      recursionDesired := be16 (data ! 2) (data ! 3) AND 256 \<noteq> 0, query_error := 0,
      query_type := be16 (data ! off) (data ! Suc off), query_name := name, question := take (off - 8) (drop 12 data)\<rparr>"]
    by auto
  have tail: "take 4 (drop off data) = bytes16 (query_type q) @ bytes16 1"
  proof -
    have "take 4 (drop off data) = [data ! off, data ! Suc off, data ! Suc (Suc off), data ! Suc (Suc (Suc off))]"
      using n(3) by (simp add: list_eq_iff_nth_eq nth_Cons' less_Suc_eq numeral_eq_Suc)
    moreover have "bytes16 1 = [data ! Suc (Suc off), data ! Suc (Suc (Suc off))]" using n(4) be16_bytes by metis
    ultimately show ?thesis by (simp add: q(3))
  qed
  have qs: "question q = wireName labels @ bytes16 (query_type q) @ bytes16 1"
  proof -
    have "off - 8 = length (wireName labels) + 4" using l(4) by simp
    then have "question q = take (length (wireName labels)) (drop 12 data) @ take 4 (drop off data)"
      by (simp only: q(4) take_add drop_drop l(4) add.commute)
    then show ?thesis using l(5) tail by simp
  qed
  have "data = take 12 data @ take (off - 8) (drop 12 data) @ drop (off + 4) data"
  proof -
    have "12 + (off - 8) = off + 4" using l(4) by simp
    then show ?thesis by (metis append_take_drop_id drop_drop add.commute)
  qed
  then have "data = queryBytes (take 12 data) labels (query_type q) (drop (off + 4) data)"
    using qs q(4) by (simp add: queryBytes_def)
  moreover have "plainHeader (take 12 data)" using hd len by (simp add: plainHeader_def be16_1)
  ultimately show ?thesis using l n(2) q(1,2) qs by (intro exI [of _ "take 12 data"]) auto
qed

lemma parseQuery_complete:
  assumes data: "data = queryBytes h labels type rest" and h: "plainHeader h"
    and l: "list_all label_ok labels" "labels \<noteq> []" "length (dotted [] labels) \<le> 253"
  shows "\<exists>q. parseQuery data = Some (True, q) \<and> query_type q = type \<and> query_name q = dotted [] labels"
proof -
  have lh: "length h = 12" using h by (simp add: plainHeader_def)
  let ?off = "12 + length (wireName labels)"
  have len: "?off + 4 \<le> length data" using lh by (simp add: data queryBytes_def)
  have nth: "data ! i = h ! i" if "i < 12" for i using that lh by (simp add: data queryBytes_def nth_append)
  have n: "nameLoop data 12 [] = Some (Some (dotted [] labels, ?off))"
    using nameLoop_complete [OF l(1), of "[]" h "(bytes16 type @ bytes16 1) @ rest"] l(3) lh
    by (simp add: data queryBytes_def)
  have ne: "dotted [] labels \<noteq> []"
  proof -
    obtain a ls where a: "labels = a # ls" using l(2) by (cases labels) auto
    have "a \<noteq> []" using l(1) a by (auto simp: label_ok_def)
    then show ?thesis using dotted_length [of "map (byte_char \<circ> lowerAscii) a" ls] a by (cases a) auto
  qed
  have r: "read16 data ?off = Some type" "read16 data (?off + 2) = Some 1"
    using lh read16_at [of data "h @ wireName labels" type "bytes16 1 @ rest" ?off]
      read16_at [of data "h @ wireName labels @ bytes16 type" 1 rest "?off + 2"]
    by (simp_all add: data queryBytes_def)
  define out where "out = noQuery\<lparr>query_id := be16 (h ! 0) (h ! 1), opcode := 0,
      recursionDesired := be16 (h ! 2) (h ! 3) AND 256 \<noteq> 0, query_error := 0,
      query_type := type, query_name := dotted [] labels, question := take (?off - 8) (drop 12 data)\<rparr>"
  obtain p d where e: "parseEdns data (?off + 4) out = Some (out\<lparr>ednsPayload := p, dnssecOk := d\<rparr>)"
    using parseEdns_keeps [of data "?off + 4" out] len by auto
  have "parseQuery data = Some (True, out\<lparr>ednsPayload := p, dnssecOk := d\<rparr>)"
    using h len nth n ne r e
    by (simp add: parseQuery_def kHeaderSize_def plainHeader_def kClassInternet_def be16_1 Let_def out_def
        del: read16_Some add: read16_Some [of 2] read16_Some [of 0] read16_Some [of 4])
  then show ?thesis by (simp add: out_def)
qed

text \<open>
  \<open>parseQuery\<close> accepts exactly the queries it documents. A datagram yields a query
  with this name and type if and only if it is an ordinary query header with one question,
  followed by a name of one or more uncompressed labels of 1 to 63 letters, digits, hyphens
  or underscores (at most 253 characters with the dots), the type, and the class IN; the
  name reported is those labels in lower case, joined by dots.
\<close>

lemma parseQuery_exact:
  "(\<exists>q. parseQuery data = Some (True, q) \<and> query_type q = type \<and> query_name q = name) \<longleftrightarrow>
   (\<exists>h labels rest. data = h @ (wireName labels @ bytes16 type @ bytes16 1) @ rest \<and> plainHeader h \<and>
     list_all label_ok labels \<and> labels \<noteq> [] \<and> name = dotted [] labels \<and> length name \<le> 253)"
  using parseQuery_sound [of data] parseQuery_complete [of data _ _ type] unfolding queryBytes_def by blast

end
