(* ===== verification/Dns_Wire.thy ===== *)
theory Dns_Wire
  imports Dns_Message
begin

text \<open>
  What the functions of \<open>DnsMessage.cpp\<close> do to whole messages. A DNS message is specified
  here as data: a header, questions and three sections of records with their owner names,
  and its encoding. The theorems relate the code, which works on offsets, to this structure.
\<close>

section \<open>Messages as structures\<close>

text \<open>A name as it stands in the message: labels ended by the root or by a compression pointer.\<close>

definition is_name :: "byte list \<Rightarrow> bool" where
  "is_name nm \<longleftrightarrow> skipName nm 0 = Some (Some (length nm))"

record WireRR =
  rr_name :: "byte list"
  rr_type :: u16
  rr_class :: u16
  rr_ttl :: u32
  rr_data :: "byte list"

definition rr_bytes :: "WireRR \<Rightarrow> byte list" where
  "rr_bytes r = rr_name r @ bytes16 (rr_type r) @ bytes16 (rr_class r) @ bytes32 (rr_ttl r) @
     bytes16 (of_nat (length (rr_data r))) @ rr_data r"

definition rr_ok :: "WireRR \<Rightarrow> bool" where
  "rr_ok r \<longleftrightarrow> is_name (rr_name r) \<and> length (rr_data r) < 65536"

type_synonym wireQ = "byte list \<times> u16 \<times> u16"

definition q_bytes :: "wireQ \<Rightarrow> byte list" where
  "q_bytes = (\<lambda>(nm, t, c). nm @ bytes16 t @ bytes16 c)"

definition rrs_bytes :: "WireRR list \<Rightarrow> byte list" where
  "rrs_bytes rrs = concat (map rr_bytes rrs)"

definition qs_bytes :: "wireQ list \<Rightarrow> byte list" where
  "qs_bytes qs = concat (map q_bytes qs)"

definition dns_header :: "u16 \<Rightarrow> u16 \<Rightarrow> nat \<Rightarrow> nat \<Rightarrow> nat \<Rightarrow> nat \<Rightarrow> byte list" where
  "dns_header ident flags qd an ns ar = bytes16 ident @ bytes16 flags @ bytes16 (of_nat qd) @
     bytes16 (of_nat an) @ bytes16 (of_nat ns) @ bytes16 (of_nat ar)"

definition dnsMessage ::
  "u16 \<Rightarrow> u16 \<Rightarrow> wireQ list \<Rightarrow> WireRR list \<Rightarrow> WireRR list \<Rightarrow> WireRR list \<Rightarrow> byte list" where
  "dnsMessage ident flags qs an ns ar =
     dns_header ident flags (length qs) (length an) (length ns) (length ar) @
     qs_bytes qs @ rrs_bytes an @ rrs_bytes ns @ rrs_bytes ar"

definition sections_ok :: "wireQ list \<Rightarrow> WireRR list \<Rightarrow> WireRR list \<Rightarrow> WireRR list \<Rightarrow> bool" where
  "sections_ok qs an ns ar \<longleftrightarrow> length qs < 65536 \<and> length an < 65536 \<and> length ns < 65536 \<and> length ar < 65536 \<and>
     list_all (is_name \<circ> fst) qs \<and> list_all rr_ok an \<and> list_all rr_ok ns \<and> list_all rr_ok ar"

text \<open>Where \<open>walk\<close> finds the records of a section.\<close>

fun refs_at :: "nat \<Rightarrow> nat \<Rightarrow> WireRR list \<Rightarrow> RecordRef list" where
  "refs_at sect off [] = []"
| "refs_at sect off (r # rrs) =
     \<lparr>ref_type = rr_type r, section_no = sect, ttlOffset = off + length (rr_name r) + 4\<rparr> #
     refs_at sect (off + length (rr_bytes r)) rrs"

lemma rrs_bytes_simps [simp]: "rrs_bytes [] = []" "rrs_bytes (r # rrs) = rr_bytes r @ rrs_bytes rrs"
  by (simp_all add: rrs_bytes_def)

lemma qs_bytes_simps [simp]: "qs_bytes [] = []" "qs_bytes (q # qs) = q_bytes q @ qs_bytes qs"
  by (simp_all add: qs_bytes_def)

lemma length_rr_bytes: "length (rr_bytes r) = length (rr_name r) + 10 + length (rr_data r)"
  by (simp add: rr_bytes_def)

lemma length_dns_header [simp]: "length (dns_header i f a b c d) = 12"
  by (simp add: dns_header_def)

section \<open>Names\<close>

lemma skipName_embed:
  "skipName nm i = Some (Some j) \<Longrightarrow> skipName (pre @ nm @ rest) (length pre + i) = Some (Some (length pre + j))"
proof (induction nm i rule: skipName.induct)
  case (1 nm i)
  have i: "i < length nm" using "1.prems" by (subst (asm) skipName.simps) (auto split: if_splits)
  have a: "at (pre @ nm @ rest) (length pre + i) = Some (nm ! i)"
    using i by (simp add: nth_append)
  show ?case
    using "1.prems" "1.IH" i a
    by (subst skipName.simps, subst (asm) (2) skipName.simps)
      (auto simp: add.assoc Let_def split: if_splits)
qed

lemma skipName_cut:
  "skipName data (off + i) = Some (Some j) \<Longrightarrow> skipName (take (j - off) (drop off data)) i = Some (Some (j - off))"
proof (induction data "off + i" arbitrary: i rule: skipName.induct)
  case (1 data)
  have j: "off + i < j" "j \<le> length data" using skipName_safe [of data "off + i"] "1.prems" by auto
  have a: "at (take (j - off) (drop off data)) i = Some (data ! (off + i))"
    using j by (simp add: nth_append)
  let ?c = "data ! (off + i)"
  show ?case
  proof (cases "?c = 0 \<or> ?c AND 0xC0 = 0xC0")
    case True
    then show ?thesis using "1.prems" j a
      by (subst skipName.simps, subst (asm) skipName.simps) (auto split: if_splits)
  next
    case False
    then have z: "?c AND 0xC0 = 0" "skipName data (off + i + (1 + unat ?c)) = Some (Some j)"
      using "1.prems" j by (subst (asm) skipName.simps; auto split: if_splits)+
    then have "skipName (take (j - off) (drop off data)) (i + (1 + unat ?c)) = Some (Some (j - off))"
      using "1.hyps" [of ?c "i + (1 + unat ?c)"] False j by (simp add: add.assoc)
    then show ?thesis using False z(1) j a by (subst skipName.simps) auto
  qed
qed

lemma skipName_is_name:
  assumes "is_name nm" "data = pre @ nm @ rest" "off = length pre"
  shows "skipName data off = Some (Some (off + length nm))"
  using skipName_embed [of nm 0 "length nm" pre rest] assms by (simp add: is_name_def)

lemma is_name_found:
  assumes "skipName data off = Some (Some j)"
  shows "is_name (take (j - off) (drop off data))" "off < j" "j \<le> length data"
  using skipName_cut [of data off 0 j] skipName_safe [of data off] assms by (auto simp: is_name_def)

lemma is_name_nonempty: "is_name nm \<Longrightarrow> nm \<noteq> []"
  using skipName_safe [of nm 0] by (auto simp: is_name_def)

lemma is_name_pointer: "is_name [0xC0, 0x0C]"
  unfolding is_name_def by code_simp

lemma is_name_root: "is_name [0]"
  unfolding is_name_def by code_simp

lemma is_name_wireName: "list_all label_ok labels \<Longrightarrow> is_name (wireName labels)"
proof -
  have "list_all label_ok labels \<Longrightarrow> skipName (pre @ wireName labels) (length pre) = Some (Some (length (pre @ wireName labels)))" for pre
  proof (induction labels arbitrary: pre)
    case Nil
    show ?case by (subst skipName.simps) (simp add: wireName_simps)
  next
    case (Cons l labels)
    have l: "label_ok l" using Cons.prems by simp
    have "skipName ((pre @ of_nat (length l) # l) @ wireName labels) (length (pre @ of_nat (length l) # l)) =
        Some (Some (length ((pre @ of_nat (length l) # l) @ wireName labels)))"
      using Cons.prems by (intro Cons.IH) simp
    then show ?case using label_length [OF l]
      by (subst skipName.simps) (auto simp: wireName_simps)
  qed
  from this [of "[]"] show "list_all label_ok labels \<Longrightarrow> ?thesis" by (simp add: is_name_def)
qed

section \<open>Walking an encoded message\<close>

lemma walkQuestions_encoded:
  "list_all (is_name \<circ> fst) qs \<Longrightarrow> data = pre @ qs_bytes qs @ rest \<Longrightarrow> off = length pre \<Longrightarrow>
    walkQuestions data off (length qs) = Some (Some (off + length (qs_bytes qs)))"
proof (induction qs arbitrary: pre off)
  case (Cons q qs)
  obtain nm t c where q: "q = (nm, t, c)" by (cases q)
  have "skipName data off = Some (Some (off + length nm))"
    using Cons.prems q by (intro skipName_is_name [of nm _ pre "bytes16 t @ bytes16 c @ qs_bytes qs @ rest"]) (auto simp: q_bytes_def)
  moreover have "walkQuestions data (off + length (q_bytes q)) (length qs) = Some (Some (off + length (q_bytes q) + length (qs_bytes qs)))"
    using Cons.prems by (intro Cons.IH [of "pre @ q_bytes q"]) auto
  ultimately show ?case using Cons.prems q by (simp add: q_bytes_def add.assoc)
qed simp

lemma walkRecords_encoded:
  "list_all rr_ok rrs \<Longrightarrow> data = pre @ rrs_bytes rrs @ rest \<Longrightarrow> off = length pre \<Longrightarrow>
    walkRecords data sect off (length rrs) = Some (Some (off + length (rrs_bytes rrs), refs_at sect off rrs))"
proof (induction rrs arbitrary: pre off)
  case (Cons r rrs)
  let ?o = "off + length (rr_name r)"
  have r: "is_name (rr_name r)" "unat (of_nat (length (rr_data r)) :: u16) = length (rr_data r)"
    using Cons.prems by (auto simp: rr_ok_def unat_of_nat)
  have d: "data = pre @ rr_name r @ bytes16 (rr_type r) @ bytes16 (rr_class r) @ bytes32 (rr_ttl r) @
     bytes16 (of_nat (length (rr_data r))) @ rr_data r @ rrs_bytes rrs @ rest"
    using Cons.prems by (simp add: rr_bytes_def)
  have s: "skipName data off = Some (Some ?o)"
    using r(1) d Cons.prems(3) by (rule skipName_is_name)
  have t: "read16 data ?o = Some (rr_type r)"
    by (rule read16_at [of _ "pre @ rr_name r"]) (use d Cons.prems(3) in auto)
  have l: "read16 data (?o + 8) = Some (of_nat (length (rr_data r)))"
    by (rule read16_at [of _ "pre @ rr_name r @ bytes16 (rr_type r) @ bytes16 (rr_class r) @ bytes32 (rr_ttl r)"])
      (use d Cons.prems(3) in auto)
  have "walkRecords data sect (off + length (rr_bytes r)) (length rrs) =
      Some (Some (off + length (rr_bytes r) + length (rrs_bytes rrs), refs_at sect (off + length (rr_bytes r)) rrs))"
    using Cons.prems by (intro Cons.IH [of "pre @ rr_bytes r"]) auto
  moreover have "off + length (rr_bytes r) = ?o + 10 + length (rr_data r)" by (simp add: length_rr_bytes)
  moreover have "?o + 10 + length (rr_data r) \<le> length data" using Cons.prems(3) by (subst d) simp
  ultimately show ?case using s t l r(2) by (simp del: read16_Some add: add.assoc)
qed simp

definition refs_of :: "wireQ list \<Rightarrow> WireRR list \<Rightarrow> WireRR list \<Rightarrow> WireRR list \<Rightarrow> RecordRef list" where
  "refs_of qs an ns ar = (let q = 12 + length (qs_bytes qs); a = q + length (rrs_bytes an); n = a + length (rrs_bytes ns)
     in refs_at 0 q an @ refs_at 1 a ns @ refs_at 2 n ar)"

lemma walkSections_encoded:
  assumes "list_all rr_ok an" "list_all rr_ok ns" "list_all rr_ok ar"
    and data: "data = pre @ rrs_bytes an @ rrs_bytes ns @ rrs_bytes ar @ rest"
  shows "walkSections data 0 (length pre) [length an, length ns, length ar] =
    Some (Some (length pre + length (rrs_bytes an) + length (rrs_bytes ns) + length (rrs_bytes ar),
      refs_at 0 (length pre) an @ refs_at 1 (length pre + length (rrs_bytes an)) ns @
      refs_at 2 (length pre + length (rrs_bytes an) + length (rrs_bytes ns)) ar))"
proof -
  have "walkRecords data 0 (length pre) (length an) = Some (Some (length pre + length (rrs_bytes an), refs_at 0 (length pre) an))"
    by (rule walkRecords_encoded [OF assms(1) data]) simp
  moreover have "walkRecords data 1 (length pre + length (rrs_bytes an)) (length ns) =
      Some (Some (length pre + length (rrs_bytes an) + length (rrs_bytes ns), refs_at 1 (length pre + length (rrs_bytes an)) ns))"
    by (rule walkRecords_encoded [OF assms(2), of _ "pre @ rrs_bytes an" "rrs_bytes ar @ rest"]) (simp_all add: data)
  moreover have "walkRecords data 2 (length pre + length (rrs_bytes an) + length (rrs_bytes ns)) (length ar) =
      Some (Some (length pre + length (rrs_bytes an) + length (rrs_bytes ns) + length (rrs_bytes ar),
        refs_at 2 (length pre + length (rrs_bytes an) + length (rrs_bytes ns)) ar))"
    by (rule walkRecords_encoded [OF assms(3), of _ "pre @ rrs_bytes an @ rrs_bytes ns" rest]) (simp_all add: data)
  ultimately show ?thesis by (simp add: numeral_2_eq_2)
qed

lemma header_fields:
  assumes "data = dns_header ident flags qd an ns ar @ rest"
  shows "read16 data 0 = Some ident" "read16 data 2 = Some flags" "read16 data 4 = Some (of_nat qd)"
    "read16 data 6 = Some (of_nat an)" "read16 data 8 = Some (of_nat ns)" "read16 data 10 = Some (of_nat ar)"
  by (simp_all add: assms dns_header_def bytes16_def)

lemma qs_bytes_size: "list_all (is_name \<circ> fst) qs \<Longrightarrow> length qs * 5 \<le> length (qs_bytes qs)"
proof (induction qs)
  case (Cons q qs)
  then have "1 \<le> length (fst q)" using is_name_nonempty [of "fst q"] by (cases "fst q") auto
  then show ?case using Cons by (cases q) (simp add: q_bytes_def)
qed simp

lemma rrs_bytes_size: "list_all rr_ok rrs \<Longrightarrow> length rrs * 11 \<le> length (rrs_bytes rrs)"
proof (induction rrs)
  case (Cons r rrs)
  then have "1 \<le> length (rr_name r)" using is_name_nonempty [of "rr_name r"] by (cases "rr_name r") (auto simp: rr_ok_def)
  then show ?case using Cons by (simp add: length_rr_bytes)
qed simp

lemma walk_encoded:
  assumes ok: "sections_ok qs an ns ar" and data: "data = dnsMessage ident flags qs an ns ar @ rest"
  shows "walk data = Some (Some (12 + length (qs_bytes qs), refs_of qs an ns ar))"
proof -
  let ?h = "dns_header ident flags (length qs) (length an) (length ns) (length ar)"
  have d: "data = ?h @ qs_bytes qs @ rrs_bytes an @ rrs_bytes ns @ rrs_bytes ar @ rest"
    by (simp add: data dnsMessage_def)
  note f = header_fields [OF d]
  have u: "unat (of_nat (length qs) :: u16) = length qs" "unat (of_nat (length an) :: u16) = length an"
    "unat (of_nat (length ns) :: u16) = length ns" "unat (of_nat (length ar) :: u16) = length ar"
    using ok by (auto simp: sections_ok_def unat_of_nat)
  have size: "\<not> length qs * 5 + (length an + length ns + length ar) * 11 > length data"
    using qs_bytes_size [of qs] rrs_bytes_size [of an] rrs_bytes_size [of ns] rrs_bytes_size [of ar] ok
    by (simp add: d sections_ok_def)
  have q: "walkQuestions data 12 (length qs) = Some (Some (12 + length (qs_bytes qs)))"
    by (rule walkQuestions_encoded [of _ _ ?h]) (use ok d in \<open>auto simp: sections_ok_def\<close>)
  have s: "walkSections data 0 (12 + length (qs_bytes qs)) [length an, length ns, length ar] =
    Some (Some (12 + length (qs_bytes qs) + length (rrs_bytes an) + length (rrs_bytes ns) + length (rrs_bytes ar), refs_of qs an ns ar))"
    using walkSections_encoded [of an ns ar data "?h @ qs_bytes qs" rest] ok d
    by (simp add: sections_ok_def refs_of_def Let_def add.assoc)
  have "\<not> length data < 12" by (simp add: d)
  then show ?thesis using f u size q s
    by (simp add: walk_def kHeaderSize_def del: read16_Some walkSections.simps)
qed

section \<open>Every walked message is an encoded one\<close>

lemma take_bytes16: "off + 2 \<le> length data \<Longrightarrow> read16 data off = Some v \<Longrightarrow> take 2 (drop off data) = bytes16 v"
  by (auto simp: list_eq_iff_nth_eq less_Suc_eq numeral_2_eq_2)

lemma bytes32_be32: "bytes32 (be32 a b c d) = [a, b, c, d]"
proof -
  have "ucast (drop_bit 24 (be32 a b c d)) = a" "ucast (drop_bit 16 (be32 a b c d)) = b"
    "ucast (drop_bit 8 (be32 a b c d)) = c" "ucast (be32 a b c d) = d"
    by (rule bit_word_eqI; auto simp: be32_def bit_or_iff bit_push_bit_iff bit_ucast_iff bit_drop_bit_eq
      dest: bit_imp_le_length)+
  then show ?thesis by (simp add: bytes32_def)
qed

lemma take_bytes32: "off + 4 \<le> length data \<Longrightarrow> \<exists>v. take 4 (drop off data) = bytes32 v"
proof -
  assume l: "off + 4 \<le> length data"
  define t where "t = take 4 (drop off data)"
  have "length t = Suc (Suc (Suc (Suc 0)))" using l by (simp add: t_def)
  then obtain a b c d where "take 4 (drop off data) = [a, b, c, d]" by (auto simp: length_Suc_conv t_def [symmetric])
  then show ?thesis using bytes32_be32 by metis
qed

lemma walkQuestions_found:
  "walkQuestions data off n = Some (Some e) \<Longrightarrow> off \<le> length data \<Longrightarrow>
   \<exists>qs. length qs = n \<and> list_all (is_name \<circ> fst) qs \<and> e = off + length (qs_bytes qs) \<and> e \<le> length data \<and>
     take (length (qs_bytes qs)) (drop off data) = qs_bytes qs"
proof (induction data off n rule: walkQuestions.induct)
  case (2 data off n)
  obtain o1 where s: "skipName data off = Some (Some o1)" and l: "o1 + 4 \<le> length data"
    and w: "walkQuestions data (o1 + 4) n = Some (Some e)"
    using "2.prems" by (auto split: bind_splits option.splits if_splits)
  note nm = is_name_found [OF s]
  obtain qs where qs: "length qs = n" "list_all (is_name \<circ> fst) qs" "e = o1 + 4 + length (qs_bytes qs)" "e \<le> length data"
    "take (length (qs_bytes qs)) (drop (o1 + 4) data) = qs_bytes qs"
    using "2.IH" [OF s refl _ w] l by (meson not_less)
  obtain t c where tc: "read16 data o1 = Some t" "read16 data (o1 + 2) = Some c" using l by simp
  let ?nm = "take (o1 - off) (drop off data)"
  have tb: "take 2 (drop o1 data) = bytes16 t" "take 2 (drop (o1 + 2) data) = bytes16 c"
    using take_bytes16 [OF _ tc(1)] take_bytes16 [OF _ tc(2)] l by auto
  have ln: "length ?nm = o1 - off" using nm by simp
  have split: "take (o1 - off + 2 + 2 + length (qs_bytes qs)) (drop off data) = q_bytes (?nm, t, c) @ qs_bytes qs"
    using nm tb qs(5) by (simp only: take_add drop_drop q_bytes_def prod.case append_assoc)
      (simp add: add.commute add.left_commute numeral_eq_Suc)
  have "length (qs_bytes ((?nm, t, c) # qs)) = o1 - off + 2 + 2 + length (qs_bytes qs)" using ln by (simp add: q_bytes_def)
  then show ?case
    using qs nm split ln by (intro exI [of _ "(?nm, t, c) # qs"]) (auto simp: q_bytes_def comp_def)
qed auto

lemma walkRecords_found:
  "walkRecords data sect off n = Some (Some (e, refs)) \<Longrightarrow> off \<le> length data \<Longrightarrow>
   \<exists>rrs. length rrs = n \<and> list_all rr_ok rrs \<and> e = off + length (rrs_bytes rrs) \<and> e \<le> length data \<and>
     take (length (rrs_bytes rrs)) (drop off data) = rrs_bytes rrs"
proof (induction data sect off n arbitrary: refs rule: walkRecords.induct)
  case (2 data sect off n)
  obtain o1 ty rd refs' where s: "skipName data off = Some (Some o1)" and l: "o1 + 10 + unat rd \<le> length data"
    and rd: "read16 data o1 = Some ty" "read16 data (o1 + 8) = Some rd"
    and w: "walkRecords data sect (o1 + 10 + unat rd) n = Some (Some (e, refs'))"
    using "2.prems"(1) by (simp del: read16_Some split: bind_splits option.splits if_splits) fastforce
  note nm = is_name_found [OF s]
  have l10: "\<not> length data < o1 + 10" using l by simp
  obtain rrs where rrs: "length rrs = n" "list_all rr_ok rrs" "e = o1 + 10 + unat rd + length (rrs_bytes rrs)" "e \<le> length data"
    "take (length (rrs_bytes rrs)) (drop (o1 + 10 + unat rd) data) = rrs_bytes rrs"
    using "2.IH" [OF s refl l10 rd _ w] l by auto
  obtain c where c: "read16 data (o1 + 2) = Some c" using l by simp
  obtain t where t: "take 4 (drop (o1 + 4) data) = bytes32 t" using take_bytes32 [of "o1 + 4" data] l by auto
  define r where "r = \<lparr>rr_name = take (o1 - off) (drop off data), rr_type = ty, rr_class = c, rr_ttl = t,
    rr_data = take (unat rd) (drop (o1 + 10) data)\<rparr>"
  have ln: "length (rr_name r) = o1 - off" "length (rr_data r) = unat rd" using nm l by (auto simp: r_def)
  have tb: "take 2 (drop o1 data) = bytes16 ty" "take 2 (drop (o1 + 2) data) = bytes16 c"
    "take 2 (drop (o1 + 8) data) = bytes16 (of_nat (length (rr_data r)))"
    using take_bytes16 [OF _ rd(1)] take_bytes16 [OF _ c] take_bytes16 [OF _ rd(2)] l ln(2) by auto
  have split: "take (o1 - off + 2 + 2 + 4 + 2 + unat rd + length (rrs_bytes rrs)) (drop off data) = rr_bytes r @ rrs_bytes rrs"
  proof -
    have dd: "drop off data = rr_name r @ drop o1 data"
      using append_take_drop_id [of "o1 - off" "drop off data"] nm by (simp add: r_def)
    have "drop o1 data = bytes16 ty @ bytes16 c @ bytes32 t @ bytes16 (of_nat (length (rr_data r))) @ rr_data r @
        rrs_bytes rrs @ drop (o1 + 10 + unat rd + length (rrs_bytes rrs)) data"
    proof -
      have cut: "drop i data = take k (drop i data) @ drop j data" if "j = i + k" for i j k
        using that by (metis append_take_drop_id drop_drop add.commute)
      have "drop o1 data = bytes16 ty @ drop (o1 + 2) data" using cut [of "o1 + 2" o1 2] tb(1) by simp
      also have "drop (o1 + 2) data = bytes16 c @ drop (o1 + 4) data" using cut [of "o1 + 4" "o1 + 2" 2] tb(2) by simp
      also have "drop (o1 + 4) data = bytes32 t @ drop (o1 + 8) data" using cut [of "o1 + 8" "o1 + 4" 4] t by simp
      also have "drop (o1 + 8) data = bytes16 (of_nat (length (rr_data r))) @ drop (o1 + 10) data" using cut [of "o1 + 10" "o1 + 8" 2] tb(3) by simp
      also have "drop (o1 + 10) data = rr_data r @ drop (o1 + 10 + unat rd) data" using cut [of "o1 + 10 + unat rd" "o1 + 10" "unat rd"] by (simp add: r_def)
      also have "drop (o1 + 10 + unat rd) data = rrs_bytes rrs @ drop (o1 + 10 + unat rd + length (rrs_bytes rrs)) data"
        using cut [of "o1 + 10 + unat rd + length (rrs_bytes rrs)" "o1 + 10 + unat rd" "length (rrs_bytes rrs)"] rrs(5) by simp
      finally show ?thesis by simp
    qed
    moreover have "rr_type r = ty" "rr_class r = c" "rr_ttl r = t" by (simp_all add: r_def)
    ultimately have "drop off data = (rr_bytes r @ rrs_bytes rrs) @ drop (o1 + 10 + unat rd + length (rrs_bytes rrs)) data"
      using dd by (simp add: rr_bytes_def)
    moreover have "length (rr_bytes r @ rrs_bytes rrs) = o1 - off + 2 + 2 + 4 + 2 + unat rd + length (rrs_bytes rrs)"
      using ln by (simp add: length_rr_bytes)
    ultimately show ?thesis by (metis append_eq_conv_conj)
  qed
  have "rr_ok r" using nm ln unat_u16_less [of rd] by (simp add: rr_ok_def r_def)
  moreover have "length (rrs_bytes (r # rrs)) = o1 - off + 2 + 2 + 4 + 2 + unat rd + length (rrs_bytes rrs)"
    using ln by (simp add: length_rr_bytes)
  ultimately show ?case using rrs nm split by (intro exI [of _ "r # rrs"]) auto
qed auto

lemma drop_split: "take (length xs) (drop i data) = xs \<Longrightarrow> j = i + length xs \<Longrightarrow> drop i data = xs @ drop j data"
  by (metis append_take_drop_id drop_drop add.commute)

lemma bytes16_nth: "Suc i < length data \<Longrightarrow> bytes16 (be16 (data ! i) (data ! Suc i)) = [data ! i, data ! Suc i]"
  by simp

lemma header_found:
  assumes "12 \<le> length data"
  shows "data = bytes16 (be16 (data ! 0) (data ! 1)) @ bytes16 (be16 (data ! 2) (data ! 3)) @ bytes16 (be16 (data ! 4) (data ! 5)) @
    bytes16 (be16 (data ! 6) (data ! 7)) @ bytes16 (be16 (data ! 8) (data ! 9)) @ bytes16 (be16 (data ! 10) (data ! 11)) @ drop 12 data"
proof -
  obtain a b c d e f g h i j k l rest where m: "data = [a, b, c, d, e, f, g, h, i, j, k, l] @ rest"
    using assms by (rule header_split)
  show ?thesis by (simp add: m)
qed

lemma walk_found:
  assumes "walk data = Some (Some (qe, refs))"
  shows "\<exists>qs an ns ar rest. sections_ok qs an ns ar \<and>
    data = dnsMessage (be16 (data ! 0) (data ! 1)) (be16 (data ! 2) (data ! 3)) qs an ns ar @ rest"
proof -
  have len: "12 \<le> length data" using assms by (auto simp: walk_def kHeaderSize_def split: if_splits)
  define n where "n i = unat (be16 (data ! i) (data ! Suc i))" for i
  obtain e where q: "walkQuestions data 12 (n 4) = Some (Some qe)"
    and s: "walkSections data 0 qe [n 6, n 8, n 10] = Some (Some (e, refs))"
    using assms len by (auto simp: walk_def kHeaderSize_def n_def simp del: walkSections.simps
      split: if_splits option.splits bind_splits)
  obtain e1 r1 e2 r2 r3 where w: "walkRecords data 0 qe (n 6) = Some (Some (e1, r1))"
    "walkRecords data 1 e1 (n 8) = Some (Some (e2, r2))" "walkRecords data 2 e2 (n 10) = Some (Some (e, r3))"
    using s by (auto simp: numeral_2_eq_2 split: bind_splits option.splits)
  obtain qs where qs: "length qs = n 4" "list_all (is_name \<circ> fst) qs" "qe = 12 + length (qs_bytes qs)" "qe \<le> length data"
    "take (length (qs_bytes qs)) (drop 12 data) = qs_bytes qs"
    using walkQuestions_found [OF q] len by blast
  obtain an where an: "length an = n 6" "list_all rr_ok an" "e1 = qe + length (rrs_bytes an)" "e1 \<le> length data"
    "take (length (rrs_bytes an)) (drop qe data) = rrs_bytes an"
    using walkRecords_found [OF w(1)] qs(4) by blast
  obtain ns where ns: "length ns = n 8" "list_all rr_ok ns" "e2 = e1 + length (rrs_bytes ns)" "e2 \<le> length data"
    "take (length (rrs_bytes ns)) (drop e1 data) = rrs_bytes ns"
    using walkRecords_found [OF w(2)] an(4) by blast
  obtain ar where ar: "length ar = n 10" "list_all rr_ok ar" "e = e2 + length (rrs_bytes ar)" "e \<le> length data"
    "take (length (rrs_bytes ar)) (drop e2 data) = rrs_bytes ar"
    using walkRecords_found [OF w(3)] ns(4) by blast
  have d: "drop 12 data = qs_bytes qs @ rrs_bytes an @ rrs_bytes ns @ rrs_bytes ar @ drop e data"
    using drop_split [OF qs(5) qs(3)] drop_split [OF an(5) an(3)] drop_split [OF ns(5) ns(3)] drop_split [OF ar(5) ar(3)]
    by simp
  have c: "bytes16 (of_nat (n i)) = [data ! i, data ! Suc i]" for i by (simp add: n_def)
  have "data = dnsMessage (be16 (data ! 0) (data ! 1)) (be16 (data ! 2) (data ! 3)) qs an ns ar @ drop e data"
    using header_found [OF len] c [of 4] c [of 6] c [of 8] c [of 10]
    by (simp add: dnsMessage_def dns_header_def d qs(1) an(1) ns(1) ar(1))
  moreover have "sections_ok qs an ns ar"
    using qs an ns ar by (simp add: sections_ok_def n_def)
  ultimately show ?thesis by blast
qed

section \<open>Ageing\<close>

definition ageRR :: "u32 \<Rightarrow> WireRR \<Rightarrow> WireRR" where
  "ageRR age r = (if rr_type r = kTypeOpt then r else r\<lparr>rr_ttl := agedTtl age (rr_ttl r)\<rparr>)"

lemma ageRR_length [simp]: "length (rr_bytes (ageRR age r)) = length (rr_bytes r)"
  by (simp add: ageRR_def length_rr_bytes)

lemma ageRR_lengths [simp]: "length (rrs_bytes (map (ageRR age) rrs)) = length (rrs_bytes rrs)"
  by (induction rrs) simp_all

lemma ageLoop_encoded:
  "data = pre @ rrs_bytes rrs @ rest \<Longrightarrow> off = length pre \<Longrightarrow>
   ageLoop (refs_at sect off rrs @ refs) age data = ageLoop refs age (pre @ rrs_bytes (map (ageRR age) rrs) @ rest)"
proof (induction rrs arbitrary: pre off data)
  case (Cons r rrs)
  have IH: "ageLoop (refs_at sect (off + length (rr_bytes r)) rrs @ refs) age (pre @ rr_bytes (ageRR age r) @ rrs_bytes rrs @ rest) =
      ageLoop refs age (pre @ rrs_bytes (map (ageRR age) (r # rrs)) @ rest)"
    using Cons.IH [of _ "pre @ rr_bytes (ageRR age r)" "off + length (rr_bytes r)"] Cons.prems by simp
  show ?case
  proof (cases "rr_type r = kTypeOpt")
    case True
    then have "ageRR age r = r" by (simp add: ageRR_def)
    then show ?thesis using IH True Cons.prems by simp
  next
    case False
    let ?p = "pre @ rr_name r @ bytes16 (rr_type r) @ bytes16 (rr_class r)"
    let ?s = "bytes16 (of_nat (length (rr_data r))) @ rr_data r @ rrs_bytes rrs @ rest"
    have d: "data = ?p @ bytes32 (rr_ttl r) @ ?s" using Cons.prems by (simp add: rr_bytes_def)
    have o: "off + length (rr_name r) + 4 = length ?p" using Cons.prems by simp
    have "read32 data (length ?p) = Some (rr_ttl r)" by (rule read32_at [OF d]) simp
    moreover have "write32 data (length ?p) (agedTtl age (rr_ttl r)) = Some (pre @ rr_bytes (ageRR age r) @ rrs_bytes rrs @ rest)"
      using False by (simp add: d write32_def put_bytes_def ageRR_def rr_bytes_def)
    ultimately show ?thesis using IH False o by (simp del: read32_Some add: add.assoc)
  qed
qed simp

lemma ageTtls_encoded:
  assumes ok: "sections_ok qs an ns ar"
  shows "ageTtls (dnsMessage ident flags qs an ns ar @ rest) age =
    Some (dnsMessage ident flags qs (map (ageRR age) an) (map (ageRR age) ns) (map (ageRR age) ar) @ rest)"
proof -
  let ?h = "dns_header ident flags (length qs) (length an) (length ns) (length ar) @ qs_bytes qs"
  let ?an = "rrs_bytes (map (ageRR age) an)" and ?ns = "rrs_bytes (map (ageRR age) ns)"
  have l: "12 + length (qs_bytes qs) = length ?h" "length (rrs_bytes an) = length ?an" "length (rrs_bytes ns) = length ?ns" by simp_all
  have "ageLoop (refs_of qs an ns ar) age (?h @ rrs_bytes an @ rrs_bytes ns @ rrs_bytes ar @ rest) =
      Some (?h @ ?an @ ?ns @ rrs_bytes (map (ageRR age) ar) @ rest)"
    using ageLoop_encoded [of _ ?h an "rrs_bytes ns @ rrs_bytes ar @ rest" _ 0 _ age]
      ageLoop_encoded [of _ "?h @ ?an" ns "rrs_bytes ar @ rest" _ 1 _ age]
      ageLoop_encoded [of _ "?h @ ?an @ ?ns" ar rest _ 2 "[]" age]
    by (simp add: refs_of_def Let_def add.assoc)
  moreover have "walk (dnsMessage ident flags qs an ns ar @ rest) = Some (Some (12 + length (qs_bytes qs), refs_of qs an ns ar))"
    using walk_encoded [OF ok refl] .
  ultimately show ?thesis by (simp add: ageTtls_def dnsMessage_def)
qed

text \<open>
  \<open>ageTtls\<close> changes the time to live of the records and nothing else. Whatever the
  bytes, either the message is malformed (\<open>inspectResponse\<close> refuses it) and stays as it is,
  or it is a header, questions and three sections of records, and the result is the same
  message with every record aged: an OPT record is left alone, any other loses \<open>age\<close> seconds
  but never drops below one second unless it was zero.
\<close>

lemma ageTtls_exact:
  "(\<exists>info. inspectResponse data = Some (False, info) \<and> ageTtls data age = Some data) \<or>
   (\<exists>ident flags qs an ns ar rest. sections_ok qs an ns ar \<and> data = dnsMessage ident flags qs an ns ar @ rest \<and>
     ageTtls data age =
       Some (dnsMessage ident flags qs (map (ageRR age) an) (map (ageRR age) ns) (map (ageRR age) ar) @ rest))"
proof (cases "walk data = Some None")
  case True
  then show ?thesis by (simp add: inspectResponse_def ageTtls_def)
next
  case False
  then obtain qe refs where "walk data = Some (Some (qe, refs))" using walk_safe [of data] by (cases "walk data") auto
  from walk_found [OF this] show ?thesis using ageTtls_encoded by metis
qed

section \<open>Inspecting an encoded message\<close>

definition noteRR :: "nat \<Rightarrow> WireRR \<Rightarrow> ResponseInfo \<Rightarrow> ResponseInfo" where
  "noteRR sect r out =
     (if rr_type r = kTypeOpt then out
      else if sect = 0
      then out\<lparr>answerTtl := if hasAnswerTtl out then min (answerTtl out) (rr_ttl r) else rr_ttl r, hasAnswerTtl := True\<rparr>
      else if sect = 1
      then out\<lparr>authorityTtl := if hasAuthorityTtl out then min (authorityTtl out) (rr_ttl r) else rr_ttl r, hasAuthorityTtl := True\<rparr>
      else out)"

lemma inspectLoop_encoded:
  "data = pre @ rrs_bytes rrs @ rest \<Longrightarrow> off = length pre \<Longrightarrow>
   inspectLoop data (refs_at sect off rrs @ refs) out = inspectLoop data refs (fold (noteRR sect) rrs out)"
proof (induction rrs arbitrary: pre off out)
  case (Cons r rrs)
  have IH: "inspectLoop data (refs_at sect (off + length (rr_bytes r)) rrs @ refs) out' =
      inspectLoop data refs (fold (noteRR sect) rrs out')" for out'
    using Cons.IH [of "pre @ rr_bytes r" "off + length (rr_bytes r)"] Cons.prems by simp
  have "read32 data (off + length (rr_name r) + 4) = Some (rr_ttl r)"
    by (rule read32_at [of _ "pre @ rr_name r @ bytes16 (rr_type r) @ bytes16 (rr_class r)" _
          "bytes16 (of_nat (length (rr_data r))) @ rr_data r @ rrs_bytes rrs @ rest"])
      (use Cons.prems in \<open>auto simp: rr_bytes_def\<close>)
  then show ?case by (simp add: IH noteRR_def [of sect r] del: read32_Some)
qed simp

lemma inspectResponse_encoded:
  assumes ok: "sections_ok qs an ns ar" and data: "data = dnsMessage ident flags qs an ns ar @ rest"
  shows "inspectResponse data = Some (True, fold (noteRR 2) ar (fold (noteRR 1) ns (fold (noteRR 0) an
    (noInfo\<lparr>response := flags AND 0x8000 \<noteq> 0, truncated := flags AND 0x0200 \<noteq> 0,
       info_rcode := ucast (flags AND 0x000F), answers := length an\<rparr>))))"
proof -
  let ?h = "dns_header ident flags (length qs) (length an) (length ns) (length ar) @ qs_bytes qs"
  have d: "data = ?h @ rrs_bytes an @ rrs_bytes ns @ rrs_bytes ar @ rest" by (simp add: data dnsMessage_def)
  have f: "read16 data 2 = Some flags" "read16 data 6 = Some (of_nat (length an))"
    by (rule header_fields [of _ ident flags "length qs" "length an" "length ns" "length ar"
          "qs_bytes qs @ rrs_bytes an @ rrs_bytes ns @ rrs_bytes ar @ rest"], simp add: d)+
  have u: "unat (of_nat (length an) :: u16) = length an" using ok by (simp add: sections_ok_def unat_of_nat)
  have "inspectLoop data (refs_of qs an ns ar) out =
      Some (fold (noteRR 2) ar (fold (noteRR 1) ns (fold (noteRR 0) an out)))" for out
    using inspectLoop_encoded [of data ?h an "rrs_bytes ns @ rrs_bytes ar @ rest" _ 0]
      inspectLoop_encoded [of data "?h @ rrs_bytes an" ns "rrs_bytes ar @ rest" _ 1]
      inspectLoop_encoded [of data "?h @ rrs_bytes an @ rrs_bytes ns" ar rest _ 2 "[]"]
    by (simp add: refs_of_def Let_def add.assoc d)
  then show ?thesis using walk_encoded [OF ok data] f u by (simp add: inspectResponse_def del: read16_Some)
qed

section \<open>Truncation\<close>

lemma walk_found_fields:
  assumes "walk m = Some (Some (qe, refs))" "read16 m 0 = Some i" "read16 m 2 = Some f"
  shows "\<exists>qs an ns ar rest. sections_ok qs an ns ar \<and> m = dnsMessage i f qs an ns ar @ rest \<and> qe = 12 + length (qs_bytes qs)"
proof -
  have "12 \<le> length m" using walk_safe [of m] assms(1) by auto
  then have "i = be16 (m ! 0) (m ! 1)" "f = be16 (m ! 2) (m ! 3)" using assms(2,3) by simp_all
  then obtain qs an ns ar rest where d: "sections_ok qs an ns ar" "m = dnsMessage i f qs an ns ar @ rest"
    using walk_found [OF assms(1)] by blast
  have "qe = 12 + length (qs_bytes qs)" using walk_encoded [OF d] assms(1) by simp
  then show ?thesis using d by blast
qed

lemma replicate6: "replicate 6 (0::byte) = bytes16 (of_nat 0) @ bytes16 (of_nat 0) @ bytes16 (of_nat 0)"
  "[0, 0] = bytes16 (of_nat 0)"
  by code_simp+

text \<open>The shape of the truncated message, for a well-formed and for a malformed one.\<close>

lemma truncateForUdp_shape:
  assumes m: "12 \<le> length m" "\<not> length m \<le> limit" "read16 m 0 = Some i" "read16 m 2 = Some f"
  shows "\<exists>qs. sections_ok qs [] [] [] \<and> (if walk m = Some None then qs = []
       else \<exists>an ns ar rest. sections_ok qs an ns ar \<and> m = dnsMessage i f qs an ns ar @ rest) \<and>
     truncateForUdp m limit = Some (True, dnsMessage i (f OR 0x0200) qs [] [] []) \<and>
     length (dnsMessage i (f OR 0x0200) qs [] [] []) \<le> length m"
proof -
  obtain w where w: "walk m = Some w" and t: "let qe = (case w of Some (q, _) \<Rightarrow> q | None \<Rightarrow> 12) in
    12 \<le> qe \<and> qe \<le> length m \<and> truncateForUdp m limit = Some (True,
      take 2 m @ bytes16 (be16 (m ! 2) (m ! 3) OR 0x0200) @
      (if w = None then [0, 0] else [m ! 4, m ! 5]) @ replicate 6 0 @ take (qe - 12) (drop 12 m))"
    using truncateForUdp_eq [of m limit] m by auto
  have b: "take 2 m = bytes16 i" "be16 (m ! 2) (m ! 3) = f" using take_bytes16 [of 0 m i] m by auto
  show ?thesis
  proof (cases w)
    case None
    then show ?thesis using t b w m(1) unfolding replicate6
      by (intro exI [of _ "[]"]) (simp add: dnsMessage_def dns_header_def sections_ok_def)
  next
    case (Some p)
    obtain qe refs where p: "p = (qe, refs)" by fastforce
    obtain qs an ns ar rest where ok: "sections_ok qs an ns ar" and d: "m = dnsMessage i f qs an ns ar @ rest"
      and qe: "qe = 12 + length (qs_bytes qs)"
      using walk_found_fields [of m qe refs i f] w Some p m(3,4) by blast
    have "read16 m 4 = Some (of_nat (length qs))"
      using header_fields(3) [of m i f "length qs" "length an" "length ns" "length ar"] by (simp add: d dnsMessage_def)
    then have q4: "[m ! 4, m ! 5] = bytes16 (of_nat (length qs))"
      using m(1) be16_bytes [of "m ! 4" "m ! 5"] by simp
    have "take (qe - 12) (drop 12 m) = qs_bytes qs" by (simp add: qe d dnsMessage_def)
    then have "truncateForUdp m limit = Some (True, dnsMessage i (f OR 0x0200) qs [] [] [])"
      using t b Some p q4 unfolding replicate6 by (simp add: dnsMessage_def dns_header_def)
    moreover have "length (dnsMessage i (f OR 0x0200) qs [] [] []) \<le> length m" "sections_ok qs [] [] []"
      using ok by (simp_all add: d dnsMessage_def sections_ok_def)
    ultimately show ?thesis using ok d w Some by (intro exI [of _ qs]) auto
  qed
qed

text \<open>
  \<open>truncateForUdp\<close> leaves a message alone that fits. Otherwise it returns a complete
  message with the truncation bit set, the same id, no records, and, when the message was
  well formed, exactly its questions; \<open>inspectResponse\<close> accepts the result and reports it as
  truncated. The result is never longer than the message.
\<close>

lemma truncateForUdp_exact:
  assumes "12 \<le> length m"
  shows "(if length m \<le> limit then truncateForUdp m limit = Some (False, m)
    else \<exists>ident flags qs t info. truncateForUdp m limit = Some (True, t) \<and> sections_ok qs [] [] [] \<and>
      t = dnsMessage ident (flags OR 0x0200) qs [] [] [] \<and> length t \<le> length m \<and>
      read16 m 0 = Some ident \<and> read16 m 2 = Some flags \<and>
      (if walk m = Some None then qs = []
       else \<exists>an ns ar rest. sections_ok qs an ns ar \<and> m = dnsMessage ident flags qs an ns ar @ rest) \<and>
      inspectResponse t = Some (True, info) \<and> truncated info \<and> answers info = 0)"
proof (cases "length m \<le> limit")
  case True
  then show ?thesis by (simp add: truncateForUdp_def)
next
  case False
  obtain i f where r: "read16 m 0 = Some i" "read16 m 2 = Some f" using assms by simp
  have "bit ((f OR 0x0200) AND 0x0200) 9" by (simp add: bit_and_iff bit_or_iff bit_numeral_word_iff)
  then have b: "(f OR 0x0200) AND 0x0200 \<noteq> 0" by auto
  obtain qs where qs: "sections_ok qs [] [] []" "if walk m = Some None then qs = []
       else \<exists>an ns ar rest. sections_ok qs an ns ar \<and> m = dnsMessage i f qs an ns ar @ rest"
     "truncateForUdp m limit = Some (True, dnsMessage i (f OR 0x0200) qs [] [] [])"
     "length (dnsMessage i (f OR 0x0200) qs [] [] []) \<le> length m"
    using truncateForUdp_shape [OF assms False r] by blast
  have "\<exists>info. inspectResponse (dnsMessage i (f OR 0x0200) qs [] [] []) = Some (True, info) \<and> truncated info \<and> answers info = 0"
    using inspectResponse_encoded [OF qs(1), of _ i "f OR 0x0200" "[]"] b by auto
  then show ?thesis using False qs r by metis
qed

text \<open>A reply of 30 bytes with one A record, cut to header and question for a limit of 20 bytes.\<close>

lemma truncateForUdp_exact_example:
  "12 \<le> length [0, 7, 0x81, 0x80, 0, 0, 0, 1, 0, 0, 0, 0, 0, 0, 1, 0, 1, 0, 0, 0, 60, 0, 4, 1, 2, 3, 4 :: byte] \<and>
   (\<exists>t info. truncateForUdp [0, 7, 0x81, 0x80, 0, 0, 0, 1, 0, 0, 0, 0, 0, 0, 1, 0, 1, 0, 0, 0, 60, 0, 4, 1, 2, 3, 4] 20 = Some (True, t) \<and>
      inspectResponse t = Some (True, info) \<and> truncated info)"
  using truncateForUdp_exact [of "[0, 7, 0x81, 0x80, 0, 0, 0, 1, 0, 0, 0, 0, 0, 0, 1, 0, 1, 0, 0, 0, 60, 0, 4, 1, 2, 3, 4]" 20]
  by auto

section \<open>Replies\<close>

lemma encodeLoop_props:
  "list_all (\<lambda>a. length a = 16) encoded \<Longrightarrow> length encoded < 8 \<Longrightarrow>
   list_all (\<lambda>a. length a = 16) (encodeLoop pton addresses encoded) \<and> length (encodeLoop pton addresses encoded) \<le> 8"
  by (induction pton addresses encoded rule: encodeLoop.induct)
    (auto simp: kMaxAnswers_def Let_def split: option.split)

lemma encodedAddresses_props:
  "list_all (\<lambda>a. length a = 16) (encodedAddresses pton4 pton6 query addresses rcode) \<and>
   length (encodedAddresses pton4 pton6 query addresses rcode) \<le> 8"
  by (simp add: encodedAddresses_def encodeLoop_props)

definition answerRR :: "Query \<Rightarrow> u32 \<Rightarrow> byte list \<Rightarrow> WireRR" where
  "answerRR query ttl address = \<lparr>rr_name = [0xC0, 0x0C], rr_type = query_type query, rr_class = 1, rr_ttl = ttl,
     rr_data = take (addressLength query) address\<rparr>"

definition optRR :: WireRR where
  "optRR = \<lparr>rr_name = [0], rr_type = kTypeOpt, rr_class = kAdvertisedPayload, rr_ttl = 0, rr_data = []\<rparr>"

definition replyFlags :: "Query \<Rightarrow> byte \<Rightarrow> u16" where
  "replyFlags query effective =
     (if recursionDesired query then 0x8080 OR 0x0100 else 0x8080) OR ucast (effective AND 0x0F)"

lemma answerRecord_encoded:
  "length a = 16 \<Longrightarrow> answerRecord query ttl a = rr_bytes (answerRR query ttl a)"
proof -
  have "bytes16 0xC00C = [0xC0, 0x0C]" by code_simp
  then show "length a = 16 \<Longrightarrow> ?thesis"
    by (simp add: answerRecord_def rr_bytes_def answerRR_def kClassInternet_def addressLength_def)
qed

lemma optRecord_encoded: "optRecord = rr_bytes optRR"
  by (simp add: optRecord_def rr_bytes_def optRR_def)

lemma replyFlags_bits:
  "replyFlags query e AND 0x8000 \<noteq> 0" "replyFlags query e AND 0x0200 = 0" "ucast (replyFlags query e AND 0x000F) = e AND 0x0F"
proof -
  have all: "\<forall>n \<in> set [0..<16]. \<forall>f \<in> set [0x8080 OR 0x0100, 0x8080 :: u16].
      (f OR ucast (of_nat n :: byte)) AND 0x8000 \<noteq> 0 \<and> (f OR ucast (of_nat n :: byte)) AND 0x0200 = 0 \<and>
      (ucast ((f OR ucast (of_nat n :: byte)) AND 0x000F) :: byte) = of_nat n"
    by code_simp
  have "e AND 0x0F = take_bit 4 e" by (simp add: take_bit_eq_mask mask_eq_exp_minus_1)
  then have "unat (e AND 0x0F) < 16" by (simp add: unsigned_take_bit_eq take_bit_nat_def)
  then have n: "unat (e AND 0x0F) \<in> set [0..<16]" "(of_nat (unat (e AND 0x0F)) :: byte) = e AND 0x0F" by simp_all
  show "replyFlags query e AND 0x8000 \<noteq> 0" "replyFlags query e AND 0x0200 = 0" "ucast (replyFlags query e AND 0x000F) = e AND 0x0F"
    using bspec [OF all n(1)] unfolding n(2) replyFlags_def by auto
qed

text \<open>A reply of the program is the encoding of a message with one question.\<close>

lemma buildResponse_encoded:
  assumes "question query = nm @ bytes16 t @ bytes16 1"
  shows "buildResponse pton4 pton6 query addresses ttl failed rcode =
    dnsMessage (query_id query) (replyFlags query (effectiveRcode failed rcode)) [(nm, t, 1)]
      (map (answerRR query ttl) (encodedAddresses pton4 pton6 query addresses (effectiveRcode failed rcode))) []
      (if ednsPayload query \<noteq> 0 then [optRR] else [])"
proof -
  let ?e = "encodedAddresses pton4 pton6 query addresses (effectiveRcode failed rcode)"
  have "map (answerRecord query ttl) ?e = map (rr_bytes \<circ> answerRR query ttl) ?e"
    using encodedAddresses_props [of pton4 pton6 query addresses "effectiveRcode failed rcode"]
    by (auto simp: list_all_iff answerRecord_encoded)
  then have "concat (map (answerRecord query ttl) ?e) = rrs_bytes (map (answerRR query ttl) ?e)"
    by (simp only: rrs_bytes_def map_map)
  then show ?thesis
    by (simp add: buildResponse_def dnsMessage_def dns_header_def replyFlags_def q_bytes_def Let_def assms optRecord_encoded)
qed

lemma fold_answers:
  "query_type query \<noteq> kTypeOpt \<Longrightarrow> hasAnswerTtl out \<longrightarrow> answerTtl out = ttl \<Longrightarrow>
   fold (noteRR 0) (map (answerRR query ttl) es) out =
     (if es = [] then out else out\<lparr>answerTtl := ttl, hasAnswerTtl := True\<rparr>)"
proof (induction es arbitrary: out)
  case (Cons a es)
  have "noteRR 0 (answerRR query ttl a) out = out\<lparr>answerTtl := ttl, hasAnswerTtl := True\<rparr>"
    using Cons.prems by (auto simp: noteRR_def answerRR_def)
  then show ?case using Cons.prems Cons.IH [of "out\<lparr>answerTtl := ttl, hasAnswerTtl := True\<rparr>"] by simp
qed simp

lemma noteRR_opt: "noteRR sect optRR out = out"
  by (simp add: noteRR_def optRR_def)

text \<open>
  C17. Every reply built for an accepted query is a well-formed DNS message that a client
  matches to its query: it carries the id of the query and repeats its question, at most
  eight answers, the requested return code and the given time to live, and it is marked as a
  reply and not as truncated. The program's own \<open>inspectResponse\<close> reads exactly that back.
\<close>

theorem buildResponse_inspected:
  assumes "parseQuery data = Some (True, query)"
  shows "let reply = buildResponse pton4 pton6 query addresses ttl failed rcode;
      code = effectiveRcode failed rcode;
      n = length (encodedAddresses pton4 pton6 query addresses code)
    in n \<le> 8 \<and> read16 reply 0 = Some (query_id query) \<and> echoesQuestion reply query = Some True \<and>
      inspectResponse reply = Some (True, \<lparr>response = True, truncated = False, info_rcode = code AND 0x0F,
        answers = n, hasAnswerTtl = 0 < n, answerTtl = if 0 < n then ttl else 0,
        hasAuthorityTtl = False, authorityTtl = 0\<rparr>)"
proof -
  obtain labels where l: "list_all label_ok labels"
    and q: "question query = wireName labels @ bytes16 (query_type query) @ bytes16 1"
    using parseQuery_sound [OF assms] by blast
  define code where "code = effectiveRcode failed rcode"
  define es where "es = encodedAddresses pton4 pton6 query addresses code"
  define reply where "reply = buildResponse pton4 pton6 query addresses ttl failed rcode"
  let ?qs = "[(wireName labels, query_type query, 1)]" and ?an = "map (answerRR query ttl) es"
  let ?ar = "if ednsPayload query \<noteq> 0 then [optRR] else []"
  have r: "reply = dnsMessage (query_id query) (replyFlags query code) ?qs ?an [] ?ar @ []"
    using buildResponse_encoded [OF q] by (simp add: reply_def es_def code_def)
  have n: "length es \<le> 8" "list_all (\<lambda>a. length a = 16) es"
    using encodedAddresses_props by (auto simp: es_def)
  have ok: "sections_ok ?qs ?an [] ?ar"
    using n is_name_wireName [OF l] is_name_pointer is_name_root
    by (auto simp: sections_ok_def list_all_iff rr_ok_def answerRR_def optRR_def addressLength_def)
  have answers: "es \<noteq> [] \<Longrightarrow> query_type query \<noteq> kTypeOpt"
    by (auto simp: es_def encodedAddresses_def kTypeA_def kTypeAaaa_def kTypeOpt_def split: if_splits)
  have i: "inspectResponse reply = Some (True, \<lparr>response = True, truncated = False, info_rcode = code AND 0x0F,
      answers = length es, hasAnswerTtl = 0 < length es, answerTtl = if 0 < length es then ttl else 0,
      hasAuthorityTtl = False, authorityTtl = 0\<rparr>)"
    using inspectResponse_encoded [OF ok r] replyFlags_bits [of query code] fold_answers [OF answers, where es = es and ttl = ttl]
    by (cases "es = []") (auto simp: noInfo_def noteRR_opt)
  have "reply = dns_header (query_id query) (replyFlags query code) 1 (length es) 0 (length ?ar) @ question query @ rrs_bytes ?an @ rrs_bytes ?ar"
    by (simp add: r dnsMessage_def q_bytes_def q)
  then have "echoesQuestion reply query = Some True" "read16 reply 0 = Some (query_id query)"
    using header_fields [of reply "query_id query" "replyFlags query code" 1 "length es" 0 "length ?ar"] q
    by (auto simp: echoesQuestion_def kHeaderSize_def bytes16_def)
  then show ?thesis using i n(1) by (simp add: reply_def [symmetric] code_def [symmetric] es_def [symmetric])
qed

text \<open>A query for \<open>a.b\<close> with an EDNS record, answered with one IPv4 address.\<close>

definition sampleQuery :: "byte list" where
  "sampleQuery = [0x12, 0x34, 1, 0, 0, 1, 0, 0, 0, 0, 0, 1, 1, 65, 1, 98, 0, 0, 1, 0, 1,
     0, 0, 41, 4, 208, 0, 0, 0, 0, 0, 0]"

definition sampleParsed :: Query where
  "sampleParsed = \<lparr>query_id = 0x1234, query_type = 1, recursionDesired = True, opcode = 0, ednsPayload = 1232,
     dnssecOk = False, query_error = 0, query_name = ''a.b'', question = [1, 65, 1, 98, 0, 0, 1, 0, 1]\<rparr>"

theorem buildResponse_inspected_witness:
  "parseQuery sampleQuery = Some (True, sampleParsed) \<and>
   (\<exists>info. inspectResponse (buildResponse (\<lambda>s. Some [1, 2, 3, 4]) (\<lambda>s. None) sampleParsed [''1.2.3.4''] 60 False 0) = Some (True, info) \<and>
     answers info = 1 \<and> answerTtl info = 60)"
proof -
  have p: "parseQuery sampleQuery = Some (True, sampleParsed)" by code_simp
  have "length (encodedAddresses (\<lambda>s. Some [1, 2, 3, 4]) (\<lambda>s. None) sampleParsed [''1.2.3.4''] (effectiveRcode False 0)) = 1"
    "encodedAddresses (\<lambda>s. Some [1, 2, 3, 4]) (\<lambda>s. None) sampleParsed [''1.2.3.4''] (effectiveRcode False 0) \<noteq> []"
    by code_simp+
  then show ?thesis
    using p buildResponse_inspected [OF p, of "\<lambda>s. Some [1, 2, 3, 4]" "\<lambda>s. None" "[''1.2.3.4'']" 60 False 0]
    by (simp add: Let_def)
qed

end
