(* ===== verification/Dns_Resolver.thy ===== *)
theory Dns_Resolver
  imports Dns_Wire Json Recovery_Policy
begin

text \<open>
  \<open>src/src/Dns.cpp\<close>: names are resolved through the Worker, with a cache of addresses, a cache
  of relayed messages and the Worker's own addresses kept apart from both. The hooks of the
  source (\<open>fetch\<close> and \<open>now\<close>), \<open>inet_pton\<close> and \<open>getaddrinfo\<close> are the record \<open>Net\<close>; a fetch may
  throw, which is \<open>None\<close>. The readings of the clock within one call are numbered in the order
  in which the call makes them. Also \<open>hostFromUrl\<close> of \<open>src/src/Http.cpp\<close> and \<open>isIpLiteral\<close> of
  \<open>src/src/TcpConnect.cpp\<close>.
\<close>

definition kMinTtlSeconds :: u32 where "kMinTtlSeconds = 60"
definition kMaxTtlSeconds :: u32 where "kMaxTtlSeconds = 3600"
definition kNegativeCacheSeconds :: u32 where "kNegativeCacheSeconds = 30"
definition kTransientCacheSeconds :: u32 where "kTransientCacheSeconds = 3"
definition dns_kMaxCacheEntries :: nat where "dns_kMaxCacheEntries = 2048"
definition kMaxWireCacheEntries :: nat where "kMaxWireCacheEntries = 1024"
definition kWireMinTtlSeconds :: u32 where "kWireMinTtlSeconds = 10"
definition kWireMaxTtlSeconds :: u32 where "kWireMaxTtlSeconds = 3600"
definition kWireNegativeMaxSeconds :: u32 where "kWireNegativeMaxSeconds = 60"
definition kRequestTimeoutMs :: u32 where "kRequestTimeoutMs = 4000"
definition kMinRequestTimeoutMs :: u32 where "kMinRequestTimeoutMs = 500"
definition kBootstrapTtlMs :: u64 where "kBootstrapTtlMs = 600000"
definition kBootstrapRetryMs :: u64 where "kBootstrapRetryMs = 30000"
definition kBootstrapTimeoutMs :: u32 where "kBootstrapTimeoutMs = 2000"
definition kBootstrapDohHost :: string where "kBootstrapDohHost = ''1.1.1.1''"
definition kNeverExpires :: u64 where "kNeverExpires = - 1"

section \<open>HTTP\<close>

record Request =
  req_method :: string
  req_host :: string
  path :: string
  headers :: "(string \<times> string) list"
  req_body :: string
  timeoutMs :: u32
  req_connectPort :: u16

record Response =
  status :: int
  body :: string
  retryAfterSeconds :: u32

definition response_ok :: "Response \<Rightarrow> bool" where
  "response_ok r \<longleftrightarrow> status r \<ge> 200 \<and> status r < 300"

definition hostFromUrl :: "string \<Rightarrow> string" where
  "hostFromUrl url =
     (let rest1 = (case find_from url ''://'' 0 of Some scheme \<Rightarrow> drop (scheme + 3) url | None \<Rightarrow> url);
          rest2 = (case find_from rest1 ''/'' 0 of Some slash \<Rightarrow> take slash rest1 | None \<Rightarrow> rest1)
      in case find_from rest2 '':'' 0 of Some colon \<Rightarrow> take colon rest2 | None \<Rightarrow> rest2)"

record Net =
  fetch :: "Request \<Rightarrow> Response option"
  pton4 :: "string \<Rightarrow> byte list option"
  pton6 :: "string \<Rightarrow> byte list option"
  addrinfo :: "string \<Rightarrow> (bool \<times> string) list option"
  clock :: "nat \<Rightarrow> u64"

definition isIpLiteral :: "Net \<Rightarrow> string \<Rightarrow> bool" where
  "isIpLiteral net value \<longleftrightarrow> value \<noteq> [] \<and> (pton4 net value \<noteq> None \<or> pton6 net value \<noteq> None)"

section \<open>Results and keys\<close>

record Result =
  v4 :: "string list"
  v6 :: "string list"
  ttlSeconds :: u32
  allowWireFallback :: bool
  rcode :: byte
  transient :: bool

definition noResult :: Result where
  "noResult = \<lparr>v4 = [], v6 = [], ttlSeconds = 0, allowWireFallback = False, rcode = 0, transient = False\<rparr>"

definition result_empty :: "Result \<Rightarrow> bool" where
  "result_empty r \<longleftrightarrow> v4 r = [] \<and> v6 r = []"

text \<open>\<open>candidates\<close>: the remaining addresses of both families and whose turn it is.\<close>

fun candidatesLoop :: "nat \<Rightarrow> bool \<Rightarrow> string list \<Rightarrow> string list \<Rightarrow> string list" where
  "candidatesLoop 0 preferV6 six four = []"
| "candidatesLoop (Suc n) preferV6 six four =
     (if preferV6 \<and> six \<noteq> [] then hd six # candidatesLoop n (\<not> preferV6) (tl six) four
      else if four \<noteq> [] then hd four # candidatesLoop n (\<not> preferV6) six (tl four)
      else if six \<noteq> [] then hd six # candidatesLoop n (\<not> preferV6) (tl six) four
      else [])"

definition addressCandidates :: "nat \<Rightarrow> Result \<Rightarrow> string list" where
  "addressCandidates limit r = candidatesLoop limit True (v6 r) (v4 r)"

definition lowercase :: "string \<Rightarrow> string" where
  "lowercase value = strip_back CHR ''.'' (map tolower value)"

definition isHostChar :: "char \<Rightarrow> bool" where
  "isHostChar c \<longleftrightarrow> (97 \<le> char_byte c \<and> char_byte c \<le> 122) \<or> (48 \<le> char_byte c \<and> char_byte c \<le> 57) \<or> c = CHR ''-'' \<or> c = CHR ''.''"

definition isResolvableHost :: "string \<Rightarrow> bool" where
  "isResolvableHost host \<longleftrightarrow> host \<noteq> [] \<and> length host \<le> 253 \<and> list_all isHostChar host"

definition agedResult :: "Result \<Rightarrow> u64 \<Rightarrow> u64 \<Rightarrow> Result" where
  "agedResult result expiresAtMs now =
     (if expiresAtMs = kNeverExpires \<or> ttlSeconds result = 0 then result
      else let remainingMs = (if expiresAtMs > now then expiresAtMs - now else 0);
               remaining = (remainingMs + 999) div 1000
           in result\<lparr>ttlSeconds := ucast (max 1 (min remaining (ucast (ttlSeconds result)) :: u64))\<rparr>)"

definition wireKey :: "Query \<Rightarrow> string" where
  "wireKey query =
     query_name query @ ''|'' @ dec_digits (unat (query_type query)) @
     (if recursionDesired query then ''|r'' else ''|-'') @ (if dnssecOk query then ''d'' else ''-'') @
     (if ednsPayload query \<noteq> 0 then ''e'' else ''-'')"

definition wireLifetimeSeconds :: "ResponseInfo \<Rightarrow> u32" where
  "wireLifetimeSeconds info =
     (if truncated info then 0
      else if info_rcode info = kRcodeNoError \<and> answers info > 0 then
        (if \<not> hasAnswerTtl info \<or> answerTtl info = 0 then 0 else clamp (answerTtl info) kWireMinTtlSeconds kWireMaxTtlSeconds)
      else if info_rcode info = kRcodeNoError \<or> info_rcode info = kRcodeNxDomain then
        (if hasAuthorityTtl info then clamp (authorityTtl info) kWireMinTtlSeconds kWireNegativeMaxSeconds
         else kNegativeCacheSeconds)
      else 0)"

definition appendUnique :: "string list \<Rightarrow> string \<Rightarrow> string list" where
  "appendUnique xs value = (if value \<in> set xs then xs else xs @ [value])"

section \<open>The resolver\<close>

record CacheEntry =
  result :: Result
  expiresAtMs :: u64

record WireEntry =
  wire_response :: "byte list"
  storedAtMs :: u64
  wire_expiresAtMs :: u64

record Resolver =
  workerHost :: string
  sharedSecret :: string
  res_connectPort :: u16
  bootstrapNeeded :: bool
  cache :: "(string, CacheEntry) table"
  wireCache :: "(string, WireEntry) table"
  inFlight :: "string list"
  workerHealth :: WorkerHealth
  bootstrapNextMs :: u64
  bootstrapBusy :: bool

definition bootstrapKey :: "Resolver \<Rightarrow> string" where
  "bootstrapKey r = lowercase (workerHost r)"

definition bootstrapTtl :: Result where
  "bootstrapTtl = noResult\<lparr>ttlSeconds := ucast (kBootstrapTtlMs div 1000)\<rparr>"

fun systemLoop :: "(bool \<times> string) list \<Rightarrow> Result \<Rightarrow> Result" where
  "systemLoop [] out = out"
| "systemLoop ((six, addr) # rest) out =
     systemLoop rest (if six then out\<lparr>v6 := appendUnique (v6 out) addr\<rparr> else out\<lparr>v4 := appendUnique (v4 out) addr\<rparr>)"

definition lookupViaSystemResolver :: "Net \<Rightarrow> string \<Rightarrow> bool \<times> Result" where
  "lookupViaSystemResolver net host =
     (case addrinfo net host of None \<Rightarrow> (False, noResult)
      | Some found \<Rightarrow> let out = systemLoop found bootstrapTtl in (\<not> result_empty out, out))"

definition newResolver :: "Net \<Rightarrow> string \<Rightarrow> string \<Rightarrow> u16 \<Rightarrow> Resolver" where
  "newResolver net workerUrl secret port =
     (let host = hostFromUrl workerUrl;
          r = \<lparr>workerHost = host, sharedSecret = secret, res_connectPort = port, bootstrapNeeded = False, cache = [],
               wireCache = [], inFlight = [], workerHealth = newHealth, bootstrapNextMs = 0, bootstrapBusy = False\<rparr>
      in if host = [] \<or> isIpLiteral net (lowercase host) then r
         else let r1 = r\<lparr>bootstrapNeeded := True\<rparr>; (ok, found) = lookupViaSystemResolver net host
              in if ok then r1\<lparr>cache := [(lowercase host, \<lparr>result = found, expiresAtMs = kNeverExpires\<rparr>)],
                              bootstrapNextMs := clock net 0 + kBootstrapTtlMs\<rparr>
                 else r1)"

definition requestTimeoutMs :: "u64 \<Rightarrow> u64 \<Rightarrow> u32" where
  "requestTimeoutMs now deadlineMs =
     (if deadlineMs = 0 then kRequestTimeoutMs
      else if now \<ge> deadlineMs then kMinRequestTimeoutMs
      else ucast (clamp (deadlineMs - now) (ucast kMinRequestTimeoutMs) (ucast kRequestTimeoutMs)))"

lemma skipWs_le: "pos \<le> length s \<Longrightarrow> skipWs s pos \<le> length s"
proof (induction s pos rule: skipWs.induct)
  case (1 s pos)
  then show ?case by (subst skipWs.simps) auto
qed

lemma findValueFrom_bound: "findValueFrom s needle i = Some p \<Longrightarrow> i \<le> p \<and> p \<le> length s"
proof (induction s needle i rule: findValueFrom.induct)
  case (1 s needle i)
  show ?case
  proof (cases "find_from s needle i")
    case (Some pos)
    let ?colon = "skipWs s (pos + length needle)"
    have i: "i \<le> pos" using find_from_bound [OF Some] by simp
    have p: "pos \<le> skipWs s (?colon + 1)"
      using skipWs_ge [of "pos + length needle" s] skipWs_ge [of "?colon + 1" s] by linarith
    show ?thesis
    proof (cases "?colon < length s \<and> s ! ?colon = CHR '':''")
      case True
      then have "p = skipWs s (?colon + 1)"
        using 1(2) Some by (subst (asm) findValueFrom.simps) simp
      then show ?thesis using i p True skipWs_le [of "?colon + 1" s] by simp
    next
      case False
      then have "findValueFrom s needle (pos + 1) = Some p"
        using 1(2) Some by (subst (asm) findValueFrom.simps) (auto simp: Let_def)
      then show ?thesis using 1(1) [OF Some refl False] i by simp
    qed
  qed (use 1(2) in \<open>subst (asm) findValueFrom.simps, simp\<close>)
qed

text \<open>The addresses in the \<open>data\<close> fields of an answer of the DNS-over-HTTPS endpoint.\<close>

function dohLoop :: "Net \<Rightarrow> string \<Rightarrow> bool \<Rightarrow> nat \<Rightarrow> Result \<Rightarrow> Result" where
  "dohLoop net doc wantV6 position out =
     (case findValue doc ''data'' position of
        None \<Rightarrow> out
      | Some p \<Rightarrow>
          let (address, stop) = parseString doc p;
               position1 = (if stop > p then stop else p + 1);
               six = (CHR '':'' \<in> set address);
               out1 = (if isIpLiteral net address \<and> six = wantV6
                       then if six then out\<lparr>v6 := appendUnique (v6 out) address\<rparr> else out\<lparr>v4 := appendUnique (v4 out) address\<rparr>
                       else out)
          in dohLoop net doc wantV6 position1 out1)"
  by pat_completeness auto
termination
proof (relation "measure (\<lambda>(net, s, want, position, out). Suc (length s) - position)", goal_cases)
  case (2 net s want position out p pair address stop position1 six out1)
  then have "position \<le> p \<and> p \<le> length s" using findValueFrom_bound by (auto simp: findValue_def)
  then show ?case using 2 by auto
qed simp

declare dohLoop.simps [simp del]

definition dohRequest :: "string \<Rightarrow> string \<Rightarrow> Request" where
  "dohRequest name type =
     \<lparr>req_method = ''GET'', req_host = kBootstrapDohHost, path = ''/dns-query?name='' @ name @ ''&type='' @ type,
      headers = [(''Accept'', ''application/dns-json'')], req_body = [], timeoutMs = kBootstrapTimeoutMs, req_connectPort = 0\<rparr>"

text \<open>\<open>None\<close> is an exception of the fetch.\<close>

definition lookupViaDohByAddress :: "Net \<Rightarrow> Resolver \<Rightarrow> (bool \<times> Result) option" where
  "lookupViaDohByAddress net r =
     (let name = bootstrapKey r in
      if \<not> isResolvableHost name then Some (False, noResult)
      else do {
        a \<leftarrow> fetch net (dohRequest name ''A'');
        let out1 = (if response_ok a then dohLoop net (body a) False 0 bootstrapTtl else bootstrapTtl) in do {
          aaaa \<leftarrow> fetch net (dohRequest name ''AAAA'');
          let out2 = (if response_ok aaaa then dohLoop net (body aaaa) True 0 out1 else out1) in
          Some (\<not> result_empty out2, out2)}})"

definition hasBootstrap :: "Resolver \<Rightarrow> bool" where
  "hasBootstrap r \<longleftrightarrow> \<not> bootstrapNeeded r \<or>
     (case map_of (cache r) (bootstrapKey r) of Some e \<Rightarrow> \<not> result_empty (result e) | None \<Rightarrow> False)"

definition storeBootstrap :: "Result \<Rightarrow> Resolver \<Rightarrow> Resolver" where
  "storeBootstrap fresh r =
     r\<lparr>cache := AList.update (bootstrapKey r) \<lparr>result = fresh, expiresAtMs = kNeverExpires\<rparr> (cache r)\<rparr>"

definition refreshBootstrap :: "Net \<Rightarrow> u64 \<Rightarrow> u64 \<Rightarrow> Resolver \<Rightarrow> Resolver" where
  "refreshBootstrap net now later r =
     (if \<not> bootstrapNeeded r \<or> now < bootstrapNextMs r \<or> bootstrapBusy r then r
      else case lookupViaDohByAddress net r of
        Some (True, fresh) \<Rightarrow> (storeBootstrap fresh r)\<lparr>bootstrapNextMs := later + kBootstrapTtlMs\<rparr>
      | _ \<Rightarrow> r\<lparr>bootstrapNextMs := later + kBootstrapRetryMs\<rparr>)"

text \<open>Clock readings 0 to 3 of the call.\<close>

definition prepareWorkerCall :: "Net \<Rightarrow> u64 \<Rightarrow> Resolver \<Rightarrow> bool \<times> Resolver" where
  "prepareWorkerCall net deadlineMs r =
     (if deadlineMs \<noteq> 0 \<and> clock net 0 \<ge> deadlineMs then (False, r)
      else let r1 = refreshBootstrap net (clock net 1) (clock net 2) r
           in (hasBootstrap r1 \<and> \<not> backingOff (clock net 3) (workerHealth r1), r1))"

definition workerRequest :: "string \<Rightarrow> string \<Rightarrow> u32 \<Rightarrow> Resolver \<Rightarrow> Request" where
  "workerRequest verb target timeout r =
     \<lparr>req_method = verb, req_host = workerHost r, path = target,
      headers = (if sharedSecret r = [] then [] else [(''Authorization'', ''Bearer '' @ sharedSecret r)]),
      req_body = [], timeoutMs = timeout, req_connectPort = res_connectPort r\<rparr>"

definition observe :: "Response \<Rightarrow> u64 \<Rightarrow> Resolver \<Rightarrow> Resolver" where
  "observe resp now r =
     r\<lparr>workerHealth := snd (health_observe (status resp) now (retryAfterSeconds resp) (workerHealth r))\<rparr>"

section \<open>Asking the Worker for addresses\<close>

definition failedResult :: Result where
  "failedResult = noResult\<lparr>transient := True\<rparr>"

definition wireResult :: Result where
  "wireResult = noResult\<lparr>allowWireFallback := True\<rparr>"

definition parseAnswer :: "Net \<Rightarrow> string \<Rightarrow> Result" where
  "parseAnswer net doc =
     (let four = getStringArray doc ''a''; six = getStringArray doc ''aaaa'';
          legacy = (if four = [] \<and> six = [] then getString doc ''ip'' 0 else []);
          four1 = filter (isIpLiteral net) (if legacy \<noteq> [] then [legacy] else four);
          six1 = filter (isIpLiteral net) six;
          r1 = noResult\<lparr>v4 := four1, v6 := six1\<rparr>;
          code = getInt doc ''rcode'' (- 1);
          r2 = (if code \<ge> 0 then r1\<lparr>rcode := of_int (min code 15)\<rparr> else r1\<lparr>allowWireFallback := result_empty r1\<rparr>);
          partial = getBool doc ''partial'';
          ttl = of_int (clamp (getInt doc ''ttl'' (uint kMinTtlSeconds)) (uint kMinTtlSeconds) (uint kMaxTtlSeconds))
      in r2\<lparr>transient := partial, ttlSeconds := if partial then min ttl kTransientCacheSeconds else ttl\<rparr>)"

definition resolvePath :: "string \<Rightarrow> string" where
  "resolvePath host = ''/resolve?host='' @ host"

text \<open>Clock readings 0 to 5; the first component is \<open>None\<close> when the fetch throws.\<close>

definition query :: "Net \<Rightarrow> string \<Rightarrow> u64 \<Rightarrow> Resolver \<Rightarrow> Result option \<times> Resolver" where
  "query net host deadlineMs r =
     (if workerHost r = [] then (Some noResult, r)
      else if \<not> isResolvableHost host then (Some wireResult, r)
      else let (ready, r1) = prepareWorkerCall net deadlineMs r in
        if \<not> ready then (Some failedResult, r1)
        else case fetch net (workerRequest ''GET'' (resolvePath host) (requestTimeoutMs (clock net 4) deadlineMs) r1) of
          None \<Rightarrow> (None, r1)
        | Some resp \<Rightarrow>
            let r2 = observe resp (clock net 5) r1 in
            (Some (if status resp = 401 \<or> status resp = 403 \<or> status resp = 429 then failedResult
                   else if status resp = 404 then wireResult
                   else if \<not> response_ok resp then failedResult
                   else parseAnswer net (body resp)), r2))"

section \<open>Cached lookups\<close>

datatype Lookup = Answer Result | Ask | Wait

definition resolve_lookup :: "string \<Rightarrow> u64 \<Rightarrow> Resolver \<Rightarrow> Lookup \<times> Resolver" where
  "resolve_lookup key now r =
     (let ask = (if key = bootstrapKey r then (Answer failedResult, r)
                 else if key \<notin> set (inFlight r) then (Ask, r\<lparr>inFlight := key # inFlight r\<rparr>) else (Wait, r))
      in case map_of (cache r) key of
           Some e \<Rightarrow> if expiresAtMs e > now then (Answer (agedResult (result e) (expiresAtMs e) now), r) else ask
         | None \<Rightarrow> ask)"

definition cacheRoom :: "string \<Rightarrow> Resolver \<Rightarrow> (string, CacheEntry) table" where
  "cacheRoom key r =
     (if map_of (cache r) key = None \<and> length (cache r) \<ge> dns_kMaxCacheEntries
      then case min_by (\<lambda>item. expiresAtMs (snd item)) (filter (\<lambda>item. fst item \<noteq> bootstrapKey r) (cache r)) of
          Some victim \<Rightarrow> AList.delete (fst victim) (cache r)
        | None \<Rightarrow> cache r
      else cache r)"

definition cacheLifetime :: "Result \<Rightarrow> u32" where
  "cacheLifetime res =
     (if transient res then kTransientCacheSeconds else if result_empty res then kNegativeCacheSeconds else ttlSeconds res)"

definition resolve_store :: "string \<Rightarrow> Result \<Rightarrow> u64 \<Rightarrow> Resolver \<Rightarrow> Resolver" where
  "resolve_store key res now r =
     r\<lparr>cache := AList.update key \<lparr>result = res, expiresAtMs = now + ucast (cacheLifetime res) * 1000\<rparr> (cacheRoom key r),
       inFlight := removeAll key (inFlight r)\<rparr>"

text \<open>
  A whole call, when no other thread comes between its parts: clock reading 6 at the lookup, 7 at
  the store. \<open>None\<close>: another thread is asking for the name, and the call waits for it.
\<close>

definition resolve :: "Net \<Rightarrow> string \<Rightarrow> u64 \<Rightarrow> Resolver \<Rightarrow> (Result \<times> Resolver) option" where
  "resolve net host deadlineMs r =
     (let key = lowercase host in
      if key = [] then Some (noResult, r)
      else if isIpLiteral net key
      then Some (if CHR '':'' \<in> set key then noResult\<lparr>v6 := [key]\<rparr> else noResult\<lparr>v4 := [key]\<rparr>, r)
      else case resolve_lookup key (clock net 6) r of
        (Answer res, r1) \<Rightarrow> Some (res, r1)
      | (Wait, r1) \<Rightarrow> None
      | (Ask, r1) \<Rightarrow>
          let (found, r2) = query net key deadlineMs r1;
              res = (case found of Some x \<Rightarrow> x | None \<Rightarrow> failedResult)
          in Some (res, resolve_store key res (clock net 7) r2))"

section \<open>Relayed messages\<close>

text \<open>
  A cached message with the identifier of the query and aged records. The outer \<open>None\<close> of these
  functions is an access outside a buffer.
\<close>

definition wireCached :: "WireEntry \<Rightarrow> u16 \<Rightarrow> u64 \<Rightarrow> byte list option" where
  "wireCached e qid now =
     do {m \<leftarrow> setId (wire_response e) qid;
         ageTtls m (ucast (min ((now - storedAtMs e) div 1000) (ucast kWireMaxTtlSeconds)))}"

definition wire_lookup :: "Query \<Rightarrow> u64 \<Rightarrow> Resolver \<Rightarrow> (byte list option \<times> Resolver) option" where
  "wire_lookup q now r =
     (case map_of (wireCache r) (wireKey q) of
        None \<Rightarrow> Some (None, r)
      | Some e \<Rightarrow>
          if wire_expiresAtMs e > now then map_option (\<lambda>m. (Some m, r)) (wireCached e (query_id q) now)
          else Some (None, r\<lparr>wireCache := AList.delete (wireKey q) (wireCache r)\<rparr>))"

definition wireRoom :: "string \<Rightarrow> Resolver \<Rightarrow> (string, WireEntry) table" where
  "wireRoom key r =
     (if map_of (wireCache r) key = None \<and> length (wireCache r) \<ge> kMaxWireCacheEntries
      then erase_min (\<lambda>item. wire_expiresAtMs (snd item)) (wireCache r) else wireCache r)"

text \<open>What the call does with the Worker's response.\<close>

definition wire_finish :: "Query \<Rightarrow> Response \<Rightarrow> u64 \<Rightarrow> Resolver \<Rightarrow> (byte list \<times> Resolver) option" where
  "wire_finish q resp now r =
     (let answer = map char_byte (body resp); key = wireKey q in
      if status resp = 401 \<or> status resp = 403 \<or> \<not> response_ok resp \<or> length answer < 12 \<or> length answer > 65535
      then Some ([], r)
      else do {
        (ok, info) \<leftarrow> inspectResponse answer;
        if \<not> ok \<or> \<not> response info then Some ([], r)
        else do {
          echoes \<leftarrow> echoesQuestion answer q;
          if \<not> echoes then Some ([], r)
          else do {
            answer1 \<leftarrow> setId answer (query_id q);
            let lifetime = wireLifetimeSeconds info in
            Some (answer1,
              if lifetime = 0 then r
              else r\<lparr>wireCache := AList.update key
                \<lparr>wire_response = answer1, storedAtMs = now, wire_expiresAtMs = now + ucast lifetime * 1000\<rparr> (wireRoom key r)\<rparr>)}}})"

definition wireRequest :: "byte list \<Rightarrow> u32 \<Rightarrow> Resolver \<Rightarrow> Request" where
  "wireRequest message timeout r =
     (let request = workerRequest ''POST'' ''/dns-query'' timeout r in
      request\<lparr>headers := headers request @ [(''Accept'', ''application/dns-message''), (''Content-Type'', ''application/dns-message'')],
        req_body := map byte_char message\<rparr>)"

text \<open>
  Clock reading 8 at the cache and 9 at the store; \<open>thrown\<close> is an exception of the fetch, which
  the source does not catch here.
\<close>

datatype WireAnswer = Message "byte list" | Thrown

definition queryWire :: "Net \<Rightarrow> byte list \<Rightarrow> u64 \<Rightarrow> Resolver \<Rightarrow> (WireAnswer \<times> Resolver) option" where
  "queryWire net message deadlineMs r =
     do {
       (ok, q) \<leftarrow> parseQuery message;
       if \<not> ok \<or> workerHost r = [] then Some (Message [], r)
       else if lowercase (query_name q) = bootstrapKey r then
         do {(res, r1) \<leftarrow> resolve net (query_name q) 0 r;
             let addresses = (if query_type q = kTypeAaaa then v6 res else if query_type q = kTypeA then v4 res else []) in
             Some (Message (buildResponse (pton4 net) (pton6 net) q addresses
               (if ttlSeconds res = 0 then kMinTtlSeconds else ttlSeconds res) (result_empty res) 0), r1)}
       else do {
         (cached, r1) \<leftarrow> wire_lookup q (clock net 8) r;
         case cached of
           Some m \<Rightarrow> Some (Message m, r1)
         | None \<Rightarrow>
             let (ready, r2) = prepareWorkerCall net deadlineMs r1 in
             if \<not> ready then Some (Message [], r2)
             else case fetch net (wireRequest message (requestTimeoutMs (clock net 4) deadlineMs) r2) of
               None \<Rightarrow> Some (Thrown, r2)
             | Some resp \<Rightarrow> do {
                 (m, r3) \<leftarrow> wire_finish q resp (clock net 9) (observe resp (clock net 5) r2);
                 Some (Message m, r3)}}}"

definition isBootstrapHost :: "string \<Rightarrow> Resolver \<Rightarrow> bool" where
  "isBootstrapHost host r \<longleftrightarrow> workerHost r \<noteq> [] \<and> lowercase host = bootstrapKey r"

definition clearCache :: "Resolver \<Rightarrow> Resolver" where
  "clearCache r = r\<lparr>cache := erase_if (\<lambda>item. fst item \<noteq> bootstrapKey r) (cache r), wireCache := []\<rparr>"

definition cacheSize :: "Resolver \<Rightarrow> nat" where
  "cacheSize r = length (cache r)"

definition wireCacheSize :: "Resolver \<Rightarrow> nat" where
  "wireCacheSize r = length (wireCache r)"

end
