(* ===== verification/Dns_Relay.thy ===== *)
theory Dns_Relay
  imports Dns_Resolver
begin

text \<open>
  What the resolver guarantees: a relayed message answers the query it is handed out for,
  also when it comes from the cache, and the Worker's own address is never lost.
\<close>

section \<open>Names\<close>

definition lowerText :: "byte list \<Rightarrow> string" where
  "lowerText l = map (byte_char \<circ> lowerAscii) l"

definition dotTails :: "byte list list \<Rightarrow> string" where
  "dotTails labels = concat (map (\<lambda>l. CHR ''.'' # lowerText l) labels)"

lemma dotTails_simps [simp]: "dotTails [] = []" "dotTails (l # labels) = CHR ''.'' # lowerText l @ dotTails labels"
  by (simp_all add: dotTails_def)

lemma length_lowerText [simp]: "length (lowerText l) = length l"
  by (simp add: lowerText_def)

lemma dotted_tails: "name \<noteq> [] \<Longrightarrow> dotted name labels = name @ dotTails labels"
  by (induction labels arbitrary: name) (auto simp: lowerText_def)

lemma lowerText_nonempty: "label_ok l \<Longrightarrow> lowerText l \<noteq> []"
  by (auto simp: label_ok_def lowerText_def)

lemma dotted_Cons: "label_ok l \<Longrightarrow> dotted [] (l # labels) = lowerText l @ dotTails labels"
  using dotted_tails [OF lowerText_nonempty [of l], of labels] by (simp add: lowerText_def)

lemma char_byte_char [simp]: "char_byte (byte_char b) = b"
proof -
  have "unat b < 256" using unsigned_less [of b] by simp
  then show ?thesis by (simp add: byte_char_def char_byte_def)
qed

lemma dot_not_in_label:
  assumes "label_ok l"
  shows "CHR ''.'' \<notin> set (lowerText l)"
proof
  assume "CHR ''.'' \<in> set (lowerText l)"
  then obtain c where c: "c \<in> set l" "byte_char (lowerAscii c) = CHR ''.''" by (auto simp: lowerText_def)
  from c(2) have "char_byte (byte_char (lowerAscii c)) = char_byte CHR ''.''" by simp
  moreover have "char_byte CHR ''.'' = 46" by (simp add: char_byte_def)
  ultimately have "lowerAscii c = 46" by simp
  then show False using c(1) assms by (auto simp: label_ok_def list_all_iff isNameChar_def)
qed

lemma label_then_tails:
  assumes "label_ok l" "label_ok l'" "lowerText l @ dotTails ls = lowerText l' @ dotTails ls'"
  shows "lowerText l = lowerText l' \<and> dotTails ls = dotTails ls'"
proof -
  have t: "takeWhile (\<lambda>c. c \<noteq> CHR ''.'') (lowerText k @ dotTails ks) = lowerText k" if "label_ok k" for k ks
  proof -
    have "takeWhile (\<lambda>c. c \<noteq> CHR ''.'') (dotTails ks) = []" by (cases ks) simp_all
    then show ?thesis using dot_not_in_label [OF that] by (subst takeWhile_append2) auto
  qed
  have "lowerText l = lowerText l'" using t [OF assms(1), of ls] t [OF assms(2), of ls'] assms(3) by metis
  then show ?thesis using assms(3) by simp
qed

lemma dotTails_inject:
  "list_all label_ok ls \<Longrightarrow> list_all label_ok ls' \<Longrightarrow> dotTails ls = dotTails ls' \<Longrightarrow> map lowerText ls = map lowerText ls'"
proof (induction ls arbitrary: ls')
  case Nil
  then show ?case by (cases ls') simp_all
next
  case (Cons l ls)
  then obtain l' rest where r: "ls' = l' # rest" by (cases ls') auto
  have "lowerText l = lowerText l' \<and> dotTails ls = dotTails rest"
    using Cons.prems by (intro label_then_tails) (simp_all add: r)
  then show ?case using Cons.IH [of rest] Cons.prems by (simp add: r)
qed

lemma lowerText_inject: "lowerText l = lowerText l' \<Longrightarrow> map lowerAscii l = map lowerAscii l'"
proof -
  have "map lowerAscii k = map char_byte (lowerText k)" for k by (simp add: lowerText_def comp_def)
  then show "lowerText l = lowerText l' \<Longrightarrow> ?thesis" by metis
qed

text \<open>The dotted name determines the labels up to case, hence the name on the wire.\<close>

lemma dotted_inject:
  assumes "list_all label_ok ls" "list_all label_ok ls'" "ls \<noteq> []" "ls' \<noteq> []" "dotted [] ls = dotted [] ls'"
  shows "map (map lowerAscii) ls = map (map lowerAscii) ls'"
proof -
  obtain l rest l' rest' where r: "ls = l # rest" "ls' = l' # rest'" using assms(3,4) by (cases ls; cases ls') auto
  have "lowerText l = lowerText l' \<and> dotTails rest = dotTails rest'"
    using assms by (intro label_then_tails) (simp_all add: r dotted_Cons [symmetric] del: dotted.simps)
  then have "map lowerText ls = map lowerText ls'" using dotTails_inject [of rest rest'] assms by (simp add: r)
  then show ?thesis
  proof -
    assume e: "map lowerText ls = map lowerText ls'"
    have "map (map lowerAscii) ls = map (map char_byte) (map lowerText ls)" for ls by (simp add: lowerText_def comp_def)
    then show ?thesis using e by metis
  qed
qed

lemma lower_small [simp]: "c \<le> 63 \<Longrightarrow> lowerAscii c = c"
  by (auto simp: lowerAscii_def word_le_nat_alt)

lemma lower_small_iff:
  assumes "c \<le> 63"
  shows "lowerAscii d = c \<longleftrightarrow> d = c"
proof
  have "\<not> d + 32 \<le> 63" if "65 \<le> d" "d \<le> 90"
    using that by (simp add: word_le_nat_alt unat_word_ariths)
  then show "lowerAscii d = c \<Longrightarrow> d = c" using assms by (auto simp: lowerAscii_def split: if_splits)
qed (use assms in simp)

lemma label_length_small: "label_ok l \<Longrightarrow> (of_nat (length l) :: byte) \<le> 63"
  using label_length(4) [of l] by simp

lemma lower_wireName: "list_all label_ok ls \<Longrightarrow> map lowerAscii (wireName ls) = wireName (map (map lowerAscii) ls)"
  by (induction ls) (simp_all add: wireName_simps label_length_small)

lemma label_ok_lower: "label_ok (map lowerAscii l) \<longleftrightarrow> label_ok l"
proof -
  have "lowerAscii (lowerAscii c) = lowerAscii c" for c
  proof -
    have "\<not> (65 \<le> c + 32 \<and> c + 32 \<le> 90)" if "65 \<le> c" "c \<le> 90"
      using that by (simp add: word_le_nat_alt unat_word_ariths)
    then show ?thesis by (auto simp: lowerAscii_def)
  qed
  then show ?thesis by (simp add: label_ok_def list_all_iff)
qed

text \<open>Bytes that are a name up to case are a name, with the same labels up to case.\<close>

lemma wireName_case:
  assumes "list_all label_ok ls" "map lowerAscii xs = map lowerAscii (wireName ls)"
  shows "\<exists>ls'. xs = wireName ls' \<and> list_all label_ok ls'"
  using assms
proof (induction ls arbitrary: xs)
  case Nil
  then obtain x where x: "xs = [x]" "lowerAscii x = lowerAscii 0" by (auto simp: wireName_simps)
  then have "x = 0" using lower_small_iff [of 0 x] by simp
  then show ?case using x by (intro exI [of _ "[]"]) (simp add: wireName_simps)
next
  case (Cons l ls)
  let ?n = "of_nat (length l) :: byte"
  obtain x ys where x: "xs = x # ys" "lowerAscii x = lowerAscii ?n" "map lowerAscii ys = map lowerAscii (l @ wireName ls)"
    using Cons.prems(2) by (auto simp: wireName_simps)
  have n: "x = ?n" using x(2) label_length_small Cons.prems(1) lower_small_iff by simp
  let ?a = "take (length l) ys" and ?b = "drop (length l) ys"
  have "length ys = length (l @ wireName ls)" using x(3) map_eq_imp_length_eq by blast
  then have a: "length ?a = length l" by simp
  have s: "map lowerAscii ?a = map lowerAscii l" "map lowerAscii ?b = map lowerAscii (wireName ls)"
    using x(3) by (simp_all add: take_map [symmetric] drop_map [symmetric])
  obtain ls' where ls': "?b = wireName ls'" "list_all label_ok ls'"
    using Cons.IH [OF _ s(2)] Cons.prems(1) by auto
  have "label_ok ?a" using label_ok_lower [of ?a] label_ok_lower [of l] Cons.prems(1) unfolding s(1) by simp
  moreover have "xs = wireName (?a # ls')"
    using x(1) n a append_take_drop_id [of "length l" ys] unfolding ls'(1) by (simp add: wireName_simps)
  ultimately show ?case using ls'(2) by (intro exI [of _ "?a # ls'"]) simp
qed

lemma wireName_length:
  assumes "list_all label_ok ls" "ls \<noteq> []"
  shows "length (wireName ls) = length (dotted [] ls) + 2"
proof -
  obtain l rest where r: "ls = l # rest" using assms(2) by (cases ls) auto
  have "length (wireName rest) = length (dotTails rest) + 1" for rest
    by (induction rest) (simp_all add: wireName_simps)
  then show ?thesis using assms(1) by (simp add: r dotted_Cons wireName_simps del: dotted.simps)
qed

section \<open>Answers\<close>

lemma bytes16_inject: "bytes16 a = bytes16 b \<longleftrightarrow> a = b"
  by (metis bytes16_def hi8_lo8 list.inject)

text \<open>
  A message that answers a query: a reply with the given id, one question equal to the query's
  up to case, and well-formed sections, possibly followed by more bytes.
\<close>

definition relays :: "Query \<Rightarrow> u16 \<Rightarrow> byte list \<Rightarrow> bool" where
  "relays q ident m \<longleftrightarrow> (\<exists>f ls t an ns ar rest. list_all label_ok ls \<and>
     sections_ok [(wireName ls, t, 1)] an ns ar \<and> f AND 0x8000 \<noteq> 0 \<and>
     m = dnsMessage ident f [(wireName ls, t, 1)] an ns ar @ rest \<and>
     map lowerAscii (wireName ls @ bytes16 t @ bytes16 1) = map lowerAscii (question q))"

lemma relaysI:
  "list_all label_ok ls \<Longrightarrow> sections_ok [(wireName ls, t, 1)] an ns ar \<Longrightarrow> f AND 0x8000 \<noteq> 0 \<Longrightarrow>
   map lowerAscii (wireName ls @ bytes16 t @ bytes16 1) = map lowerAscii (question q) \<Longrightarrow>
   relays q ident (dnsMessage ident f [(wireName ls, t, 1)] an ns ar @ rest)"
  unfolding relays_def by blast

lemma relaysE:
  assumes "relays q ident m"
  obtains f ls t an ns ar rest where "list_all label_ok ls" "sections_ok [(wireName ls, t, 1)] an ns ar"
    "f AND 0x8000 \<noteq> 0" "m = dnsMessage ident f [(wireName ls, t, 1)] an ns ar @ rest"
    "map lowerAscii (wireName ls @ bytes16 t @ bytes16 1) = map lowerAscii (question q)"
  using assms unfolding relays_def by blast

lemma dnsMessage_qd: "m = dnsMessage ident f qs an ns ar @ rest \<Longrightarrow> read16 m 4 = Some (of_nat (length qs))"
  using header_fields(3) [of m ident f "length qs" "length an" "length ns" "length ar"] by (simp add: dnsMessage_def)

lemma dnsMessage_one:
  "dnsMessage ident f [(nm, t, c)] an ns ar =
     bytes16 ident @ bytes16 f @ bytes16 1 @ bytes16 (of_nat (length an)) @ bytes16 (of_nat (length ns)) @
     bytes16 (of_nat (length ar)) @ nm @ bytes16 t @ bytes16 c @ rrs_bytes an @ rrs_bytes ns @ rrs_bytes ar"
  by (simp add: dnsMessage_def dns_header_def q_bytes_def)

lemma noteRR_response: "response (noteRR k r out) = response out"
  by (simp add: noteRR_def)

lemma fold_noteRR_response: "response (fold (noteRR k) rrs out) = response out"
  by (induction rrs arbitrary: out) (simp_all add: noteRR_response)

lemma relays_checks:
  assumes "relays q ident m"
  shows "12 \<le> length m" "read16 m 0 = Some ident" "echoesQuestion m q = Some True"
    "\<exists>info. inspectResponse m = Some (True, info) \<and> response info"
proof -
  obtain f ls t an ns ar rest where m: "sections_ok [(wireName ls, t, 1)] an ns ar" "f AND 0x8000 \<noteq> 0"
    "m = dnsMessage ident f [(wireName ls, t, 1)] an ns ar @ rest"
    and q: "map lowerAscii (wireName ls @ bytes16 t @ bytes16 1) = map lowerAscii (question q)"
    using assms by (auto simp: relays_def)
  show len: "12 \<le> length m" by (simp add: m(3) dnsMessage_one)
  show "read16 m 0 = Some ident" by (rule read16_at [of m "[]"]) (simp_all add: m(3) dnsMessage_one)
  show "\<exists>info. inspectResponse m = Some (True, info) \<and> response info"
    using inspectResponse_encoded [OF m(1,3)] m(2) by (simp add: fold_noteRR_response)
  have l: "length (question q) = length (wireName ls @ bytes16 t @ bytes16 1)" using q map_eq_imp_length_eq by metis
  have c: "read16 m 4 = Some 1"
    by (rule read16_at [of m "bytes16 ident @ bytes16 f"]) (simp_all add: m(3) dnsMessage_one)
  have e: "slice m 12 (length (question q)) = Some (wireName ls @ bytes16 t @ bytes16 1)"
    by (simp add: l slice_def m(3) dnsMessage_one)
  show "echoesQuestion m q = Some True"
    using l c e q by (auto simp: echoesQuestion_def kHeaderSize_def m(3) dnsMessage_one)
qed

text \<open>The checks the resolver makes establish it.\<close>

lemma relays_found:
  assumes q: "parseQuery data = Some (True, q)"
    and i: "inspectResponse m = Some (True, info)" "response info" and e: "echoesQuestion m q = Some True"
  shows "\<exists>ident. relays q ident m"
proof -
  obtain qe refs where w: "walk m = Some (Some (qe, refs))"
    using i(1) by (auto simp: inspectResponse_def split: option.splits bind_splits)
  obtain ident f qs an ns ar rest where m: "sections_ok qs an ns ar" "m = dnsMessage ident f qs an ns ar @ rest"
    using walk_found [OF w] by blast
  have f: "f AND 0x8000 \<noteq> 0" using inspectResponse_encoded [OF m] i by (auto simp: fold_noteRR_response)
  obtain labels where l: "list_all label_ok labels"
    and qq: "question q = wireName labels @ bytes16 (query_type q) @ bytes16 1"
    using parseQuery_sound [OF q] by blast
  have qd: "read16 m 4 = Some (of_nat (length qs))"
    by (rule dnsMessage_qd [OF m(2)])
  have "12 + length (question q) \<le> length m" and "of_nat (length qs) = (1 :: u16)"
    and low: "map lowerAscii (take (length (question q)) (drop 12 m)) = map lowerAscii (question q)"
    using e qd by (auto simp: echoesQuestion_def kHeaderSize_def simp del: read16_Some split: if_splits)
  then have "length qs = 1"
    using m(1) by (simp add: sections_ok_def word_unat_eq_iff unat_of_nat)
  then obtain nm t c where qs: "qs = [(nm, t, c)]" by (metis One_nat_def length_0_conv length_Suc_conv prod_cases3)
  let ?tail = "bytes16 t @ bytes16 c @ rrs_bytes an @ rrs_bytes ns @ rrs_bytes ar @ rest"
  have d: "m = take 12 m @ nm @ ?tail" "length (take 12 m) = 12" by (simp_all add: m(2) qs dnsMessage_one)
  let ?x = "take (length (wireName labels)) (nm @ ?tail)"
  have dd: "drop 12 m = nm @ ?tail" using d by (metis append_eq_conv_conj)
  have low2: "map lowerAscii (take (length (wireName labels) + 4) (nm @ ?tail)) =
      map lowerAscii (wireName labels) @ map lowerAscii (bytes16 (query_type q) @ bytes16 1)"
    using low by (simp add: dd qq)
  have lx: "map lowerAscii ?x = map lowerAscii (wireName labels)"
  proof -
    have "map lowerAscii ?x = take (length (wireName labels)) (map lowerAscii (take (length (wireName labels) + 4) (nm @ ?tail)))"
      by (simp only: take_map take_take) simp
    then show ?thesis unfolding low2 by simp
  qed
  obtain ls where ls: "?x = wireName ls" "list_all label_ok ls" using wireName_case [OF l lx] by blast
  have len: "length (wireName ls) = length (wireName labels)" using lx map_eq_imp_length_eq unfolding ls(1) by blast
  have "skipName m 12 = Some (Some (12 + length nm))"
    by (rule skipName_is_name [OF _ d(1)]) (use m(1) d(2) in \<open>simp_all add: qs sections_ok_def\<close>)
  moreover have "m = take 12 m @ wireName ls @ drop (length (wireName labels)) (nm @ ?tail)"
    using d(1) unfolding ls(1) [symmetric] by (metis append_take_drop_id)
  then have "skipName m 12 = Some (Some (12 + length (wireName ls)))"
    by (rule skipName_is_name [OF is_name_wireName [OF ls(2)]]) (use d(2) in simp)
  ultimately have "length nm = length (wireName labels)" using len by simp
  then have nm: "nm = wireName ls" "length (wireName labels) = length nm" using ls(1) by simp_all
  have "map lowerAscii (bytes16 t @ bytes16 c) = map lowerAscii (bytes16 (query_type q) @ bytes16 1)"
    using arg_cong [OF low2, of "drop (length (wireName labels))"] by (simp add: nm(2))
  then have tc: "map lowerAscii (bytes16 t) = map lowerAscii (bytes16 (query_type q))"
    "map lowerAscii (bytes16 c) = map lowerAscii (bytes16 1)" by (simp_all add: append_eq_append_conv)
  have "c = 1"
  proof -
    have "bytes16 1 = [0, 1]" by code_simp
    moreover obtain a b where ab: "bytes16 c = [a, b]" by (simp add: bytes16_def)
    ultimately have "a = 0" "b = 1" using tc(2) lower_small_iff [of 0 a] lower_small_iff [of 1 b] by simp_all
    then show ?thesis using ab be16_1 [of a b] by (metis be16_bytes bytes16_inject)
  qed
  moreover have "map lowerAscii (wireName ls @ bytes16 t @ bytes16 1) = map lowerAscii (question q)"
    using lx [unfolded ls(1)] tc(1) by (simp add: qq)
  ultimately show ?thesis
    unfolding relays_def using m f ls(2) by (intro exI [of _ ident] exI [of _ f] exI [of _ ls] exI [of _ t]) (auto simp: qs nm(1))
qed

lemma relays_setId:
  assumes "relays q ident m"
  shows "\<exists>m'. setId m j = Some m' \<and> relays q j m'"
proof -
  obtain f ls t an ns ar rest where m: "list_all label_ok ls" "sections_ok [(wireName ls, t, 1)] an ns ar" "f AND 0x8000 \<noteq> 0"
    "m = dnsMessage ident f [(wireName ls, t, 1)] an ns ar @ rest"
    "map lowerAscii (wireName ls @ bytes16 t @ bytes16 1) = map lowerAscii (question q)"
    using assms by (rule relaysE)
  have "setId m j = Some (dnsMessage j f [(wireName ls, t, 1)] an ns ar @ rest)"
    by (simp add: setId_def write16_def m(4) dnsMessage_one)
  then show ?thesis using relaysI [OF m(1-3,5)] by blast
qed

lemma ageRR_ok: "list_all rr_ok rrs \<Longrightarrow> list_all rr_ok (map (ageRR age) rrs)"
  by (auto simp: list_all_iff rr_ok_def ageRR_def)

lemma relays_age:
  assumes "relays q ident m"
  shows "\<exists>m'. ageTtls m age = Some m' \<and> relays q ident m'"
proof -
  obtain f ls t an ns ar rest where m: "list_all label_ok ls" "sections_ok [(wireName ls, t, 1)] an ns ar" "f AND 0x8000 \<noteq> 0"
    "m = dnsMessage ident f [(wireName ls, t, 1)] an ns ar @ rest"
    "map lowerAscii (wireName ls @ bytes16 t @ bytes16 1) = map lowerAscii (question q)"
    using assms by (rule relaysE)
  have ok: "sections_ok [(wireName ls, t, 1)] (map (ageRR age) an) (map (ageRR age) ns) (map (ageRR age) ar)"
    using m(2) ageRR_ok by (auto simp: sections_ok_def)
  show ?thesis
    unfolding m(4) using ageTtls_encoded [OF m(2), of ident f rest age] relaysI [OF m(1) ok m(3,5)] by blast
qed

lemma reply_sections_ok:
  assumes "list_all label_ok ls"
  shows "sections_ok [(wireName ls, t, 1)] (map (answerRR q ttl) (encodedAddresses p4 p6 q addresses code)) []
    (if ednsPayload q \<noteq> 0 then [optRR] else [])"
  using encodedAddresses_props [of p4 p6 q addresses code] is_name_wireName [OF assms] is_name_pointer is_name_root
  by (auto simp: sections_ok_def list_all_iff rr_ok_def answerRR_def optRR_def addressLength_def)

lemma relays_build:
  assumes "parseQuery data = Some (True, q)"
  shows "relays q (query_id q) (buildResponse p4 p6 q addresses ttl failed code)"
proof -
  obtain labels where l: "list_all label_ok labels" and qq: "question q = wireName labels @ bytes16 (query_type q) @ bytes16 1"
    using parseQuery_sound [OF assms] by blast
  show ?thesis
    unfolding relays_def buildResponse_encoded [OF qq]
    by (intro exI [of _ "replyFlags q (effectiveRcode failed code)"] exI [of _ labels] exI [of _ "query_type q"]
        exI conjI, rule l, rule reply_sections_ok [OF l], rule replyFlags_bits(1), rule append_Nil2 [symmetric], simp add: qq)
qed

lemma question_length:
  assumes "parseQuery data = Some (True, q)"
  shows "length (question q) \<le> 259"
proof -
  obtain labels where "list_all label_ok labels" "labels \<noteq> []" "length (query_name q) \<le> 253" "query_name q = dotted [] labels"
    "question q = wireName labels @ bytes16 (query_type q) @ bytes16 1"
    using parseQuery_sound [OF assms] by blast
  then show ?thesis by (simp add: wireName_length)
qed

lemma relays_truncate:
  assumes r: "relays q ident m" and q: "parseQuery data = Some (True, q)" and limit: "512 \<le> limit"
  shows "\<exists>b m'. truncateForUdp m limit = Some (b, m') \<and> relays q ident m' \<and> length m' \<le> limit"
proof (cases "length m \<le> limit")
  case True
  then show ?thesis using r by (auto simp: truncateForUdp_def)
next
  case False
  obtain f ls t an ns ar rest where m: "list_all label_ok ls" "sections_ok [(wireName ls, t, 1)] an ns ar" "f AND 0x8000 \<noteq> 0"
    "m = dnsMessage ident f [(wireName ls, t, 1)] an ns ar @ rest"
    "map lowerAscii (wireName ls @ bytes16 t @ bytes16 1) = map lowerAscii (question q)"
    using r by (rule relaysE)
  have f: "read16 m 0 = Some ident" "read16 m 2 = Some f"
    using header_fields(1,2) [of m] by (auto simp: m(4) dnsMessage_def)
  obtain qs where qs: "sections_ok qs [] [] []" "if walk m = Some None then qs = []
       else \<exists>an ns ar rest. sections_ok qs an ns ar \<and> m = dnsMessage ident f qs an ns ar @ rest"
     "truncateForUdp m limit = Some (True, dnsMessage ident (f OR 0x0200) qs [] [] [])"
    using truncateForUdp_shape [OF relays_checks(1) [OF r] False f] by blast
  have w: "walk m = Some (Some (12 + length (qs_bytes [(wireName ls, t, 1)]), refs_of [(wireName ls, t, 1)] an ns ar))"
    by (rule walk_encoded [OF m(2,4)])
  then obtain an' ns' ar' rest' where q': "sections_ok qs an' ns' ar'" "m = dnsMessage ident f qs an' ns' ar' @ rest'"
    using qs(2) by auto
  let ?qs = "[(wireName ls, t, 1)]"
  have n: "length qs = 1"
  proof -
    have "read16 m 4 = Some (of_nat (length qs))" "read16 m 4 = Some (of_nat (length ?qs))"
      using dnsMessage_qd [OF q'(2)] dnsMessage_qd [OF m(4)] by simp_all
    then show ?thesis using q'(1) by (simp add: sections_ok_def word_unat_eq_iff unat_of_nat del: read16_Some)
  qed
  have "length (qs_bytes qs) = length (qs_bytes ?qs)" using walk_encoded [OF q'] w by simp
  moreover have "take (length (qs_bytes qs)) (drop 12 m) = qs_bytes qs"
    by (subst q'(2)) (simp add: dnsMessage_def)
  moreover have "take (length (qs_bytes ?qs)) (drop 12 m) = qs_bytes ?qs"
    by (subst m(4)) (simp add: dnsMessage_def)
  ultimately have qb: "qs_bytes qs = qs_bytes ?qs" by simp
  have d: "dnsMessage ident (f OR 0x0200) qs [] [] [] = dnsMessage ident (f OR 0x0200) ?qs [] [] []"
    using n qb by (simp add: dnsMessage_def)
  have bit: "(f OR 0x0200) AND 0x8000 \<noteq> 0"
  proof -
    have "(f OR 0x0200) AND 0x8000 = f AND 0x8000" by (simp add: bit.conj_disj_distrib2)
    then show ?thesis using m(3) by simp
  qed
  have ok: "sections_ok ?qs [] [] []" using m(2) by (simp add: sections_ok_def)
  have "relays q ident (dnsMessage ident (f OR 0x0200) ?qs [] [] [])"
    using relaysI [OF m(1) ok bit m(5), of ident "[]"] by simp
  moreover have "length (dnsMessage ident (f OR 0x0200) ?qs [] [] []) \<le> limit"
    using question_length [OF q] arg_cong [OF m(5), of length] limit by (simp add: dnsMessage_one)
  ultimately show ?thesis using qs(3) d by auto
qed

lemma wireKey_question:
  assumes q: "parseQuery data = Some (True, q)" and q': "parseQuery data' = Some (True, q')" and k: "wireKey q = wireKey q'"
  shows "map lowerAscii (question q) = map lowerAscii (question q')"
proof -
  have bar: "CHR ''|'' \<notin> set (dec_digits n)" for n
    using isdigit_dec_digits [of "CHR ''|''" n] by (auto simp: isdigit_def)
  let ?head = "\<lambda>q. query_name q @ CHR ''|'' # dec_digits (unat (query_type q))"
  let ?flags = "\<lambda>q. (if recursionDesired q then ''r'' else ''-'') @ (if dnssecOk q then ''d'' else ''-'') @
    (if ednsPayload q \<noteq> 0 then ''e'' else ''-'')"
  have key: "wireKey q = ?head q @ CHR ''|'' # ?flags q" for q by (simp add: wireKey_def)
  have "?head q = ?head q'"
    using last_separator_unique [of "?head q" "CHR ''|''" "?flags q" "?head q'" "?flags q'"] k unfolding key by auto
  then have "query_name q = query_name q' \<and> dec_digits (unat (query_type q)) = dec_digits (unat (query_type q'))"
    using last_separator_unique [of "query_name q" "CHR ''|''"] bar by blast
  then have e: "query_name q = query_name q'" "query_type q = query_type q'"
    by (simp_all add: dec_digits_inject word_unat_eq_iff)
  obtain ls where ls: "list_all label_ok ls" "ls \<noteq> []" "query_name q = dotted [] ls"
    "question q = wireName ls @ bytes16 (query_type q) @ bytes16 1"
    using parseQuery_sound [OF q] by blast
  obtain ls' where ls': "list_all label_ok ls'" "ls' \<noteq> []" "query_name q' = dotted [] ls'"
    "question q' = wireName ls' @ bytes16 (query_type q') @ bytes16 1"
    using parseQuery_sound [OF q'] by blast
  have "map (map lowerAscii) ls = map (map lowerAscii) ls'"
    using ls ls' e(1) by (intro dotted_inject) auto
  then show ?thesis using ls(1,4) ls'(1,4) e(2) by (simp add: lower_wireName)
qed

lemma relays_key:
  "parseQuery data = Some (True, q) \<Longrightarrow> parseQuery data' = Some (True, q') \<Longrightarrow> wireKey q = wireKey q' \<Longrightarrow>
   relays q ident m \<Longrightarrow> relays q' ident m"
  using wireKey_question [of data q data' q'] by (simp add: relays_def)

end
