(* ===== verification/Resolver_History.thy ===== *)
theory Resolver_History
  imports Dns_Relay
begin

text \<open>
  The resolver under concurrent use. The source holds its lock for a lookup and for a store, not
  while the Worker is asked, so a history interleaves these parts of the calls freely.
\<close>

datatype res_op =
    LookupOp string u64
  | StoreOp string Result u64
  | RefreshOp Net u64 u64
  | WireLookupOp Query u64
  | WireFinishOp "byte list" Response u64
  | ObserveOp Response u64
  | ClearOp

text \<open>A refresh that is due and finds addresses.\<close>

definition refreshes :: "Net \<Rightarrow> u64 \<Rightarrow> Resolver \<Rightarrow> bool" where
  "refreshes net now r \<longleftrightarrow> bootstrapNeeded r \<and> now \<ge> bootstrapNextMs r \<and> \<not> bootstrapBusy r \<and>
     (case lookupViaDohByAddress net r of Some (found, _) \<Rightarrow> found | None \<Rightarrow> False)"

text \<open>
  A step of the resolver, with a note whether the Worker's addresses were ever found. A thread
  stores a result only for a name it put in flight.
\<close>

fun res_step :: "res_op \<Rightarrow> Resolver \<times> bool \<Rightarrow> Resolver \<times> bool" where
  "res_step (LookupOp host now) (r, ever) = (snd (resolve_lookup (lowercase host) now r), ever)"
| "res_step (StoreOp key res now) (r, ever) = (if key \<in> set (inFlight r) then resolve_store key res now r else r, ever)"
| "res_step (RefreshOp net now later) (r, ever) = (refreshBootstrap net now later r, ever \<or> refreshes net now r)"
| "res_step (WireLookupOp q now) (r, ever) = (case wire_lookup q now r of Some (_, r') \<Rightarrow> r' | None \<Rightarrow> r, ever)"
| "res_step (WireFinishOp message resp now) (r, ever) =
     (case parseQuery message of
        Some (True, q) \<Rightarrow> (case wire_finish q resp now r of Some (_, r') \<Rightarrow> r' | None \<Rightarrow> r)
      | _ \<Rightarrow> r, ever)"
| "res_step (ObserveOp resp now) (r, ever) = (observe resp now r, ever)"
| "res_step ClearOp (r, ever) = (clearCache r, ever)"

definition res_reorder :: "Resolver \<times> bool \<Rightarrow> Resolver \<times> bool \<Rightarrow> bool" where
  "res_reorder = (\<lambda>(r, ever) (r', ever'). \<exists>c w. mset c = mset (cache r) \<and> mset w = mset (wireCache r) \<and>
     r' = r\<lparr>cache := c, wireCache := w\<rparr> \<and> ever' = ever)"

definition others :: "Resolver \<Rightarrow> (string, CacheEntry) table" where
  "others r = filter (\<lambda>item. fst item \<noteq> bootstrapKey r) (cache r)"

definition cache_inv :: "bool \<Rightarrow> Resolver \<Rightarrow> bool" where
  "cache_inv ever r \<longleftrightarrow> distinct (keys (cache r)) \<and> length (others r) \<le> dns_kMaxCacheEntries \<and>
     (\<forall>e. map_of (cache r) (bootstrapKey r) = Some e \<longrightarrow> expiresAtMs e = kNeverExpires \<and> \<not> result_empty (result e)) \<and>
     (ever \<longrightarrow> map_of (cache r) (bootstrapKey r) \<noteq> None) \<and> distinct (inFlight r) \<and> bootstrapKey r \<notin> set (inFlight r)"

definition wire_inv :: "Resolver \<Rightarrow> bool" where
  "wire_inv r \<longleftrightarrow> distinct (keys (wireCache r)) \<and> length (wireCache r) \<le> kMaxWireCacheEntries \<and>
     (\<forall>k e. map_of (wireCache r) k = Some e \<longrightarrow>
        (\<exists>data q ident. parseQuery data = Some (True, q) \<and> wireKey q = k \<and> relays q ident (wire_response e)))"

definition res_inv :: "Resolver \<times> bool \<Rightarrow> bool" where
  "res_inv = (\<lambda>(r, ever). cache_inv ever r \<and> wire_inv r)"

lemma cache_inv_cong:
  "cache r' = cache r \<Longrightarrow> workerHost r' = workerHost r \<Longrightarrow> inFlight r' = inFlight r \<Longrightarrow> cache_inv ever r' = cache_inv ever r"
  by (simp add: cache_inv_def others_def bootstrapKey_def)

lemma wire_inv_cong: "wireCache r' = wireCache r \<Longrightarrow> wire_inv r' = wire_inv r"
  by (simp add: wire_inv_def)

section \<open>The cache of addresses\<close>

lemma lookup_inv:
  assumes "cache_inv ever r"
  shows "cache_inv ever (snd (resolve_lookup key now r))"
  using assms
  by (auto simp: resolve_lookup_def cache_inv_def others_def bootstrapKey_def Let_def split: option.splits)

lemma others_update:
  "key \<noteq> b \<Longrightarrow> length (filter (\<lambda>item. fst item \<noteq> b) (AList.update key e c)) =
    length (filter (\<lambda>item. fst item \<noteq> b) c) + (if map_of c key = None then 1 else 0)"
  by (induction c) auto

lemma others_update_same: "filter (\<lambda>item. fst item \<noteq> b) (AList.update b e c) = filter (\<lambda>item. fst item \<noteq> b) c"
  by (induction c) auto

lemma cacheRoom_props:
  assumes inv: "cache_inv ever r" and key: "key \<noteq> bootstrapKey r"
  shows "distinct (keys (cacheRoom key r))" "map_of (cacheRoom key r) (bootstrapKey r) = map_of (cache r) (bootstrapKey r)"
    "length (filter (\<lambda>item. fst item \<noteq> bootstrapKey r) (cacheRoom key r)) +
       (if map_of (cacheRoom key r) key = None then 1 else 0) \<le> dns_kMaxCacheEntries"
proof -
  have d: "distinct (keys (cache r))" and o: "length (others r) \<le> dns_kMaxCacheEntries"
    using inv by (auto simp: cache_inv_def)
  have len: "length (others r) \<le> length (cache r)" by (simp add: others_def)
  consider (evict) v where "map_of (cache r) key = None"
      "min_by (\<lambda>item. expiresAtMs (snd item)) (others r) = Some v" "cacheRoom key r = AList.delete (fst v) (cache r)"
    | (keep) "cacheRoom key r = cache r" "map_of (cache r) key \<noteq> None \<or> length (others r) < dns_kMaxCacheEntries"
  proof (cases "map_of (cache r) key = None \<and> length (cache r) \<ge> dns_kMaxCacheEntries")
    case True
    then show ?thesis
      by (cases "min_by (\<lambda>item. expiresAtMs (snd item)) (others r)")
        (auto simp: cacheRoom_def others_def [symmetric] dns_kMaxCacheEntries_def intro: keep evict)
  next
    case False
    then show ?thesis using len by (intro keep) (auto simp: cacheRoom_def)
  qed
  then have "distinct (keys (cacheRoom key r)) \<and> map_of (cacheRoom key r) (bootstrapKey r) = map_of (cache r) (bootstrapKey r) \<and>
    length (filter (\<lambda>item. fst item \<noteq> bootstrapKey r) (cacheRoom key r)) +
       (if map_of (cacheRoom key r) key = None then 1 else 0) \<le> dns_kMaxCacheEntries"
  proof cases
    case evict
    have v: "v \<in> set (cache r)" "fst v \<noteq> bootstrapKey r"
      using min_by_Some [OF evict(2)] by (auto simp: others_def)
    have f: "filter (\<lambda>item. fst item \<noteq> bootstrapKey r) (AList.delete (fst v) (cache r)) = filter (\<lambda>item. fst item \<noteq> fst v) (others r)"
      by (auto simp: AList.delete_eq others_def intro!: filter_cong)
    have "length (filter (\<lambda>item. fst item \<noteq> fst v) (others r)) < length (others r)"
      by (rule length_filter_less [of v]) (use v in \<open>auto simp: others_def\<close>)
    then show ?thesis using d o v f evict by simp
  next
    case keep
    then show ?thesis using d o by (auto simp: others_def)
  qed
  then show "distinct (keys (cacheRoom key r))" "map_of (cacheRoom key r) (bootstrapKey r) = map_of (cache r) (bootstrapKey r)"
    "length (filter (\<lambda>item. fst item \<noteq> bootstrapKey r) (cacheRoom key r)) +
       (if map_of (cacheRoom key r) key = None then 1 else 0) \<le> dns_kMaxCacheEntries" by auto
qed

lemma store_inv:
  assumes inv: "cache_inv ever r" and key: "key \<in> set (inFlight r)"
  shows "cache_inv ever (resolve_store key res now r)"
proof -
  have k: "key \<noteq> bootstrapKey r" using inv key by (auto simp: cache_inv_def)
  note room = cacheRoom_props [OF inv k]
  have b: "bootstrapKey (resolve_store key res now r) = bootstrapKey r" by (simp add: resolve_store_def bootstrapKey_def)
  show ?thesis
    using inv k room
    by (simp add: cache_inv_def others_def b del: map_of_eq_Some_iff)
      (simp add: resolve_store_def others_update [OF k] distinct_removeAll del: map_of_eq_Some_iff)
qed

lemma refresh_inv:
  assumes inv: "cache_inv ever r"
  shows "cache_inv (ever \<or> refreshes net now r) (refreshBootstrap net now later r)"
proof (cases "refreshes net now r")
  case False
  then have "refreshBootstrap net now later r = r \<or>
      refreshBootstrap net now later r = r\<lparr>bootstrapNextMs := later + kBootstrapRetryMs\<rparr>"
    by (auto simp: refreshes_def refreshBootstrap_def split: option.splits bool.splits)
  then show ?thesis using inv False cache_inv_cong [of "r\<lparr>bootstrapNextMs := later + kBootstrapRetryMs\<rparr>" r] by auto
next
  case True
  then obtain fresh where f: "lookupViaDohByAddress net r = Some (True, fresh)"
    by (auto simp: refreshes_def split: option.splits)
  have ne: "\<not> result_empty fresh"
    using f by (auto simp: lookupViaDohByAddress_def Let_def split: if_splits bind_splits)
  have r': "refreshBootstrap net now later r = (storeBootstrap fresh r)\<lparr>bootstrapNextMs := later + kBootstrapTtlMs\<rparr>"
    using True f by (auto simp: refreshes_def refreshBootstrap_def)
  have b: "bootstrapKey (refreshBootstrap net now later r) = bootstrapKey r"
    "cache (refreshBootstrap net now later r) = AList.update (bootstrapKey r) \<lparr>result = fresh, expiresAtMs = kNeverExpires\<rparr> (cache r)"
    "inFlight (refreshBootstrap net now later r) = inFlight r"
    by (simp_all add: r' storeBootstrap_def bootstrapKey_def)
  show ?thesis using inv ne by (simp add: cache_inv_def others_def b others_update_same)
qed

lemma clear_inv:
  assumes inv: "cache_inv ever r"
  shows "cache_inv ever (clearCache r)"
proof -
  have b: "bootstrapKey (clearCache r) = bootstrapKey r" "inFlight (clearCache r) = inFlight r"
    "cache (clearCache r) = erase_if (\<lambda>item. fst item \<noteq> bootstrapKey r) (cache r)"
    by (simp_all add: clearCache_def bootstrapKey_def)
  have "map_of (cache (clearCache r)) (bootstrapKey r) = map_of (cache r) (bootstrapKey r)"
    using inv by (auto simp: b map_of_erase_if cache_inv_def split: option.split)
  moreover have "others (clearCache r) = []" by (simp add: others_def b erase_if_def)
  ultimately show ?thesis using inv by (simp add: cache_inv_def b del: map_of_eq_Some_iff)
qed

section \<open>The cache of messages\<close>

lemma wire_lookup_inv:
  assumes "wire_inv r" "wire_lookup q now r = Some (m, r')"
  shows "wire_inv r' \<and> cache r' = cache r \<and> workerHost r' = workerHost r \<and> inFlight r' = inFlight r"
  using assms by (auto simp: wire_lookup_def wire_inv_def intro: order_trans [OF length_delete_alist_le] split: option.splits if_splits)

lemma wireRoom_props:
  assumes "wire_inv r"
  shows "distinct (keys (wireRoom key r))" "set (wireRoom key r) \<subseteq> set (wireCache r)"
    "map_of (wireRoom key r) key \<noteq> None \<or> length (wireRoom key r) < kMaxWireCacheEntries"
    "length (wireRoom key r) \<le> kMaxWireCacheEntries"
proof -
  have w: "distinct (keys (wireCache r))" "length (wireCache r) \<le> kMaxWireCacheEntries"
    using assms by (auto simp: wire_inv_def)
  have "wireCache r \<noteq> []" if "length (wireCache r) \<ge> kMaxWireCacheEntries"
    using that by (auto simp: kMaxWireCacheEntries_def)
  then show "distinct (keys (wireRoom key r))" "set (wireRoom key r) \<subseteq> set (wireCache r)"
    "map_of (wireRoom key r) key \<noteq> None \<or> length (wireRoom key r) < kMaxWireCacheEntries"
    "length (wireRoom key r) \<le> kMaxWireCacheEntries"
    using w length_erase_min [of "wireCache r" "\<lambda>item. wire_expiresAtMs (snd item)"]
      set_erase_min_subset [of "\<lambda>item. wire_expiresAtMs (snd item)" "wireCache r"]
    by (auto simp: wireRoom_def)
qed

text \<open>What a call hands out and stores for an accepted query answers that query.\<close>

lemma wire_finish_relays:
  assumes q: "parseQuery data = Some (True, q)" and r: "wire_inv r"
  shows "\<exists>m r'. wire_finish q resp now r = Some (m, r') \<and> (m = [] \<or> relays q (query_id q) m) \<and> wire_inv r' \<and>
    cache r' = cache r \<and> workerHost r' = workerHost r \<and> inFlight r' = inFlight r"
proof -
  let ?a = "map char_byte (body resp)"
  obtain ok info where i: "inspectResponse ?a = Some (ok, info)" using inspectResponse_safe [of ?a] by fastforce
  obtain echoes where e: "echoesQuestion ?a q = Some echoes" using echoesQuestion_safe [of ?a q] by fastforce
  show ?thesis
  proof (cases "\<not> (status resp = 401 \<or> status resp = 403 \<or> \<not> response_ok resp \<or> length ?a < 12 \<or> length ?a > 65535) \<and>
      ok \<and> response info \<and> echoes")
    case False
    then show ?thesis using r i e by (auto simp: wire_finish_def Let_def)
  next
    case True
    then have "inspectResponse ?a = Some (True, info)" "response info" "echoesQuestion ?a q = Some True" using i e by auto
    then obtain ident where "relays q ident ?a" using relays_found [OF q] by blast
    then obtain m where m: "setId ?a (query_id q) = Some m" "relays q (query_id q) m" using relays_setId by blast
    let ?e = "\<lambda>l. \<lparr>wire_response = m, storedAtMs = now, wire_expiresAtMs = now + ucast (l :: u32) * 1000\<rparr>"
    let ?r = "\<lambda>l. r\<lparr>wireCache := AList.update (wireKey q) (?e l) (wireRoom (wireKey q) r)\<rparr>"
    note room = wireRoom_props [OF r, of "wireKey q"]
    have "wire_inv (?r l)" for l
    proof -
      have len: "length (AList.update (wireKey q) (?e l) (wireRoom (wireKey q) r)) \<le> kMaxWireCacheEntries"
        using room(3,4) by (auto simp: length_update_alist) (metis map_of_eq_None_iff option.distinct(1))+
      have "map_of (wireCache r) k = Some x" if "map_of (wireRoom (wireKey q) r) k = Some x" for k x
        using map_of_subset [OF _ room(2) that] r by (simp add: wire_inv_def)
      then show ?thesis using len room(1) r q m(2) by (auto simp: wire_inv_def)
    qed
    then show ?thesis using True i e m r by (auto simp: wire_finish_def Let_def)
  qed
qed

lemma wireCached_relays:
  assumes r: "wire_inv r" and q: "parseQuery data = Some (True, q)" and e: "map_of (wireCache r) (wireKey q) = Some e"
  shows "\<exists>m. wireCached e (query_id q) now = Some m \<and> relays q (query_id q) m"
proof -
  obtain data' q' ident where "parseQuery data' = Some (True, q')" "wireKey q' = wireKey q" "relays q' ident (wire_response e)"
    using r e unfolding wire_inv_def by blast
  then have "relays q ident (wire_response e)" using relays_key q by blast
  then obtain m1 where m1: "setId (wire_response e) (query_id q) = Some m1" "relays q (query_id q) m1" using relays_setId by blast
  from relays_age [OF m1(2)] show ?thesis using m1(1) by (auto simp: wireCached_def)
qed

section \<open>Histories\<close>

lemma map_reorder_inv:
  assumes inv: "res_inv s" and re: "res_reorder s s'"
  shows "res_inv s'"
proof -
  obtain r ever c w where s: "s = (r, ever)" "s' = (r\<lparr>cache := c, wireCache := w\<rparr>, ever)"
    and m: "mset c = mset (cache r)" "mset w = mset (wireCache r)"
    using re by (cases s; cases s') (auto simp: res_reorder_def)
  have d: "distinct (keys (cache r))" "distinct (keys (wireCache r))"
    using inv by (auto simp: res_inv_def cache_inv_def wire_inv_def s)
  have e: "map_of c = map_of (cache r)" "map_of w = map_of (wireCache r)" "distinct (keys c)" "distinct (keys w)"
    using map_of_reorder [OF d(1) m(1)] map_of_reorder [OF d(2) m(2)] mset_distinct_keys [OF m(1)] mset_distinct_keys [OF m(2)] d
    by simp_all
  have "mset (filter P c) = mset (filter P (cache r))" for P using m(1) by (simp add: mset_filter)
  then have "length (filter P c) = length (filter P (cache r))" "length w = length (wireCache r)" for P
    using m(2) mset_eq_length by metis+
  then show ?thesis
    using inv e by (simp add: res_inv_def s cache_inv_def wire_inv_def others_def bootstrapKey_def del: map_of_eq_Some_iff)
qed

interpretation resolver: machine res_step res_reorder res_inv
proof
  show "res_inv s \<Longrightarrow> res_inv (res_step op s)" for s op
  proof -
    obtain r ever where s: "s = (r, ever)" by (cases s)
    assume "res_inv s"
    then have inv: "cache_inv ever r" "wire_inv r" by (auto simp: res_inv_def s)
    show ?thesis
    proof (cases op)
      case (LookupOp host now)
      have "wireCache (snd (resolve_lookup (lowercase host) now r)) = wireCache r"
        by (auto simp: resolve_lookup_def Let_def split: option.splits)
      from wire_inv_cong [OF this] show ?thesis using inv lookup_inv [OF inv(1)] by (simp add: s LookupOp res_inv_def)
    next
      case (StoreOp key res now)
      have "wireCache (resolve_store key res now r) = wireCache r" by (simp add: resolve_store_def)
      from wire_inv_cong [OF this] show ?thesis using inv store_inv [OF inv(1)] by (simp add: s StoreOp res_inv_def)
    next
      case (RefreshOp net now later)
      have "wireCache (refreshBootstrap net now later r) = wireCache r"
        by (simp add: refreshBootstrap_def storeBootstrap_def split: option.split prod.split bool.split)
      from wire_inv_cong [OF this] show ?thesis using inv refresh_inv [OF inv(1)] by (simp add: s RefreshOp res_inv_def)
    next
      case (WireLookupOp q now)
      show ?thesis
      proof (cases "wire_lookup q now r")
        case (Some p)
        obtain m r' where p: "p = (m, r')" by (cases p)
        have "wire_inv r'" "cache_inv ever r' = cache_inv ever r"
          using wire_lookup_inv [OF inv(2), of q now m r'] cache_inv_cong [of r' r] Some p by auto
        then show ?thesis using inv by (simp add: s WireLookupOp res_inv_def Some p)
      qed (use inv in \<open>simp add: s WireLookupOp res_inv_def\<close>)
    next
      case (WireFinishOp message resp now)
      show ?thesis
      proof (cases "\<exists>q. parseQuery message = Some (True, q)")
        case True
        then obtain q where q: "parseQuery message = Some (True, q)" by blast
        obtain m r' where "wire_finish q resp now r = Some (m, r')" "wire_inv r'" "cache r' = cache r"
          "workerHost r' = workerHost r" "inFlight r' = inFlight r" using wire_finish_relays [OF q inv(2)] by blast
        then show ?thesis using inv cache_inv_cong [of r' r] by (simp add: s WireFinishOp res_inv_def q)
      next
        case False
        then show ?thesis using inv by (simp add: s WireFinishOp res_inv_def split: option.split bool.split)
      qed
    next
      case (ObserveOp resp now)
      then show ?thesis
        using inv cache_inv_cong [of "observe resp now r" r] wire_inv_cong [of "observe resp now r" r]
        by (simp add: s res_inv_def) (simp add: observe_def)
    next
      case ClearOp
      have "wire_inv (clearCache r)" by (simp add: wire_inv_def clearCache_def)
      then show ?thesis using inv clear_inv by (simp add: s ClearOp res_inv_def)
    qed
  qed
  show "res_inv s \<Longrightarrow> res_reorder s s' \<Longrightarrow> res_inv s'" for s s' by (rule map_reorder_inv)
qed

text \<open>A resolver as constructed, and whether it found the Worker's addresses.\<close>

definition startResolver :: "Net \<Rightarrow> string \<Rightarrow> string \<Rightarrow> u16 \<Rightarrow> Resolver \<times> bool" where
  "startResolver net url secret port =
     (let r = newResolver net url secret port in (r, map_of (cache r) (bootstrapKey r) \<noteq> None))"

lemma startResolver_inv: "res_inv (startResolver net url secret port)"
  by (auto simp: startResolver_def newResolver_def lookupViaSystemResolver_def res_inv_def cache_inv_def wire_inv_def
      others_def bootstrapKey_def Let_def dns_kMaxCacheEntries_def split: option.splits)

lemma lookup_bootstrap:
  assumes "cache_inv ever r" and "now < kNeverExpires"
  shows "resolve_lookup (bootstrapKey r) now r =
    (Answer (case map_of (cache r) (bootstrapKey r) of Some e \<Rightarrow> result e | None \<Rightarrow> failedResult), r)"
  using assms by (auto simp: resolve_lookup_def cache_inv_def agedResult_def Let_def split: option.split)

lemma lookup_bootstrap_answers:
  "cache_inv ever r \<Longrightarrow> \<exists>res. resolve_lookup (bootstrapKey r) now r = (Answer res, r)"
  by (auto simp: resolve_lookup_def cache_inv_def Let_def split: option.split)

lemma one_bootstrap: "distinct (keys c) \<Longrightarrow> length c \<le> length (filter (\<lambda>item. fst item \<noteq> b) c) + 1"
proof (induction c)
  case (Cons x c)
  show ?case
  proof (cases "fst x = b")
    case True
    then have "filter (\<lambda>item. fst item \<noteq> b) c = c" using Cons.prems by (auto simp: filter_id_conv image_iff)
    then show ?thesis by simp
  qed (use Cons in simp)
qed simp

text \<open>
  The Worker's own address is never lost. Whatever lookups, stores, refreshes, clearings and
  relayed messages the threads interleave, a lookup of the Worker's name is answered at once and
  never sends a thread to the Worker, and once its addresses were found the answer is not empty:
  neither eviction nor clearing nor a failed refresh removes them. No name is asked for by two
  threads, at most 2048 other names and at most 1024 messages are cached.
\<close>

lemma bootstrap_kept:
  assumes "reach res_step res_reorder (startResolver net url secret port) (r, ever)" and "now < kNeverExpires"
  shows "(case resolve_lookup (bootstrapKey r) now r of
      (Answer res, r') \<Rightarrow> r' = r \<and> (if ever then \<not> result_empty res else True)
    | _ \<Rightarrow> False) \<and>
    distinct (inFlight r) \<and> cacheSize r \<le> 2049 \<and> wireCacheSize r \<le> 1024"
proof -
  have "res_inv (r, ever)" by (rule resolver.reach_inv [OF assms(1) startResolver_inv])
  then have inv: "cache_inv ever r" "wire_inv r" by (auto simp: res_inv_def)
  have l: "length (cache r) \<le> 2049"
    using one_bootstrap [of "cache r" "bootstrapKey r"] inv(1) by (auto simp: cache_inv_def others_def dns_kMaxCacheEntries_def)
  have "ever \<Longrightarrow> \<exists>e. map_of (cache r) (bootstrapKey r) = Some e \<and> \<not> result_empty (result e)"
    using inv(1) by (auto simp: cache_inv_def simp del: map_of_eq_Some_iff)
  then show ?thesis
    using lookup_bootstrap [OF inv(1) assms(2)] inv l
    by (auto simp: cache_inv_def wire_inv_def cacheSize_def wireCacheSize_def kMaxWireCacheEntries_def simp del: map_of_eq_Some_iff)
qed

definition sampleNet :: Net where
  "sampleNet = \<lparr>fetch = (\<lambda>_. None), pton4 = (\<lambda>s. if s = ''192.0.2.7'' then Some [192, 0, 2, 7] else None), pton6 = (\<lambda>_. None),
     addrinfo = (\<lambda>_. Some [(False, ''192.0.2.7'')]), clock = (\<lambda>_. 1000)\<rparr>"

lemma bootstrap_kept_example:
  "case resolve_lookup ''w.example'' 5000 (fst (res_step ClearOp (startResolver sampleNet ''wss://w.example/tunnel'' ''key'' 0))) of
     (Answer res, r') \<Rightarrow> v4 res = [''192.0.2.7''] | _ \<Rightarrow> False"
proof -
  let ?s = "res_step ClearOp (startResolver sampleNet ''wss://w.example/tunnel'' ''key'' 0)"
  have r: "reach res_step res_reorder (startResolver sampleNet ''wss://w.example/tunnel'' ''key'' 0) (fst ?s, snd ?s)"
    unfolding prod.collapse by (intro reach.operation reach.start)
  have k: "bootstrapKey (fst ?s) = ''w.example''" "(5000 :: u64) < kNeverExpires" by code_simp+
  have "v4 (result (the (map_of (cache (fst ?s)) ''w.example''))) = [''192.0.2.7'']" "map_of (cache (fst ?s)) ''w.example'' \<noteq> None"
    "expiresAtMs (the (map_of (cache (fst ?s)) ''w.example'')) = kNeverExpires" by code_simp+
  then show ?thesis
    using bootstrap_kept [OF r k(2)] k by (auto simp: resolve_lookup_def agedResult_def split: option.splits)
qed

section \<open>Relayed answers\<close>

lemma prepare_keeps:
  "wireCache (snd (prepareWorkerCall net d r)) = wireCache r" "workerHost (snd (prepareWorkerCall net d r)) = workerHost r"
  by (simp_all add: prepareWorkerCall_def refreshBootstrap_def storeBootstrap_def Let_def split: option.split prod.split bool.split)

lemma queryWire_relays:
  assumes q: "parseQuery message = Some (True, q)" and inv: "res_inv (r, ever)"
  shows "\<exists>answer r'. queryWire net message d r = Some (answer, r') \<and>
    (case answer of Thrown \<Rightarrow> True | Message m \<Rightarrow> m = [] \<or> relays q (query_id q) m)"
proof -
  have c: "cache_inv ever r" and w: "wire_inv r" using inv by (auto simp: res_inv_def)
  consider (none) "workerHost r = []" | (boot) "workerHost r \<noteq> []" "lowercase (query_name q) = bootstrapKey r"
    | (wire) "workerHost r \<noteq> []" "lowercase (query_name q) \<noteq> bootstrapKey r" by blast
  then show ?thesis
  proof cases
    case none
    then show ?thesis by (simp add: queryWire_def q)
  next
    case boot
    obtain known where "resolve_lookup (bootstrapKey r) (clock net 6) r = (Answer known, r)"
      using lookup_bootstrap_answers [OF c] by blast
    then have "\<exists>res r1. resolve net (query_name q) 0 r = Some (res, r1)"
      using boot(2) by (simp add: resolve_def Let_def)
    then obtain res r1 where "resolve net (query_name q) 0 r = Some (res, r1)" by blast
    then show ?thesis using boot relays_build [OF q] by (simp add: queryWire_def q)
  next
    case wire
    show ?thesis
    proof (cases "\<exists>e. map_of (wireCache r) (wireKey q) = Some e \<and> wire_expiresAtMs e > clock net 8")
      case True
      then obtain e where e: "map_of (wireCache r) (wireKey q) = Some e" "wire_expiresAtMs e > clock net 8" by blast
      obtain m where "wireCached e (query_id q) (clock net 8) = Some m" "relays q (query_id q) m"
        using wireCached_relays [OF w q e(1)] by blast
      then show ?thesis using wire e by (simp add: queryWire_def q wire_lookup_def)
    next
      case False
      then have "\<exists>r1. wire_lookup q (clock net 8) r = Some (None, r1)"
        by (cases "map_of (wireCache r) (wireKey q)") (auto simp: wire_lookup_def)
      then obtain r1 where r1: "wire_lookup q (clock net 8) r = Some (None, r1)" by blast
      let ?r2 = "snd (prepareWorkerCall net d r1)"
      have "wire_inv ?r2" using wire_lookup_inv [OF w r1] wire_inv_cong [OF prepare_keeps(1)] by blast
      then have o: "wire_inv (observe resp now ?r2)" for resp now
        using wire_inv_cong [of "observe resp now ?r2" ?r2] by (simp add: observe_def)
      show ?thesis
      proof (cases "fst (prepareWorkerCall net d r1)")
        case ready: True
        show ?thesis
        proof (cases "fetch net (wireRequest message (requestTimeoutMs (clock net 4) d) ?r2)")
          case None
          then show ?thesis using wire ready by (simp add: queryWire_def q r1 case_prod_beta)
        next
          case (Some resp)
          from wire_finish_relays [OF q o, of resp "clock net 9" resp "clock net 5"]
          show ?thesis using wire ready Some by (auto simp: queryWire_def q r1 case_prod_beta)
        qed
      qed (use wire in \<open>simp add: queryWire_def q r1 case_prod_beta\<close>)
    qed
  qed
qed


text \<open>A reply stored for one client answers another, with the other's id and spelling of the name.\<close>

definition otherQuery :: "byte list" where
  "otherQuery = [0x43, 0x21, 1, 0, 0, 1, 0, 0, 0, 0, 0, 1, 1, 97, 1, 66, 0, 0, 1, 0, 1, 0, 0, 41, 4, 208, 0, 0, 0, 0, 0, 0]"

definition storedReply :: Response where
  "storedReply = \<lparr>status = 200,
     body = map byte_char (buildResponse (pton4 sampleNet) (pton6 sampleNet) sampleParsed [''192.0.2.7''] 60 False 0), retryAfterSeconds = 0\<rparr>"


text \<open>
  The comparison of the question ignores case in all its bytes, those of the type included: a
  reply about type 97 (bytes 0, 97) passes for one about type 65 (bytes 0, 65), the HTTPS record.
\<close>

lemma echoesQuestion_type_case:
  "echoesQuestion ([0, 7, 0x81, 0x80, 0, 1, 0, 0, 0, 0, 0, 0] @ [1, 97, 0, 0, 97, 0, 1])
     (sampleParsed\<lparr>query_type := 65, question := [1, 97, 0, 0, 65, 0, 1]\<rparr>) = Some True"
  by code_simp

end
