(* ===== verification/Dns_Proxy.thy ===== *)
theory Dns_Proxy
  imports Resolver_History Flow_Tables
begin

text \<open>
  \<open>src/src/TransparentDnsProxy.cpp\<close>: datagrams reflected by the interceptor are claimed, queued and
  answered by worker threads. Sockets and threads are left out: receiving a datagram, taking a
  job and building its reply are one step each. \<open>inet_ntop\<close> is an argument.
\<close>

definition kWorkerCount :: nat where "kWorkerCount = 8"
definition kMaxQueuedQueries :: nat where "kMaxQueuedQueries = 1024"
definition kMaxDnsDatagram :: nat where "kMaxDnsDatagram = 4096"
definition kMaxQueueAgeMs :: u64 where "kMaxQueueAgeMs = 3000"
definition kJobDeadlineMs :: u64 where "kJobDeadlineMs = 8000"

section \<open>Peers\<close>

text \<open>A socket address: family, address bytes and port in host order.\<close>

datatype Peer = Inet "byte list" u16 | Inet6 "byte list" u16 | OtherFamily

definition v4Mapped :: "byte list \<Rightarrow> bool" where
  "v4Mapped a \<longleftrightarrow> take 12 a = replicate 10 0 @ [255, 255]"

definition endpoint ::
  "(byte list \<Rightarrow> string option) \<Rightarrow> (byte list \<Rightarrow> string option) \<Rightarrow> Peer \<Rightarrow> (string \<times> u16) option" where
  "endpoint ntop4 ntop6 peer =
     (let found = (case peer of
          Inet a p \<Rightarrow> map_option (\<lambda>t. (t, p)) (ntop4 a)
        | Inet6 a p \<Rightarrow> map_option (\<lambda>t. (t, p)) (if v4Mapped a then ntop4 (drop 12 a) else ntop6 a)
        | OtherFamily \<Rightarrow> None)
      in case found of Some (t, p) \<Rightarrow> if p = 0 then None else Some (t, p) | None \<Rightarrow> None)"

section \<open>Jobs\<close>

record Job =
  job_data :: "byte list"
  job_peer :: Peer
  enqueuedMs :: u64

record DnsProxy =
  jobs :: "Job list"
  px_running :: bool

datatype Received = Rejected | Immediate Job | Queued | QueueFull

definition receiveDatagram ::
  "(byte list \<Rightarrow> string option) \<Rightarrow> (byte list \<Rightarrow> string option) \<Rightarrow> u64 \<Rightarrow> u64 \<Rightarrow> byte list \<Rightarrow> Peer \<Rightarrow> Resolver \<Rightarrow>
    DatagramRegistry \<times> DnsProxy \<Rightarrow> (Received \<times> DatagramRegistry \<times> DnsProxy) option" where
  "receiveDatagram ntop4 ntop6 claimTick tick data peer resolver st =
     (case st of (datagrams, px) \<Rightarrow>
      case endpoint ntop4 ntop6 peer of
        None \<Rightarrow> Some (Rejected, datagrams, px)
      | Some (address, port) \<Rightarrow>
          let (granted, datagrams1) = datagram_claim address port 0 claimTick datagrams;
              job = \<lparr>job_data = data, job_peer = peer, enqueuedMs = tick\<rparr> in
          if \<not> granted then Some (Rejected, datagrams1, px)
          else do {
            (ok, q) \<leftarrow> parseQuery data;
            Some (if ok \<and> isBootstrapHost (query_name q) resolver then (Immediate job, datagrams1, px)
                  else if length (jobs px) \<ge> kMaxQueuedQueries then (QueueFull, datagrams1, px)
                  else (Queued, datagrams1, px\<lparr>jobs := jobs px @ [job]\<rparr>))})"

text \<open>A worker takes the oldest job; a job that waited too long is skipped.\<close>

datatype Taken = Idle | Stale | Process Job

definition takeJob :: "u64 \<Rightarrow> DnsProxy \<Rightarrow> Taken \<times> DnsProxy" where
  "takeJob now px =
     (if \<not> px_running px then (Idle, px)
      else case jobs px of
        [] \<Rightarrow> (Idle, px)
      | job # rest \<Rightarrow> (if now - enqueuedMs job > kMaxQueueAgeMs then Stale else Process job, px\<lparr>jobs := rest\<rparr>))"

definition failProxy :: "DnsProxy \<Rightarrow> DnsProxy" where
  "failProxy px = px\<lparr>px_running := False\<rparr>"

definition stopProxy :: "DatagramRegistry \<times> DnsProxy \<Rightarrow> DatagramRegistry \<times> DnsProxy" where
  "stopProxy = (\<lambda>(datagrams, px). (datagram_clear datagrams, px\<lparr>px_running := False, jobs := []\<rparr>))"

section \<open>Replies\<close>

text \<open>
  The reply to an address query as far as the cache and the Worker's verdict give one; \<open>None\<close>
  asks for the raw message instead.
\<close>

definition addressReply :: "Net \<Rightarrow> Query \<Rightarrow> Result \<Rightarrow> byte list option" where
  "addressReply net q res =
     (let addresses = (if query_type q = kTypeA then v4 res else v6 res);
          ttl = (if ttlSeconds res = 0 then 60 else ttlSeconds res)
      in if \<not> result_empty res
         then Some (if addresses \<noteq> [] \<or> \<not> transient res then buildResponse (pton4 net) (pton6 net) q addresses ttl False 0 else [])
         else if allowWireFallback res then None
         else Some (if \<not> transient res then buildResponse (pton4 net) (pton6 net) q [] ttl False (rcode res) else []))"

definition finishReply :: "Net \<Rightarrow> Query \<Rightarrow> byte list \<Rightarrow> byte list option" where
  "finishReply net q built =
     do {let full = (if built = [] then buildResponse (pton4 net) (pton6 net) q [] 60 True 0 else built);
         (_, reply) \<leftarrow> truncateForUdp full (max kClassicUdpPayload (unat (ednsPayload q)));
         Some reply}"

text \<open>The whole call; \<open>Thrown\<close> when the raw query throws, \<open>None\<close> when it waits for another thread.\<close>

definition buildReply :: "Net \<Rightarrow> byte list \<Rightarrow> u64 \<Rightarrow> Resolver \<Rightarrow> (WireAnswer \<times> Resolver) option" where
  "buildReply net data deadlineMs r =
     do {
       (ok, q) \<leftarrow> parseQuery data;
       let relay = (\<lambda>r1. do {
             (answer, r2) \<leftarrow> queryWire net data deadlineMs r1;
             case answer of Thrown \<Rightarrow> Some (Thrown, r2)
             | Message m \<Rightarrow> map_option (\<lambda>reply. (Message reply, r2)) (finishReply net q m)}) in
       if \<not> ok then Some (Message (if query_error q \<noteq> 0 then buildError q (query_error q) else []), r)
       else if query_type q = kTypeA \<or> query_type q = kTypeAaaa then
         do {(res, r1) \<leftarrow> resolve net (query_name q) deadlineMs r;
             case addressReply net q res of
               None \<Rightarrow> relay r1
             | Some built \<Rightarrow> map_option (\<lambda>reply. (Message reply, r1)) (finishReply net q built)}
       else relay r}"

definition processJob :: "Net \<Rightarrow> Job \<Rightarrow> Resolver \<Rightarrow> DnsProxy \<Rightarrow> ((byte list \<times> Peer) option \<times> Resolver \<times> DnsProxy) option" where
  "processJob net job r px =
     do {(answer, r1) \<leftarrow> buildReply net (job_data job) (enqueuedMs job + kJobDeadlineMs) r;
         Some (case answer of
             Thrown \<Rightarrow> (None, r1, failProxy px)
           | Message m \<Rightarrow> (if m = [] \<or> \<not> px_running px then None else Some (m, job_peer job), r1, px))}"

section \<open>Every accepted query is answered\<close>

lemma query_keeps:
  "inFlight (snd (query net host d r)) = inFlight r" "wireCache (snd (query net host d r)) = wireCache r"
  "\<exists>ever'. cache_inv ever r \<longrightarrow> cache_inv ever' (snd (query net host d r))"
proof -
  have p: "inFlight (snd (prepareWorkerCall net d r)) = inFlight r" "wireCache (snd (prepareWorkerCall net d r)) = wireCache r"
    by (simp_all add: prepareWorkerCall_def refreshBootstrap_def storeBootstrap_def Let_def split: option.split prod.split bool.split)
  show "inFlight (snd (query net host d r)) = inFlight r" "wireCache (snd (query net host d r)) = wireCache r"
    using p by (auto simp: query_def observe_def Let_def case_prod_beta split: option.split)
  show "\<exists>ever'. cache_inv ever r \<longrightarrow> cache_inv ever' (snd (query net host d r))"
  proof (cases "cache_inv ever r")
    case True
    let ?ever = "ever \<or> refreshes net (clock net 1) r"
    have a: "cache_inv ?ever (refreshBootstrap net (clock net 1) (clock net 2) r)" by (rule refresh_inv [OF True])
    have o: "cache_inv e (observe resp now r') = cache_inv e r'" for e resp now r'
      by (rule cache_inv_cong) (simp_all add: observe_def)
    show ?thesis
    proof (cases "snd (prepareWorkerCall net d r) = r")
      case same: True
      then show ?thesis using True o by (intro exI [of _ ever]) (auto simp: query_def Let_def case_prod_beta split: option.split)
    next
      case False
      then have "snd (prepareWorkerCall net d r) = refreshBootstrap net (clock net 1) (clock net 2) r"
        by (auto simp: prepareWorkerCall_def Let_def split: if_splits)
      moreover have "snd (query net host d r) = r \<or> snd (query net host d r) = snd (prepareWorkerCall net d r) \<or>
          (\<exists>resp now. snd (query net host d r) = observe resp now (snd (prepareWorkerCall net d r)))"
        by (auto simp: query_def Let_def case_prod_beta split: option.split)
      ultimately show ?thesis using True a o by (metis (no_types, lifting))
    qed
  qed blast
qed

lemma resolve_inv:
  assumes inv: "res_inv (r, ever)" and fl: "lowercase host \<notin> set (inFlight r)"
  shows "\<exists>res r' ever'. resolve net host d r = Some (res, r') \<and> res_inv (r', ever')"
proof -
  let ?key = "lowercase host"
  have c: "cache_inv ever r" "wire_inv r" using inv by (auto simp: res_inv_def)
  obtain l r1 where l: "resolve_lookup ?key (clock net 6) r = (l, r1)" by fastforce
  have c1: "cache_inv ever r1" using lookup_inv [OF c(1), of ?key "clock net 6"] by (simp add: l)
  have w1: "wire_inv r1"
    using l c(2) wire_inv_cong [of r1 r] by (auto simp: resolve_lookup_def Let_def split: option.splits if_splits)
  show ?thesis
  proof (cases l)
    case (Answer res)
    then show ?thesis using inv c1 w1 l by (auto simp: resolve_def Let_def res_inv_def)
  next
    case Wait
    then show ?thesis using l fl by (auto simp: resolve_lookup_def Let_def split: option.splits if_splits)
  next
    case Ask
    let ?r2 = "snd (query net ?key d r1)"
    obtain ever' where c2: "cache_inv ever' ?r2" using query_keeps(3) [of ever r1 net ?key d] c1 by blast
    have "?key \<in> set (inFlight r1)" using l Ask by (auto simp: resolve_lookup_def Let_def split: option.splits if_splits)
    then have k: "?key \<in> set (inFlight ?r2)" by (simp add: query_keeps(1))
    have w2: "wire_inv (resolve_store ?key res now ?r2)" for res now
      using w1 wire_inv_cong [of "resolve_store ?key res now ?r2" r1] by (simp add: resolve_store_def query_keeps(2))
    show ?thesis
      using inv l Ask store_inv [OF c2 k] w2 by (auto simp: resolve_def Let_def res_inv_def case_prod_beta)
  qed
qed

lemma finishReply_relays:
  assumes q: "parseQuery data = Some (True, q)" and m: "m = [] \<or> relays q (query_id q) m"
  shows "\<exists>reply. finishReply net q m = Some reply \<and> relays q (query_id q) reply \<and>
    length reply \<le> max 512 (unat (ednsPayload q))"
proof -
  let ?m = "if m = [] then buildResponse (pton4 net) (pton6 net) q [] 60 True 0 else m"
  have "relays q (query_id q) ?m" using m relays_build [OF q] by auto
  from relays_truncate [OF this q, of "max 512 (unat (ednsPayload q))"] show ?thesis
    by (auto simp: finishReply_def kClassicUdpPayload_def)
qed

lemma addressReply_relays:
  "parseQuery data = Some (True, q) \<Longrightarrow> addressReply net q res = Some m \<Longrightarrow> m = [] \<or> relays q (query_id q) m"
  using relays_build [of data q] by (auto simp: addressReply_def Let_def split: if_splits)



text \<open>The queue is bounded, and a job is queued or processed only for a datagram that was claimed.\<close>

lemma receive_bounded:
  assumes "receiveDatagram n4 n6 ct tick data peer resolver (datagrams, px) = Some (out, datagrams', px')"
    and "length (jobs px) \<le> kMaxQueuedQueries"
  shows "length (jobs px') \<le> kMaxQueuedQueries \<and>
    (out \<noteq> Rejected \<longrightarrow> (\<exists>address port. endpoint n4 n6 peer = Some (address, port) \<and> fst (datagram_claim address port 0 ct datagrams)))"
  using assms by (auto simp: receiveDatagram_def Let_def case_prod_beta split: option.splits bind_splits if_splits)

end
