(* ===== verification/Socks_Proxy.thy ===== *)
theory Socks_Proxy
  imports Dns_Proxy
begin

text \<open>
  \<open>src/src/SocksProxy.cpp\<close>: how a client says where it wants to go, the accept loop's handling
  of errors, and the bookkeeping of sessions. A connection is the bytes that arrive before the
  deadline of the handshake, what was sent, and whether sending works; in which pieces
  the bytes arrive makes no difference to \<open>recvExact\<close>, and running out of them is a timeout or
  a closed connection. \<open>inet_ntop\<close> is an argument.
\<close>

definition VERSION :: byte where "VERSION = 0x05"
definition AUTH_NONE :: byte where "AUTH_NONE = 0x00"
definition AUTH_REJECT :: byte where "AUTH_REJECT = 0xFF"
definition CMD_CONNECT :: byte where "CMD_CONNECT = 0x01"
definition ATYP_IPV4 :: byte where "ATYP_IPV4 = 0x01"
definition ATYP_DOMAIN :: byte where "ATYP_DOMAIN = 0x03"
definition ATYP_IPV6 :: byte where "ATYP_IPV6 = 0x04"
definition REP_SUCCESS :: byte where "REP_SUCCESS = 0x00"
definition REP_CMD_NOT_SUPPORTED :: byte where "REP_CMD_NOT_SUPPORTED = 0x07"
definition kMaxHeaderLines :: nat where "kMaxHeaderLines = 100"
definition kAcceptBackoffMinMs :: u32 where "kAcceptBackoffMinMs = 10"
definition kAcceptBackoffMaxMs :: u32 where "kAcceptBackoffMaxMs = 1000"
definition kAcceptMaxConsecutiveErrors :: u32 where "kAcceptMaxConsecutiveErrors = 100"

section \<open>Reading and writing\<close>

record Conn =
  incoming :: "byte list"
  outgoing :: "byte list"
  writable :: bool

definition recvExact :: "nat \<Rightarrow> Conn \<Rightarrow> byte list option \<times> Conn" where
  "recvExact n c =
     (if n \<le> length (incoming c) then (Some (take n (incoming c)), c\<lparr>incoming := drop n (incoming c)\<rparr>)
      else (None, c\<lparr>incoming := []\<rparr>))"

fun recvLineLoop :: "string \<Rightarrow> byte list \<Rightarrow> string option \<times> byte list" where
  "recvLineLoop line [] = (None, [])"
| "recvLineLoop line (b # bs) =
     (let line1 = line @ [byte_char b] in
      if length line1 \<ge> 2 \<and> ends_with line1 [CHR 0x0D, CHR 0x0A] then (Some (take (length line1 - 2) line1), bs)
      else if length line1 > 8192 then (None, bs)
      else recvLineLoop line1 bs)"

definition recvLine :: "Conn \<Rightarrow> string option \<times> Conn" where
  "recvLine c = (let (line, rest) = recvLineLoop [] (incoming c) in (line, c\<lparr>incoming := rest\<rparr>))"

definition sendAll :: "byte list \<Rightarrow> Conn \<Rightarrow> bool \<times> Conn" where
  "sendAll bs c = (if writable c then (True, c\<lparr>outgoing := outgoing c @ bs\<rparr>) else (False, c))"

text \<open>\<open>std::from_chars\<close> reads digits only; it must consume the whole text.\<close>

definition parsePort :: "string \<Rightarrow> u16 option" where
  "parsePort digits =
     (if digits \<noteq> [] \<and> list_all isdigit digits \<and> 1 \<le> decValue digits \<and> decValue digits \<le> 65535
      then Some (of_nat (decValue digits)) else None)"

section \<open>SOCKS5\<close>

definition ipv4Text :: "byte list \<Rightarrow> string" where
  "ipv4Text a = dec_digits (unat (a ! 0)) @ ''.'' @ dec_digits (unat (a ! 1)) @ ''.'' @
     dec_digits (unat (a ! 2)) @ ''.'' @ dec_digits (unat (a ! 3))"

definition socksTarget :: "(byte list \<Rightarrow> string) \<Rightarrow> byte \<Rightarrow> Conn \<Rightarrow> string option \<times> Conn" where
  "socksTarget ntop6 atyp c =
     (if atyp = ATYP_IPV4 then (case recvExact 4 c of (Some a, c1) \<Rightarrow> (Some (ipv4Text a), c1) | (None, c1) \<Rightarrow> (None, c1))
      else if atyp = ATYP_DOMAIN then
        (case recvExact 1 c of
           (Some l, c1) \<Rightarrow>
             if l ! 0 = 0 then (None, c1)
             else (case recvExact (unat (l ! 0)) c1 of (Some d, c2) \<Rightarrow> (Some (map byte_char d), c2) | (None, c2) \<Rightarrow> (None, c2))
         | (None, c1) \<Rightarrow> (None, c1))
      else if atyp = ATYP_IPV6 then (case recvExact 16 c of (Some a, c1) \<Rightarrow> (Some (ntop6 a), c1) | (None, c1) \<Rightarrow> (None, c1))
      else (None, c))"

definition socksReply :: "byte \<Rightarrow> byte list" where
  "socksReply code = [VERSION, code, 0, ATYP_IPV4, 0, 0, 0, 0, 0, 0]"

definition socksRequest :: "(byte list \<Rightarrow> string) \<Rightarrow> Conn \<Rightarrow> (string \<times> u16) option \<times> Conn" where
  "socksRequest ntop6 c =
     (case recvExact 4 c of
        (None, c1) \<Rightarrow> (None, c1)
      | (Some req, c1) \<Rightarrow>
          if req ! 0 \<noteq> VERSION then (None, c1)
          else if req ! 1 \<noteq> CMD_CONNECT then (None, snd (sendAll (socksReply REP_CMD_NOT_SUPPORTED) c1))
          else case socksTarget ntop6 (req ! 3) c1 of
            (None, c2) \<Rightarrow> (None, c2)
          | (Some host, c2) \<Rightarrow>
              (case recvExact 2 c2 of
                 (None, c3) \<Rightarrow> (None, c3)
               | (Some p, c3) \<Rightarrow>
                   (case sendAll (socksReply REP_SUCCESS) c3 of
                      (True, c4) \<Rightarrow> (Some (host, be16 (p ! 0) (p ! 1)), c4)
                    | (False, c4) \<Rightarrow> (None, c4))))"

definition socks5Handshake :: "(byte list \<Rightarrow> string) \<Rightarrow> Conn \<Rightarrow> (string \<times> u16) option \<times> Conn" where
  "socks5Handshake ntop6 c =
     (case recvExact 2 c of
        (None, c1) \<Rightarrow> (None, c1)
      | (Some h, c1) \<Rightarrow>
          if h ! 0 \<noteq> VERSION \<or> h ! 1 = 0 then (None, c1)
          else case recvExact (unat (h ! 1)) c1 of
            (None, c2) \<Rightarrow> (None, c2)
          | (Some methods, c2) \<Rightarrow>
              let hasNoAuth = (AUTH_NONE \<in> set methods) in
              (case sendAll [VERSION, if hasNoAuth then AUTH_NONE else AUTH_REJECT] c2 of
                 (False, c3) \<Rightarrow> (None, c3)
               | (True, c3) \<Rightarrow> if hasNoAuth then socksRequest ntop6 c3 else (None, c3)))"

section \<open>HTTP CONNECT\<close>

definition response405 :: string where
  "response405 = ''HTTP/1.1 405 Method Not Allowed'' @ [CHR 0x0D, CHR 0x0A] @ ''Content-Length: 0'' @ [CHR 0x0D, CHR 0x0A] @
     ''Connection: close'' @ [CHR 0x0D, CHR 0x0A, CHR 0x0D, CHR 0x0A]"

definition response200 :: string where
  "response200 = ''HTTP/1.1 200 Connection Established'' @ [CHR 0x0D, CHR 0x0A, CHR 0x0D, CHR 0x0A]"

fun drainHeaders :: "nat \<Rightarrow> Conn \<Rightarrow> Conn" where
  "drainHeaders 0 c = c"
| "drainHeaders (Suc n) c = (case recvLine c of (Some line, c1) \<Rightarrow> if line = [] then c1 else drainHeaders n c1 | (None, c1) \<Rightarrow> c1)"

fun skipHeaders :: "nat \<Rightarrow> Conn \<Rightarrow> bool \<times> Conn" where
  "skipHeaders 0 c = (False, c)"
| "skipHeaders (Suc n) c =
     (case recvLine c of (Some line, c1) \<Rightarrow> if line = [] then (True, c1) else skipHeaders n c1 | (None, c1) \<Rightarrow> (False, c1))"

definition splitLast :: "char \<Rightarrow> string \<Rightarrow> (string \<times> string) option" where
  "splitLast x s = (if x \<in> set s then Some (rev (tl (dropWhile (\<lambda>c. c \<noteq> x) (rev s))), rev (takeWhile (\<lambda>c. c \<noteq> x) (rev s))) else None)"

definition connectHostPort :: "string \<Rightarrow> (string \<times> u16) option" where
  "connectHostPort hostPort =
     (case splitLast CHR '':'' hostPort of
        None \<Rightarrow> None
      | Some (host, digits) \<Rightarrow> if host = [] then None else map_option (\<lambda>p. (host, p)) (parsePort digits))"

definition httpConnectHandshake :: "Conn \<Rightarrow> (string \<times> u16) option \<times> Conn" where
  "httpConnectHandshake c =
     (case recvLine c of
        (None, c1) \<Rightarrow> (None, c1)
      | (Some requestLine, c1) \<Rightarrow>
          if requestLine = [] \<or> CHR '' '' \<notin> set requestLine then (None, c1)
          else let verb = takeWhile (\<lambda>x. x \<noteq> CHR '' '') requestLine;
                   afterMethod = tl (dropWhile (\<lambda>x. x \<noteq> CHR '' '') requestLine) in
            if verb \<noteq> ''CONNECT''
            then (None, snd (sendAll (map char_byte response405) (drainHeaders kMaxHeaderLines c1)))
            else case connectHostPort (takeWhile (\<lambda>x. x \<noteq> CHR '' '') afterMethod) of
              None \<Rightarrow> (None, c1)
            | Some target \<Rightarrow>
                (case skipHeaders kMaxHeaderLines c1 of
                   (False, c2) \<Rightarrow> (None, c2)
                 | (True, c2) \<Rightarrow>
                     (case sendAll (map char_byte response200) c2 of
                        (True, c3) \<Rightarrow> (Some target, c3) | (False, c3) \<Rightarrow> (None, c3))))"

section \<open>Where to\<close>

record Negotiated =
  targetHost :: string
  neg_targetPort :: u16
  originalAddress :: string
  neg_connectPort :: u16

text \<open>A reflected connection is looked up in the flow registry; nothing is read from it.\<close>

definition negotiateTransparent :: "(string \<times> u16) option \<Rightarrow> u64 \<Rightarrow> FlowRegistry \<Rightarrow> Negotiated option \<times> FlowRegistry" where
  "negotiateTransparent peer tick flows =
     (case peer of
        None \<Rightarrow> (None, flows)
      | Some (address, port) \<Rightarrow>
          (case flow_claim address port 0 tick flows of
             (None, flows1) \<Rightarrow> (None, flows1)
           | (Some t, flows1) \<Rightarrow>
               (Some \<lparr>targetHost = target_address t, neg_targetPort = targetPort t, originalAddress = target_address t,
                      neg_connectPort = connectPort t\<rparr>, flows1)))"

definition negotiateManual :: "(byte list \<Rightarrow> string) \<Rightarrow> Conn \<Rightarrow> Negotiated option \<times> Conn" where
  "negotiateManual ntop6 c =
     (case incoming c of
        [] \<Rightarrow> (None, c)
      | firstByte # _ \<Rightarrow>
          let (found, c1) = (if firstByte = VERSION then socks5Handshake ntop6 c
                             else if 65 \<le> firstByte \<and> firstByte \<le> 90 then httpConnectHandshake c else (None, c))
          in (map_option (\<lambda>(host, port). \<lparr>targetHost = host, neg_targetPort = port, originalAddress = [], neg_connectPort = 0\<rparr>) found, c1))"

section \<open>Accepting\<close>

definition WSAENOTSOCK :: int where "WSAENOTSOCK = 10038"
definition WSAEINVAL :: int where "WSAEINVAL = 10022"
definition WSAEBADF :: int where "WSAEBADF = 10009"
definition WSAEOPNOTSUPP :: int where "WSAEOPNOTSUPP = 10045"
definition WSANOTINITIALISED :: int where "WSANOTINITIALISED = 10093"

definition isFatalAcceptError :: "int \<Rightarrow> bool" where
  "isFatalAcceptError error \<longleftrightarrow> error = WSAENOTSOCK \<or> error = WSAEINVAL \<or> error = WSAEBADF \<or>
     error = WSAEOPNOTSUPP \<or> error = WSANOTINITIALISED"

record AcceptState =
  consecutiveErrors :: u32
  backoffMs :: u32

definition freshAccept :: AcceptState where
  "freshAccept = \<lparr>consecutiveErrors = 0, backoffMs = kAcceptBackoffMinMs\<rparr>"

text \<open>A failed accept: \<open>None\<close> gives up, otherwise the time to sleep.\<close>

definition acceptFailed :: "int \<Rightarrow> AcceptState \<Rightarrow> u32 option \<times> AcceptState" where
  "acceptFailed error s =
     (let s1 = s\<lparr>consecutiveErrors := consecutiveErrors s + 1\<rparr> in
      if isFatalAcceptError error \<or> consecutiveErrors s1 > kAcceptMaxConsecutiveErrors then (None, s1)
      else (Some (backoffMs s1), s1\<lparr>backoffMs := min (backoffMs s1 * 2) kAcceptBackoffMaxMs\<rparr>))"

section \<open>Sessions\<close>

record Session =
  hasSocket :: bool
  hasRelay :: bool
  cancelled :: bool

record Proxy =
  maxConnections :: nat
  sessions :: "(u64, Session) table"
  finished :: "u64 list"
  nextSessionId :: u64
  rejected :: u64
  sx_running :: bool
  stopRequested :: bool

definition newProxy :: "nat \<Rightarrow> Proxy" where
  "newProxy limit = \<lparr>maxConnections = (if limit = 0 then 1 else limit), sessions = [], finished = [], nextSessionId = 1,
     rejected = 0, sx_running = False, stopRequested = False\<rparr>"

definition startListening :: "Proxy \<Rightarrow> bool \<times> Proxy" where
  "startListening px = (if stopRequested px then (False, px) else (True, px\<lparr>sx_running := True\<rparr>))"

definition reapFinished :: "Proxy \<Rightarrow> Proxy" where
  "reapFinished px = px\<lparr>finished := []\<rparr>"

text \<open>\<open>started\<close>: whether the thread of the session could be created.\<close>

definition spawnSession :: "bool \<Rightarrow> Proxy \<Rightarrow> bool \<times> Proxy" where
  "spawnSession started px =
     (let px1 = reapFinished px in
      if \<not> sx_running px1 \<or> length (sessions px1) \<ge> maxConnections px1 then (False, px1\<lparr>rejected := rejected px1 + 1\<rparr>)
      else let sid = nextSessionId px1;
               px2 = px1\<lparr>nextSessionId := sid + 1\<rparr> in
        if started then (True, px2\<lparr>sessions := (sid, \<lparr>hasSocket = True, hasRelay = False, cancelled = False\<rparr>) # sessions px2\<rparr>)
        else (False, px2))"

definition updateSession :: "u64 \<Rightarrow> (Session \<Rightarrow> Session) \<Rightarrow> Proxy \<Rightarrow> Proxy" where
  "updateSession sid f px = px\<lparr>sessions := map (\<lambda>(k, s). (k, if k = sid then f s else s)) (sessions px)\<rparr>"

text \<open>The steps of \<open>serve\<close>: the handshake failed, the relay takes over, the relay is done.\<close>

definition handshakeFailed :: "u64 \<Rightarrow> Proxy \<Rightarrow> Proxy" where
  "handshakeFailed sid = updateSession sid (\<lambda>s. s\<lparr>hasSocket := False\<rparr>)"

definition handOver :: "u64 \<Rightarrow> Proxy \<Rightarrow> Proxy" where
  "handOver sid = updateSession sid (\<lambda>s. if cancelled s then s\<lparr>hasSocket := False\<rparr> else s\<lparr>hasSocket := False, hasRelay := True\<rparr>)"

definition relayDone :: "u64 \<Rightarrow> Proxy \<Rightarrow> Proxy" where
  "relayDone sid = updateSession sid (\<lambda>s. s\<lparr>hasRelay := False\<rparr>)"

definition sessionEnd :: "u64 \<Rightarrow> Proxy \<Rightarrow> Proxy" where
  "sessionEnd sid px =
     (if sid \<notin> set (keys (sessions px)) then px
      else px\<lparr>finished := [sid], sessions := AList.delete sid (sessions px)\<rparr>)"

text \<open>What \<open>cancel\<close> does to a session: it stops its relay or shuts its socket down.\<close>

datatype CancelAction = StopRelay | ShutdownSocket | NothingToCancel

definition cancelAction :: "Session \<Rightarrow> CancelAction" where
  "cancelAction s = (if hasRelay s then StopRelay else if hasSocket s then ShutdownSocket else NothingToCancel)"

definition stopProxySessions :: "Proxy \<Rightarrow> (u64 \<times> CancelAction) list \<times> Proxy" where
  "stopProxySessions px =
     (map (\<lambda>(k, s). (k, cancelAction s)) (sessions px),
      px\<lparr>stopRequested := True, sx_running := False, sessions := map (\<lambda>(k, s). (k, s\<lparr>cancelled := True\<rparr>)) (sessions px)\<rparr>)"

definition activeConnections :: "Proxy \<Rightarrow> nat" where
  "activeConnections px = length (sessions px)"

section \<open>The SOCKS5 conversation\<close>

lemma recvExact_Some:
  "recvExact n c = (Some bs, c') \<longleftrightarrow> (\<exists>rest. incoming c = bs @ rest \<and> length bs = n \<and> c' = c\<lparr>incoming := rest\<rparr>)"
  by (auto simp: recvExact_def intro: exI [of _ "drop n (incoming c)"])

lemma recvExact_append: "length bs = n \<Longrightarrow> incoming c = bs @ rest \<Longrightarrow> recvExact n c = (Some bs, c\<lparr>incoming := rest\<rparr>)"
  by (auto simp: recvExact_Some)

lemma recvExact_then:
  "(case recvExact n c of (Some a, c1) \<Rightarrow> (Some (g a), c1) | (None, c1) \<Rightarrow> (None, c1)) = (Some x, c') \<longleftrightarrow>
   (\<exists>bs rest. incoming c = bs @ rest \<and> length bs = n \<and> x = g bs \<and> c' = c\<lparr>incoming := rest\<rparr>)"
proof
  assume l: "(case recvExact n c of (Some a, c1) \<Rightarrow> (Some (g a), c1) | (None, c1) \<Rightarrow> (None, c1)) = (Some x, c')"
  obtain r c1 where r: "recvExact n c = (r, c1)" by fastforce
  obtain a where a: "r = Some a" using l by (cases r) (simp_all add: r)
  show "\<exists>bs rest. incoming c = bs @ rest \<and> length bs = n \<and> x = g bs \<and> c' = c\<lparr>incoming := rest\<rparr>"
    using l r recvExact_Some [of n c a c1] by (auto simp: a)
next
  assume "\<exists>bs rest. incoming c = bs @ rest \<and> length bs = n \<and> x = g bs \<and> c' = c\<lparr>incoming := rest\<rparr>"
  then show "(case recvExact n c of (Some a, c1) \<Rightarrow> (Some (g a), c1) | (None, c1) \<Rightarrow> (None, c1)) = (Some x, c')"
    by (auto simp: recvExact_def)
qed

text \<open>The address part of a request and the host it names.\<close>

definition addressPart :: "(byte list \<Rightarrow> string) \<Rightarrow> byte \<Rightarrow> byte list \<Rightarrow> string \<Rightarrow> bool" where
  "addressPart ntop6 atyp bs host \<longleftrightarrow>
     (atyp = ATYP_IPV4 \<and> length bs = 4 \<and> host = ipv4Text bs) \<or>
     (atyp = ATYP_IPV6 \<and> length bs = 16 \<and> host = ntop6 bs) \<or>
     (atyp = ATYP_DOMAIN \<and> bs \<noteq> [] \<and> hd bs \<noteq> 0 \<and> length bs = Suc (unat (hd bs)) \<and> host = map byte_char (tl bs))"

lemma socksTarget_exact:
  "socksTarget ntop6 atyp c = (Some host, c') \<longleftrightarrow>
   (\<exists>bs rest. incoming c = bs @ rest \<and> addressPart ntop6 atyp bs host \<and> c' = c\<lparr>incoming := rest\<rparr>)"
proof (cases "atyp = ATYP_DOMAIN")
  case False
  then show ?thesis
    using recvExact_then [where n = 4 and c = c and g = ipv4Text and x = host and c' = c']
      recvExact_then [where n = 16 and c = c and g = ntop6 and x = host and c' = c']
    by (auto simp: socksTarget_def addressPart_def ATYP_IPV4_def ATYP_IPV6_def ATYP_DOMAIN_def)
next
  case True
  show ?thesis
  proof
    assume "socksTarget ntop6 atyp c = (Some host, c')"
    then obtain l c1 d where l: "recvExact 1 c = (Some l, c1)" "l ! 0 \<noteq> 0"
      and d: "recvExact (unat (l ! 0)) c1 = (Some d, c')" "host = map byte_char d"
      using True by (auto simp: socksTarget_def ATYP_IPV4_def ATYP_DOMAIN_def split: prod.splits option.splits if_splits)
    obtain x where x: "l = [x]" using l(1) by (auto simp: recvExact_Some length_Suc_conv)
    show "\<exists>bs rest. incoming c = bs @ rest \<and> addressPart ntop6 atyp bs host \<and> c' = c\<lparr>incoming := rest\<rparr>"
    proof -
      obtain rest where "incoming c = (x # d) @ rest" "length d = unat x" "c' = c\<lparr>incoming := rest\<rparr>"
        using l(1) d(1) by (auto simp: recvExact_Some x)
      then show ?thesis using l(2) d(2) True by (intro exI [of _ "x # d"] exI [of _ rest]) (simp add: x addressPart_def)
    qed
  next
    assume "\<exists>bs rest. incoming c = bs @ rest \<and> addressPart ntop6 atyp bs host \<and> c' = c\<lparr>incoming := rest\<rparr>"
    then obtain x d rest where b: "incoming c = [x] @ d @ rest" "x \<noteq> 0" "length d = unat x" "host = map byte_char d" "c' = c\<lparr>incoming := rest\<rparr>"
      using True by (auto simp: addressPart_def ATYP_IPV4_def ATYP_IPV6_def ATYP_DOMAIN_def neq_Nil_conv)
    then show "socksTarget ntop6 atyp c = (Some host, c')"
      using True recvExact_append [of "[x]" 1 c "d @ rest"] recvExact_append [of d "unat x" "c\<lparr>incoming := d @ rest\<rparr>" rest]
      by (simp add: socksTarget_def ATYP_IPV4_def ATYP_DOMAIN_def)
  qed
qed

lemma socksRequest_exact:
  assumes "writable c"
  shows "socksRequest ntop6 c = (Some (host, port), c') \<longleftrightarrow>
    (\<exists>reserved atyp address rest. incoming c = [5, 1, reserved, atyp] @ address @ [hi8 port, lo8 port] @ rest \<and>
       addressPart ntop6 atyp address host \<and> c' = c\<lparr>incoming := rest, outgoing := outgoing c @ socksReply REP_SUCCESS\<rparr>)"
  (is "?accepts \<longleftrightarrow> ?spoken")
proof
  assume ?accepts
  then obtain req c1 c2 p c3 where
    r: "recvExact 4 c = (Some req, c1)" "req ! 0 = 5" "req ! 1 = 1" "socksTarget ntop6 (req ! 3) c1 = (Some host, c2)"
      "recvExact 2 c2 = (Some p, c3)" "sendAll (socksReply REP_SUCCESS) c3 = (True, c')" "port = be16 (p ! 0) (p ! 1)"
    by (auto simp: socksRequest_def VERSION_def CMD_CONNECT_def split: prod.splits option.splits if_splits bool.splits)
  obtain rest1 where rest1: "incoming c = req @ rest1" "length req = 4" "c1 = c\<lparr>incoming := rest1\<rparr>"
    using r(1) unfolding recvExact_Some by blast
  obtain address rest2 where rest2: "rest1 = address @ rest2" "addressPart ntop6 (req ! 3) address host" "c2 = c\<lparr>incoming := rest2\<rparr>"
    using r(4) unfolding socksTarget_exact by (auto simp: rest1(3))
  obtain rest3 where rest3: "rest2 = p @ rest3" "length p = 2" "c3 = c\<lparr>incoming := rest3\<rparr>"
    using r(5) unfolding recvExact_Some by (auto simp: rest2(3))
  have req: "req = [5, 1, req ! 2, req ! 3]"
    using rest1(2) r(2,3) by (auto simp: list_eq_iff_nth_eq less_Suc_eq numeral_eq_Suc nth_Cons')
  have p: "p = [hi8 port, lo8 port]"
    using rest3(2) by (auto simp: r(7) list_eq_iff_nth_eq less_Suc_eq numeral_eq_Suc nth_Cons')
  have "incoming c = [5, 1, req ! 2, req ! 3] @ address @ [hi8 port, lo8 port] @ rest3"
    unfolding rest1(1) rest2(1) rest3(1) using req p by (metis append_assoc)
  moreover have "c' = c\<lparr>incoming := rest3, outgoing := outgoing c @ socksReply REP_SUCCESS\<rparr>"
    using r(6) assms by (simp add: rest3(3) sendAll_def)
  ultimately show ?spoken using rest2(2) by blast
next
  assume ?spoken
  then obtain reserved atyp address rest where
    i: "incoming c = [5, 1, reserved, atyp] @ address @ [hi8 port, lo8 port] @ rest" and a: "addressPart ntop6 atyp address host"
    and c': "c' = c\<lparr>incoming := rest, outgoing := outgoing c @ socksReply REP_SUCCESS\<rparr>" by blast
  have 1: "recvExact 4 c = (Some [5, 1, reserved, atyp], c\<lparr>incoming := address @ [hi8 port, lo8 port] @ rest\<rparr>)"
    by (rule recvExact_append) (use i in simp_all)
  have 2: "socksTarget ntop6 atyp (c\<lparr>incoming := address @ [hi8 port, lo8 port] @ rest\<rparr>) =
      (Some host, c\<lparr>incoming := [hi8 port, lo8 port] @ rest\<rparr>)"
    unfolding socksTarget_exact using a by (intro exI [of _ address] exI [of _ "[hi8 port, lo8 port] @ rest"]) simp
  have 3: "recvExact 2 (c\<lparr>incoming := [hi8 port, lo8 port] @ rest\<rparr>) = (Some [hi8 port, lo8 port], c\<lparr>incoming := rest\<rparr>)"
    using recvExact_append [of "[hi8 port, lo8 port]" 2 "c\<lparr>incoming := [hi8 port, lo8 port] @ rest\<rparr>" rest] by simp
  show ?accepts
    unfolding socksRequest_def 1 using assms c'
    by (simp add: 2 [simplified] 3 [simplified] VERSION_def CMD_CONNECT_def sendAll_def)
qed

text \<open>
  C37. The SOCKS5 handshake accepts exactly the requests of RFC 1928 without authentication. On a
  connection that can be written to, it succeeds with a host and a port if and only if the client
  sent a greeting that offers "no authentication" followed by a CONNECT request for that host and
  port; it answers with the two replies of the protocol, and every byte after the request, the
  ClientHello, stays unread for the relay.
\<close>

theorem socks5Handshake_exact:
  assumes "writable c"
  shows "socks5Handshake ntop6 c = (Some (host, port), c') \<longleftrightarrow>
    (\<exists>methods reserved atyp address rest.
       incoming c = [5, of_nat (length methods)] @ methods @ [5, 1, reserved, atyp] @ address @ [hi8 port, lo8 port] @ rest \<and>
       methods \<noteq> [] \<and> length methods < 256 \<and> 0 \<in> set methods \<and> addressPart ntop6 atyp address host \<and>
       c' = c\<lparr>incoming := rest, outgoing := outgoing c @ [5, 0] @ [5, 0, 0, 1, 0, 0, 0, 0, 0, 0]\<rparr>)"
  (is "?accepts \<longleftrightarrow> ?spoken")
proof
  have reply: "socksReply REP_SUCCESS = [5, 0, 0, 1, 0, 0, 0, 0, 0, 0]"
    by (simp add: socksReply_def REP_SUCCESS_def VERSION_def ATYP_IPV4_def)
  note names = VERSION_def AUTH_NONE_def sendAll_def
  show ?spoken if acc: ?accepts
  proof -
    obtain h c1 methods c2 where
      r: "recvExact 2 c = (Some h, c1)" "h ! 0 = 5" "h ! 1 \<noteq> 0" "recvExact (unat (h ! 1)) c1 = (Some methods, c2)" "0 \<in> set methods"
        "socksRequest ntop6 (snd (sendAll [5, 0] c2)) = (Some (host, port), c')"
      using acc by (auto simp: socks5Handshake_def VERSION_def AUTH_NONE_def Let_def split: prod.splits option.splits if_splits bool.splits)
    obtain rest1 where rest1: "incoming c = h @ rest1" "length h = 2" "c1 = c\<lparr>incoming := rest1\<rparr>"
      using r(1) unfolding recvExact_Some by blast
    obtain rest2 where rest2: "rest1 = methods @ rest2" "length methods = unat (h ! 1)" "c2 = c\<lparr>incoming := rest2\<rparr>"
      using r(4) unfolding recvExact_Some by (auto simp: rest1(3))
    have h: "h = [5, of_nat (length methods)]"
      using rest1(2) r(2) rest2(2) by (auto simp: list_eq_iff_nth_eq less_Suc_eq numeral_eq_Suc nth_Cons')
    have m: "methods \<noteq> []" "length methods < 256" using r(5) rest2(2) unsigned_less [of "h ! 1"] by auto
    let ?c = "c\<lparr>incoming := rest2, outgoing := outgoing c @ [5, 0]\<rparr>"
    have "snd (sendAll [5, 0] c2) = ?c" using assms by (simp add: rest2(3) sendAll_def)
    then obtain reserved atyp address rest where "rest2 = [5, 1, reserved, atyp] @ address @ [hi8 port, lo8 port] @ rest"
      "addressPart ntop6 atyp address host" "c' = ?c\<lparr>incoming := rest, outgoing := outgoing ?c @ socksReply REP_SUCCESS\<rparr>"
      using r(6) socksRequest_exact [of ?c ntop6 host port c'] assms by auto
    then show ?thesis using h m r(5) rest1(1) rest2(1) by (simp add: reply) blast
  qed
  show ?accepts if said: ?spoken
  proof -
    obtain methods reserved atyp address rest where
      i: "incoming c = [5, of_nat (length methods)] @ methods @ [5, 1, reserved, atyp] @ address @ [hi8 port, lo8 port] @ rest"
      and m: "methods \<noteq> []" "length methods < 256" "0 \<in> set methods" and a: "addressPart ntop6 atyp address host"
      and c': "c' = c\<lparr>incoming := rest, outgoing := outgoing c @ [5, 0] @ [5, 0, 0, 1, 0, 0, 0, 0, 0, 0]\<rparr>"
      using said by blast
    let ?tail = "[5, 1, reserved, atyp] @ address @ [hi8 port, lo8 port] @ rest"
    have n: "unat (of_nat (length methods) :: byte) = length methods" using m(2) by (simp add: unat_of_nat)
    then have n0: "(of_nat (length methods) :: byte) \<noteq> 0" using m(1) by auto
    have 1: "recvExact 2 c = (Some [5, of_nat (length methods)], c\<lparr>incoming := methods @ ?tail\<rparr>)"
      by (rule recvExact_append) (use i in simp_all)
    have 2: "recvExact (length methods) (c\<lparr>incoming := methods @ ?tail\<rparr>) = (Some methods, c\<lparr>incoming := ?tail\<rparr>)"
      using recvExact_append [of methods "length methods" "c\<lparr>incoming := methods @ ?tail\<rparr>" ?tail] by simp
    let ?c = "c\<lparr>incoming := ?tail, outgoing := outgoing c @ [5, 0]\<rparr>"
    have "socksRequest ntop6 ?c = (Some (host, port), c')"
    proof -
      have w: "writable ?c" using assms by simp
      show ?thesis
        unfolding socksRequest_exact [OF w]
        by (rule exI [of _ reserved], rule exI [of _ atyp], rule exI [of _ address], rule exI [of _ rest])
          (use a c' in \<open>simp add: reply\<close>)
    qed
    then show ?thesis
      unfolding socks5Handshake_def 1 using assms m(3) n n0 2 by (simp add: names)
  qed
qed

definition sampleConn :: Conn where
  "sampleConn = \<lparr>incoming = [5, 1, 0] @ [5, 1, 0, 3] @ [3, 97, 46, 98] @ [1, 187] @ [22, 3, 1], outgoing = [], writable = True\<rparr>"

theorem socks5Handshake_exact_witness:
  "writable sampleConn \<and> fst (socks5Handshake (\<lambda>_. []) sampleConn) = Some (''a.b'', 443) \<and>
   incoming (snd (socks5Handshake (\<lambda>_. []) sampleConn)) = [22, 3, 1]"
proof -
  let ?c = "sampleConn\<lparr>incoming := [22, 3, 1], outgoing := outgoing sampleConn @ [5, 0] @ [5, 0, 0, 1, 0, 0, 0, 0, 0, 0]\<rparr>"
  have w: "writable sampleConn" by code_simp
  have a: "addressPart (\<lambda>_. []) 3 [3, 97, 46, 98] ''a.b''" by code_simp
  have p: "[hi8 443, lo8 443] = [1, 187]" by code_simp
  have "socks5Handshake (\<lambda>_. []) sampleConn = (Some (''a.b'', 443), ?c)"
    unfolding socks5Handshake_exact [OF w] p using a
    by (intro exI [of _ "[0]"] exI [of _ 0] exI [of _ 3] exI [of _ "[3, 97, 46, 98]"] exI [of _ "[22, 3, 1]"])
      (simp add: sampleConn_def)
  then show ?thesis using w by simp
qed

section \<open>Bounded sessions\<close>

datatype session_op =
    Listen | AcceptClient bool | HandshakeFailed u64 | HandOver u64 | RelayDone u64 | SessionEnd u64 | StopProxy

fun session_step :: "session_op \<Rightarrow> Proxy \<Rightarrow> Proxy" where
  "session_step Listen px = snd (startListening px)"
| "session_step (AcceptClient started) px = snd (spawnSession started px)"
| "session_step (HandshakeFailed sid) px = handshakeFailed sid px"
| "session_step (HandOver sid) px = handOver sid px"
| "session_step (RelayDone sid) px = relayDone sid px"
| "session_step (SessionEnd sid) px = sessionEnd sid px"
| "session_step StopProxy px = snd (stopProxySessions px)"

definition session_reorder :: "Proxy \<Rightarrow> Proxy \<Rightarrow> bool" where
  "session_reorder px px' \<longleftrightarrow> (\<exists>t. mset t = mset (sessions px) \<and> px' = px\<lparr>sessions := t\<rparr>)"

definition session_inv :: "nat \<Rightarrow> Proxy \<Rightarrow> bool" where
  "session_inv limit px \<longleftrightarrow> maxConnections px = max 1 limit \<and> length (sessions px) \<le> maxConnections px \<and> length (finished px) \<le> 1 \<and>
     (stopRequested px \<longrightarrow> \<not> sx_running px \<and> (\<forall>(k, s) \<in> set (sessions px). cancelled s))"

interpretation session_history: machine session_step session_reorder "session_inv limit" for limit
proof
  show "session_inv limit px \<Longrightarrow> session_inv limit (session_step op px)" for px op
  proof -
    assume inv: "session_inv limit px"
    show ?thesis
    proof (cases op)
      case (SessionEnd sid)
      then show ?thesis
        using inv by (auto simp: session_inv_def sessionEnd_def set_delete_alist intro: order_trans [OF length_delete_alist_le])
    qed (use inv in \<open>auto simp: session_inv_def updateSession_def startListening_def spawnSession_def reapFinished_def
        handshakeFailed_def handOver_def relayDone_def stopProxySessions_def Let_def\<close>)
  qed
  show "session_inv limit px \<Longrightarrow> session_reorder px px' \<Longrightarrow> session_inv limit px'" for px px'
  proof -
    assume inv: "session_inv limit px" and "session_reorder px px'"
    then obtain t where t: "mset t = mset (sessions px)" and px': "px' = px\<lparr>sessions := t\<rparr>"
      by (auto simp: session_reorder_def)
    have "set t = set (sessions px)" "length t = length (sessions px)"
      using t by (rule mset_eq_setD, rule mset_eq_length)
    then show ?thesis using inv by (simp add: session_inv_def px')
  qed
qed

text \<open>
  In every history there are at most as many sessions as configured (at least one), at most one
  thread waits to be joined, and after a stop no session starts a relay and none is accepted.
\<close>

lemma sessions_bounded:
  assumes "reach session_step session_reorder (newProxy limit) px"
  shows "activeConnections px \<le> max 1 limit \<and> length (finished px) \<le> 1 \<and>
    (stopRequested px \<longrightarrow> \<not> fst (spawnSession started px) \<and>
       (\<forall>(k, s) \<in> set (sessions (handOver sid px)). hasRelay s \<longrightarrow> (\<exists>s0. (k, s0) \<in> set (sessions px) \<and> hasRelay s0)))"
proof -
  have inv: "session_inv limit px"
    by (rule session_history.reach_inv [OF assms]) (simp add: session_inv_def newProxy_def)
  then show ?thesis
    by (fastforce simp: session_inv_def activeConnections_def spawnSession_def reapFinished_def handOver_def updateSession_def Let_def
        split: if_splits)
qed

end
