(* ===== verification/Connect_Race.thy ===== *)
theory Connect_Race
  imports Prelude
begin

text \<open>
  \<open>tcp::connectAny\<close> of \<open>src/src/TcpConnect.cpp\<close>: the addresses of a host race for the first
  completed handshake. Sockets are numbered in the order of their creation, and the state
  keeps the numbers of those that were closed. The environment answers one turn of the loop
  at a time: the clock, whether a connect could be begun and what \<open>select()\<close> reports, for a
  signalled socket whether it is writable and its pending error.
\<close>

definition kMaxParallelAttempts :: nat where "kMaxParallelAttempts = 8"

type_synonym racer = "nat \<times> string"

record Race =
  racers :: "racer list"
  nextCandidate :: nat
  nextStartAt :: u64
  opened :: nat
  closedSocks :: "nat list"

definition newRace :: Race where
  "newRace = \<lparr>racers = [], nextCandidate = 0, nextStartAt = 0, opened = 0, closedSocks = []\<rparr>"

datatype RaceSelect = RaceError | RaceTimeout | RaceReady "(nat \<times> bool \<times> int) list"

record RaceTurn =
  race_now :: u64
  beginOk :: bool
  race_select :: RaceSelect

text \<open>The loop over the signalled sockets: the winner, who is left, who was closed, the next start.\<close>

fun scanRacers :: "(nat \<times> bool \<times> int) list \<Rightarrow> u64 \<Rightarrow> racer list \<Rightarrow> racer option \<times> racer list \<times> nat list \<times> u64" where
  "scanRacers signals start [] = (None, [], [], start)"
| "scanRacers signals start ((sock, address) # rest) =
     (case map_of signals sock of
        None \<Rightarrow> (case scanRacers signals start rest of (w, left, gone, n) \<Rightarrow> (w, (sock, address) # left, gone, n))
      | Some (writable, soError) \<Rightarrow>
          if writable \<and> soError = 0 then (Some (sock, address), rest, [], start)
          else case scanRacers signals 0 rest of (w, left, gone, n) \<Rightarrow> (w, left, sock # gone, n))"

definition startAttempt :: "string list \<Rightarrow> u64 \<Rightarrow> RaceTurn \<Rightarrow> Race \<Rightarrow> Race" where
  "startAttempt addresses attemptDelayMs t r =
     (let r1 = r\<lparr>nextCandidate := nextCandidate r + 1\<rparr> in
      if beginOk t
      then r1\<lparr>racers := racers r @ [(opened r, addresses ! nextCandidate r)], opened := opened r + 1,
              nextStartAt := race_now t + attemptDelayMs\<rparr>
      else r1)"

datatype RaceStep = Racing | Over | Won racer

definition raceTurn :: "string list \<Rightarrow> u64 \<Rightarrow> u64 \<Rightarrow> RaceTurn \<Rightarrow> Race \<Rightarrow> RaceStep \<times> Race" where
  "raceTurn addresses attemptDelayMs deadline t r =
     (let candidatesLeft = nextCandidate r < length addresses in
      if race_now t \<ge> deadline then (Over, r)
      else if candidatesLeft \<and> length (racers r) < kMaxParallelAttempts \<and> race_now t \<ge> nextStartAt r
      then (Racing, startAttempt addresses attemptDelayMs t r)
      else if racers r = [] then (if candidatesLeft then Racing else Over, r)
      else case race_select t of
        RaceError \<Rightarrow> (Over, r)
      | RaceTimeout \<Rightarrow> (Racing, r)
      | RaceReady signals \<Rightarrow>
          let (w, left, gone, n) = scanRacers signals (nextStartAt r) (racers r) in
          (case w of Some racer \<Rightarrow> Won racer | None \<Rightarrow> Racing,
           r\<lparr>racers := left, closedSocks := closedSocks r @ gone, nextStartAt := n\<rparr>))"

fun raceLoop :: "string list \<Rightarrow> u64 \<Rightarrow> u64 \<Rightarrow> RaceTurn list \<Rightarrow> Race \<Rightarrow> (racer option \<times> Race) option" where
  "raceLoop addresses attemptDelayMs deadline [] r = None"
| "raceLoop addresses attemptDelayMs deadline (t # ts) r =
     (case raceTurn addresses attemptDelayMs deadline t r of
        (Racing, r1) \<Rightarrow> raceLoop addresses attemptDelayMs deadline ts r1
      | (Over, r1) \<Rightarrow> Some (None, r1)
      | (Won racer, r1) \<Rightarrow> Some (Some racer, r1))"

text \<open>
  The whole call; \<open>None\<close> while it has not returned. The clock is read once before the loop,
  and \<open>blockingOk\<close> says whether the winner can be made blocking again.
\<close>

definition connectAny :: "string list \<Rightarrow> u32 \<Rightarrow> u32 \<Rightarrow> u64 \<Rightarrow> RaceTurn list \<Rightarrow> bool \<Rightarrow> (racer option \<times> Race) option" where
  "connectAny addresses attemptDelayMs totalTimeoutMs start turns blockingOk =
     (if addresses = [] then Some (None, newRace)
      else map_option (\<lambda>(w, r).
          let r1 = r\<lparr>racers := [], closedSocks := closedSocks r @ map fst (racers r)\<rparr> in
          case w of
            None \<Rightarrow> (None, r1)
          | Some (sock, address) \<Rightarrow>
              if blockingOk then (w, r1) else (None, r1\<lparr>closedSocks := closedSocks r1 @ [sock]\<rparr>))
        (raceLoop addresses (ucast attemptDelayMs) (start + ucast totalTimeoutMs) turns newRace))"

section \<open>Every socket is accounted for\<close>

text \<open>The open sockets, the closed ones and the winner are all that were created, each once.\<close>

definition race_ok :: "string list \<Rightarrow> nat list \<Rightarrow> Race \<Rightarrow> bool" where
  "race_ok addresses winner r \<longleftrightarrow>
     mset (map fst (racers r)) + mset (closedSocks r) + mset winner = mset [0..<opened r] \<and>
     snd ` set (racers r) \<subseteq> set addresses \<and> length (racers r) \<le> kMaxParallelAttempts \<and>
     opened r \<le> nextCandidate r \<and> nextCandidate r \<le> length addresses \<and>
     (winner = [] \<and> racers r = [] \<longrightarrow> nextStartAt r = 0)"

lemma scanRacers_ok:
  "scanRacers signals start xs = (w, left, gone, n) \<Longrightarrow>
     mset (map fst left) + mset gone + mset (case w of None \<Rightarrow> [] | Some x \<Rightarrow> [fst x]) = mset (map fst xs) \<and>
     set left \<subseteq> set xs \<and> set_option w \<subseteq> set xs \<and> length left \<le> length xs \<and>
     (w = None \<and> left = [] \<and> xs \<noteq> [] \<longrightarrow> n = 0) \<and> (start = 0 \<longrightarrow> n = 0)"
  by (induction signals start xs arbitrary: w left gone n rule: scanRacers.induct)
    (fastforce split: option.splits prod.splits if_splits)+

lemma raceTurn_ok:
  assumes "race_ok addresses [] r" and "raceTurn addresses delay deadline t r = (s, r')"
  shows "case s of Won x \<Rightarrow> race_ok addresses [fst x] r' \<and> snd x \<in> set addresses | _ \<Rightarrow> race_ok addresses [] r'"
proof -
  consider (start) "s = Racing" "r' = startAttempt addresses delay t r" "nextCandidate r < length addresses" "length (racers r) < kMaxParallelAttempts"
    | (same) "r' = r" "s = Racing \<or> s = Over"
    | (scan) signals where "racers r \<noteq> []" "race_select t = RaceReady signals"
        "(s, r') = (let (w, left, gone, n) = scanRacers signals (nextStartAt r) (racers r) in
          (case w of Some racer \<Rightarrow> Won racer | None \<Rightarrow> Racing,
           r\<lparr>racers := left, closedSocks := closedSocks r @ gone, nextStartAt := n\<rparr>))"
    using assms(2) by (auto simp: raceTurn_def Let_def split: if_splits RaceSelect.splits)
  then show ?thesis
  proof cases
    case start
    then show ?thesis using assms(1) by (auto simp: race_ok_def startAttempt_def Let_def simp del: mset_upt)
  next
    case same
    then show ?thesis using assms(1) by auto
  next
    case (scan signals)
    obtain w left gone n where sc: "scanRacers signals (nextStartAt r) (racers r) = (w, left, gone, n)" by (metis prod_cases4)
    note ok = scanRacers_ok [OF sc]
    have r': "r' = r\<lparr>racers := left, closedSocks := closedSocks r @ gone, nextStartAt := n\<rparr>"
      and s: "s = (case w of Some racer \<Rightarrow> Won racer | None \<Rightarrow> Racing)"
      using scan(3) by (simp_all add: sc)
    have m: "mset (map fst left) + mset (closedSocks r @ gone) + mset (case w of None \<Rightarrow> [] | Some x \<Rightarrow> [fst x]) = mset [0..<opened r]"
    proof -
      have "mset (map fst (racers r)) + mset (closedSocks r) = mset [0..<opened r]" using assms(1) by (simp add: race_ok_def)
      then show ?thesis
        unfolding conjunct1 [OF ok, symmetric] by (simp add: ac_simps del: mset_upt)
    qed
    show ?thesis
      using ok m assms(1) scan(1) unfolding r' s race_ok_def by (cases w) (fastforce+)
  qed
qed

lemma raceLoop_ok:
  "race_ok addresses [] r \<Longrightarrow> raceLoop addresses delay deadline turns r = Some (w, r') \<Longrightarrow>
     race_ok addresses (case w of None \<Rightarrow> [] | Some x \<Rightarrow> [fst x]) r' \<and> (\<forall>x \<in> set_option w. snd x \<in> set addresses)"
proof (induction turns arbitrary: r)
  case (Cons t ts)
  obtain s r1 where s: "raceTurn addresses delay deadline t r = (s, r1)" by fastforce
  show ?case
    using Cons.IH [of r1] Cons.prems(2) raceTurn_ok [OF Cons.prems(1) s] by (cases s) (auto simp: s)
qed simp

lemma race_ok_new [simp]: "race_ok addresses [] newRace"
  by (simp add: race_ok_def newRace_def)

lemma mset_upt_split:
  assumes "mset xs + mset ys = mset [0..<n]"
  shows "distinct xs \<and> set xs = {..<n} - set ys"
proof -
  have d: "distinct (xs @ ys)" using assms by (metis distinct_upt mset_append mset_eq_imp_distinct_iff)
  have "set (xs @ ys) = {0..<n}" using assms by (metis mset_append mset_eq_setD set_upt)
  then show ?thesis using d by auto
qed

text \<open>
  The race leaks no socket: when it returns, every socket it created has been closed
  exactly once, except the one it returns, which was connected to one of the given addresses.
  No address is tried twice.
\<close>

lemma connectAny_no_leak:
  assumes "connectAny addresses attemptDelayMs totalTimeoutMs start turns blockingOk = Some (winner, r)"
  shows "distinct (closedSocks r) \<and> set (closedSocks r) = {..<opened r} - fst ` set_option winner \<and>
    racers r = [] \<and> opened r \<le> length addresses \<and>
    (case winner of None \<Rightarrow> True | Some (sock, address) \<Rightarrow> sock < opened r \<and> address \<in> set addresses)"
proof (cases "addresses = []")
  case True
  then show ?thesis using assms by (auto simp: connectAny_def newRace_def)
next
  case False
  then obtain w r0 where loop: "raceLoop addresses (ucast attemptDelayMs) (start + ucast totalTimeoutMs) turns newRace = Some (w, r0)"
    using assms by (auto simp: connectAny_def)
  let ?w = "case w of None \<Rightarrow> [] | Some x \<Rightarrow> [fst x]"
  have ok: "race_ok addresses ?w r0" "\<forall>x \<in> set_option w. snd x \<in> set addresses"
    using raceLoop_ok [OF race_ok_new loop] by auto
  have 1: "mset (closedSocks r0 @ map fst (racers r0)) + mset ?w = mset [0..<opened r0]"
    using ok(1) by (simp add: race_ok_def ac_simps del: mset_upt)
  have 2: "mset (closedSocks r0 @ map fst (racers r0) @ ?w) + mset [] = mset [0..<opened r0]"
    using ok(1) by (simp add: race_ok_def ac_simps del: mset_upt)
  have w: "set ?w \<subseteq> {..<opened r0}" using mset_upt_split [OF 2] by auto
  have "opened r0 \<le> length addresses" using ok(1) by (simp add: race_ok_def)
  then show ?thesis
    using assms False loop ok(2) w mset_upt_split [OF 1] mset_upt_split [OF 2]
    by (auto simp: connectAny_def Let_def split: option.splits if_splits prod.splits)
qed

text \<open>A turn that reads the clock at or past the deadline ends the race, if it was still on.\<close>

lemma connectAny_returns:
  assumes "addresses = [] \<or> (\<exists>t \<in> set turns. race_now t \<ge> start + ucast totalTimeoutMs)"
  shows "connectAny addresses attemptDelayMs totalTimeoutMs start turns blockingOk \<noteq> None"
proof -
  have loop: "raceLoop addresses delay deadline turns r \<noteq> None" if "\<exists>t \<in> set turns. race_now t \<ge> deadline" for delay deadline r
    using that
  proof (induction turns arbitrary: r)
    case (Cons t ts)
    then show ?case
      by (cases "raceTurn addresses delay deadline t r") (auto simp: raceTurn_def split: RaceStep.splits)
  qed simp
  show ?thesis
    using assms loop [of "start + ucast totalTimeoutMs" "ucast attemptDelayMs" newRace]
    by (cases "addresses = []") (simp_all add: connectAny_def del: not_None_eq)
qed

text \<open>Two addresses; the second one wins while the first is still connecting.\<close>

definition sampleRace :: "RaceTurn list" where
  "sampleRace = [\<lparr>race_now = 10, beginOk = True, race_select = RaceTimeout\<rparr>,
     \<lparr>race_now = 20, beginOk = True, race_select = RaceTimeout\<rparr>,
     \<lparr>race_now = 260, beginOk = True, race_select = RaceTimeout\<rparr>,
     \<lparr>race_now = 270, beginOk = True, race_select = RaceReady [(1, True, 0)]\<rparr>]"

lemma connectAny_no_leak_example:
  "\<exists>r. connectAny [''2001:db8::1'', ''192.0.2.1''] 250 10000 5 sampleRace True = Some (Some (1, ''192.0.2.1''), r) \<and>
     set (closedSocks r) = {..<opened r} - {1}"
proof -
  let ?call = "connectAny [''2001:db8::1'', ''192.0.2.1''] 250 10000 5 sampleRace True"
  have "map_option fst ?call = Some (Some (1, ''192.0.2.1''))" by code_simp
  then obtain r where "?call = Some (Some (1, ''192.0.2.1''), r)" by auto
  from this connectAny_no_leak [OF this] show ?thesis by (intro exI [of _ r]) simp
qed

end
