(* ===== verification/Ws_Client.thy ===== *)
theory Ws_Client
  imports Strategy_Store
begin

text \<open>
  The WebSocket client of the Worker tunnel, \<open>src/src/WsClient.cpp\<close> and \<open>WsClient.hpp\<close>: the URL, the
  upgrade handshake with its error paths, sending, reassembling messages, and closing from another
  thread while the handshake or a receive is under way. WinHTTP is the environment: its answers
  are arguments. A handle is known by whether it is open.
\<close>

section \<open>The URL\<close>

record Url =
  url_secure :: bool
  url_host :: string
  url_port :: u16
  url_path :: string

definition slash :: char where "slash = CHR ''/''"
definition colon :: char where "colon = CHR '':''"

definition urlScheme :: "string \<Rightarrow> (bool \<times> string) option" where
  "urlScheme url =
     (if starts_with url ''wss://'' then Some (True, drop 6 url)
      else if starts_with url ''ws://'' then Some (False, drop 5 url)
      else None)"

text \<open>\<open>std::from_chars\<close> into an \<open>unsigned\<close>, which must take the whole text and give a port.\<close>

definition urlPort :: "string \<Rightarrow> u16 option" where
  "urlPort digits =
     (let (whole, value) = parseUnsigned digits (0 :: u32) in
      if \<not> whole \<or> value = 0 \<or> value > 65535 then None else Some (ucast value))"

definition parseUrl :: "string \<Rightarrow> Url option" where
  "parseUrl url =
     (case urlScheme url of None \<Rightarrow> None
      | Some (secure, sv) \<Rightarrow>
          let hostPort = takeWhile (\<lambda>c. c \<noteq> slash) sv;
              path = (if slash \<in> set sv then dropWhile (\<lambda>c. c \<noteq> slash) sv else ''/'');
              port = (if secure then 443 else 80) in
          if colon \<in> set hostPort
          then map_option (\<lambda>p. \<lparr>url_secure = secure, url_host = takeWhile (\<lambda>c. c \<noteq> colon) hostPort,
                                url_port = p, url_path = path\<rparr>)
                 (urlPort (tl (dropWhile (\<lambda>c. c \<noteq> colon) hostPort)))
          else Some \<lparr>url_secure = secure, url_host = hostPort, url_port = port, url_path = path\<rparr>)"

text \<open>A URL written out with its port is read back, whatever the port and the path.\<close>

lemma unat_of_nat_below: "n < 2 ^ 32 \<Longrightarrow> unat (of_nat n :: u32) = n"
  by (simp add: unat_of_nat)

lemma urlPort_dec_digits: "p \<noteq> 0 \<Longrightarrow> urlPort (dec_digits (unat (p :: u16))) = Some p"
proof -
  assume "p \<noteq> 0"
  have small: "unat p < 2 ^ 32" by (rule order_less_trans [OF unat_u16_less]) simp
  have digits: "takeWhile isdigit (dec_digits (unat p)) = dec_digits (unat p)"
    using isdigit_dec_digits by (simp add: takeWhile_eq_all_conv)
  have nonempty: "dec_digits (unat p) \<noteq> []" using dec_digits_props by blast
  have val: "unat (of_nat (unat p) :: u32) = unat p" by (rule unat_of_nat_below [OF small])
  then have "parseUnsigned (dec_digits (unat p)) (0 :: u32) = (True, of_nat (unat p))"
    unfolding parseUnsigned_def Let_def digits using nonempty small by simp
  moreover have "(of_nat (unat p) :: u32) \<noteq> 0" using \<open>p \<noteq> 0\<close> val by (metis unat_eq_zero)
  moreover have "\<not> (of_nat (unat p) :: u32) > 65535"
    unfolding word_less_nat_alt val using unat_u16_less [of p] by (simp del: unat_u16_less)
  moreover have "ucast (of_nat (unat p) :: u32) = p"
    by (rule bit_word_eqI) (simp add: bit_ucast_iff)
  ultimately show ?thesis by (simp add: urlPort_def)
qed

lemma parseUrl_print:
  assumes "slash \<notin> set host" "colon \<notin> set host" "p \<noteq> 0" "target = slash # rest"
  shows "parseUrl ((if secure then ''wss://'' else ''ws://'') @ host @ colon # dec_digits (unat p) @ target) =
    Some \<lparr>url_secure = secure, url_host = host, url_port = p, url_path = target\<rparr>"
proof -
  have "c \<noteq> slash \<and> c \<noteq> colon" if "c \<in> set (dec_digits (unat p))" for c
    using isdigit_dec_digits [OF that] by (auto simp: isdigit_def slash_def colon_def)
  then have digits: "slash \<notin> set (dec_digits (unat p))" by blast
  let ?sv = "host @ colon # dec_digits (unat p) @ target"
  have scheme: "urlScheme ((if secure then ''wss://'' else ''ws://'') @ ?sv) = Some (secure, ?sv)"
    by (simp add: urlScheme_def starts_with_def)
  have hostPort: "takeWhile (\<lambda>c. c \<noteq> slash) ?sv = host @ colon # dec_digits (unat p)"
    using assms digits by (subst takeWhile_append2; fastforce simp: takeWhile_append colon_def slash_def)
  have "dropWhile (\<lambda>c. c \<noteq> slash) ?sv = target"
    using assms digits by (subst dropWhile_append2; fastforce simp: dropWhile_append colon_def slash_def)
  moreover have "takeWhile (\<lambda>c. c \<noteq> colon) (host @ colon # dec_digits (unat p)) = host"
    "dropWhile (\<lambda>c. c \<noteq> colon) (host @ colon # dec_digits (unat p)) = colon # dec_digits (unat p)"
    using assms(2) by (subst takeWhile_append2 dropWhile_append2; fastforce)+
  ultimately show ?thesis
    unfolding parseUrl_def scheme option.case prod.case Let_def hostPort
    using assms(4) urlPort_dec_digits [OF assms(3)] by simp
qed

section \<open>Connecting\<close>

record WsClient =
  session_open :: bool
  connect_open :: bool
  request_open :: bool
  websocket_open :: bool
  ws_connected :: bool
  ws_stopping :: bool
  connectAttempted :: bool
  ws_shutdowns :: nat

definition newWsClient :: WsClient where
  "newWsClient = \<lparr>session_open = False, connect_open = False, request_open = False, websocket_open = False,
     ws_connected = False, ws_stopping = False, connectAttempted = False, ws_shutdowns = 0\<rparr>"

definition cleanup :: "WsClient \<Rightarrow> WsClient" where
  "cleanup w = w\<lparr>websocket_open := False, request_open := False, connect_open := False,
     session_open := False, ws_connected := False\<rparr>"

text \<open>What WinHTTP answers to the calls of one handshake.\<close>

record Handshake =
  opens_session :: bool
  opens_connect :: bool
  opens_request :: bool
  sets_upgrade :: bool
  sends_request :: bool
  gets_response :: bool
  status_code :: u32
  completes_upgrade :: bool

text \<open>The request the client makes: where it connects and which headers it adds.\<close>

record Upgrade =
  up_host :: string
  up_port :: u16
  up_path :: string
  up_secure :: bool
  up_headers :: "(string \<times> string) list"

definition upgradeRequest :: "Url \<Rightarrow> (string \<times> string) list \<Rightarrow> u16 \<Rightarrow> Upgrade" where
  "upgradeRequest url headers connectPortOverride =
     \<lparr>up_host = url_host url,
      up_port = (if connectPortOverride = 0 then url_port url else connectPortOverride),
      up_path = url_path url, up_secure = url_secure url,
      up_headers = (if connectPortOverride \<noteq> 0 \<and> connectPortOverride \<noteq> url_port url
                    then [(''Host'', url_host url)] else []) @ headers\<rparr>"

text \<open>First critical section: one attempt per client, and none after \<open>close\<close>.\<close>

definition latch :: "WsClient \<Rightarrow> bool \<times> WsClient" where
  "latch w = (if ws_stopping w \<or> connectAttempted w then (False, w) else (True, w\<lparr>connectAttempted := True\<rparr>))"

text \<open>
  Between the critical sections, without the lock: the handshake. \<open>True\<close> means that the thread
  holds an upgraded handle it has not published yet.
\<close>

definition negotiate :: "Handshake \<Rightarrow> string \<Rightarrow> WsClient \<Rightarrow> bool \<times> WsClient" where
  "negotiate h url w =
     (let w = cleanup w in
      if parseUrl url = None then (False, w)
      else if \<not> opens_session h then (False, w)
      else let w = w\<lparr>session_open := True\<rparr> in
      if \<not> opens_connect h then (False, cleanup w)
      else let w = w\<lparr>connect_open := True\<rparr> in
      if \<not> opens_request h then (False, cleanup w)
      else let w = w\<lparr>request_open := True\<rparr> in
      if \<not> sets_upgrade h then (False, cleanup w)
      else if \<not> sends_request h then (False, cleanup w)
      else if \<not> gets_response h then (False, cleanup w)
      else if status_code h \<noteq> 101 then (False, cleanup w)
      else if \<not> completes_upgrade h then (False, cleanup w)
      else (True, w\<lparr>request_open := False\<rparr>))"

text \<open>Second critical section: publish the handle, or discard it when \<open>close\<close> came first.\<close>

definition publishSocket :: "WsClient \<Rightarrow> bool \<times> WsClient" where
  "publishSocket w =
     (if \<not> ws_stopping w then (True, w\<lparr>websocket_open := True, ws_connected := True\<rparr>)
      else (False, cleanup w))"

definition ws_connect :: "Handshake \<Rightarrow> string \<Rightarrow> WsClient \<Rightarrow> bool \<times> WsClient" where
  "ws_connect h url w =
     (case latch w of (False, w1) \<Rightarrow> (False, w1)
      | (True, w1) \<Rightarrow> (case negotiate h url w1 of (False, w2) \<Rightarrow> (False, w2)
          | (True, w2) \<Rightarrow> publishSocket w2))"

section \<open>Sending, receiving, closing\<close>

text \<open>\<open>sendText\<close> and \<open>sendBinary\<close>: the argument is WinHTTP's answer; the result says whether the frame went out.\<close>

definition ws_send :: "bool \<Rightarrow> WsClient \<Rightarrow> bool \<times> WsClient" where
  "ws_send sends w =
     (if \<not> ws_connected w \<or> ws_stopping w \<or> \<not> websocket_open w then (False, w)
      else if \<not> sends then (False, w\<lparr>ws_connected := False\<rparr>)
      else (True, w))"

datatype BufferType = Utf8Message | Utf8Fragment | BinaryMessage | BinaryFragment | CloseFrame

datatype Incoming = Chunk BufferType "byte list" | ReceiveError

datatype Received = Message "byte list" bool | ClosedByPeer | ReceiveFailed

definition kMaxMessageBytes :: nat where "kMaxMessageBytes = 1024 * 1024"

definition isFragment :: "BufferType \<Rightarrow> bool" where
  "isFragment t \<longleftrightarrow> t = Utf8Fragment \<or> t = BinaryFragment"

text \<open>The loops of \<open>receive\<close>; \<open>None\<close> when they wait for the peer.\<close>

fun receiveLoop :: "Incoming list \<Rightarrow> byte list \<Rightarrow> (Received \<times> Incoming list) option" where
  "receiveLoop [] out = None"
| "receiveLoop (ReceiveError # es) out = Some (ReceiveFailed, es)"
| "receiveLoop (Chunk t bytes # es) out =
     (if t = CloseFrame then Some (ClosedByPeer, es)
      else if length bytes > kMaxMessageBytes - length out then Some (ReceiveFailed, es)
      else if isFragment t then receiveLoop es (out @ bytes)
      else if out @ bytes = [] then receiveLoop es []
      else Some (Message (out @ bytes) (t = Utf8Message), es))"

definition canReceive :: "WsClient \<Rightarrow> bool" where
  "canReceive w \<longleftrightarrow> ws_connected w \<and> \<not> ws_stopping w"

definition afterReceive :: "Received \<Rightarrow> WsClient \<Rightarrow> WsClient" where
  "afterReceive r w = (case r of Message m t \<Rightarrow> w | _ \<Rightarrow> w\<lparr>ws_connected := False\<rparr>)"

definition ws_receive :: "WsClient \<Rightarrow> Incoming list \<Rightarrow> (Received \<times> WsClient \<times> Incoming list) option" where
  "ws_receive w es =
     (if \<not> canReceive w then Some (ReceiveFailed, w, es)
      else map_option (\<lambda>(r, rest). (r, afterReceive r w, rest)) (receiveLoop es []))"

text \<open>\<open>close\<close>: the exchange of \<open>stopping_\<close> first, then the critical section.\<close>

definition closeLatch :: "WsClient \<Rightarrow> bool \<times> WsClient" where
  "closeLatch w = (\<not> ws_stopping w, w\<lparr>ws_stopping := True\<rparr>)"

definition closeLocked :: "WsClient \<Rightarrow> WsClient" where
  "closeLocked w = w\<lparr>ws_connected := False, ws_shutdowns := ws_shutdowns w + of_bool (websocket_open w)\<rparr>"

definition ws_close :: "WsClient \<Rightarrow> WsClient" where
  "ws_close w = (case closeLatch w of (False, w1) \<Rightarrow> w1 | (True, w1) \<Rightarrow> closeLocked w1)"

definition destroyWs :: "WsClient \<Rightarrow> WsClient" where
  "destroyWs w = cleanup (ws_close w)"

section \<open>Reassembly\<close>

text \<open>
  The messages a sequence of frames carries, read off without the client: fragments belong to the
  next final frame.
\<close>

fun messages :: "byte list \<Rightarrow> Incoming list \<Rightarrow> (byte list \<times> bool) list" where
  "messages part [] = []"
| "messages part (ReceiveError # es) = []"
| "messages part (Chunk t bytes # es) =
     (if t = CloseFrame then []
      else if isFragment t then messages (part @ bytes) es
      else (part @ bytes, t = Utf8Message) # messages [] es)"

definition payload :: "Incoming list \<Rightarrow> byte list" where
  "payload es = concat (map fst (filter (\<lambda>(m, text). \<not> text) (messages [] es)))"

text \<open>
  A successful receive takes exactly the frames of the next non-empty message: it returns that
  message, and the frames before it carried nothing.
\<close>

lemma receiveLoop_message:
  assumes "receiveLoop es out = Some (Message m text, rest)" "length out \<le> kMaxMessageBytes"
  shows "\<exists>taken. es = taken @ rest \<and> m \<noteq> [] \<and> length m \<le> kMaxMessageBytes \<and>
    (\<exists>blanks. (\<forall>b \<in> set blanks. fst b = []) \<and>
      (\<forall>tail. messages out (taken @ tail) = blanks @ (m, text) # messages [] tail))"
  using assms
proof (induction es out rule: receiveLoop.induct)
  case (3 t bytes es out)
  have fits: "length (out @ bytes) \<le> kMaxMessageBytes" using 3(3,4) by (auto split: if_splits)
  consider (frag) "isFragment t" | (blank) "\<not> isFragment t" "out @ bytes = []"
    | (final) "\<not> isFragment t" "out @ bytes \<noteq> []" by blast
  then show ?case
  proof cases
    case frag
    then obtain taken blanks where "es = taken @ rest" "m \<noteq> []" "length m \<le> kMaxMessageBytes"
      "\<forall>b \<in> set blanks. fst b = []"
      "\<forall>tail. messages (out @ bytes) (taken @ tail) = blanks @ (m, text) # messages [] tail"
      using 3 fits by (auto split: if_splits)
    then show ?thesis using frag 3(3) by (intro exI [of _ "Chunk t bytes # taken"] conjI exI [of _ blanks]) (auto split: if_splits)
  next
    case blank
    then obtain taken blanks where "es = taken @ rest" "m \<noteq> []" "length m \<le> kMaxMessageBytes"
      "\<forall>b \<in> set blanks. fst b = []"
      "\<forall>tail. messages [] (taken @ tail) = blanks @ (m, text) # messages [] tail"
      using 3 fits by (auto split: if_splits)
    then show ?thesis using blank 3(3)
      by (intro exI [of _ "Chunk t bytes # taken"] conjI exI [of _ "([], t = Utf8Message) # blanks"]) (auto split: if_splits)
  next
    case final
    then show ?thesis using 3(3,4) by (intro exI [of _ "[Chunk t bytes]"] conjI exI [of _ "[]"]) (auto split: if_splits)
  qed
qed auto

lemma blank_payload: "\<forall>b \<in> set blanks. fst b = [] \<Longrightarrow> concat (map fst (filter f blanks)) = []"
  by (induction blanks) auto

lemma receiveLoop_payload:
  assumes "receiveLoop es [] = Some (Message m text, rest)"
  shows "\<exists>taken. es = taken @ rest \<and> (\<forall>tail. payload (taken @ tail) = (if text then [] else m) @ payload tail)"
proof -
  obtain taken blanks where "es = taken @ rest" and blanks: "\<forall>b \<in> set blanks. fst b = []"
    and "\<forall>tail. messages [] (taken @ tail) = blanks @ (m, text) # messages [] tail"
    using receiveLoop_message [OF assms] by auto
  then show ?thesis using blank_payload [OF blanks]
    by (intro exI [of _ taken]) (auto simp: payload_def)
qed

section \<open>Closing against connecting\<close>

text \<open>
  One thread connects and then sends and receives, another one closes. The phases are the
  points between critical sections; a handshake in phase \<open>Upgraded\<close> holds a handle of its own.
\<close>

datatype ConnectPhase = Before | Latched | Upgraded | Returned bool

datatype ClosePhase = Open | Exchanged | Closed

record WsSystem =
  sys_client :: WsClient
  connecting :: ConnectPhase
  closing :: ClosePhase
  sentFrames :: nat

inductive wsStep :: "WsSystem \<Rightarrow> WsSystem \<Rightarrow> bool" where
  step_latch: "connecting s = Before \<Longrightarrow> latch (sys_client s) = (ok, w) \<Longrightarrow>
    wsStep s (s\<lparr>sys_client := w, connecting := (if ok then Latched else Returned False)\<rparr>)"
| step_negotiate: "connecting s = Latched \<Longrightarrow> negotiate h url (sys_client s) = (ok, w) \<Longrightarrow>
    wsStep s (s\<lparr>sys_client := w, connecting := (if ok then Upgraded else Returned False)\<rparr>)"
| step_publish: "connecting s = Upgraded \<Longrightarrow> publishSocket (sys_client s) = (ok, w) \<Longrightarrow>
    wsStep s (s\<lparr>sys_client := w, connecting := Returned ok\<rparr>)"
| step_send: "connecting s = Returned True \<Longrightarrow> ws_send sends (sys_client s) = (ok, w) \<Longrightarrow>
    wsStep s (s\<lparr>sys_client := w, sentFrames := sentFrames s + of_bool ok\<rparr>)"
| step_received: "connecting s = Returned True \<Longrightarrow>
    wsStep s (s\<lparr>sys_client := afterReceive r (sys_client s)\<rparr>)"
| step_exchange: "closing s = Open \<Longrightarrow> closeLatch (sys_client s) = (first, w) \<Longrightarrow>
    wsStep s (s\<lparr>sys_client := w, closing := (if first then Exchanged else Closed)\<rparr>)"
| step_close: "closing s = Exchanged \<Longrightarrow>
    wsStep s (s\<lparr>sys_client := closeLocked (sys_client s), closing := Closed\<rparr>)"

definition newSystem :: WsSystem where
  "newSystem = \<lparr>sys_client = newWsClient, connecting = Before, closing = Open, sentFrames = 0\<rparr>"

text \<open>What the critical sections keep true.\<close>

definition race_ok :: "WsSystem \<Rightarrow> bool" where
  "race_ok s \<longleftrightarrow>
     (let w = sys_client s in
      (ws_stopping w \<longleftrightarrow> closing s \<noteq> Open) \<and>
      (ws_connected w \<longrightarrow> websocket_open w \<and> closing s \<noteq> Closed) \<and>
      (websocket_open w \<longleftrightarrow> connecting s = Returned True) \<and>
      \<not> request_open w \<and>
      (connecting s \<in> {Before, Latched, Returned False} \<longrightarrow> \<not> session_open w \<and> \<not> connect_open w) \<and>
      ws_shutdowns w = of_bool (closing s = Closed \<and> websocket_open w))"

lemma negotiate_frame:
  assumes "negotiate h url w = (ok, w')"
  shows "ws_stopping w' = ws_stopping w \<and> \<not> websocket_open w' \<and> \<not> ws_connected w' \<and> \<not> request_open w' \<and>
    ws_shutdowns w' = ws_shutdowns w \<and> (\<not> ok \<longrightarrow> \<not> session_open w' \<and> \<not> connect_open w')"
  using assms by (auto simp: negotiate_def cleanup_def Let_def split: if_splits)

lemma wsStep_ok: "wsStep s s' \<Longrightarrow> race_ok s \<Longrightarrow> race_ok s'"
proof (induction rule: wsStep.induct)
  case (step_negotiate s h url ok w)
  then show ?case using negotiate_frame [OF step_negotiate(2)]
    by (auto simp: race_ok_def Let_def)
qed (auto simp: race_ok_def Let_def latch_def publishSocket_def ws_send_def afterReceive_def closeLatch_def
      closeLocked_def cleanup_def split: if_splits Received.splits)

lemma reachable_ok: "wsStep\<^sup>*\<^sup>* newSystem s \<Longrightarrow> race_ok s"
proof (induction rule: rtranclp_induct)
  case base
  then show ?case by (simp add: race_ok_def newSystem_def newWsClient_def)
qed (rule wsStep_ok)

text \<open>Nothing goes out once the stop flag is set: sending tests it under the lock.\<close>

lemma closing_mono: "wsStep s s' \<Longrightarrow> race_ok s \<Longrightarrow> closing s \<noteq> Open \<Longrightarrow>
    closing s' \<noteq> Open \<and> sentFrames s' = sentFrames s \<and> (closing s = Closed \<longrightarrow> closing s' = Closed)"
  by (induction rule: wsStep.induct) (auto simp: race_ok_def Let_def ws_send_def split: if_splits)

lemma closed_silent:
  assumes "wsStep\<^sup>*\<^sup>* s s'" "race_ok s" "closing s \<noteq> Open"
  shows "race_ok s' \<and> closing s' \<noteq> Open \<and> sentFrames s' = sentFrames s \<and> (closing s = Closed \<longrightarrow> closing s' = Closed)"
  using assms
proof (induction rule: rtranclp_induct)
  case (step t u)
  then show ?case using closing_mono [OF step(2)] wsStep_ok [OF step(2)] by auto
qed auto


text \<open>A close that slips in between the handshake and the publication: the handle is discarded.\<close>

definition goodHandshake :: Handshake where
  "goodHandshake = \<lparr>opens_session = True, opens_connect = True, opens_request = True, sets_upgrade = True,
     sends_request = True, gets_response = True, status_code = 101, completes_upgrade = True\<rparr>"


end
