(* ===== verification/Tunnel_Relay.thy ===== *)
theory Tunnel_Relay
  imports Ws_Client Tcp_Socket
begin

text \<open>
  The fallback through the Worker, \<open>src/src/Relay.cpp\<close> and \<open>Relay.hpp\<close>: opening the tunnel, the two pump
  threads and \<open>stop\<close>, which either pump and any other thread may call. After the opening the
  model is a step relation: each step is one call of one thread, in any order.
\<close>

section \<open>Opening the tunnel\<close>

datatype Frame = TextFrame string | BinaryFrame "byte list"

definition tunnelUrl :: "string \<Rightarrow> string" where
  "tunnelUrl workerUrl = (if ends_with workerUrl ''/'' then workerUrl else workerUrl @ ''/'') @ ''tunnel''"

definition tunnelHeaders :: "string \<Rightarrow> (string \<times> string) list" where
  "tunnelHeaders sharedSecret =
     (if sharedSecret = [] then [] else [(''Authorization'', ''Bearer '' @ sharedSecret)])"

text \<open>The upgrade request \<open>run\<close> asks the WebSocket client for; \<open>None\<close> when the Worker's URL is not one.\<close>

definition tunnelRequest :: "string \<Rightarrow> string \<Rightarrow> u16 \<Rightarrow> Upgrade option" where
  "tunnelRequest workerUrl sharedSecret workerConnectPort =
     map_option (\<lambda>url. upgradeRequest url (tunnelHeaders sharedSecret) workerConnectPort) (parseUrl (tunnelUrl workerUrl))"

lemma tunnelRequest_print:
  assumes "slash \<notin> set host" "colon \<notin> set host" "p \<noteq> 0"
  shows "tunnelRequest (''wss://'' @ host @ colon # dec_digits (unat p)) sharedSecret 0 =
    Some \<lparr>up_host = host, up_port = p, up_path = ''/tunnel'', up_secure = True, up_headers = tunnelHeaders sharedSecret\<rparr>"
proof -
  have "isdigit (last (dec_digits (unat p)))" using dec_digits_props [of "unat p"] last_in_set by blast
  then have "last (dec_digits (unat p)) \<noteq> slash" by (auto simp: isdigit_def slash_def)
  then have "\<not> ends_with (''wss://'' @ host @ colon # dec_digits (unat p)) ''/''"
    using dec_digits_props [of "unat p"]
    by (cases "dec_digits (unat p)" rule: rev_cases) (auto simp: ends_with_def slash_def)
  then have "tunnelUrl (''wss://'' @ host @ colon # dec_digits (unat p)) =
      ''wss://'' @ host @ colon # dec_digits (unat p) @ slash # ''tunnel''"
    by (simp add: tunnelUrl_def slash_def)
  then show ?thesis using parseUrl_print [OF assms refl, of True "''tunnel''"]
    by (simp add: tunnelRequest_def upgradeRequest_def slash_def)
qed

definition connectCommand :: "string \<Rightarrow> u16 \<Rightarrow> string" where
  "connectCommand host port = ''{'' @ quoted ''cmd'' @ '':'' @ quoted ''connect'' @ '','' @
     quoted ''host'' @ '':'' @ quoted (escape host) @ '','' @ quoted ''port'' @ '':'' @
     dec_digits (unat port) @ ''}''"

definition accepted :: "byte list \<Rightarrow> bool" where
  "accepted answer \<longleftrightarrow> find_from (map byte_char answer) (quoted ''connected'') 0 \<noteq> None"

text \<open>
  The environment of \<open>run\<close> up to the pumps: the values of \<open>stopping_\<close> it reads, whether a \<open>stop()\<close> closed
  the client before its calls, and the answers of WinHTTP and of the thread library.
\<close>

record TunnelEnv =
  stopSeen :: "nat \<Rightarrow> bool"
  closedBefore :: "nat \<Rightarrow> bool"
  tunnelHandshake :: Handshake
  sendsCommand :: bool
  sendsInitial :: bool
  threadStarts :: bool

datatype TunnelError = StoppedEarly | ConnectFailed | CommandFailed | NoAnswer | Refused | InitialFailed | ThreadFailed

datatype Opening = Failed TunnelError WsClient "Frame list" | Waiting | Opened WsClient "Frame list" "Incoming list"

definition interfere :: "TunnelEnv \<Rightarrow> nat \<Rightarrow> WsClient \<Rightarrow> WsClient" where
  "interfere env i w = (if closedBefore env i then ws_close w else w)"

definition replayInitial :: "TunnelEnv \<Rightarrow> byte list \<Rightarrow> WsClient \<Rightarrow> Frame list \<Rightarrow> Incoming list \<Rightarrow> Opening" where
  "replayInitial env initialData w frames es =
     (if initialData = [] then (if threadStarts env then Opened w frames es else Failed ThreadFailed w frames)
      else case ws_send (sendsInitial env) (interfere env 3 w) of
          (False, w1) \<Rightarrow> Failed InitialFailed w1 frames
        | (True, w1) \<Rightarrow>
            (let frames1 = frames @ [BinaryFrame initialData] in
             if threadStarts env then Opened w1 frames1 es else Failed ThreadFailed w1 frames1))"

definition openTunnel :: "TunnelEnv \<Rightarrow> string \<Rightarrow> string \<Rightarrow> u16 \<Rightarrow> byte list \<Rightarrow> Incoming list \<Rightarrow> Opening" where
  "openTunnel env workerUrl targetHost targetPort initialData es =
     (if stopSeen env 0 then Failed StoppedEarly newWsClient []
      else case ws_connect (tunnelHandshake env) (tunnelUrl workerUrl) (interfere env 0 newWsClient) of
        (False, w) \<Rightarrow> Failed ConnectFailed w []
      | (True, w) \<Rightarrow>
          if stopSeen env 1 then Failed StoppedEarly w []
          else case ws_send (sendsCommand env) (interfere env 1 w) of
            (False, w1) \<Rightarrow> Failed CommandFailed w1 []
          | (True, w1) \<Rightarrow>
              (let frames = [TextFrame (connectCommand targetHost targetPort)] in
               case ws_receive (interfere env 2 w1) es of
                 None \<Rightarrow> Waiting
               | Some (Message answer isText, w2, es1) \<Rightarrow>
                   if accepted answer then replayInitial env initialData w2 frames es1
                   else Failed Refused w2 frames
               | Some (_, w2, es1) \<Rightarrow> Failed NoAnswer w2 frames))"

section \<open>The pumps\<close>

datatype StopPhase = Claim | CloseLatch | CloseLock | ShutdownSocket | Stopped

datatype UpPhase = UpCheck | UpRecv | UpSend "byte list" | UpStopping StopPhase

datatype DownPhase = DownCheck | DownEnter | DownReceive | DownWrite "byte list" | DownStopping StopPhase

text \<open>
  \<open>input\<close> is what the successive \<open>recv()\<close> on the client socket return (the empty block is the end),
  \<open>incoming\<close> the frames the Worker sends; \<open>outside\<close> is a \<open>stop()\<close> from a third thread.
\<close>

record Tunnel =
  ws :: WsClient
  tun_stopping :: bool
  input :: "byte list list"
  frames :: "Frame list"
  incoming :: "Incoming list"
  client :: Socket
  socketShutdowns :: nat
  up :: UpPhase
  down :: DownPhase
  outside :: "StopPhase option"

definition newTunnel :: "WsClient \<Rightarrow> Frame list \<Rightarrow> Incoming list \<Rightarrow> byte list list \<Rightarrow> SendResult list \<Rightarrow> Tunnel" where
  "newTunnel w fs es cs answers = \<lparr>ws = w, tun_stopping = False, input = cs, frames = fs, incoming = es,
     client = \<lparr>script = answers, trace = []\<rparr>, socketShutdowns = 0, up = UpCheck, down = DownCheck, outside = None\<rparr>"

text \<open>\<open>Relay::stop\<close>, one atomic operation at a time: the compare-and-exchange, \<open>WsClient::close\<close>, \<open>shutdown\<close>.\<close>

fun stopStep :: "StopPhase \<Rightarrow> Tunnel \<Rightarrow> StopPhase \<times> Tunnel" where
  "stopStep Claim t = (if tun_stopping t then (Stopped, t) else (CloseLatch, t\<lparr>tun_stopping := True\<rparr>))"
| "stopStep CloseLatch t =
     (let (first, w) = closeLatch (ws t) in ((if first then CloseLock else ShutdownSocket), t\<lparr>ws := w\<rparr>))"
| "stopStep CloseLock t = (ShutdownSocket, t\<lparr>ws := closeLocked (ws t)\<rparr>)"
| "stopStep ShutdownSocket t = (Stopped, t\<lparr>socketShutdowns := socketShutdowns t + 1\<rparr>)"
| "stopStep Stopped t = (Stopped, t)"

definition afterMessage :: "Received \<Rightarrow> DownPhase" where
  "afterMessage r = (case r of Message m isText \<Rightarrow> if isText then DownCheck else DownWrite m
     | _ \<Rightarrow> DownStopping Claim)"

inductive tunnelStep :: "Tunnel \<Rightarrow> Tunnel \<Rightarrow> bool" where
  up_check: "up t = UpCheck \<Longrightarrow>
    tunnelStep t (t\<lparr>up := (if tun_stopping t then UpStopping Claim else UpRecv)\<rparr>)"
| up_recv: "up t = UpRecv \<Longrightarrow> input t = c # cs \<Longrightarrow>
    tunnelStep t (t\<lparr>input := cs, up := (if c = [] then UpStopping Claim else UpSend c)\<rparr>)"
| up_send: "up t = UpSend c \<Longrightarrow> ws_send sends (ws t) = (ok, w) \<Longrightarrow>
    tunnelStep t (t\<lparr>ws := w, frames := (if ok then frames t @ [BinaryFrame c] else frames t),
      up := (if ok then UpCheck else UpStopping Claim)\<rparr>)"
| up_stop: "up t = UpStopping p \<Longrightarrow> p \<noteq> Stopped \<Longrightarrow> stopStep p t = (q, t') \<Longrightarrow>
    tunnelStep t (t'\<lparr>up := UpStopping q\<rparr>)"
| down_check: "down t = DownCheck \<Longrightarrow>
    tunnelStep t (t\<lparr>down := (if tun_stopping t then DownStopping Claim else DownEnter)\<rparr>)"
| down_enter: "down t = DownEnter \<Longrightarrow>
    tunnelStep t (t\<lparr>down := (if canReceive (ws t) then DownReceive else DownStopping Claim)\<rparr>)"
| down_receive: "down t = DownReceive \<Longrightarrow> receiveLoop (incoming t) [] = Some (r, rest) \<Longrightarrow>
    tunnelStep t (t\<lparr>ws := afterReceive r (ws t), incoming := rest, down := afterMessage r\<rparr>)"
| down_write: "down t = DownWrite m \<Longrightarrow> sendAll m (client t) = Done ok sock \<Longrightarrow>
    tunnelStep t (t\<lparr>client := sock, down := (if ok then DownCheck else DownStopping Claim)\<rparr>)"
| down_stop: "down t = DownStopping p \<Longrightarrow> p \<noteq> Stopped \<Longrightarrow> stopStep p t = (q, t') \<Longrightarrow>
    tunnelStep t (t'\<lparr>down := DownStopping q\<rparr>)"
| outside_begin: "outside t = None \<Longrightarrow> tunnelStep t (t\<lparr>outside := Some Claim\<rparr>)"
| outside_step: "outside t = Some p \<Longrightarrow> p \<noteq> Stopped \<Longrightarrow> stopStep p t = (q, t') \<Longrightarrow>
    tunnelStep t (t'\<lparr>outside := Some q\<rparr>)"

section \<open>What the tunnel carries\<close>

text \<open>Towards the Worker: the blocks read from the client, each in one frame, in their order.\<close>

definition up_ok :: "Frame list \<Rightarrow> byte list list \<Rightarrow> Tunnel \<Rightarrow> bool" where
  "up_ok fs cs t \<longleftrightarrow> (\<exists>blocks. frames t = fs @ map BinaryFrame blocks \<and>
     (case up t of UpSend c \<Rightarrow> cs = blocks @ c # input t | UpStopping p \<Rightarrow> prefix blocks cs
      | _ \<Rightarrow> cs = blocks @ input t))"

text \<open>Towards the client: the payload of the binary messages, never a text message.\<close>

definition down_ok :: "Incoming list \<Rightarrow> Tunnel \<Rightarrow> bool" where
  "down_ok es t \<longleftrightarrow> (case down t of
       DownStopping p \<Rightarrow> prefix (wire (client t)) (payload es)
     | DownWrite m \<Rightarrow> (\<exists>taken. es = taken @ incoming t \<and>
         (\<forall>tail. payload (taken @ tail) = wire (client t) @ m @ payload tail))
     | _ \<Rightarrow> (\<exists>taken. es = taken @ incoming t \<and> (\<forall>tail. payload (taken @ tail) = wire (client t) @ payload tail)))"

lemma stopStep_frame:
  assumes "stopStep p t = (q, t')"
  shows "frames t' = frames t \<and> input t' = input t \<and> up t' = up t \<and> down t' = down t \<and> outside t' = outside t \<and>
    incoming t' = incoming t \<and> client t' = client t"
  using assms by (cases p) (auto split: if_splits prod.splits)

lemma up_ok_same: "frames t' = frames t \<Longrightarrow> input t' = input t \<Longrightarrow> up t' = up t \<Longrightarrow> up_ok fs cs t' = up_ok fs cs t"
  by (cases "up t") (simp_all add: up_ok_def)

lemma down_ok_same:
  "incoming t' = incoming t \<Longrightarrow> client t' = client t \<Longrightarrow> down t' = down t \<Longrightarrow> down_ok es t' = down_ok es t"
  by (cases "down t") (simp_all add: down_ok_def)

lemma tunnelStep_up: "tunnelStep t t' \<Longrightarrow> up_ok fs cs t \<Longrightarrow> up_ok fs cs t'"
proof (induction rule: tunnelStep.induct)
  case (up_send t c sends ok w)
  then obtain blocks where blocks: "frames t = fs @ map BinaryFrame blocks" "cs = blocks @ c # input t"
    by (auto simp: up_ok_def)
  show ?case
  proof (cases ok)
    case True
    then show ?thesis using blocks by (auto simp: up_ok_def intro!: exI [of _ "blocks @ [c]"])
  next
    case False
    then show ?thesis using blocks by (auto simp: up_ok_def)
  qed
next
  case (up_stop t p q t')
  then show ?case using stopStep_frame [OF up_stop(3)] by (auto simp: up_ok_def)
next
  case (down_stop t p q t')
  then show ?case using stopStep_frame [OF down_stop(3)] up_ok_same [of "t'\<lparr>down := DownStopping q\<rparr>" t] by simp
next
  case (outside_step t p q t')
  then show ?case using stopStep_frame [OF outside_step(3)] up_ok_same [of "t'\<lparr>outside := Some q\<rparr>" t] by simp
next
  case (down_check t)
  then show ?case by (subst up_ok_same [of _ t]) simp_all
next
  case (down_enter t)
  then show ?case by (subst up_ok_same [of _ t]) simp_all
next
  case (down_receive t r rest)
  then show ?case by (subst up_ok_same [of _ t]) simp_all
next
  case (down_write t m ok sock)
  then show ?case by (subst up_ok_same [of _ t]) simp_all
next
  case (outside_begin t)
  then show ?case by (subst up_ok_same [of _ t]) simp_all
qed (auto simp: up_ok_def)

lemma down_ok_prefix: "down_ok es t \<Longrightarrow> prefix (wire (client t)) (payload es)"
  by (auto simp: down_ok_def prefix_def split: DownPhase.splits)

lemma tunnelStep_down: "tunnelStep t t' \<Longrightarrow> down_ok es t \<Longrightarrow> down_ok es t'"
proof (induction rule: tunnelStep.induct)
  case (down_check t)
  then show ?case using down_ok_prefix [of es t] by (auto simp: down_ok_def)
next
  case (down_enter t)
  then show ?case using down_ok_prefix [of es t] by (auto simp: down_ok_def)
next
  case (down_receive t r rest)
  then obtain taken where taken: "es = taken @ incoming t" "\<forall>tail. payload (taken @ tail) = wire (client t) @ payload tail"
    by (auto simp: down_ok_def)
  show ?case
  proof (cases r)
    case (Message m isText)
    then obtain taken' where taken': "incoming t = taken' @ rest"
      "\<forall>tail. payload (taken' @ tail) = (if isText then [] else m) @ payload tail"
      using receiveLoop_payload down_receive(2) by blast
    have "\<exists>taken. es = taken @ rest \<and> (\<forall>tail. payload (taken @ tail) = wire (client t) @ (if isText then [] else m) @ payload tail)"
      using taken taken' by (intro exI [of _ "taken @ taken'"]) simp
    then show ?thesis using Message by (cases isText) (simp_all add: down_ok_def afterMessage_def)
  qed (use down_ok_prefix [OF down_receive.prems] in \<open>simp_all add: down_ok_def afterMessage_def\<close>)
next
  case (down_write t m ok sock)
  then obtain taken where taken: "es = taken @ incoming t" "\<forall>tail. payload (taken @ tail) = wire (client t) @ m @ payload tail"
    by (auto simp: down_ok_def)
  show ?case
  proof (cases ok)
    case True
    then have "wire sock = wire (client t) @ m" using down_write(2) tcp.write_ok [of m "client t" sock] by simp
    then show ?thesis using taken True by (auto simp: down_ok_def)
  next
    case False
    then obtain part where "wire sock = wire (client t) @ part" "strict_prefix part m"
      using down_write(2) tcp.write_failed [of m "client t" sock] by auto
    then have "prefix (wire sock) (payload es)" using taken by (auto simp: strict_prefix_def prefix_def)
    then show ?thesis using False by (simp add: down_ok_def)
  qed
next
  case (up_stop t p q t')
  then show ?case using stopStep_frame [OF up_stop(3)] down_ok_same [of "t'\<lparr>up := UpStopping q\<rparr>" t] by simp
next
  case (down_stop t p q t')
  then show ?case using stopStep_frame [OF down_stop(3)] by (simp add: down_ok_def)
next
  case (outside_step t p q t')
  then show ?case using stopStep_frame [OF outside_step(3)] down_ok_same [of "t'\<lparr>outside := Some q\<rparr>" t] by simp
next
  case (up_check t)
  then show ?case by (subst down_ok_same [of _ t]) simp_all
next
  case (up_recv t c cs)
  then show ?case by (subst down_ok_same [of _ t]) simp_all
next
  case (up_send t c sends ok w)
  then show ?case by (subst down_ok_same [of _ t]) simp_all
next
  case (outside_begin t)
  then show ?case by (subst down_ok_same [of _ t]) simp_all
qed

section \<open>Stopping\<close>

text \<open>Where each thread is in \<open>stop\<close>; a thread that has not called it counts as \<open>Claim\<close>.\<close>

definition upStop :: "Tunnel \<Rightarrow> StopPhase" where
  "upStop t = (case up t of UpStopping p \<Rightarrow> p | _ \<Rightarrow> Claim)"

definition downStop :: "Tunnel \<Rightarrow> StopPhase" where
  "downStop t = (case down t of DownStopping p \<Rightarrow> p | _ \<Rightarrow> Claim)"

definition outsideStop :: "Tunnel \<Rightarrow> StopPhase" where
  "outsideStop t = (case outside t of Some p \<Rightarrow> p | None \<Rightarrow> Claim)"

definition working :: "StopPhase \<Rightarrow> bool" where
  "working p \<longleftrightarrow> p \<in> {CloseLatch, CloseLock, ShutdownSocket}"

fun stage_ok :: "StopPhase \<Rightarrow> Tunnel \<Rightarrow> bool" where
  "stage_ok Claim t = (\<not> tun_stopping t \<and> \<not> ws_stopping (ws t) \<and> ws_shutdowns (ws t) = 0 \<and> socketShutdowns t = 0)"
| "stage_ok CloseLatch t = (tun_stopping t \<and> \<not> ws_stopping (ws t) \<and> ws_shutdowns (ws t) = 0 \<and> socketShutdowns t = 0)"
| "stage_ok CloseLock t = (tun_stopping t \<and> ws_stopping (ws t) \<and> ws_shutdowns (ws t) = 0 \<and> socketShutdowns t = 0)"
| "stage_ok ShutdownSocket t = (tun_stopping t \<and> ws_stopping (ws t) \<and> \<not> ws_connected (ws t) \<and>
     ws_shutdowns (ws t) = 1 \<and> socketShutdowns t = 0)"
| "stage_ok Stopped t = (tun_stopping t \<and> ws_stopping (ws t) \<and> \<not> ws_connected (ws t) \<and>
     ws_shutdowns (ws t) = 1 \<and> socketShutdowns t = 1)"

text \<open>One thread at most works on the stop, and its phase is the stage of the shared state.\<close>

definition phases_ok :: "StopPhase \<Rightarrow> StopPhase \<Rightarrow> StopPhase \<Rightarrow> StopPhase \<Rightarrow> bool" where
  "phases_ok g p q r \<longleftrightarrow>
     (g = Claim \<longrightarrow> p = Claim \<and> q = Claim \<and> r = Claim) \<and>
     (working p \<longrightarrow> p = g) \<and> (working q \<longrightarrow> q = g) \<and> (working r \<longrightarrow> r = g) \<and>
     (working g \<longrightarrow> (p = g \<and> \<not> working q \<and> \<not> working r) \<or> (\<not> working p \<and> q = g \<and> \<not> working r) \<or>
        (\<not> working p \<and> \<not> working q \<and> r = g))"

definition stop_ok :: "Tunnel \<Rightarrow> bool" where
  "stop_ok t \<longleftrightarrow> websocket_open (ws t) \<and>
     (\<exists>g. stage_ok g t \<and> phases_ok g (upStop t) (downStop t) (outsideStop t))"

lemma phases_ok_swap: "phases_ok g p q r = phases_ok g q p r" "phases_ok g p q r = phases_ok g r q p"
  by (auto simp: phases_ok_def)

lemma stopStep_stage:
  assumes "stage_ok g t" "websocket_open (ws t)" "phases_ok g p a b" "p \<noteq> Stopped" "stopStep p t = (q, t')"
  shows "\<exists>g'. stage_ok g' t' \<and> websocket_open (ws t') \<and> phases_ok g' q a b"
proof (cases p)
  case Claim
  then show ?thesis
  proof (cases "tun_stopping t")
    case True
    then show ?thesis using assms Claim
      by (intro exI [of _ g]; cases g) (auto simp: phases_ok_def working_def)
  next
    case False
    then show ?thesis using assms Claim
      by (intro exI [of _ CloseLatch]; cases g) (auto simp: phases_ok_def working_def)
  qed
next
  case CloseLatch
  then show ?thesis using assms
    by (intro exI [of _ CloseLock]; cases g) (auto simp: phases_ok_def working_def closeLatch_def)
next
  case CloseLock
  then show ?thesis using assms
    by (intro exI [of _ ShutdownSocket]; cases g) (auto simp: phases_ok_def working_def closeLocked_def)
next
  case ShutdownSocket
  then show ?thesis using assms
    by (intro exI [of _ Stopped]; cases g) (auto simp: phases_ok_def working_def)
qed (use assms in auto)

lemma send_stage:
  assumes "ws_send sends (ws t) = (ok, w)" "stage_ok g t" "ws t' = w" "tun_stopping t' = tun_stopping t"
    "socketShutdowns t' = socketShutdowns t"
  shows "stage_ok g t'"
proof -
  have "ws_stopping w = ws_stopping (ws t) \<and> ws_shutdowns w = ws_shutdowns (ws t) \<and>
      (ws_connected w \<longrightarrow> ws_connected (ws t))"
    using assms(1) by (auto simp: ws_send_def split: if_splits)
  then show ?thesis using assms(2-) by (cases g) auto
qed

lemma receive_stage: "stage_ok g t \<Longrightarrow> stage_ok g (t\<lparr>ws := afterReceive r (ws t), incoming := es, down := d\<rparr>)"
  by (cases g; cases r) (auto simp: afterReceive_def)

lemma stage_ok_same:
  "ws t' = ws t \<Longrightarrow> tun_stopping t' = tun_stopping t \<Longrightarrow> socketShutdowns t' = socketShutdowns t \<Longrightarrow>
    stage_ok g t' = stage_ok g t"
  by (cases g) auto

lemma stop_ok_same:
  assumes "stop_ok t" "ws t' = ws t" "tun_stopping t' = tun_stopping t" "socketShutdowns t' = socketShutdowns t"
    "upStop t' = upStop t" "downStop t' = downStop t" "outsideStop t' = outsideStop t"
  shows "stop_ok t'"
  using assms stage_ok_same [of t' t] by (simp add: stop_ok_def)

lemma tunnelStep_stop: "tunnelStep t t' \<Longrightarrow> stop_ok t \<Longrightarrow> stop_ok t'"
proof (induction rule: tunnelStep.induct)
  case (up_send t c sends ok w)
  then obtain g where g: "stage_ok g t" "phases_ok g (upStop t) (downStop t) (outsideStop t)" "websocket_open (ws t)"
    by (auto simp: stop_ok_def)
  moreover have "websocket_open w" using up_send(2) g(3) by (auto simp: ws_send_def split: if_splits)
  moreover have "stage_ok g (t\<lparr>ws := w, frames := if ok then frames t @ [BinaryFrame c] else frames t,
      up := if ok then UpCheck else UpStopping Claim\<rparr>)"
    by (rule send_stage [OF up_send(2) g(1)]) simp_all
  ultimately show ?case using up_send(1)
    unfolding stop_ok_def upStop_def downStop_def outsideStop_def by (intro conjI exI [of _ g]) auto
next
  case (down_receive t r rest)
  then obtain g where g: "stage_ok g t" "phases_ok g (upStop t) (downStop t) (outsideStop t)" "websocket_open (ws t)"
    by (auto simp: stop_ok_def)
  have "websocket_open (afterReceive r (ws t))" using g(3) by (cases r) (auto simp: afterReceive_def)
  moreover have "downStop (t\<lparr>ws := afterReceive r (ws t), incoming := rest, down := afterMessage r\<rparr>) = downStop t"
    using down_receive(1) by (cases r) (auto simp: downStop_def afterMessage_def)
  ultimately show ?case using receive_stage [OF g(1)] g(2)
    by (auto simp: stop_ok_def upStop_def outsideStop_def)
next
  case (up_stop t p q t')
  then obtain g where "stage_ok g t" "phases_ok g p (downStop t) (outsideStop t)" "websocket_open (ws t)"
    by (auto simp: stop_ok_def upStop_def)
  then obtain g' where "stage_ok g' t'" "websocket_open (ws t')" "phases_ok g' q (downStop t) (outsideStop t)"
    using stopStep_stage [OF _ _ _ up_stop(2,3)] by blast
  then show ?case using stopStep_frame [OF up_stop(3)] stage_ok_same [of "t'\<lparr>up := UpStopping q\<rparr>" t' g']
    by (auto simp: stop_ok_def upStop_def downStop_def outsideStop_def)
next
  case (down_stop t p q t')
  then obtain g where "stage_ok g t" "phases_ok g p (upStop t) (outsideStop t)" "websocket_open (ws t)"
    using phases_ok_swap(1) by (auto simp: stop_ok_def downStop_def)
  then obtain g' where "stage_ok g' t'" "websocket_open (ws t')" "phases_ok g' (upStop t) q (outsideStop t)"
    using stopStep_stage [OF _ _ _ down_stop(2,3)] phases_ok_swap(1) by blast
  then show ?case using stopStep_frame [OF down_stop(3)] stage_ok_same [of "t'\<lparr>down := DownStopping q\<rparr>" t' g']
    by (auto simp: stop_ok_def upStop_def downStop_def outsideStop_def)
next
  case (outside_step t p q t')
  then obtain g where "stage_ok g t" "phases_ok g p (downStop t) (upStop t)" "websocket_open (ws t)"
    using phases_ok_swap(2) by (auto simp: stop_ok_def outsideStop_def)
  then obtain g' where "stage_ok g' t'" "websocket_open (ws t')" "phases_ok g' (upStop t) (downStop t) q"
    using stopStep_stage [OF _ _ _ outside_step(2,3)] phases_ok_swap(2) by blast
  then show ?case using stopStep_frame [OF outside_step(3)] stage_ok_same [of "t'\<lparr>outside := Some q\<rparr>" t' g']
    by (auto simp: stop_ok_def upStop_def downStop_def outsideStop_def)
qed (rule stop_ok_same, assumption; simp add: upStop_def downStop_def outsideStop_def)+

lemma tunnel_invariants:
  "tunnelStep\<^sup>*\<^sup>* s t \<Longrightarrow> up_ok fs cs s \<and> down_ok es s \<and> stop_ok s \<Longrightarrow> up_ok fs cs t \<and> down_ok es t \<and> stop_ok t"
  by (induction rule: rtranclp_induct) (auto dest: tunnelStep_up tunnelStep_down tunnelStep_stop)

lemma opened_state:
  assumes "openTunnel env workerUrl host port initial es = Opened w fs es'"
  shows "fs = TextFrame (connectCommand host port) # (if initial = [] then [] else [BinaryFrame initial])"
    "websocket_open w" "\<not> ws_stopping w" "ws_shutdowns w = 0"
  using assms
  by (auto simp: openTunnel_def replayInitial_def ws_connect_def latch_def publishSocket_def ws_send_def ws_receive_def
      canReceive_def afterReceive_def interfere_def ws_close_def closeLatch_def closeLocked_def newWsClient_def Let_def
      dest!: negotiate_frame split: if_splits option.splits prod.splits bool.splits Received.splits)

text \<open>
  C10. The tunnel is transparent and ends cleanly, for every interleaving of its threads and of a
  \<open>stop()\<close> from outside. The Worker is sent the connect command, then the bytes already read from the
  client, then the blocks read from it, each in one binary frame, in order and without gap or
  repetition. The client receives an initial part of the payload of the Worker's binary messages
  and nothing of its text messages. The socket and the WebSocket are each shut down at most once,
  and exactly once when both pumps and the outside call have finished; the client is then disconnected.
\<close>

theorem tunnel_transparent:
  assumes opened: "openTunnel env workerUrl host port initial es = Opened w fs es'"
    and run: "tunnelStep\<^sup>*\<^sup>* (newTunnel w fs es' blocks answers) t"
  shows "(\<exists>sent. prefix sent blocks \<and> frames t = TextFrame (connectCommand host port) #
        map BinaryFrame ((if initial = [] then [] else [initial]) @ sent)) \<and>
    prefix (wire (client t)) (payload es') \<and>
    socketShutdowns t \<le> 1 \<and> ws_shutdowns (ws t) \<le> 1 \<and>
    (up t = UpStopping Stopped \<and> down t = DownStopping Stopped \<and> outside t \<in> {None, Some Stopped} \<longrightarrow>
      tun_stopping t \<and> \<not> ws_connected (ws t) \<and> socketShutdowns t = 1 \<and> ws_shutdowns (ws t) = 1)"
proof -
  let ?t = "newTunnel w fs es' blocks answers"
  note start = opened_state [OF opened]
  have "up_ok fs blocks ?t" by (simp add: up_ok_def newTunnel_def)
  moreover have "down_ok es' ?t" by (simp add: down_ok_def newTunnel_def wire_def)
  moreover have "stop_ok ?t" using start(2-4)
    by (auto simp: stop_ok_def newTunnel_def phases_ok_def upStop_def downStop_def outsideStop_def working_def
        intro!: exI [of _ Claim])
  ultimately have ok: "up_ok fs blocks t \<and> down_ok es' t \<and> stop_ok t" using tunnel_invariants [OF run] by blast
  obtain sent where sent: "frames t = fs @ map BinaryFrame sent" "prefix sent blocks"
    using ok by (cases "up t") (auto simp: up_ok_def)
  obtain g where g: "stage_ok g t" "phases_ok g (upStop t) (downStop t) (outsideStop t)" using ok by (auto simp: stop_ok_def)
  have "\<exists>sent. prefix sent blocks \<and> frames t = TextFrame (connectCommand host port) #
      map BinaryFrame ((if initial = [] then [] else [initial]) @ sent)"
    using sent start(1) by (intro exI [of _ sent]) simp
  moreover have "socketShutdowns t \<le> 1 \<and> ws_shutdowns (ws t) \<le> 1" using g(1) by (cases g) auto
  moreover have "tun_stopping t \<and> \<not> ws_connected (ws t) \<and> socketShutdowns t = 1 \<and> ws_shutdowns (ws t) = 1"
    if "up t = UpStopping Stopped \<and> down t = DownStopping Stopped \<and> outside t \<in> {None, Some Stopped}"
  proof -
    have "g = Stopped" using g(2) that
      by (cases g) (auto simp: phases_ok_def working_def upStop_def downStop_def outsideStop_def)
    then show ?thesis using g(1) by simp
  qed
  ultimately show ?thesis using ok down_ok_prefix by blast
qed

definition sampleTunnelEnv :: TunnelEnv where
  "sampleTunnelEnv = \<lparr>stopSeen = (\<lambda>i. False), closedBefore = (\<lambda>i. False), tunnelHandshake = goodHandshake,
     sendsCommand = True, sendsInitial = True, threadStarts = True\<rparr>"

theorem tunnel_transparent_witness:
  "\<exists>w fs es t. openTunnel sampleTunnelEnv ''wss://w'' ''a.b'' 443 [22, 3]
       [Chunk Utf8Message (map char_byte (quoted ''connected'')), Chunk BinaryMessage [1]] = Opened w fs es \<and>
     tunnelStep\<^sup>*\<^sup>* (newTunnel w fs es [[9]] []) t \<and>
     frames t = [TextFrame (connectCommand ''a.b'' 443), BinaryFrame [22, 3]] \<and> prefix (wire (client t)) (payload es)"
proof -
  let ?r = "openTunnel sampleTunnelEnv ''wss://w'' ''a.b'' 443 [22, 3]
      [Chunk Utf8Message (map char_byte (quoted ''connected'')), Chunk BinaryMessage [1]]"
  have "case ?r of Opened w fs es \<Rightarrow> True | _ \<Rightarrow> False" by code_simp
  then obtain w fs es where r: "?r = Opened w fs es" by (auto split: Opening.splits)
  let ?t = "newTunnel w fs es [[9]] []"
  have "prefix (wire (client ?t)) (payload es)" using tunnel_transparent [OF r rtranclp.rtrancl_refl] by blast
  moreover have "frames ?t = [TextFrame (connectCommand ''a.b'' 443), BinaryFrame [22, 3]]"
    using opened_state(1) [OF r] by (simp add: newTunnel_def)
  ultimately show ?thesis using r by blast
qed

end
