(* ===== verification/Relay_Hello.thy ===== *)
theory Relay_Hello
  imports Fragment_Writer Packet_Registry Strategy_Learning Dns_Resolver
begin

text \<open>
  \<open>src/src/DirectRelay.cpp\<close>, up to the ClientHello: the state of one proxied connection, the
  addresses it may connect to, the connection to the target and the buffering of the client's
  first bytes.

  The environment of a connection is a record of functions from the number of the request to
  its answer: the clocks, the flag \<open>stopping_\<close> that another thread sets, the socket options,
  the reads from the client, the race for a connection, and what other threads did meanwhile
  to the strategy store and the packet policies. The relay counts its requests in \<open>asked\<close> and
  lists the changes it makes to the store in \<open>storeOps\<close>, the latest first. A \<open>Link\<close> is a connection to the target with what was written to it and the reads
  it will answer; a closed one is kept in \<open>retired\<close>.
\<close>

definition kMaxHelloBuffer :: nat where "kMaxHelloBuffer = 65536"
definition kClientFirstByteTimeoutMs :: u32 where "kClientFirstByteTimeoutMs = 4000"
definition kClientContinuationTimeoutMs :: u32 where "kClientContinuationTimeoutMs = 2000"
definition kConnectTimeoutMs :: u32 where "kConnectTimeoutMs = 10000"
definition kOriginalConnectTimeoutMs :: u32 where "kOriginalConnectTimeoutMs = 2000"
definition kChunkSize :: nat where "kChunkSize = 16384"

section \<open>State\<close>

text \<open>An answer of \<open>recvTimeout\<close>; \<open>Arrived []\<close> is an orderly close.\<close>

datatype Recv = Arrived "byte list" | TimedOut | Broken

record Link =
  link_address :: string
  link_port :: u16
  link_sock :: Socket
  replies :: "Recv list"

record RelayContext =
  ctx_networkId :: string
  networkIdProvider :: "string option"
  hasTelemetry :: bool
  splitDelayMs :: u32
  probeTimeoutMs :: u32
  tunnelFallback :: bool
  workerUrl :: string
  idleTimeoutMs :: u32
  forcedProfile :: string

record Env =
  net :: Net
  parseAddr :: "string \<Rightarrow> Address option"
  ticks :: "nat \<Rightarrow> u64"
  storeClocks :: "nat \<Rightarrow> Clock"
  stops :: "nat \<Rightarrow> bool"
  optionsOk :: "nat \<Rightarrow> bool"
  clientReads :: "nat \<Rightarrow> u32 \<Rightarrow> Recv"
  connects :: "nat \<Rightarrow> string list \<Rightarrow> u32 \<Rightarrow> Link option"
  otherStore :: "nat \<Rightarrow> Store \<Rightarrow> Store"
  otherPolicies :: "nat \<Rightarrow> PolicyRegistry \<Rightarrow> PolicyRegistry"
  samples :: "nat \<Rightarrow> u32"

record ProbeRecord =
  rec_networkId :: string
  rec_host :: string
  rec_remembered :: string
  rec_verdict :: Verdict
  rec_attempts :: "Attempt list"
  rec_totalElapsedMs :: u32
  rec_success :: bool
  rec_forced :: bool

record Relay =
  clientOpen :: bool
  target :: "Link option"
  retired :: "Link list"
  relay_host :: string
  relay_port :: u16
  originalTargetAddress :: string
  relay_networkId :: string
  armedLocalPort :: u16
  addresses :: "string list"
  connectedAddress :: string
  clientBuffer :: "byte list"
  hello :: ClientHello
  helloComplete :: bool
  firstResponse :: "byte list"
  activeProfile :: string
  resolver :: "Resolver option"
  strategies :: Store
  saved :: "Snapshot list"
  packetPolicies :: "PolicyRegistry option"
  storeOps :: "store_op list"
  records :: "ProbeRecord list"
  liveProfile :: string
  liveDecision :: "(bool \<times> bool) option"
  tunnelled :: "(string \<times> u16 \<times> byte list) option"
  asked :: nat

text \<open>One more request to the environment.\<close>

definition ask :: "(nat \<Rightarrow> 'a) \<Rightarrow> Relay \<Rightarrow> 'a \<times> Relay" where
  "ask f st = (f (asked st), st\<lparr>asked := asked st + 1\<rparr>)"

section \<open>Addresses\<close>

text \<open>\<open>systemResolve\<close>: at most eight different addresses of \<open>getaddrinfo\<close>.\<close>

fun systemLoop8 :: "(bool \<times> string) list \<Rightarrow> string list \<Rightarrow> string list" where
  "systemLoop8 [] out = out"
| "systemLoop8 ((six, addr) # rest) out =
     (if \<not> length out < 8 then out else systemLoop8 rest (if addr \<noteq> [] then appendUnique out addr else out))"

definition systemResolve :: "Net \<Rightarrow> string \<Rightarrow> string list" where
  "systemResolve n host = (case addrinfo n host of None \<Rightarrow> [] | Some found \<Rightarrow> systemLoop8 found [])"

definition addAddresses :: "string list \<Rightarrow> string list \<Rightarrow> string list" where
  "addAddresses old new = foldl appendUnique old new"

text \<open>The call into the resolver may wait for another thread (\<open>Blocked\<close>).\<close>

definition prepareCandidates :: "Env \<Rightarrow> Relay \<Rightarrow> Relay io" where
  "prepareCandidates env st =
     (let n = net env; host = relay_host st; literal = isIpLiteral n host;
          first = (if originalTargetAddress st \<noteq> [] then [originalTargetAddress st] else []);
          finish = (\<lambda>st1 found.
            let pool = addAddresses first found;
                pool1 = (if pool = [] \<and> (resolver st1 \<noteq> None \<or> literal) then systemResolve n host else pool)
            in Done (pool1 \<noteq> []) (st1\<lparr>addresses := pool1\<rparr>))
      in if literal \<or> (resolver st = None \<and> originalTargetAddress st \<noteq> []) then finish st []
         else case resolver st of
           None \<Rightarrow> finish st (systemResolve n host)
         | Some r \<Rightarrow>
             (case resolve n host 0 r of
                None \<Rightarrow> Blocked
              | Some (res, r1) \<Rightarrow> finish (st\<lparr>resolver := Some r1\<rparr>) (addressCandidates 8 res)))"

section \<open>The connection to the target\<close>

text \<open>\<open>closesocket\<close> on the target side.\<close>

definition dropTarget :: "Relay \<Rightarrow> Relay" where
  "dropTarget st = (case target st of None \<Rightarrow> st | Some l \<Rightarrow> st\<lparr>target := None, retired := retired st @ [l]\<rparr>)"

definition race :: "Env \<Rightarrow> u32 \<Rightarrow> Relay \<Rightarrow> Link option \<times> Relay" where
  "race env budget st =
     (let (found, st1) = ask (\<lambda>k. connects env k (addresses st) budget) st
      in (found, st1\<lparr>connectedAddress := (case found of None \<Rightarrow> [] | Some l \<Rightarrow> link_address l)\<rparr>))"

text \<open>The second race, with the other addresses of the system first.\<close>

definition retryRace :: "Env \<Rightarrow> Relay \<Rightarrow> Link option \<times> Relay" where
  "retryRace env st =
     (let pool = addAddresses (addresses st) (systemResolve (net env) (relay_host st)) in
      if length pool > 1 then race env (kConnectTimeoutMs - kOriginalConnectTimeoutMs) (st\<lparr>addresses := rotate1 pool\<rparr>)
      else (None, st\<lparr>addresses := pool\<rparr>))"

definition adoptLink :: "Env \<Rightarrow> Link \<Rightarrow> Relay \<Rightarrow> bool \<times> Relay" where
  "adoptLink env l st =
     (let (stop, st1) = ask (stops env) st in
      if stop then (False, st1\<lparr>retired := retired st1 @ [l]\<rparr>)
      else let (ok, st2) = ask (optionsOk env) st1 in
        if \<not> ok then (False, st2\<lparr>retired := retired st2 @ [l]\<rparr>)
        else (True, st2\<lparr>target := Some l\<rparr>))"

definition selectedByApplication :: "Env \<Rightarrow> Relay \<Rightarrow> bool" where
  "selectedByApplication env st \<longleftrightarrow> resolver st = None \<and> originalTargetAddress st \<noteq> [] \<and>
     \<not> isIpLiteral (net env) (relay_host st) \<and> length (addresses st) = 1"

definition connectTarget :: "Env \<Rightarrow> Relay \<Rightarrow> bool \<times> Relay" where
  "connectTarget env st =
     (let (stop, st1) = ask (stops env) st in
      if stop then (False, st1)
      else let (found, st2) = race env (if selectedByApplication env st1 then kOriginalConnectTimeoutMs else kConnectTimeoutMs) st1;
               (found1, st3) =
                 (if found = None \<and> selectedByApplication env st1
                  then (let (stop2, s) = ask (stops env) st2 in if stop2 then (None, s) else retryRace env s)
                  else (found, st2))
        in case found1 of None \<Rightarrow> (False, st3) | Some l \<Rightarrow> adoptLink env l st3)"

definition reconnect :: "Env \<Rightarrow> Relay \<Rightarrow> bool \<times> Relay" where
  "reconnect env st = connectTarget env (dropTarget st)"

section \<open>The client's first bytes\<close>

text \<open>A verdict of the parser ends the loop; \<open>None\<close> asks for more.\<close>

definition helloVerdict :: "ParseStatus \<Rightarrow> ClientHello \<Rightarrow> Relay \<Rightarrow> Relay option" where
  "helloVerdict verdict h st =
     (let st1 = st\<lparr>hello := h\<rparr> in
      case verdict of
        Ok \<Rightarrow> Some (st1\<lparr>helloComplete := True,
                relay_host := (if serverName h \<noteq> [] then normalizeHost (serverName h) else relay_host st1)\<rparr>)
      | ParseStatus.NeedMore \<Rightarrow> if length (clientBuffer st1) \<ge> kMaxHelloBuffer then Some st1 else None
      | NotTls \<Rightarrow> Some st1
      | Malformed \<Rightarrow> Some st1)"

text \<open>The loop; it has not returned when the fuel is used up.\<close>

fun collectLoop :: "Env \<Rightarrow> nat \<Rightarrow> u32 \<Rightarrow> Relay \<Rightarrow> Relay io" where
  "collectLoop env 0 budget st = Blocked"
| "collectLoop env (Suc fuel) budget st =
     (let (stop, st1) = ask (stops env) st in
      if stop then Done False st1
      else let (received, st2) = ask (\<lambda>k. clientReads env k budget) st1 in
        case received of
          TimedOut \<Rightarrow> Done True st2
        | Broken \<Rightarrow> Done (clientBuffer st2 \<noteq> []) st2
        | Arrived data \<Rightarrow>
            let chunk = take kChunkSize data in
            if chunk = [] then Done (clientBuffer st2 \<noteq> []) st2
            else let st3 = st2\<lparr>clientBuffer := clientBuffer st2 @ chunk\<rparr> in
              (case parseClientHello (clientBuffer st3) of
                 None \<Rightarrow> Overrun
               | Some (verdict, h) \<Rightarrow>
                   (case helloVerdict verdict h st3 of
                      Some st4 \<Rightarrow> Done True st4
                    | None \<Rightarrow> collectLoop env fuel kClientContinuationTimeoutMs (st3\<lparr>hello := h\<rparr>))))"

text \<open>Every read brings a byte, and no verdict is open after 16389 bytes: so much fuel is enough.\<close>

definition collectFuel :: nat where "collectFuel = 16390"

definition collectClientHello :: "Env \<Rightarrow> Relay \<Rightarrow> Relay io" where
  "collectClientHello env st =
     collectLoop env collectFuel kClientFirstByteTimeoutMs (st\<lparr>clientBuffer := [], helloComplete := False\<rparr>)"

section \<open>Buffering the hello ends\<close>

text \<open>What the first \<open>n\<close> reads of a loop that starts with request \<open>k\<close> bring.\<close>

fun chunkOf :: "Recv \<Rightarrow> byte list" where
  "chunkOf (Arrived data) = take kChunkSize data"
| "chunkOf TimedOut = []"
| "chunkOf Broken = []"

definition firstReads :: "Env \<Rightarrow> nat \<Rightarrow> u32 \<Rightarrow> nat \<Rightarrow> byte list" where
  "firstReads env k budget n =
     concat (map (\<lambda>j. chunkOf (clientReads env (k + 2 * j + 1) (if j = 0 then budget else kClientContinuationTimeoutMs))) [0..<n])"

lemma firstReads_Suc:
  "firstReads env k budget (Suc n) =
     chunkOf (clientReads env (k + 1) budget) @ firstReads env (k + 2) kClientContinuationTimeoutMs n"
proof -
  have "map (\<lambda>j. chunkOf (clientReads env (k + 2 * j + 1) (if j = 0 then budget else kClientContinuationTimeoutMs))) [0..<Suc n] =
      chunkOf (clientReads env (k + 1) budget) #
      map (\<lambda>j. chunkOf (clientReads env (k + 2 * Suc j + 1) kClientContinuationTimeoutMs)) [0..<n]"
    by (simp add: upt_conv_Cons map_Suc_upt [symmetric] comp_def del: upt_Suc)
  then show ?thesis by (simp add: firstReads_def del: upt_Suc)
qed

text \<open>The result of the loop, relative to the state it started in.\<close>

definition collected :: "Env \<Rightarrow> u32 \<Rightarrow> Relay \<Rightarrow> bool \<Rightarrow> Relay \<Rightarrow> bool" where
  "collected env budget st b st' \<longleftrightarrow>
     (\<exists>n. clientBuffer st' = clientBuffer st @ firstReads env (asked st) budget n) \<and>
     length (clientBuffer st') < 32773 \<and>
     (if helloComplete st'
      then b \<and> parseClientHello (clientBuffer st') = Some (Ok, hello st') \<and>
        relay_host st' = (if serverName (hello st') \<noteq> [] then normalizeHost (serverName (hello st')) else relay_host st)
      else relay_host st' = relay_host st) \<and>
     st' = st\<lparr>clientBuffer := clientBuffer st', hello := hello st', helloComplete := helloComplete st',
       relay_host := relay_host st', asked := asked st'\<rparr>"

lemma undecided_short: "parseClientHello data = Some (ParseStatus.NeedMore, h) \<Longrightarrow> length data < 16389"
  using parseClientHello_decides [of data h] by (auto simp: kRecordHeaderSize_def kMaxRecordPayload_def)

lemma collectLoop_ends:
  assumes "parseClientHello (clientBuffer st) = Some (ParseStatus.NeedMore, h)" and "\<not> helloComplete st"
    and "16390 \<le> fuel + length (clientBuffer st)"
  shows "\<exists>b st'. collectLoop env fuel budget st = Done b st' \<and> collected env budget st b st'"
  using assms
proof (induction fuel arbitrary: budget st h)
  case 0
  then show ?case using undecided_short by fastforce
next
  case (Suc fuel)
  note short = undecided_short [OF Suc.prems(1)]
  have stay: "collected env budget st b (st\<lparr>asked := k\<rparr>)" for b k
    using Suc.prems(2) short by (auto simp: collected_def firstReads_def intro: exI [of _ 0])
  let ?r = "clientReads env (Suc (asked st)) budget"
  let ?chunk = "chunkOf ?r"
  show ?case
  proof (cases "stops env (asked st) \<or> ?chunk = []")
    case True
    then show ?thesis
      using stay by (auto simp: ask_def Let_def split: Recv.splits)
  next
    case False
    then obtain data where r: "?r = Arrived data" by (cases ?r) auto
    let ?buf = "clientBuffer st @ ?chunk"
    let ?st3 = "st\<lparr>asked := Suc (Suc (asked st)), clientBuffer := ?buf\<rparr>"
    obtain v h' where v: "parseClientHello ?buf = Some (v, h')" using parseClientHello_report by blast
    have len: "length ?chunk \<le> 16384" "0 < length ?chunk" using False r by (auto simp: kChunkSize_def)
    have one: "clientBuffer st @ ?chunk = clientBuffer st @ firstReads env (asked st) budget 1"
      by (simp add: firstReads_def)
    have loop: "collectLoop env (Suc fuel) budget st =
        (case helloVerdict v h' ?st3 of Some st4 \<Rightarrow> Done True st4
         | None \<Rightarrow> collectLoop env fuel kClientContinuationTimeoutMs (?st3\<lparr>hello := h'\<rparr>))"
      using False r v by (auto simp: ask_def Let_def split: option.split)
    show ?thesis
    proof (cases "helloVerdict v h' ?st3")
      case (Some st4)
      have "collected env budget st True st4"
        using Some Suc.prems(2) short len one v
        by (cases v) (auto simp: collected_def helloVerdict_def Let_def kMaxHelloBuffer_def split: if_splits)
      then show ?thesis using loop Some by auto
    next
      case None
      then have v': "v = ParseStatus.NeedMore" by (auto simp: helloVerdict_def Let_def split: ParseStatus.splits if_splits)
      obtain b st' where st': "collectLoop env fuel kClientContinuationTimeoutMs (?st3\<lparr>hello := h'\<rparr>) = Done b st'"
        and c: "collected env kClientContinuationTimeoutMs (?st3\<lparr>hello := h'\<rparr>) b st'"
        using Suc.IH [of "?st3\<lparr>hello := h'\<rparr>" h' kClientContinuationTimeoutMs] v v' Suc.prems(2,3) len by auto
      obtain n where n: "clientBuffer st' = ?buf @ firstReads env (asked st + 2) kClientContinuationTimeoutMs n"
        using c by (auto simp: collected_def)
      have "clientBuffer st' = clientBuffer st @ firstReads env (asked st) budget (Suc n)"
        unfolding n firstReads_Suc by simp
      then have "collected env budget st b st'" using c by (auto simp: collected_def)
      then show ?thesis using loop None st' by auto
    qed
  qed
qed

lemma collectClientHello_collected:
  "\<exists>b st'. collectClientHello env st = Done b st' \<and>
     collected env kClientFirstByteTimeoutMs (st\<lparr>clientBuffer := [], helloComplete := False\<rparr>) b st'"
  unfolding collectClientHello_def
  by (rule collectLoop_ends [where h = noHello]) (simp_all add: parseClientHello_def collectFuel_def)


end
