(* ===== verification/Relay_Probe.thy ===== *)
theory Relay_Probe
  imports Relay_Hello
begin

text \<open>
  \<open>DirectRelay::deliverHello\<close> of \<open>src/src/DirectRelay.cpp\<close>: the buffered ClientHello goes out
  under one profile after another, each on a connection of its own, until a server answers;
  what that teaches goes to the strategy store and the telemetry.
\<close>

definition kMaxProbeAttempts :: nat where "kMaxProbeAttempts = 12"
definition kProbeReadBufferSize :: nat where "kProbeReadBufferSize = 32768"
definition kMaxProbeResponse :: nat where "kMaxProbeResponse = 65536"
definition kHealthySampleRate :: u32 where "kHealthySampleRate = 20"

definition relay_isPacketProfile :: "string \<Rightarrow> bool" where
  "relay_isPacketProfile profile = starts_with profile ''packet-''"

section \<open>Shared state\<close>

text \<open>A call into the store: other threads come first, the store reads its own clocks.\<close>

definition useStore :: "Env \<Rightarrow> (Clock \<Rightarrow> Store \<Rightarrow> 'a \<times> Store) \<Rightarrow> Relay \<Rightarrow> 'a \<times> Relay" where
  "useStore env f st =
     (let k = asked st; (a, s) = f (storeClocks env k) (otherStore env k (strategies st))
      in (a, st\<lparr>strategies := s, asked := k + 1\<rparr>))"

definition logOp :: "store_op \<Rightarrow> Relay \<Rightarrow> Relay" where
  "logOp op st = st\<lparr>storeOps := op # storeOps st\<rparr>"

definition storeRemember :: "Env \<Rightarrow> string \<Rightarrow> Kind \<Rightarrow> nat \<Rightarrow> Relay \<Rightarrow> Outcome \<times> Relay" where
  "storeRemember env profile kind confidence st =
     (let clk = storeClocks env (asked st);
          ((outcome, snap), st1) = useStore env (\<lambda>c s.
            case remember (relay_networkId st) (relay_host st) profile kind (of_nat confidence) 0 c s of (o1, sn, s1) \<Rightarrow> ((o1, sn), s1)) st
      in (outcome, logOp (Remember (relay_networkId st) (relay_host st) profile kind (of_nat confidence) 0 clk)
            (st1\<lparr>saved := saved st1 @ [snap]\<rparr>)))"

definition storeHealthy :: "Env \<Rightarrow> Relay \<Rightarrow> Relay" where
  "storeHealthy env st =
     (let clk = storeClocks env (asked st);
          (snap, st1) = useStore env (noteBaselineHealthy (relay_networkId st) (relay_host st) 0) st
      in logOp (NoteHealthy (relay_networkId st) (relay_host st) 0 clk) (st1\<lparr>saved := saved st1 @ [snap]\<rparr>))"

definition storeFailure :: "Env \<Rightarrow> string \<Rightarrow> Relay \<Rightarrow> Relay" where
  "storeFailure env profile st =
     (let clk = storeClocks env (asked st);
          (snap, st1) = useStore env (recordFailure (relay_networkId st) (relay_host st) profile) st
      in logOp (RecordFailure (relay_networkId st) (relay_host st) profile clk) (st1\<lparr>saved := saved st1 @ [snap]\<rparr>))"

definition storeOrder :: "Env \<Rightarrow> Relay \<Rightarrow> string list \<times> Relay" where
  "storeOrder env st =
     (let clk = storeClocks env (asked st);
          (order, st1) = useStore env (probeOrder (relay_networkId st) (relay_host st) (hello st) 0) st
      in (order, logOp (ProbeOrder (relay_networkId st) (relay_host st) (hello st) 0 clk) st1))"

definition storeLookup :: "Env \<Rightarrow> Relay \<Rightarrow> string \<times> Relay" where
  "storeLookup env st = useStore env (\<lambda>c s. (lookup (relay_networkId st) (relay_host st) c s, s)) st"

definition storeHealthyBaseline :: "Env \<Rightarrow> Relay \<Rightarrow> bool \<times> Relay" where
  "storeHealthyBaseline env st = useStore env (\<lambda>c s. (baselineRecentlyHealthy (relay_networkId st) (relay_host st) 0 c s, s)) st"

text \<open>The packet policy of an attempt, and whether the packet loop used it.\<close>

definition armPolicy :: "Env \<Rightarrow> string \<Rightarrow> Relay \<Rightarrow> Relay" where
  "armPolicy env profile st =
     (let st0 = st\<lparr>armedLocalPort := 0\<rparr> in
      case packetPolicies st0 of
        None \<Rightarrow> st0
      | Some reg \<Rightarrow>
          (case policyForProfile profile (hello st0) of
             (False, _) \<Rightarrow> st0
           | (True, policy) \<Rightarrow>
               let k = asked st0; port = (case target st0 of None \<Rightarrow> 0 | Some l \<Rightarrow> link_port l) in
               st0\<lparr>armedLocalPort := port, asked := k + 1,
                 packetPolicies := Some (arm (parseAddr env) (connectedAddress st0) port policy 0 (ticks env k) (otherPolicies env k reg))\<rparr>))"

definition packetPolicyApplied :: "Env \<Rightarrow> Relay \<Rightarrow> bool \<times> Relay" where
  "packetPolicyApplied env st =
     (case packetPolicies st of
        None \<Rightarrow> (False, st)
      | Some reg \<Rightarrow>
          if armedLocalPort st = 0 then (False, st)
          else let k = asked st;
                   (applied, reg1) = consumeApplied (parseAddr env) (connectedAddress st) (armedLocalPort st) 0 (ticks env k)
                     (otherPolicies env k reg)
            in (applied, st\<lparr>packetPolicies := Some reg1, asked := k + 1\<rparr>))"

section \<open>Writing and reading\<close>

text \<open>A write to the target; on an invalid handle it fails.\<close>

definition onTarget :: "(Socket \<Rightarrow> Socket io) \<Rightarrow> Relay \<Rightarrow> Relay io" where
  "onTarget f st =
     (case target st of
        None \<Rightarrow> Done False st
      | Some l \<Rightarrow>
          (case f (link_sock l) of
             Done b s \<Rightarrow> Done b (st\<lparr>target := Some (l\<lparr>link_sock := s\<rparr>)\<rparr>)
           | Blocked \<Rightarrow> Blocked
           | Overrun \<Rightarrow> Overrun))"

fun signalOf :: "ServerResponseStatus \<Rightarrow> ProbeSignal option" where
  "signalOf ServerResponseStatus.ServerHello = Some ProbeSignal.ServerHello"
| "signalOf ServerResponseStatus.Alert = Some ProbeSignal.Alert"
| "signalOf ServerResponseStatus.Unexpected = Some ProbeSignal.Unexpected"
| "signalOf ServerResponseStatus.NeedMore = None"

text \<open>
  The loop of \<open>awaitResponse\<close> over the reads the target answers; past their end nothing
  arrives. Result: the signal, the bytes read, the reads left and the number of requests.
\<close>

fun awaitLoop :: "Env \<Rightarrow> u64 \<Rightarrow> Recv list \<Rightarrow> byte list \<Rightarrow> nat \<Rightarrow> (ProbeSignal \<times> byte list \<times> Recv list \<times> nat) option" where
  "awaitLoop env deadline [] out k =
     Some (if \<not> length out < kMaxProbeResponse then (ProbeSignal.Unexpected, out, [], k) else (Timeout, out, [], k + 1))"
| "awaitLoop env deadline (r # rs) out k =
     (if \<not> length out < kMaxProbeResponse then Some (ProbeSignal.Unexpected, out, r # rs, k)
      else if ticks env k \<ge> deadline then Some (Timeout, out, r # rs, k + 1)
      else case r of
        TimedOut \<Rightarrow> Some (Timeout, out, rs, k + 1)
      | Broken \<Rightarrow> Some (Reset, out, rs, k + 1)
      | Arrived data \<Rightarrow>
          let got = take kProbeReadBufferSize data in
          if got = [] then Some (Closed, out, rs, k + 1)
          else (case classifyServerResponse (out @ got) of
                  None \<Rightarrow> None
                | Some verdict \<Rightarrow>
                    (case signalOf verdict of
                       Some signal \<Rightarrow> Some (signal, out @ got, rs, k + 1)
                     | None \<Rightarrow> awaitLoop env deadline rs (out @ got) (k + 1))))"

definition awaitResponse :: "Env \<Rightarrow> RelayContext \<Rightarrow> Relay \<Rightarrow> (ProbeSignal \<times> Relay) option" where
  "awaitResponse env ctx st =
     (case target st of
        None \<Rightarrow> Some (Reset, st\<lparr>firstResponse := []\<rparr>)
      | Some l \<Rightarrow>
          let (now, st1) = ask (ticks env) st in
          (case awaitLoop env (now + ucast (probeTimeoutMs ctx)) (replies l) [] (asked st1) of
             None \<Rightarrow> None
           | Some (signal, out, rs, k) \<Rightarrow>
               Some (signal, st1\<lparr>firstResponse := out, target := Some (l\<lparr>replies := rs\<rparr>), asked := k\<rparr>)))"

text \<open>The 0-RTT data behind the hello goes to the connection that won.\<close>

definition flushTrailingClientData :: "Relay \<Rightarrow> Relay io" where
  "flushTrailingClientData st =
     (if \<not> helloComplete st \<or> spansRecords (hello st) \<or> length (clientBuffer st) \<le> recordTotalLength (hello st)
      then Done True st
      else onTarget (sendAll (drop (recordTotalLength (hello st)) (clientBuffer st))) st)"

section \<open>What an attempt teaches\<close>

definition recordTelemetry :: "Env \<Rightarrow> RelayContext \<Rightarrow> Attempt list \<Rightarrow> Verdict \<Rightarrow> string \<Rightarrow> bool \<Rightarrow> u64 \<Rightarrow> Relay \<Rightarrow> Relay" where
  "recordTelemetry env ctx evidence verdict remembered success totalElapsedMs st =
     (let st1 = st\<lparr>liveProfile := (if success \<and> winningProfile verdict \<noteq> [] then winningProfile verdict else liveProfile st),
                  liveDecision := Some (success, success \<and> isVerifiedBypass (verdict_kind verdict))\<rparr>;
          healthy = (success \<and> length evidence = 1 \<and> verdict_kind verdict = NoInterference \<and>
                     winningProfile verdict = ''none'' \<and> remembered = []);
          record1 = \<lparr>rec_networkId = relay_networkId st, rec_host = relay_host st, rec_remembered = remembered,
            rec_verdict = verdict, rec_attempts = evidence, rec_totalElapsedMs = ucast (min totalElapsedMs 0xFFFFFFFF),
            rec_success = success, rec_forced = (forcedProfile ctx \<noteq> [])\<rparr>
      in if \<not> hasTelemetry ctx then st1
         else if healthy then
           (let (n, st2) = ask (samples env) st1 in
            if n mod kHealthySampleRate \<noteq> 0 then st2 else st2\<lparr>records := records st2 @ [record1]\<rparr>)
         else st1\<lparr>records := records st1 @ [record1]\<rparr>)"

text \<open>A failed remembered profile is held against it at the end.\<close>

definition settleFailure :: "Env \<Rightarrow> RelayContext \<Rightarrow> string \<Rightarrow> bool \<Rightarrow> Relay \<Rightarrow> Relay" where
  "settleFailure env ctx remembered rememberedFailed st =
     (if forcedProfile ctx = [] \<and> rememberedFailed then storeFailure env remembered st else st)"

text \<open>The branch of a ServerHello: what is learned, and the verdict that goes on record.\<close>

definition learnFrom ::
  "Env \<Rightarrow> RelayContext \<Rightarrow> string \<Rightarrow> string \<Rightarrow> bool \<Rightarrow> Verdict \<Rightarrow> Relay \<Rightarrow> Verdict \<times> Relay" where
  "learnFrom env ctx profile remembered rememberedFailed verdict st =
     (if forcedProfile ctx \<noteq> [] then (verdict, st)
      else if profile = ''none'' then
        (let st1 = storeHealthy env st in
         (verdict, if remembered \<noteq> [] then snd (storeRemember env profile (verdict_kind verdict) (verdict_confidence verdict) st1) else st1))
      else let (skip, st1) = (if relay_isPacketProfile profile
                              then (let (applied, s) = packetPolicyApplied env st in (\<not> applied, s)) else (False, st)) in
        if skip then (verdict, st1)
        else if verdict_kind verdict = TransientFailure then (verdict, st1)
        else let st2 = settleFailure env ctx remembered rememberedFailed st1;
                 (learned, st3) = storeRemember env profile (verdict_kind verdict) (verdict_confidence verdict) st2
          in (if learned = Candidate
              then verdict\<lparr>verdict_kind := InterferenceSuspected, verdict_confidence := min (verdict_confidence verdict) 55\<rparr>
              else verdict, st3))"

definition probeFailed ::
  "Env \<Rightarrow> RelayContext \<Rightarrow> Context \<Rightarrow> u64 \<Rightarrow> string \<Rightarrow> Attempt list \<Rightarrow> bool \<Rightarrow> Relay \<Rightarrow> Relay" where
  "probeFailed env ctx diag started remembered evidence rememberedFailed st =
     (let verdict = infer evidence diag;
          st1 = settleFailure env ctx remembered rememberedFailed st;
          (now, st2) = ask (ticks env) st1
      in recordTelemetry env ctx evidence verdict remembered False (now - started) st2)"

definition probeWon ::
  "Env \<Rightarrow> RelayContext \<Rightarrow> Context \<Rightarrow> u64 \<Rightarrow> string \<Rightarrow> string \<Rightarrow> Attempt list \<Rightarrow> bool \<Rightarrow> Relay \<Rightarrow> Relay" where
  "probeWon env ctx diag started remembered profile evidence rememberedFailed st =
     (let (verdict, st1) = learnFrom env ctx profile remembered rememberedFailed (infer evidence diag) (st\<lparr>activeProfile := profile\<rparr>);
          (now, st2) = ask (ticks env) st1
      in recordTelemetry env ctx evidence verdict remembered True (now - started) st2)"

section \<open>The attempts\<close>

definition elapsedOf :: "u64 \<Rightarrow> u64 \<Rightarrow> u32" where
  "elapsedOf started now = ucast (min (now - started) 0xFFFFFFFF)"

text \<open>
  One turn of the loop over the profiles: it ends the loop (\<open>GiveUp\<close>), skips the profile, fails
  to send, or gets an answer after some time. \<open>Stuck\<close>: a write never returns.
\<close>

datatype Attempted = GiveUp Relay | Skipped Relay | Unsent Relay | Answered ProbeSignal u32 Relay | Stuck | OutOfBounds

definition sendHello :: "Env \<Rightarrow> RelayContext \<Rightarrow> string \<Rightarrow> FragmentPlan \<Rightarrow> Relay \<Rightarrow> Attempted" where
  "sendHello env ctx profile plan st =
     (let (sentAt, st1) = ask (ticks env) (armPolicy env profile st) in
      case onTarget (writePlan (helloComplete st1) plan (clientBuffer st1) (hello st1)) st1 of
        Blocked \<Rightarrow> Stuck
      | Overrun \<Rightarrow> OutOfBounds
      | Done sent st2 \<Rightarrow>
          if \<not> sent then Unsent st2
          else case awaitResponse env ctx st2 of
            None \<Rightarrow> OutOfBounds
          | Some (outcome, st3) \<Rightarrow> let (now, st4) = ask (ticks env) st3 in Answered outcome (elapsedOf sentAt now) st4)"

definition attempt :: "Env \<Rightarrow> RelayContext \<Rightarrow> string \<Rightarrow> nat \<Rightarrow> Relay \<Rightarrow> Attempted" where
  "attempt env ctx profile tries st =
     (if tries \<ge> kMaxProbeAttempts then GiveUp st
      else let (stop, st1) = ask (stops env) st in
      if stop then GiveUp st1
      else let (applicable, plan) = buildPlan profile (hello st1) (splitDelayMs ctx) in
      if (\<not> applicable \<and> profile \<noteq> ''none'') \<or> (packetPolicies st1 = None \<and> relay_isPacketProfile profile) then Skipped st1
      else let (connected, st2) = (if tries > 0 then reconnect env st1 else (True, st1)) in
      if \<not> connected then GiveUp st2 else sendHello env ctx profile plan st2)"

fun probeLoop ::
  "Env \<Rightarrow> RelayContext \<Rightarrow> Context \<Rightarrow> u64 \<Rightarrow> string \<Rightarrow> string list \<Rightarrow> nat \<Rightarrow> Attempt list \<Rightarrow> bool \<Rightarrow> Relay \<Rightarrow> Relay io" where
  "probeLoop env ctx diag started remembered [] tries evidence failed st =
     Done False (probeFailed env ctx diag started remembered evidence failed st)"
| "probeLoop env ctx diag started remembered (profile # order) tries evidence failed st =
     (case attempt env ctx profile tries st of
        GiveUp st1 \<Rightarrow> Done False (probeFailed env ctx diag started remembered evidence failed st1)
      | Skipped st1 \<Rightarrow> probeLoop env ctx diag started remembered order tries evidence failed st1
      | Unsent st1 \<Rightarrow> probeLoop env ctx diag started remembered order (tries + 1) evidence failed st1
      | Stuck \<Rightarrow> Blocked
      | OutOfBounds \<Rightarrow> Overrun
      | Answered outcome elapsed st1 \<Rightarrow>
          let evidence1 = evidence @ [\<lparr>attempt_profile = profile, attempt_signal = outcome, elapsedMs = elapsed\<rparr>] in
          if outcome = ProbeSignal.ServerHello
          then Done True (probeWon env ctx diag started remembered profile evidence1 failed st1)
          else probeLoop env ctx diag started remembered order (tries + 1) evidence1
            (failed \<or> (forcedProfile ctx = [] \<and> profile = remembered)) (st1\<lparr>firstResponse := []\<rparr>))"

definition deliverHello :: "Env \<Rightarrow> RelayContext \<Rightarrow> Relay \<Rightarrow> Relay io" where
  "deliverHello env ctx st =
     (if clientBuffer st = [] then Done True st
      else if \<not> helloComplete st then onTarget (sendAll (clientBuffer st)) st
      else if spansRecords (hello st) then onTarget (sendAll (clientBuffer st)) (st\<lparr>activeProfile := ''none''\<rparr>)
      else let learning = (forcedProfile ctx = []);
               (order, st1) = (if learning then storeOrder env st
                               else (if forcedProfile ctx = ''none'' then [''none''] else [forcedProfile ctx, ''none''], st));
               (remembered, st2) = storeLookup env st1;
               (started, st3) = ask (ticks env) st2;
               (healthy, st4) = (if learning then storeHealthyBaseline env st3 else (False, st3));
               diag = \<lparr>rememberedProfile = (if learning then remembered else []), baselineRecentlyHealthy_ctx = healthy\<rparr>
        in probeLoop env ctx diag started remembered order 0 [] False st4)"

section \<open>What the bookkeeping leaves alone\<close>

text \<open>The connection without its bookkeeping.\<close>

definition core :: "Relay \<Rightarrow> Relay" where
  "core st = st\<lparr>asked := 0, packetPolicies := None, strategies := emptyStore [], saved := [], storeOps := [], records := [],
     liveProfile := [], liveDecision := None, armedLocalPort := 0\<rparr>"

lemma core_select:
  "target (core st) = target st" "retired (core st) = retired st" "clientBuffer (core st) = clientBuffer st"
  "hello (core st) = hello st" "helloComplete (core st) = helloComplete st" "firstResponse (core st) = firstResponse st"
  "activeProfile (core st) = activeProfile st" "relay_host (core st) = relay_host st" "relay_networkId (core st) = relay_networkId st"
  "clientOpen (core st) = clientOpen st" "addresses (core st) = addresses st" "connectedAddress (core st) = connectedAddress st"
  "resolver (core st) = resolver st" "relay_port (core st) = relay_port st" "tunnelled (core st) = tunnelled st"
  "originalTargetAddress (core st) = originalTargetAddress st"
  by (simp_all add: core_def)

lemma core_eqD:
  assumes "core st = core st'"
  shows "target st = target st'" "retired st = retired st'" "clientBuffer st = clientBuffer st'"
    "hello st = hello st'" "helloComplete st = helloComplete st'" "firstResponse st = firstResponse st'"
    "activeProfile st = activeProfile st'" "relay_host st = relay_host st'" "relay_networkId st = relay_networkId st'"
    "clientOpen st = clientOpen st'" "addresses st = addresses st'" "connectedAddress st = connectedAddress st'"
    "resolver st = resolver st'" "relay_port st = relay_port st'" "tunnelled st = tunnelled st'"
    "originalTargetAddress st = originalTargetAddress st'"
  using assms by (metis core_select)+

lemma core_ask [simp]: "core (snd (ask f st)) = core st"
  by (simp add: ask_def core_def)

lemma core_useStore [simp]: "core (snd (useStore env f st)) = core st"
  by (simp add: useStore_def core_def Let_def case_prod_beta)

lemma core_logOp [simp]: "core (logOp op st) = core st"
  by (simp add: logOp_def core_def)

lemma core_store [simp]:
  "core (snd (storeRemember env p k c st)) = core st" "core (storeHealthy env st) = core st"
  "core (storeFailure env p st) = core st" "core (snd (storeOrder env st)) = core st"
  "core (snd (storeLookup env st)) = core st" "core (snd (storeHealthyBaseline env st)) = core st"
proof -
  have saved: "core (st\<lparr>saved := x\<rparr>) = core st" for st x by (simp add: core_def)
  show "core (snd (storeRemember env p k c st)) = core st" "core (storeHealthy env st) = core st"
    "core (storeFailure env p st) = core st" "core (snd (storeOrder env st)) = core st"
    "core (snd (storeLookup env st)) = core st" "core (snd (storeHealthyBaseline env st)) = core st"
    by (simp_all add: storeRemember_def storeHealthy_def storeFailure_def storeOrder_def storeLookup_def
        storeHealthyBaseline_def Let_def case_prod_beta saved)
qed

lemma core_armPolicy [simp]: "core (armPolicy env profile st) = core st"
  by (simp add: armPolicy_def core_def Let_def split: option.split prod.split bool.split)

lemma core_packetPolicyApplied [simp]: "core (snd (packetPolicyApplied env st)) = core st"
  by (simp add: packetPolicyApplied_def core_def Let_def case_prod_beta split: option.split)

lemma core_recordTelemetry [simp]: "core (recordTelemetry env ctx evidence verdict remembered success elapsed st) = core st"
  by (simp add: recordTelemetry_def core_def ask_def Let_def case_prod_beta)

lemma core_settleFailure [simp]: "core (settleFailure env ctx remembered failed st) = core st"
  by (simp add: settleFailure_def)

lemma core_learnFrom [simp]: "core (snd (learnFrom env ctx profile remembered failed verdict st)) = core st"
  by (simp add: learnFrom_def Let_def case_prod_beta)

lemma core_probeFailed [simp]: "core (probeFailed env ctx diag started remembered evidence failed st) = core st"
  by (simp add: probeFailed_def Let_def case_prod_beta)

lemma core_probeWon: "core (probeWon env ctx diag started remembered profile evidence failed st) = core (st\<lparr>activeProfile := profile\<rparr>)"
  by (simp add: probeWon_def Let_def case_prod_beta)

end
