(* ===== verification/Relay_Stream.thy ===== *)
theory Relay_Stream
  imports Relay_Probe
begin

text \<open>
  What the probing puts on the wire: every connection that an attempt uses gets at most the
  ClientHello, in one of its framings, and the bytes behind it go to the winner only.
\<close>

section \<open>Connections\<close>

text \<open>A race returns a new socket; nothing was written to it.\<close>

definition fresh_links :: "Env \<Rightarrow> bool" where
  "fresh_links env \<longleftrightarrow> (\<forall>k pool budget l. connects env k pool budget = Some l \<longrightarrow> wire (link_sock l) = [])"

text \<open>What happened to the links of a relay that only connected.\<close>

definition connected_from :: "Relay \<Rightarrow> bool \<Rightarrow> Relay \<Rightarrow> bool" where
  "connected_from st b st' \<longleftrightarrow> clientBuffer st' = clientBuffer st \<and> hello st' = hello st \<and> helloComplete st' = helloComplete st \<and>
     firstResponse st' = firstResponse st \<and> storeOps st' = storeOps st \<and> strategies st' = strategies st \<and>
     relay_host st' = relay_host st \<and> relay_networkId st' = relay_networkId st \<and> clientOpen st' = clientOpen st \<and>
     (if b then (\<exists>l. target st' = Some l \<and> wire (link_sock l) = []) \<and> retired st' = retired st
      else target st' = target st \<and> (retired st' = retired st \<or> (\<exists>l. retired st' = retired st @ [l] \<and> wire (link_sock l) = [])))"

lemma connected_from_trans:
  "connected_from st1 b st2 \<Longrightarrow> connected_from st False st1 \<Longrightarrow> retired st1 = retired st \<Longrightarrow> connected_from st b st2"
  by (auto simp: connected_from_def)

lemma ask_connected: "connected_from st False (snd (ask f st))"
  by (simp add: ask_def connected_from_def)

lemma race_connected: "connected_from st False (snd (race env budget st)) \<and> retired (snd (race env budget st)) = retired st"
  by (simp add: race_def ask_def connected_from_def Let_def case_prod_beta)

lemma race_fresh: "fresh_links env \<Longrightarrow> fst (race env budget st) = Some l \<Longrightarrow> wire (link_sock l) = []"
  by (auto simp: race_def ask_def fresh_links_def Let_def)

lemma retryRace_connected:
  "connected_from st False (snd (retryRace env st)) \<and> retired (snd (retryRace env st)) = retired st"
  using race_connected [of "st\<lparr>addresses := rotate1 (addAddresses (addresses st) (systemResolve (net env) (relay_host st)))\<rparr>"]
  by (simp add: retryRace_def Let_def connected_from_def)

lemma retryRace_fresh: "fresh_links env \<Longrightarrow> fst (retryRace env st) = Some l \<Longrightarrow> wire (link_sock l) = []"
  by (auto simp: retryRace_def Let_def race_fresh split: if_splits)

lemma adoptLink_connected:
  "wire (link_sock l) = [] \<Longrightarrow> connected_from st (fst (adoptLink env l st)) (snd (adoptLink env l st))"
  by (auto simp: adoptLink_def ask_def Let_def connected_from_def)

lemma connectTarget_connected:
  assumes "fresh_links env"
  shows "connected_from st (fst (connectTarget env st)) (snd (connectTarget env st))"
proof -
  obtain stop st1 where 1: "ask (stops env) st = (stop, st1)" by fastforce
  obtain found st2 where 2: "race env (if selectedByApplication env st1 then kOriginalConnectTimeoutMs else kConnectTimeoutMs) st1 = (found, st2)" by fastforce
  obtain stop2 s where s: "ask (stops env) st2 = (stop2, s)" by fastforce
  obtain found1 st3 where 3: "(if found = None \<and> selectedByApplication env st1 then (if stop2 then (None, s) else retryRace env s) else (found, st2)) = (found1, st3)"
    by fastforce
  have c1: "connected_from st False st1" "retired st1 = retired st" using ask_connected [of st "stops env"] 1 by (auto simp: ask_def)
  have c2: "connected_from st1 False st2" "retired st2 = retired st1" using race_connected 2 by (metis snd_conv)+
  have cs: "connected_from st2 False s" "retired s = retired st2" using ask_connected [of st2 "stops env"] s by (auto simp: ask_def)
  have c3: "connected_from st2 False st3" "retired st3 = retired st2"
    using 3 cs retryRace_connected [of s env] by (auto simp: connected_from_def split: if_splits)
  have fresh: "wire (link_sock l) = []" if "found1 = Some l" for l
    using that 2 3 race_fresh [OF assms] retryRace_fresh [OF assms] by (auto split: if_splits) (metis fst_conv)+
  have all: "connected_from st False st3" "retired st3 = retired st"
    using c1 c2 c3 by (simp_all add: connected_from_def)
  have eq: "connectTarget env st = (if stop then (False, st1) else case found1 of None \<Rightarrow> (False, st3) | Some l \<Rightarrow> adoptLink env l st3)"
    by (simp only: connectTarget_def 1 2 s Let_def prod.case 3)
  show ?thesis
  proof (cases "stop \<or> found1 = None")
    case True
    then show ?thesis using c1 all by (auto simp: eq)
  next
    case False
    then obtain l where l: "found1 = Some l" by blast
    show ?thesis
      using connected_from_trans [OF adoptLink_connected [OF fresh [OF l], of st3 env] all] False by (simp add: eq l)
  qed
qed

lemma dropTarget_from:
  "target (dropTarget st) = None" "retired (dropTarget st) = retired st @ (case target st of None \<Rightarrow> [] | Some l \<Rightarrow> [l])"
  "clientBuffer (dropTarget st) = clientBuffer st" "hello (dropTarget st) = hello st" "helloComplete (dropTarget st) = helloComplete st"
  "storeOps (dropTarget st) = storeOps st"
  by (simp_all add: dropTarget_def split: option.split)

section \<open>Attempts\<close>

text \<open>
  The links of a relay that holds the hello \<open>h\<close> at the start of \<open>data\<close>: what is on each wire is
  an initial part of a stream that carries the hello.
\<close>

definition started :: "byte list \<Rightarrow> ClientHello \<Rightarrow> Link \<Rightarrow> bool" where
  "started data h l \<longleftrightarrow> (\<exists>stream. carries data h stream \<and> prefix (wire (link_sock l)) stream)"

definition current :: "Relay \<Rightarrow> Link list" where
  "current st = (case target st of None \<Rightarrow> [] | Some l \<Rightarrow> [l])"

definition probing :: "byte list \<Rightarrow> ClientHello \<Rightarrow> Link list \<Rightarrow> nat \<Rightarrow> Relay \<Rightarrow> bool" where
  "probing data h old n st \<longleftrightarrow> clientBuffer st = data \<and> hello st = h \<and> helloComplete st \<and>
     (\<exists>used. retired st = old @ used \<and> list_all (started data h) (used @ current st) \<and> length (used @ current st) \<le> n)"

lemma started_fresh: "wire (link_sock l) = [] \<Longrightarrow> started data h l"
  by (auto simp: started_def carries_def)

lemma probing_core: "core st = core st' \<Longrightarrow> probing data h old n st = probing data h old n st'"
  by (simp add: probing_def current_def core_eqD [of st st'])

lemma probing_mono: "probing data h old n st \<Longrightarrow> n \<le> m \<Longrightarrow> probing data h old m st"
  by (fastforce simp: probing_def)

lemma reconnect_probing:
  assumes "fresh_links env" and "probing data h old n st" and "reconnect env st = (b, st')"
  shows "probing data h old (Suc n) st' \<and> (b \<longrightarrow> (\<exists>l. target st' = Some l \<and> wire (link_sock l) = []))"
proof -
  have c: "connected_from (dropTarget st) b st'"
    using connectTarget_connected [OF assms(1), of "dropTarget st"] assms(3) by (simp add: reconnect_def)
  obtain used where used: "retired st = old @ used" "list_all (started data h) (used @ current st)" "length (used @ current st) \<le> n"
    using assms(2) by (auto simp: probing_def)
  then have d: "retired (dropTarget st) = old @ used @ current st" by (simp add: dropTarget_from current_def)
  have rest: "clientBuffer st' = data" "hello st' = h" "helloComplete st'"
    using c assms(2) by (simp_all add: connected_from_def dropTarget_from probing_def)
  have "\<exists>more. retired st' = old @ (used @ current st) @ more \<and> list_all (started data h) (more @ current st') \<and> length (more @ current st') \<le> 1 \<and>
      (b \<longrightarrow> (\<exists>l. target st' = Some l \<and> wire (link_sock l) = []))"
    using c d by (cases b) (auto simp: connected_from_def current_def dropTarget_from(1) started_fresh)
  then obtain more where more: "retired st' = old @ (used @ current st) @ more" "list_all (started data h) (more @ current st')"
      "length (more @ current st') \<le> 1" "b \<longrightarrow> (\<exists>l. target st' = Some l \<and> wire (link_sock l) = [])"
    by blast
  have "probing data h old (Suc n) st'"
    using rest more used by (auto simp: probing_def intro!: exI [of _ "(used @ current st) @ more"])
  then show ?thesis using more(4) by blast
qed

lemma awaitLoop_returns:
  "\<exists>signal got rs' k'. awaitLoop env deadline rs out k = Some (signal, out @ got, rs', k') \<and>
     (signal = ProbeSignal.ServerHello \<longrightarrow> classifyServerResponse (out @ got) = Some ServerResponseStatus.ServerHello)"
proof (induction rs arbitrary: out k)
  case (Cons r rs)
  have none: "\<exists>got. out = out @ got" by (rule exI [of _ "[]"]) simp
  show ?case
  proof (cases r)
    case (Arrived data)
    let ?got = "take kProbeReadBufferSize data"
    obtain v where v: "classifyServerResponse (out @ ?got) = Some v" using classifyServerResponse_final by blast
    show ?thesis
    proof (cases "length out < kMaxProbeResponse \<and> \<not> ticks env k \<ge> deadline \<and> ?got \<noteq> []")
      case True
      show ?thesis
      proof (cases "signalOf v")
        case None
        obtain signal got rs' k' where "awaitLoop env deadline rs (out @ ?got) (k + 1) = Some (signal, (out @ ?got) @ got, rs', k')"
          "signal = ProbeSignal.ServerHello \<longrightarrow> classifyServerResponse ((out @ ?got) @ got) = Some ServerResponseStatus.ServerHello"
          using Cons.IH [of "out @ ?got" "k + 1"] by blast
        then show ?thesis
          using True v None by (intro exI [of _ signal] exI [of _ "?got @ got"] exI [of _ rs'] exI [of _ k']) (simp add: Arrived Let_def)
      next
        case (Some signal)
        then have "signal = ProbeSignal.ServerHello \<longrightarrow> v = ServerResponseStatus.ServerHello" by (cases v) auto
        then show ?thesis
          using True v Some by (intro exI [of _ signal] exI [of _ ?got] exI [of _ rs] exI [of _ "k + 1"]) (simp add: Arrived Let_def)
      qed
    qed (auto simp: Arrived Let_def)
  qed auto
qed auto

lemma awaitResponse_returns:
  assumes "target st = Some l"
  shows "\<exists>signal st' rs. awaitResponse env ctx st = Some (signal, st') \<and> target st' = Some (l\<lparr>replies := rs\<rparr>) \<and>
    core (st'\<lparr>target := target st, firstResponse := firstResponse st\<rparr>) = core st \<and> storeOps st' = storeOps st \<and>
    (signal = ProbeSignal.ServerHello \<longrightarrow> classifyServerResponse (firstResponse st') = Some ServerResponseStatus.ServerHello)"
proof -
  let ?k = "asked st"
  obtain signal got rs k' where a: "awaitLoop env (ticks env ?k + ucast (probeTimeoutMs ctx)) (replies l) [] (Suc ?k) = Some (signal, got, rs, k')"
    and s: "signal = ProbeSignal.ServerHello \<longrightarrow> classifyServerResponse got = Some ServerResponseStatus.ServerHello"
    using awaitLoop_returns [of env "ticks env ?k + ucast (probeTimeoutMs ctx)" "replies l" "[]" "Suc ?k"] by auto
  have "awaitResponse env ctx st = Some (signal, st\<lparr>asked := k', firstResponse := got, target := Some (l\<lparr>replies := rs\<rparr>)\<rparr>)"
    by (simp add: awaitResponse_def assms ask_def Let_def a)
  then show ?thesis
    using s by (intro exI [of _ signal] exI [of _ "st\<lparr>asked := k', firstResponse := got, target := Some (l\<lparr>replies := rs\<rparr>)\<rparr>"] exI [of _ rs])
      (simp add: core_def)
qed

lemma onTarget_emits:
  assumes "target st = Some l" and "emits wire (f (link_sock l)) (link_sock l) stream"
  shows "case onTarget f st of Overrun \<Rightarrow> False | Blocked \<Rightarrow> True
    | Done b st' \<Rightarrow> \<exists>s. st' = st\<lparr>target := Some (l\<lparr>link_sock := s\<rparr>)\<rparr> \<and>
        (if b then wire s = wire (link_sock l) @ stream else \<exists>p. strict_prefix p stream \<and> wire s = wire (link_sock l) @ p)"
proof (cases "f (link_sock l)")
  case (Done b s)
  have "if b then wire s = wire (link_sock l) @ stream else \<exists>p. strict_prefix p stream \<and> wire s = wire (link_sock l) @ p"
    using assms(2) Done by (cases b) (simp_all add: emits_def)
  then show ?thesis by (simp only: onTarget_def assms(1) Done option.case io.case) blast
qed (use assms in \<open>simp_all add: onTarget_def emits_def\<close>)

text \<open>A hello goes out on a fresh connection.\<close>

lemma sendHello_probing:
  assumes parse: "parseClientHello data = Some (Ok, h)" and plan: "buildPlan profile h delay = (True, plan)"
    and st: "probing data h old n st" and l: "target st = Some l" "wire (link_sock l) = []"
  shows "case sendHello env ctx profile plan st of
      Unsent st' \<Rightarrow> probing data h old n st'
    | Answered signal elapsed st' \<Rightarrow> probing data h old n st' \<and> (\<exists>l'. target st' = Some l' \<and> carries data h (wire (link_sock l'))) \<and>
        (signal = ProbeSignal.ServerHello \<longrightarrow> classifyServerResponse (firstResponse st') = Some ServerResponseStatus.ServerHello)
    | Stuck \<Rightarrow> True | _ \<Rightarrow> False"
proof -
  obtain stream where e: "\<And>sock. emits wire (writePlan True plan data h sock) sock stream" and c: "carries data h stream"
    using writePlan_prefix [OF parse plan] by blast
  obtain sentAt st1 where st1: "ask (ticks env) (armPolicy env profile st) = (sentAt, st1)" by fastforce
  have core1: "core st1 = core st" by (metis st1 core_ask core_armPolicy snd_conv)
  have f1: "clientBuffer st1 = data" "hello st1 = h" "helloComplete st1" "target st1 = Some l"
    using core_eqD [OF core1] st l by (simp_all add: probing_def)
  have keep: "probing data h old n st'" if "target st' = Some l'" "started data h l'" "retired st' = retired st1"
      "clientBuffer st' = data" "hello st' = h" "helloComplete st'" for st' l'
    using st that l core_eqD(2) [OF core1] by (auto simp: probing_def current_def)
  have go: "started data h (l\<lparr>link_sock := s\<rparr>)" if "wire s = stream \<or> (\<exists>p. strict_prefix p stream \<and> wire s = p)" for s
    using that c by (auto simp: started_def strict_prefix_def)
  let ?w = "onTarget (writePlan (helloComplete st1) plan (clientBuffer st1) (hello st1)) st1"
  have w: "case ?w of Overrun \<Rightarrow> False | Blocked \<Rightarrow> True
    | Done b st' \<Rightarrow> \<exists>s. st' = st1\<lparr>target := Some (l\<lparr>link_sock := s\<rparr>)\<rparr> \<and> (if b then wire s = wire (link_sock l) @ stream else \<exists>p. strict_prefix p stream \<and> wire s = wire (link_sock l) @ p)"
    by (rule onTarget_emits [OF f1(4)]) (use e f1 in simp)
  show ?thesis
  proof (cases ?w)
    case (Done b st2)
    then obtain s where s: "st2 = st1\<lparr>target := Some (l\<lparr>link_sock := s\<rparr>)\<rparr>" "if b then wire s = stream else \<exists>p. strict_prefix p stream \<and> wire s = p"
      using w unfolding Done io.case l(2) append_Nil by blast
    show ?thesis
    proof (cases b)
      case False
      then have "probing data h old n st2" using s f1 go by (intro keep [of _ "l\<lparr>link_sock := s\<rparr>"]) auto
      then show ?thesis by (simp add: sendHello_def st1 Done False)
    next
      case True
      obtain signal st3 rs where st3: "awaitResponse env ctx st2 = Some (signal, st3)" "target st3 = Some (l\<lparr>link_sock := s, replies := rs\<rparr>)"
        "core (st3\<lparr>target := target st2, firstResponse := firstResponse st2\<rparr>) = core st2"
        "signal = ProbeSignal.ServerHello \<longrightarrow> classifyServerResponse (firstResponse st3) = Some ServerResponseStatus.ServerHello"
        using awaitResponse_returns [of st2 "l\<lparr>link_sock := s\<rparr>" env ctx] s(1) by auto
      obtain now st4 where st4: "ask (ticks env) st3 = (now, st4)" by fastforce
      have core4: "core st4 = core st3" by (metis core_ask snd_conv st4)
      have "probing data h old n st4"
        using core_eqD [OF st3(3)] core_eqD [OF core4] s f1 go True st3(2)
        by (intro keep [of _ "l\<lparr>link_sock := s, replies := rs\<rparr>"]) (auto simp: started_def)
      then show ?thesis
        using core_eqD [OF core4] st3 s True c by (simp add: sendHello_def st1 Done Let_def st4)
    qed
  qed (use w in \<open>simp_all add: sendHello_def st1\<close>)
qed

definition fresh_target :: "Relay \<Rightarrow> bool" where
  "fresh_target st \<longleftrightarrow> (\<exists>l. target st = Some l \<and> wire (link_sock l) = [])"

lemma buildPlan_none: "buildPlan ''none'' h delay = (True, emptyPlan)"
proof -
  have "findProfile ''none'' \<noteq> None" by code_simp
  then show ?thesis by (auto simp: buildPlan_def)
qed

lemma attempt_probing:
  assumes env: "fresh_links env" and parse: "parseClientHello data = Some (Ok, h)"
    and st: "probing data h old (max 1 tries) st" and first: "tries = 0 \<longrightarrow> fresh_target st" and tries: "tries \<le> 12"
  shows "case attempt env ctx profile tries st of
      GiveUp st' \<Rightarrow> probing data h old 12 st'
    | Skipped st' \<Rightarrow> probing data h old (max 1 tries) st' \<and> (tries = 0 \<longrightarrow> fresh_target st')
    | Unsent st' \<Rightarrow> probing data h old (tries + 1) st' \<and> tries + 1 \<le> 12
    | Answered signal elapsed st' \<Rightarrow> probing data h old (tries + 1) st' \<and> tries + 1 \<le> 12 \<and>
        (\<exists>l'. target st' = Some l' \<and> carries data h (wire (link_sock l'))) \<and>
        (signal = ProbeSignal.ServerHello \<longrightarrow> classifyServerResponse (firstResponse st') = Some ServerResponseStatus.ServerHello)
    | Stuck \<Rightarrow> True | OutOfBounds \<Rightarrow> False"
proof -
  obtain stop st1 where 1: "ask (stops env) st = (stop, st1)" by fastforce
  have core1: "core st1 = core st" by (metis 1 core_ask snd_conv)
  have p1: "probing data h old (max 1 tries) st1" using st by (simp only: probing_core [OF core1])
  have h1: "tries = 0 \<longrightarrow> fresh_target st1" "hello st1 = h"
    using first st core_eqD(1,4) [OF core1] by (simp_all add: fresh_target_def probing_def)
  obtain applicable plan where b: "buildPlan profile h (splitDelayMs ctx) = (applicable, plan)" by fastforce
  show ?thesis
  proof (cases "tries \<ge> kMaxProbeAttempts \<or> stop \<or> (\<not> applicable \<and> profile \<noteq> ''none'') \<or> (packetPolicies st1 = None \<and> relay_isPacketProfile profile)")
    case True
    then show ?thesis
      using p1 h1 tries probing_mono [OF st, of 12] probing_mono [OF p1, of 12]
      by (auto simp: attempt_def 1 b Let_def)
  next
    case False
    have less: "tries + 1 \<le> 12" using False tries by (simp add: kMaxProbeAttempts_def)
    have plan: "buildPlan profile h (splitDelayMs ctx) = (True, plan)"
      using False b buildPlan_none by (cases applicable) auto
    obtain connected st2 where 2: "(if tries > 0 then reconnect env st1 else (True, st1)) = (connected, st2)" by fastforce
    have p2: "probing data h old (tries + 1) st2" "connected \<longrightarrow> fresh_target st2"
      using 2 p1 h1 reconnect_probing [OF env p1, of connected st2] by (auto simp: fresh_target_def max_def split: if_splits)
    have eq: "attempt env ctx profile tries st = (if \<not> connected then GiveUp st2 else sendHello env ctx profile plan st2)"
      using False by (auto simp: attempt_def 1 h1(2) b 2 Let_def)
    show ?thesis
    proof (cases connected)
      case True
      then obtain l where "target st2 = Some l" "wire (link_sock l) = []" using p2(2) by (auto simp: fresh_target_def)
      from sendHello_probing [OF parse plan p2(1) this, of env ctx] show ?thesis
        using True less by (auto simp: eq split: Attempted.splits)
    qed (use p2 probing_mono [OF p2(1) less] in \<open>simp add: eq\<close>)
  qed
qed

lemma probeLoop_probing:
  assumes env: "fresh_links env" and parse: "parseClientHello data = Some (Ok, h)"
  shows "probing data h old (max 1 tries) st \<Longrightarrow> tries = 0 \<longrightarrow> fresh_target st \<Longrightarrow> tries \<le> 12 \<Longrightarrow>
    case probeLoop env ctx diag t0 remembered order tries evidence failed st of Overrun \<Rightarrow> False | Blocked \<Rightarrow> True
    | Done b st' \<Rightarrow> probing data h old 12 st' \<and>
        (b \<longrightarrow> (\<exists>l'. target st' = Some l' \<and> carries data h (wire (link_sock l'))) \<and>
           classifyServerResponse (firstResponse st') = Some ServerResponseStatus.ServerHello)"
proof (induction order arbitrary: tries evidence failed st)
  case Nil
  then show ?case
    using probing_mono [of data h old "max 1 tries" st 12] probing_core [OF core_probeFailed] by simp
next
  case (Cons profile order)
  note a = attempt_probing [OF env parse Cons.prems, of ctx profile]
  show ?case
  proof (cases "attempt env ctx profile tries st")
    case (GiveUp st1)
    then show ?thesis using a probing_core [OF core_probeFailed] by simp
  next
    case (Skipped st1)
    then show ?thesis using a Cons.IH [of tries st1 evidence failed] Cons.prems(3) by simp
  next
    case (Unsent st1)
    then show ?thesis using a Cons.IH [of "tries + 1" st1 evidence failed] by simp
  next
    case (Answered signal elapsed st1)
    let ?ev = "evidence @ [\<lparr>attempt_profile = profile, attempt_signal = signal, elapsedMs = elapsed\<rparr>]"
    show ?thesis
    proof (cases "signal = ProbeSignal.ServerHello")
      case True
      have core: "core (probeWon env ctx diag t0 remembered profile ?ev failed st1) = core (st1\<lparr>activeProfile := profile\<rparr>)"
        by (rule core_probeWon)
      have "probing data h old 12 (st1\<lparr>activeProfile := profile\<rparr>)"
        using a Answered probing_mono [of data h old "tries + 1" st1 12] by (auto simp: probing_def current_def)
      then show ?thesis
        using a Answered True core_eqD [OF core] probing_core [OF core] by simp
    next
      case False
      have "probing data h old (tries + 1) (st1\<lparr>firstResponse := []\<rparr>)"
        using a Answered by (simp add: probing_def current_def)
      then show ?thesis
        using a Answered False Cons.IH [of "tries + 1" "st1\<lparr>firstResponse := []\<rparr>" ?ev] by (simp add: Let_def)
    qed
  qed (use a in simp_all)
qed

lemma deliverHello_probing:
  assumes "fresh_links env" and "parseClientHello (clientBuffer st) = Some (Ok, hello st)" and "helloComplete st"
    and "\<not> spansRecords (hello st)" and "target st = Some l" and "wire (link_sock l) = []"
  shows "case deliverHello env ctx st of Overrun \<Rightarrow> False | Blocked \<Rightarrow> True
    | Done b st' \<Rightarrow> probing (clientBuffer st) (hello st) (retired st) 12 st' \<and>
        (b \<longrightarrow> (\<exists>l'. target st' = Some l' \<and> carries (clientBuffer st) (hello st) (wire (link_sock l'))) \<and>
           classifyServerResponse (firstResponse st') = Some ServerResponseStatus.ServerHello)"
proof -
  have p: "probing (clientBuffer st) (hello st) (retired st) (max 1 0) st"
    using assms by (auto simp: probing_def current_def started_fresh)
  have ne: "clientBuffer st \<noteq> []" using assms(2) by (auto simp: parseClientHello_def)
  obtain order st1 where 1: "(if forcedProfile ctx = [] then storeOrder env st
      else (if forcedProfile ctx = ''none'' then [''none''] else [forcedProfile ctx, ''none''], st)) = (order, st1)" by fastforce
  obtain remembered st2 where 2: "storeLookup env st1 = (remembered, st2)" by fastforce
  obtain t0 st3 where 3: "ask (ticks env) st2 = (t0, st3)" by fastforce
  obtain healthy st4 where 4: "(if forcedProfile ctx = [] then storeHealthyBaseline env st3 else (False, st3)) = (healthy, st4)" by fastforce
  let ?diag = "\<lparr>rememberedProfile = (if forcedProfile ctx = [] then remembered else []), baselineRecentlyHealthy_ctx = healthy\<rparr>"
  have eq: "deliverHello env ctx st = probeLoop env ctx ?diag t0 remembered order 0 [] False st4"
    using assms(3,4) ne by (simp only: deliverHello_def if_False Let_def 1 2 3 4 prod.case simp_thms)
  have core4: "core st4 = core st"
    using 1 2 3 4 by (metis core_store(4-6) core_ask snd_conv)
  have "probing (clientBuffer st) (hello st) (retired st) (max 1 0) st4" using p by (simp only: probing_core [OF core4])
  moreover have "0 = (0::nat) \<longrightarrow> fresh_target st4" using core_eqD(1) [OF core4] assms(5,6) by (simp add: fresh_target_def)
  ultimately show ?thesis
    unfolding eq by (rule probeLoop_probing [OF assms(1,2)]) simp
qed

text \<open>
  C4. Probing sends the ClientHello and nothing else. On every connection that an attempt
  opened, twelve at most, the bytes written are an initial part of a stream that carries the
  hello: the record itself or a cut of it with the same payload. Data behind the hello
  (0-RTT) is on none of them, so no attempt can replay a request. When the call succeeds the
  current connection carries the whole hello and what was read from it begins with a
  ServerHello. No write reads outside the buffer.
\<close>

theorem deliverHello_streams:
  assumes "fresh_links env" and "parseClientHello (clientBuffer st) = Some (Ok, hello st)" and "helloComplete st"
    and "\<not> spansRecords (hello st)" and "target st = Some l" and "wire (link_sock l) = []"
  shows "deliverHello env ctx st \<noteq> Overrun \<and>
    (\<forall>b st'. deliverHello env ctx st = Done b st' \<longrightarrow>
      (\<exists>used. retired st' = retired st @ used \<and> length (used @ current st') \<le> 12 \<and>
        (\<forall>c \<in> set (used @ current st'). \<exists>stream. carries (clientBuffer st) (hello st) stream \<and> prefix (wire (link_sock c)) stream)) \<and>
      (b \<longrightarrow> (\<exists>c. target st' = Some c \<and> carries (clientBuffer st) (hello st) (wire (link_sock c))) \<and>
        classifyServerResponse (firstResponse st') = Some ServerResponseStatus.ServerHello))"
  using deliverHello_probing [OF assms, of ctx]
  by (cases "deliverHello env ctx st") (auto simp: probing_def started_def list_all_iff)

text \<open>A connection whose target answers the untouched hello.\<close>

definition sampleEnv :: Env where
  "sampleEnv = \<lparr>net = \<lparr>fetch = (\<lambda>_. None), pton4 = (\<lambda>_. None), pton6 = (\<lambda>_. None), addrinfo = (\<lambda>_. None), clock = (\<lambda>_. 0)\<rparr>,
     parseAddr = (\<lambda>_. None), ticks = (\<lambda>k. of_nat k), storeClocks = (\<lambda>_. noonClock), stops = (\<lambda>_. False), optionsOk = (\<lambda>_. True),
     clientReads = (\<lambda>_ _. TimedOut), connects = (\<lambda>_ _ _. None), otherStore = (\<lambda>_ s. s), otherPolicies = (\<lambda>_ r. r), samples = (\<lambda>_. 1)\<rparr>"

definition sampleContext :: RelayContext where
  "sampleContext = \<lparr>ctx_networkId = ''network-default'', networkIdProvider = None, hasTelemetry = False, splitDelayMs = 20,
     probeTimeoutMs = 3000, tunnelFallback = False, workerUrl = [], idleTimeoutMs = 600000, forcedProfile = ''none''\<rparr>"

definition sampleLink :: Link where
  "sampleLink = \<lparr>link_address = ''192.0.2.7'', link_port = 50000, link_sock = wire_sock [Accepted 40, Accepted 40, Accepted 40, Accepted 40],
     replies = [Arrived [22, 3, 3, 0], Arrived [4, 2, 0, 0, 0]]\<rparr>"

definition sampleRelay :: Relay where
  "sampleRelay = \<lparr>clientOpen = True, target = Some sampleLink, retired = [], relay_host = ''ab'', relay_port = 443,
     originalTargetAddress = ''192.0.2.7'', relay_networkId = ''network-default'', armedLocalPort = 0, addresses = [''192.0.2.7''],
     connectedAddress = ''192.0.2.7'', clientBuffer = sampleHello @ [23, 3, 3], hello = sampleReport, helloComplete = True,
     firstResponse = [], activeProfile = ''none'', resolver = None, strategies = emptyStore [], saved = [], packetPolicies = None,
     storeOps = [], records = [], liveProfile = [], liveDecision = None, tunnelled = None, asked = 0\<rparr>"

theorem deliverHello_streams_witness:
  "fresh_links sampleEnv \<and>
   (\<exists>st' c. deliverHello sampleEnv sampleContext sampleRelay = Done True st' \<and> target st' = Some c \<and>
      carries (sampleHello @ [23, 3, 3]) sampleReport (wire (link_sock c)))"
proof -
  have f: "fresh_links sampleEnv" by (simp add: fresh_links_def sampleEnv_def)
  have p: "parseClientHello (clientBuffer sampleRelay) = Some (Ok, hello sampleRelay)" by code_simp
  have h: "helloComplete sampleRelay" "\<not> spansRecords (hello sampleRelay)" "target sampleRelay = Some sampleLink"
    "wire (link_sock sampleLink) = []" by code_simp+
  have "case deliverHello sampleEnv sampleContext sampleRelay of Done b _ \<Rightarrow> b | _ \<Rightarrow> False" by code_simp
  then obtain st' where st': "deliverHello sampleEnv sampleContext sampleRelay = Done True st'" by (auto split: io.splits)
  have "clientBuffer sampleRelay = sampleHello @ [23, 3, 3]" "hello sampleRelay = sampleReport" by (simp_all add: sampleRelay_def)
  then show ?thesis using deliverHello_streams [OF f p h, of sampleContext] f st' by auto
qed

end
