(* ===== verification/Relay_Pump.thy ===== *)
theory Relay_Pump
  imports Tcp_Socket
begin

text \<open>
  \<open>DirectRelay::pump\<close> of \<open>src/src/DirectRelay.cpp\<close>: bytes move in both directions of an
  established connection on one thread. The environment answers one turn of the loop at a
  time: whether a stop was requested, the clock, what \<open>select()\<close> reports and how the sockets
  answer. Each direction also records what its source gave, what its destination took and
  whether the destination was shut down for sending.
\<close>

definition kPumpBufferSize :: nat where "kPumpBufferSize = 65536"
definition kHalfClosedLingerMs :: u32 where "kHalfClosedLingerMs = 30000"
definition kPumpMaxWaitMs :: u64 where "kPumpMaxWaitMs = 1000"

section \<open>One direction\<close>

record Direction =
  pending :: "byte list"
  offset :: nat
  eof :: bool
  arrived :: "byte list"
  delivered :: "byte list"
  shut :: bool

definition newDirection :: Direction where
  "newDirection = \<lparr>pending = [], offset = 0, eof = False, arrived = [], delivered = [], shut = False\<rparr>"

definition finished :: "Direction \<Rightarrow> bool" where
  "finished d \<longleftrightarrow> eof d \<and> pending d = []"

text \<open>
  \<open>sendSome\<close>: whether there was no hard error, and how many bytes were taken. When the
  environment has no further answer the send buffer is full.
\<close>

fun sendSome :: "SendResult list \<Rightarrow> byte list \<Rightarrow> bool \<times> nat" where
  "sendSome answers [] = (True, 0)"
| "sendSome [] (b # bs) = (True, 0)"
| "sendSome (WouldBlock # answers) (b # bs) = (True, 0)"
| "sendSome (SendError # answers) (b # bs) = (False, 0)"
| "sendSome (Accepted n # answers) (b # bs) =
     (let written = min n (min (length (b # bs)) kMaxSendChunk) in
      if written = 0 then (False, 0)
      else let (ok, sent) = sendSome answers (drop written (b # bs)) in (ok, written + sent))"

datatype RecvAnswer = RecvData "byte list" | RecvWouldBlock | RecvFailed

text \<open>What the environment offers a direction in one turn; \<open>tick\<close> is the clock when bytes moved.\<close>

record Offer =
  canRead :: bool
  canWrite :: bool
  recv_answer :: RecvAnswer
  send_answers :: "SendResult list"
  tick :: u64

text \<open>The three results: whether the pump goes on, the new time of activity, the direction.\<close>

definition moveBytes :: "Offer \<Rightarrow> u64 \<Rightarrow> Direction \<Rightarrow> bool \<times> u64 \<times> Direction" where
  "moveBytes offer lastActivity d =
     (if finished d then (True, lastActivity, d)
      else if pending d \<noteq> [] then
        (if \<not> canWrite offer then (True, lastActivity, d)
         else let rest = drop (offset d) (pending d);
                  (ok, sent) = sendSome (send_answers offer) rest;
                  d1 = d\<lparr>delivered := delivered d @ take sent rest\<rparr> in
           if \<not> ok then (False, lastActivity, d1)
           else (True, if sent > 0 then tick offer else lastActivity,
             if offset d + sent = length (pending d)
             then d1\<lparr>pending := [], offset := 0, shut := shut d \<or> eof d\<rparr>
             else d1\<lparr>offset := offset d + sent\<rparr>))
      else if \<not> canRead offer then (True, lastActivity, d)
      else case recv_answer offer of
        RecvFailed \<Rightarrow> (False, lastActivity, d)
      | RecvWouldBlock \<Rightarrow> (True, lastActivity, d)
      | RecvData data \<Rightarrow>
          let got = take kPumpBufferSize data in
          if got = [] then (True, tick offer, d\<lparr>eof := True, shut := True\<rparr>)
          else let (ok, sent) = sendSome (send_answers offer) got;
                   d1 = d\<lparr>arrived := arrived d @ got, delivered := delivered d @ take sent got\<rparr> in
            if \<not> ok then (False, tick offer, d1)
            else (True, tick offer, if sent < length got then d1\<lparr>pending := drop sent got, offset := 0\<rparr> else d1))"

section \<open>The loop\<close>

record Pump =
  upstream :: Direction
  downstream :: Direction
  lastActivity :: u64

definition newPump :: "u64 \<Rightarrow> Pump" where
  "newPump now = \<lparr>upstream = newDirection, downstream = newDirection, lastActivity = now\<rparr>"

datatype Selected = SelectError | SelectTimeout | SelectReady Offer Offer

record Turn =
  stopSeen :: bool
  turn_now :: u64
  selected :: Selected

datatype PumpEnd = Stopped | Drained | IdleClosed | SelectBroken | Aborted

definition idleLimit :: "u32 \<Rightarrow> Pump \<Rightarrow> u64" where
  "idleLimit idleTimeoutMs p =
     ucast (if eof (upstream p) \<or> eof (downstream p) then min kHalfClosedLingerMs idleTimeoutMs else idleTimeoutMs)"

definition waitMs :: "u32 \<Rightarrow> u64 \<Rightarrow> Pump \<Rightarrow> u64" where
  "waitMs idleTimeoutMs now p = min (idleLimit idleTimeoutMs p - (now - lastActivity p)) kPumpMaxWaitMs"

definition pumpTurn :: "u32 \<Rightarrow> Turn \<Rightarrow> Pump \<Rightarrow> PumpEnd option \<times> Pump" where
  "pumpTurn idleTimeoutMs t p =
     (if stopSeen t then (Some Stopped, p)
      else if finished (upstream p) \<and> finished (downstream p) then (Some Drained, p)
      else if turn_now t - lastActivity p \<ge> idleLimit idleTimeoutMs p then (Some IdleClosed, p)
      else case selected t of
        SelectError \<Rightarrow> (Some SelectBroken, p)
      | SelectTimeout \<Rightarrow> (None, p)
      | SelectReady up down \<Rightarrow>
          let (go1, at1, u) = moveBytes up (lastActivity p) (upstream p);
              p1 = p\<lparr>upstream := u, lastActivity := at1\<rparr> in
          if \<not> go1 then (Some Aborted, p1)
          else let (go2, at2, d) = moveBytes down at1 (downstream p1);
                   p2 = p1\<lparr>downstream := d, lastActivity := at2\<rparr> in
            (if go2 then None else Some Aborted, p2))"

text \<open>The turns the environment gives; \<open>None\<close> while the loop has not returned.\<close>

fun pump :: "u32 \<Rightarrow> Turn list \<Rightarrow> Pump \<Rightarrow> PumpEnd option \<times> Pump" where
  "pump idleTimeoutMs [] p = (None, p)"
| "pump idleTimeoutMs (t # ts) p =
     (case pumpTurn idleTimeoutMs t p of (Some e, p1) \<Rightarrow> (Some e, p1) | (None, p1) \<Rightarrow> pump idleTimeoutMs ts p1)"

text \<open>\<open>closeSockets\<close>: whether the sockets are closed with a reset.\<close>

definition closesAbortively :: "bool \<Rightarrow> PumpEnd \<Rightarrow> bool" where
  "closesAbortively stopping e \<longleftrightarrow> stopping \<or> e = Aborted"

section \<open>Nothing is lost, reordered or invented\<close>

lemma sendSome_le: "snd (sendSome answers data) \<le> length data"
  by (induction answers data rule: sendSome.induct) (auto simp: Let_def case_prod_beta)

text \<open>A direction that still flows, and one that may have been cut off.\<close>

definition faithful :: "Direction \<Rightarrow> bool" where
  "faithful d \<longleftrightarrow> delivered d @ drop (offset d) (pending d) = arrived d \<and> offset d \<le> length (pending d) \<and>
     (eof d \<longrightarrow> pending d = []) \<and> shut d = eof d \<and> (pending d = [] \<longrightarrow> offset d = 0)"

definition cut_off :: "Direction \<Rightarrow> bool" where
  "cut_off d \<longleftrightarrow> (\<exists>rest. arrived d = delivered d @ rest) \<and> \<not> shut d"

lemma faithful_new [simp]: "faithful newDirection"
  by (simp add: faithful_def newDirection_def)

lemma moveBytes_faithful:
  assumes "faithful d" and "moveBytes offer now d = (go, now', d')"
  shows "if go then faithful d' else cut_off d'"
proof (cases "pending d = []")
  case True
  have cut: "\<exists>rest. got = take n got @ rest" for n and got :: "byte list"
    by (rule exI [of _ "drop n got"]) simp
  show ?thesis
    using assms True
    by (auto simp: moveBytes_def faithful_def cut_off_def finished_def Let_def case_prod_beta not_less cut
        simp del: take_take split: if_splits RecvAnswer.splits)
next
  case False
  let ?rest = "drop (offset d) (pending d)"
  let ?n = "snd (sendSome (send_answers offer) ?rest)"
  have n: "?n \<le> length (pending d) - offset d" using sendSome_le [of "send_answers offer" ?rest] by simp
  have "take ?n ?rest @ drop (offset d + ?n) (pending d) = ?rest"
    using append_take_drop_id [of ?n ?rest] by (simp add: add.commute)
  then have whole: "delivered d @ take ?n ?rest @ drop (offset d + ?n) (pending d) = arrived d"
    using assms(1) by (simp add: faithful_def)
  then have "\<exists>rest. arrived d = delivered d @ take ?n ?rest @ rest" by metis
  then show ?thesis
    using assms False n whole
    by (auto simp: moveBytes_def faithful_def cut_off_def finished_def Let_def case_prod_beta split: if_splits)
qed

definition pump_ok :: "PumpEnd option \<Rightarrow> Pump \<Rightarrow> bool" where
  "pump_ok e p \<longleftrightarrow>
     (if e = Some Aborted then (faithful (upstream p) \<or> cut_off (upstream p)) \<and> (faithful (downstream p) \<or> cut_off (downstream p))
      else faithful (upstream p) \<and> faithful (downstream p) \<and>
        (e = Some Drained \<longrightarrow> finished (upstream p) \<and> finished (downstream p)))"

lemma pumpTurn_ok:
  assumes "pump_ok None p"
  shows "pump_ok (fst (pumpTurn idle t p)) (snd (pumpTurn idle t p))"
proof (cases "selected t")
  case (SelectReady up down)
  obtain go1 at1 u where 1: "moveBytes up (lastActivity p) (upstream p) = (go1, at1, u)" by (metis prod_cases3)
  obtain go2 at2 d where 2: "moveBytes down at1 (downstream p) = (go2, at2, d)" by (metis prod_cases3)
  have f: "faithful (upstream p)" "faithful (downstream p)" using assms by (simp_all add: pump_ok_def)
  show ?thesis
    using f moveBytes_faithful [OF f(1) 1] moveBytes_faithful [OF f(2) 2]
    by (auto simp: pumpTurn_def SelectReady 1 2 Let_def pump_ok_def)
qed (use assms in \<open>auto simp: pumpTurn_def pump_ok_def\<close>)

lemma pump_keeps: "pump_ok None p \<Longrightarrow> pump idle ts p = (e, p') \<Longrightarrow> pump_ok e p'"
proof (induction ts arbitrary: p)
  case (Cons t ts)
  show ?case
    using Cons.IH [of "snd (pumpTurn idle t p)"] Cons.prems pumpTurn_ok [OF Cons.prems(1), of idle t]
    by (cases "pumpTurn idle t p") (auto split: option.splits)
qed simp

lemma pump_ok_new [simp]: "pump_ok None (newPump now)"
  by (simp add: pump_ok_def newPump_def)

text \<open>
  C9. The relay is a faithful pipe: whatever the sockets do and however the loop ends, each
  side has been given an initial part of what the other side sent, in order. As long as the
  loop is not aborted by an error the missing rest is exactly what waits to be sent. A side
  is told that the other one finished only when it was given everything, and the loop ends
  by itself only when both were.
\<close>

theorem pump_faithful:
  assumes "pump idleTimeoutMs turns (newPump start) = (e, p)" and "d = upstream p \<or> d = downstream p"
  shows "(\<exists>rest. arrived d = delivered d @ rest \<and> (e \<noteq> Some Aborted \<longrightarrow> rest = drop (offset d) (pending d))) \<and>
    (shut d \<longrightarrow> eof d \<and> delivered d = arrived d) \<and>
    (e = Some Drained \<longrightarrow> shut d \<and> delivered d = arrived d)"
proof -
  have ok: "pump_ok e p" by (rule pump_keeps [OF pump_ok_new assms(1)])
  have d: "faithful d \<or> e = Some Aborted \<and> cut_off d"
    using ok assms(2) by (auto simp: pump_ok_def split: if_splits)
  have fin: "e = Some Drained \<Longrightarrow> finished d" using ok assms(2) by (auto simp: pump_ok_def)
  have "\<exists>rest. arrived d = delivered d @ rest \<and> (e \<noteq> Some Aborted \<longrightarrow> rest = drop (offset d) (pending d))"
    using d by (metis cut_off_def faithful_def)
  then show ?thesis
    using d fin by (auto simp: faithful_def cut_off_def finished_def)
qed

definition noOffer :: Offer where
  "noOffer = \<lparr>canRead = False, canWrite = False, recv_answer = RecvWouldBlock, send_answers = [], tick = 0\<rparr>"

text \<open>The target gives five bytes of which the client takes two, then nothing moves for 700 seconds.\<close>

definition sampleTurns :: "Turn list" where
  "sampleTurns =
     [\<lparr>stopSeen = False, turn_now = 100, selected = SelectReady noOffer
        (noOffer\<lparr>canRead := True, recv_answer := RecvData [1, 2, 3, 4, 5], send_answers := [Accepted 2], tick := 110\<rparr>)\<rparr>]"

definition quietTurns :: "Turn list" where
  "quietTurns = [\<lparr>stopSeen = False, turn_now = 1110, selected = SelectTimeout\<rparr>,
     \<lparr>stopSeen = False, turn_now = 700000, selected = SelectTimeout\<rparr>]"

definition samplePump :: Pump where
  "samplePump = (newPump 90)\<lparr>lastActivity := 110, downstream := newDirection\<lparr>pending := [3, 4, 5],
     arrived := [1, 2, 3, 4, 5], delivered := [1, 2]\<rparr>\<rparr>"

lemma sampleTurns_pump: "pump 600000 sampleTurns (newPump 90) = (None, samplePump)"
  by code_simp

theorem pump_faithful_witness:
  "pump 600000 sampleTurns (newPump 90) = (None, samplePump) \<and>
   arrived (downstream samplePump) = delivered (downstream samplePump) @ [3, 4, 5]"
proof -
  have "drop (offset (downstream samplePump)) (pending (downstream samplePump)) = [3, 4, 5]" by code_simp
  then show ?thesis using pump_faithful [OF sampleTurns_pump, of "downstream samplePump"] sampleTurns_pump by auto
qed

text \<open>
  The loop that ends on the idle limit does not set \<open>abortive_\<close>: bytes that the client has not
  taken yet are dropped and the client is closed without a reset.
\<close>

lemma idle_close_truncates:
  "\<exists>p. pump 600000 (sampleTurns @ quietTurns) (newPump 90) = (Some IdleClosed, p) \<and>
     delivered (downstream p) \<noteq> arrived (downstream p) \<and> \<not> closesAbortively False IdleClosed"
  by (rule exI [of _ samplePump]) code_simp

section \<open>Idle connections end\<close>

text \<open>A turn in which neither side gives or takes anything.\<close>

definition quiet :: "Turn \<Rightarrow> bool" where
  "quiet t = (case selected t of SelectError \<Rightarrow> True | SelectTimeout \<Rightarrow> True
     | SelectReady up down \<Rightarrow> \<not> canRead up \<and> \<not> canWrite up \<and> \<not> canRead down \<and> \<not> canWrite down)"

lemma moveBytes_quiet: "\<not> canRead offer \<Longrightarrow> \<not> canWrite offer \<Longrightarrow> moveBytes offer now d = (True, now, d)"
  by (simp add: moveBytes_def)

lemma quiet_turn: "quiet t \<Longrightarrow> snd (pumpTurn idle t p) = p"
  by (cases "selected t") (simp_all add: quiet_def pumpTurn_def moveBytes_quiet Let_def)

lemma pump_append:
  "pump idle (ts @ us) p = (case pump idle ts p of (Some e, p1) \<Rightarrow> (Some e, p1) | (None, p1) \<Rightarrow> pump idle us p1)"
  by (induction ts arbitrary: p) (auto split: prod.split option.split)

lemma quiet_ends:
  assumes "\<forall>u \<in> set us. quiet u" and "t \<in> set us" and "turn_now t - lastActivity p \<ge> idleLimit idle p"
  shows "\<exists>e. pump idle us p = (Some e, p) \<and> e \<noteq> Aborted"
  using assms
proof (induction us)
  case (Cons u us)
  obtain r where r: "pumpTurn idle u p = (r, p)" using quiet_turn [of u idle p] Cons.prems(1) by (metis list.set_intros(1) prod.collapse)
  have "u = t \<Longrightarrow> r \<noteq> None" using r Cons.prems(3) by (auto simp: pumpTurn_def split: if_splits)
  moreover have "r \<noteq> Some Aborted"
    using r Cons.prems(1) by (cases "selected u") (auto simp: pumpTurn_def quiet_def moveBytes_quiet Let_def split: if_splits)
  ultimately show ?case
    using Cons by (cases r) (auto simp: r)
qed simp

text \<open>
  C31. An abandoned connection does not live on: once nothing moves any more, the loop
  returns in the first turn whose clock is the idle limit or more past the last activity,
  if not before. The limit is the configured one, and at most 30 seconds once one side has
  finished; a turn waits at most a second, so a stop is noticed.
\<close>

theorem pump_idle_ends:
  assumes "pump idleTimeoutMs before (newPump start) = (None, p)"
    and "\<forall>u \<in> set later. quiet u" and "t \<in> set later"
    and "turn_now t - lastActivity p \<ge> (if eof (upstream p) \<or> eof (downstream p) then min 30000 (ucast idleTimeoutMs) else ucast idleTimeoutMs)"
  shows "(\<exists>e. pump idleTimeoutMs (before @ later) (newPump start) = (Some e, p) \<and> e \<noteq> Aborted) \<and>
    waitMs idleTimeoutMs (turn_now t) p \<le> 1000"
proof -
  have m: "(ucast (min kHalfClosedLingerMs idleTimeoutMs) :: u64) = min 30000 (ucast idleTimeoutMs)"
  proof -
    have "take_bit 64 (unat idleTimeoutMs) = unat idleTimeoutMs"
      by (rule take_bit_nat_eq_self) (use unsigned_less [of idleTimeoutMs, where 'a = nat] in simp)
    then show ?thesis
      by (simp add: min_def kHalfClosedLingerMs_def word_le_nat_alt unsigned_ucast_eq)
  qed
  have "turn_now t - lastActivity p \<ge> idleLimit idleTimeoutMs p"
    using assms(4) by (auto simp: idleLimit_def m split: if_splits)
  then have "\<exists>e. pump idleTimeoutMs later p = (Some e, p) \<and> e \<noteq> Aborted"
    by (rule quiet_ends [OF assms(2,3)])
  then show ?thesis
    using assms(1) by (simp add: pump_append waitMs_def kPumpMaxWaitMs_def)
qed

theorem pump_idle_ends_witness:
  "\<exists>e. pump 600000 (sampleTurns @ quietTurns) (newPump 90) = (Some e, samplePump)"
proof -
  let ?t = "\<lparr>stopSeen = False, turn_now = 700000, selected = SelectTimeout\<rparr>"
  have q: "\<forall>u \<in> set quietTurns. quiet u" by code_simp
  have t: "?t \<in> set quietTurns" by (simp add: quietTurns_def)
  have i: "(if eof (upstream samplePump) \<or> eof (downstream samplePump) then min 30000 (ucast (600000 :: u32)) else ucast (600000 :: u32))
      \<le> turn_now ?t - lastActivity samplePump"
    by code_simp
  show ?thesis using pump_idle_ends [OF sampleTurns_pump q t i] by blast
qed

end
