(* ===== verification/Relay_Run.thy ===== *)
theory Relay_Run
  imports Relay_Stream Relay_Pump
begin

text \<open>
  \<open>DirectRelay::run\<close> of \<open>src/src/DirectRelay.cpp\<close>: the whole life of a proxied connection, from
  the client's first bytes to the closing of both sockets. The tunnel through the Worker is
  the class \<open>Relay\<close>: handing over to it ends this model, with what is handed over.
\<close>

section \<open>From start to end\<close>

definition newRelay :: "string \<Rightarrow> u16 \<Rightarrow> string \<Rightarrow> Resolver option \<Rightarrow> Store \<Rightarrow> PolicyRegistry option \<Rightarrow> Relay" where
  "newRelay host port original res store reg =
     \<lparr>clientOpen = True, target = None, retired = [], relay_host = host, relay_port = port, originalTargetAddress = original,
      relay_networkId = [], armedLocalPort = 0, addresses = [], connectedAddress = [], clientBuffer = [], hello = noHello,
      helloComplete = False, firstResponse = [], activeProfile = ''none'', resolver = res, strategies = store, saved = [],
      packetPolicies = reg, storeOps = [], records = [], liveProfile = [], liveDecision = None, tunnelled = None, asked = 0\<rparr>"

text \<open>The end of a connection: the relay, what the client was sent before the pump, the pump, whether both sides were reset.\<close>

record Served =
  srv_relay :: Relay
  srv_client :: Socket
  srv_pump :: "(PumpEnd option \<times> Pump) option"
  srv_reset :: bool

text \<open>\<open>&&\<close> on calls.\<close>

definition andThen :: "Relay io \<Rightarrow> (Relay \<Rightarrow> Relay io) \<Rightarrow> Relay io" where
  "andThen r f = (case r of Done True st \<Rightarrow> f st | r' \<Rightarrow> r')"

definition closeSockets :: "Env \<Rightarrow> bool \<Rightarrow> Socket \<Rightarrow> (PumpEnd option \<times> Pump) option \<Rightarrow> Relay \<Rightarrow> Served" where
  "closeSockets env abortive client pumped st =
     (let (stop, st1) = ask (stops env) st
      in \<lparr>srv_relay = (dropTarget st1)\<lparr>clientOpen := False\<rparr>, srv_client = client, srv_pump = pumped, srv_reset = (stop \<or> abortive)\<rparr>)"

definition handOffToTunnel :: "Env \<Rightarrow> RelayContext \<Rightarrow> Relay \<Rightarrow> bool \<times> Relay" where
  "handOffToTunnel env ctx st =
     (if \<not> tunnelFallback ctx \<or> workerUrl ctx = [] \<or> \<not> clientOpen st then (False, st)
      else let buffered = clientBuffer st;
               (stop, st1) = ask (stops env) (st\<lparr>clientBuffer := [], clientOpen := False\<rparr>) in
        if stop then (False, st1) else (True, st1\<lparr>tunnelled := Some (relay_host st, relay_port st, buffered)\<rparr>))"

definition releaseHandshakeBuffers :: "Relay \<Rightarrow> Relay" where
  "releaseHandshakeBuffers st = st\<lparr>clientBuffer := [], firstResponse := [], addresses := []\<rparr>"

text \<open>The established connection: the probe's bytes first, then the pump.\<close>

definition serveEstablished :: "Env \<Rightarrow> RelayContext \<Rightarrow> Turn list \<Rightarrow> Socket \<Rightarrow> Relay \<Rightarrow> Served io" where
  "serveEstablished env ctx turns client st =
     (let pumpAll = (\<lambda>client1.
        let (ok, st1) = ask (optionsOk env) (releaseHandshakeBuffers st) in
        if \<not> ok then Done True (closeSockets env False client1 None st1)
        else let (now, st2) = ask (ticks env) st1;
                 (e, p) = pump (idleTimeoutMs ctx) turns (newPump now)
          in Done True (closeSockets env (e = Some Aborted) client1 (Some (e, p)) st2))
      in if firstResponse st = [] then pumpAll client
         else case sendAll (firstResponse st) client of
           Done True client1 \<Rightarrow> pumpAll client1
         | Done False client1 \<Rightarrow> Done True (closeSockets env True client1 None (releaseHandshakeBuffers st))
         | Blocked \<Rightarrow> Blocked
         | Overrun \<Rightarrow> Overrun)"

definition prepare :: "Env \<Rightarrow> Relay \<Rightarrow> Relay io" where
  "prepare env st =
     (let connect = (\<lambda>s. case connectTarget env s of (b, s1) \<Rightarrow> Done b s1) in
      if originalTargetAddress st = []
      then andThen (andThen (prepareCandidates env st) connect) (collectClientHello env)
      else andThen (andThen (collectClientHello env st) (prepareCandidates env)) connect)"

definition run :: "Env \<Rightarrow> RelayContext \<Rightarrow> Turn list \<Rightarrow> Socket \<Rightarrow> Relay \<Rightarrow> Served io" where
  "run env ctx turns client st =
     (let (stop, st0) = ask (stops env) st in
      if stop then Done False (closeSockets env False client None st0)
      else let (ok, st1) = ask (optionsOk env) st0 in
      if \<not> ok then Done False (closeSockets env False client None st1)
      else let provided = (case networkIdProvider ctx of None \<Rightarrow> [] | Some n \<Rightarrow> n);
               st2 = st1\<lparr>relay_networkId := (if provided = [] then ctx_networkId ctx else provided)\<rparr>
        in case prepare env st2 of
             Blocked \<Rightarrow> Blocked
           | Overrun \<Rightarrow> Overrun
           | Done False st3 \<Rightarrow> Done False (closeSockets env False client None st3)
           | Done True st3 \<Rightarrow>
               (case andThen (deliverHello env ctx st3) flushTrailingClientData of
                  Blocked \<Rightarrow> Blocked
                | Overrun \<Rightarrow> Overrun
                | Done True st4 \<Rightarrow> serveEstablished env ctx turns client st4
                | Done False st4 \<Rightarrow> Done False (closeSockets env False client None (snd (handOffToTunnel env ctx st4)))))"

section \<open>What reaches the target\<close>

text \<open>
  The client's bytes as the target sees them: unchanged, or with the first record, the hello,
  in another framing.
\<close>

definition forwarded :: "byte list \<Rightarrow> ClientHello \<Rightarrow> bool \<Rightarrow> byte list \<Rightarrow> bool" where
  "forwarded buf h complete stream \<longleftrightarrow> stream = buf \<or>
     (complete \<and> (\<exists>head. carries buf h head \<and> stream = head @ drop (recordTotalLength h) buf))"

text \<open>A relay that holds what it read from the client and has a fresh connection.\<close>

definition ready :: "Env \<Rightarrow> Relay \<Rightarrow> bool" where
  "ready env st \<longleftrightarrow> fresh_target st \<and> firstResponse st = [] \<and>
     (\<exists>k n. clientBuffer st = firstReads env k kClientFirstByteTimeoutMs n) \<and>
     (helloComplete st \<longrightarrow> parseClientHello (clientBuffer st) = Some (Ok, hello st))"

lemma andThen_True: "andThen r f = Done True st' \<longleftrightarrow> (\<exists>st. r = Done True st \<and> f st = Done True st')"
  by (auto simp: andThen_def split: io.split bool.split)

lemma prepareCandidates_keeps:
  assumes "prepareCandidates env st = Done b st'"
  shows "clientBuffer st' = clientBuffer st \<and> hello st' = hello st \<and> helloComplete st' = helloComplete st \<and>
    firstResponse st' = firstResponse st \<and> target st' = target st"
  using assms by (auto simp: prepareCandidates_def Let_def split: if_splits option.splits)

lemma collectClientHello_keeps:
  assumes "collectClientHello env st = Done b st'"
  shows "(\<exists>n. clientBuffer st' = firstReads env (asked st) kClientFirstByteTimeoutMs n) \<and>
    (helloComplete st' \<longrightarrow> parseClientHello (clientBuffer st') = Some (Ok, hello st')) \<and>
    target st' = target st \<and> firstResponse st' = firstResponse st"
proof -
  have c: "collected env kClientFirstByteTimeoutMs (st\<lparr>clientBuffer := [], helloComplete := False\<rparr>) b st'"
    using collectClientHello_collected [of env st] assms by auto
  then have "target st' = target (st\<lparr>clientBuffer := [], helloComplete := False, clientBuffer := clientBuffer st', hello := hello st',
      helloComplete := helloComplete st', relay_host := relay_host st', asked := asked st'\<rparr>)"
    "firstResponse st' = firstResponse (st\<lparr>clientBuffer := [], helloComplete := False, clientBuffer := clientBuffer st', hello := hello st',
      helloComplete := helloComplete st', relay_host := relay_host st', asked := asked st'\<rparr>)"
    by (simp_all only: collected_def)
  then show ?thesis using c by (simp add: collected_def)
qed

lemma prepare_ready:
  assumes env: "fresh_links env" and p: "prepare env st = Done True st'" and "firstResponse st = []"
  shows "ready env st'"
proof -
  let ?connect = "\<lambda>s. case connectTarget env s of (b, s1) \<Rightarrow> Done b s1"
  have connect: "fresh_target s' \<and> clientBuffer s' = clientBuffer s \<and> hello s' = hello s \<and> helloComplete s' = helloComplete s \<and>
      firstResponse s' = firstResponse s" if "?connect s = Done True s'" for s s'
    using that connectTarget_connected [OF env, of s] by (auto simp: connected_from_def fresh_target_def split: prod.splits)
  show ?thesis
  proof (cases "originalTargetAddress st = []")
    case True
    then obtain s1 s2 where s: "prepareCandidates env st = Done True s1" "?connect s1 = Done True s2" "collectClientHello env s2 = Done True st'"
      using p by (auto simp: prepare_def Let_def andThen_True)
    then show ?thesis
      using prepareCandidates_keeps [OF s(1)] connect [OF s(2)] collectClientHello_keeps [OF s(3)] assms(3) by (auto simp: ready_def fresh_target_def)
  next
    case False
    then obtain s1 s2 where s: "collectClientHello env st = Done True s1" "prepareCandidates env s1 = Done True s2" "?connect s2 = Done True st'"
      using p by (auto simp: prepare_def Let_def andThen_True)
    then show ?thesis
      using collectClientHello_keeps [OF s(1)] prepareCandidates_keeps [OF s(2)] connect [OF s(3)] assms(3) by (auto simp: ready_def)
  qed
qed

lemma onTarget_sendAll:
  assumes "onTarget (sendAll data) st = Done True st'" and "target st = Some l"
  shows "\<exists>s. st' = st\<lparr>target := Some (l\<lparr>link_sock := s\<rparr>)\<rparr> \<and> wire s = wire (link_sock l) @ data"
  using onTarget_emits [OF assms(2), of "sendAll data" data] assms(1) tcp.emits_put by auto

lemma deliver_forwards:
  assumes env: "fresh_links env" and st: "ready env st"
    and d: "andThen (deliverHello env ctx st) flushTrailingClientData = Done True st'"
  shows "\<exists>c. target st' = Some c \<and> forwarded (clientBuffer st) (hello st) (helloComplete st) (wire (link_sock c)) \<and>
    (firstResponse st' = [] \<or> classifyServerResponse (firstResponse st') = Some ServerResponseStatus.ServerHello)"
proof -
  obtain st1 where 1: "deliverHello env ctx st = Done True st1" "flushTrailingClientData st1 = Done True st'"
    using d by (auto simp: andThen_True)
  obtain l where l: "target st = Some l" "wire (link_sock l) = []" using st by (auto simp: ready_def fresh_target_def)
  show ?thesis
  proof (cases "clientBuffer st \<noteq> [] \<and> helloComplete st \<and> \<not> spansRecords (hello st)")
    case True
    then have parse: "parseClientHello (clientBuffer st) = Some (Ok, hello st)" using st by (simp add: ready_def)
    have p: "probing (clientBuffer st) (hello st) (retired st) 12 st1" "classifyServerResponse (firstResponse st1) = Some ServerResponseStatus.ServerHello"
      and ex: "\<exists>c. target st1 = Some c \<and> carries (clientBuffer st) (hello st) (wire (link_sock c))"
      using deliverHello_probing [OF env parse _ _ l, of ctx] True 1(1) by auto
    obtain c where c: "target st1 = Some c" "carries (clientBuffer st) (hello st) (wire (link_sock c))" using ex by blast
    have same: "clientBuffer st1 = clientBuffer st" "hello st1 = hello st" "helloComplete st1" using p(1) by (simp_all add: probing_def)
    show ?thesis
    proof (cases "length (clientBuffer st) \<le> recordTotalLength (hello st)")
      case short: True
      then show ?thesis
        using 1(2) c True same p(2) by (auto simp: flushTrailingClientData_def forwarded_def)
    next
      case False
      then obtain s where "st' = st1\<lparr>target := Some (c\<lparr>link_sock := s\<rparr>)\<rparr>"
        "wire s = wire (link_sock c) @ drop (recordTotalLength (hello st)) (clientBuffer st)"
        using 1(2) onTarget_sendAll [OF _ c(1)] True same by (auto simp: flushTrailingClientData_def)
      then show ?thesis using c p(2) True by (auto simp: forwarded_def)
    qed
  next
    case False
    have "\<exists>s. st1 = st\<lparr>activeProfile := activeProfile st1, target := Some (l\<lparr>link_sock := s\<rparr>)\<rparr> \<and> wire s = clientBuffer st"
    proof (cases "clientBuffer st = []")
      case True
      then have "st1 = st" using 1(1) by (simp add: deliverHello_def)
      then show ?thesis using True l by (intro exI [of _ "link_sock l"]) simp
    next
      case ne: False
      then show ?thesis
        using 1(1) False l onTarget_sendAll [of "clientBuffer st" st st1 l]
          onTarget_sendAll [of "clientBuffer st" "st\<lparr>activeProfile := ''none''\<rparr>" st1 l]
        by (auto simp: deliverHello_def split: if_splits)
    qed
    then obtain s where s: "st1 = st\<lparr>activeProfile := activeProfile st1, target := Some (l\<lparr>link_sock := s\<rparr>)\<rparr>" "wire s = clientBuffer st" by blast
    have f: "clientBuffer st1 = clientBuffer st" "hello st1 = hello st" "helloComplete st1 = helloComplete st" "firstResponse st1 = firstResponse st"
      "target st1 = Some (l\<lparr>link_sock := s\<rparr>)"
      by (subst s(1), simp)+
    have "st' = st1"
      using 1(2) False f by (auto simp: flushTrailingClientData_def parseClientHello_def split: if_splits)
    then show ?thesis using f s(2) st by (auto simp: forwarded_def ready_def)
  qed
qed

lemma dropTarget_ask: "retired (dropTarget (snd (ask f st))) = retired st @ current st"
  by (simp add: ask_def dropTarget_def current_def split: option.split)

lemma close_retired: "retired (srv_relay (closeSockets env abortive client pumped st)) = retired st @ current st"
  using dropTarget_ask [of "stops env" st] by (simp add: closeSockets_def Let_def case_prod_beta)

lemma close_simps [simp]:
  "srv_client (closeSockets env abortive client pumped st) = client" "srv_pump (closeSockets env abortive client pumped st) = pumped"
  by (simp_all add: closeSockets_def Let_def case_prod_beta)

lemma release_links [simp]:
  "retired (releaseHandshakeBuffers st) = retired st" "current (releaseHandshakeBuffers st) = current st"
  by (simp_all add: releaseHandshakeBuffers_def current_def)

lemma ask_links [simp]: "retired (snd (ask f st)) = retired st" "current (snd (ask f st)) = current st"
  by (simp_all add: ask_def current_def)

lemma served_links:
  assumes "serveEstablished env ctx turns client st = Done b served" and "target st = Some c"
  shows "b \<and> last (retired (srv_relay served)) = c \<and> retired (srv_relay served) \<noteq> []"
proof -
  have "retired (srv_relay served) = retired st @ current st"
    using assms by (auto simp: serveEstablished_def Let_def case_prod_beta close_retired split: if_splits io.splits bool.splits)
  moreover have b using assms by (auto simp: serveEstablished_def Let_def case_prod_beta split: if_splits io.splits bool.splits)
  ultimately show ?thesis using assms(2) by (simp add: current_def)
qed

lemma served_pump:
  assumes "serveEstablished env ctx turns client st = Done b served" and "srv_pump served = Some (e, p)"
  shows "wire (srv_client served) = wire client @ firstResponse st \<and> (\<exists>now. pump (idleTimeoutMs ctx) turns (newPump now) = (e, p))"
proof -
  have w: "sendAll data client = Done True client' \<Longrightarrow> wire client' = wire client @ data" for data client'
    by (rule tcp.write_ok)
  show ?thesis
    using assms w by (auto simp: serveEstablished_def Let_def case_prod_beta split: if_splits io.splits bool.splits)
qed


text \<open>A client that sends a hello and three more bytes, and a target that answers and then closes with the client.\<close>

definition servedEnv :: Env where
  "servedEnv = sampleEnv\<lparr>clientReads := (\<lambda>k _. if k = 3 then Arrived (sampleHello @ [23, 3, 3]) else TimedOut),
     connects := (\<lambda>_ _ _. Some sampleLink)\<rparr>"


end
