(* ===== verification/Relay_Learning.thy ===== *)
theory Relay_Learning
  imports Relay_Stream
begin

text \<open>
  What a connection teaches the strategy store: only an answer to a hello that really went out
  under a profile can make that profile the winner of a host.
\<close>

section \<open>Steps that do not touch the store\<close>

definition untaught :: "Relay \<Rightarrow> Relay \<Rightarrow> bool" where
  "untaught st st' \<longleftrightarrow> storeOps st' = storeOps st \<and> relay_host st' = relay_host st \<and> relay_networkId st' = relay_networkId st"

lemma untaught_refl [simp]: "untaught st st"
  by (simp add: untaught_def)

lemma untaught_trans: "untaught st st1 \<Longrightarrow> untaught st1 st2 \<Longrightarrow> untaught st st2"
  by (simp add: untaught_def)

lemma untaught_ask [simp]: "untaught st (snd (ask f st))"
  by (simp add: untaught_def ask_def)

lemma untaught_race: "untaught st (snd (race env budget st))"
  by (simp add: race_def ask_def untaught_def Let_def)

lemma untaught_retryRace: "untaught st (snd (retryRace env st))"
  by (simp add: retryRace_def race_def ask_def untaught_def Let_def)

lemma untaught_adoptLink: "untaught st (snd (adoptLink env l st))"
  by (simp add: adoptLink_def ask_def untaught_def Let_def)

lemma untaught_connectTarget: "untaught st (snd (connectTarget env st))"
proof -
  obtain stop st1 where 1: "ask (stops env) st = (stop, st1)" by fastforce
  obtain found st2 where 2: "race env (if selectedByApplication env st1 then kOriginalConnectTimeoutMs else kConnectTimeoutMs) st1 = (found, st2)" by fastforce
  obtain stop2 s where s: "ask (stops env) st2 = (stop2, s)" by fastforce
  obtain found1 st3 where 3: "(if found = None \<and> selectedByApplication env st1 then (if stop2 then (None, s) else retryRace env s) else (found, st2)) = (found1, st3)"
    by fastforce
  have u: "untaught st st1" "untaught st1 st2" "untaught st2 s"
    using 1 2 s untaught_ask [of st "stops env"] untaught_ask [of st2 "stops env"] untaught_race by (metis snd_conv)+
  have "untaught s (snd (retryRace env s))" by (rule untaught_retryRace)
  then have u3: "untaught st st3" using 3 u by (auto simp: untaught_def split: if_splits)
  have eq: "connectTarget env st = (if stop then (False, st1) else case found1 of None \<Rightarrow> (False, st3) | Some l \<Rightarrow> adoptLink env l st3)"
    by (simp only: connectTarget_def 1 2 s Let_def prod.case 3)
  show ?thesis
    using u(1) u3 untaught_trans [OF u3 untaught_adoptLink] by (simp add: eq split: option.split)
qed

lemma untaught_reconnect: "untaught st (snd (reconnect env st))"
  using untaught_connectTarget [of "dropTarget st" env]
  by (auto simp: reconnect_def untaught_def dropTarget_def split: option.splits)

lemma untaught_armPolicy: "untaught st (armPolicy env profile st)"
  by (simp add: armPolicy_def untaught_def Let_def split: option.split prod.split bool.split)

lemma untaught_onTarget: "onTarget f st = Done b st' \<Longrightarrow> untaught st st'"
  by (auto simp: onTarget_def untaught_def split: option.splits io.splits)

lemma untaught_awaitResponse: "awaitResponse env ctx st = Some (signal, st') \<Longrightarrow> untaught st st'"
  by (auto simp: awaitResponse_def untaught_def ask_def Let_def split: option.splits)

lemma untaught_packetPolicyApplied: "untaught st (snd (packetPolicyApplied env st))"
  by (simp add: packetPolicyApplied_def untaught_def Let_def case_prod_beta split: option.split)

lemma untaught_recordTelemetry: "untaught st (recordTelemetry env ctx evidence verdict remembered success elapsed st)"
  by (simp add: recordTelemetry_def untaught_def ask_def Let_def)

lemma untaught_useStore: "untaught st (snd (useStore env f st))"
  by (simp add: useStore_def untaught_def Let_def case_prod_beta)

fun after :: "Attempted \<Rightarrow> Relay option" where
  "after (GiveUp st) = Some st"
| "after (Skipped st) = Some st"
| "after (Unsent st) = Some st"
| "after (Answered signal elapsed st) = Some st"
| "after Stuck = None"
| "after OutOfBounds = None"

lemma untaught_sendHello:
  assumes "after (sendHello env ctx profile plan st) = Some st'"
  shows "untaught st st'"
proof -
  obtain sentAt st1 where 1: "ask (ticks env) (armPolicy env profile st) = (sentAt, st1)" by fastforce
  have u1: "untaught st st1" using untaught_trans [OF untaught_armPolicy untaught_ask] 1 by (metis snd_conv)
  show ?thesis
  proof (cases "onTarget (writePlan (helloComplete st1) plan (clientBuffer st1) (hello st1)) st1")
    case (Done b st2)
    note u2 = untaught_trans [OF u1 untaught_onTarget [OF Done]]
    show ?thesis
    proof (cases "awaitResponse env ctx st2")
      case (Some r)
      obtain signal st3 where r: "r = (signal, st3)" by fastforce
      note u3 = untaught_trans [OF u2 untaught_awaitResponse [OF Some [unfolded r]]]
      show ?thesis
        using assms u2 untaught_trans [OF u3 untaught_ask [of st3 "ticks env"]]
        by (auto simp: sendHello_def 1 Done Some r Let_def case_prod_beta split: if_splits)
    qed (use assms u2 in \<open>auto simp: sendHello_def 1 Done split: if_splits\<close>)
  qed (use assms in \<open>auto simp: sendHello_def 1\<close>)
qed

lemma untaught_attempt:
  assumes "after (attempt env ctx profile tries st) = Some st'"
  shows "untaught st st'"
proof -
  obtain stop st1 where 1: "ask (stops env) st = (stop, st1)" by fastforce
  obtain applicable plan where b: "buildPlan profile (hello st1) (splitDelayMs ctx) = (applicable, plan)" by fastforce
  obtain connected st2 where 2: "(if tries > 0 then reconnect env st1 else (True, st1)) = (connected, st2)" by fastforce
  have u1: "untaught st st1" by (metis 1 snd_conv untaught_ask)
  have u2: "untaught st st2" using 2 u1 untaught_trans [OF u1 untaught_reconnect, of env] by (auto split: if_splits)
  show ?thesis
    using assms u1 u2 untaught_trans [OF u2 untaught_sendHello, of env ctx profile plan st']
    by (auto simp: attempt_def 1 b 2 Let_def split: if_splits)
qed

section \<open>What is learned\<close>

text \<open>The packet loop reported that it applied the policy armed for a connection to this address.\<close>

definition policy_used :: "Env \<Rightarrow> string \<Rightarrow> bool" where
  "policy_used env address \<longleftrightarrow> (\<exists>k reg port. port \<noteq> 0 \<and>
     fst (consumeApplied (parseAddr env) address port 0 (ticks env k) (otherPolicies env k reg)))"

text \<open>
  The changes a connection may make, given its result, the state it ends in, the attempts it
  made and the profile remembered before.
\<close>

fun justified :: "Env \<Rightarrow> Context \<Rightarrow> string \<Rightarrow> bool \<Rightarrow> Relay \<Rightarrow> Attempt list \<Rightarrow> store_op \<Rightarrow> bool" where
  "justified env diag remembered b st ev (Remember n h p k c t clk) \<longleftrightarrow>
     b \<and> n = relay_networkId st \<and> h = relay_host st \<and> p = activeProfile st \<and>
     ev \<noteq> [] \<and> attempt_profile (last ev) = p \<and> attempt_signal (last ev) = ProbeSignal.ServerHello \<and>
     k = verdict_kind (infer ev diag) \<and>
     (p \<noteq> ''none'' \<longrightarrow> k \<noteq> TransientFailure \<and> (relay_isPacketProfile p \<longrightarrow> policy_used env (connectedAddress st)))"
| "justified env diag remembered b st ev (RecordFailure n h p clk) \<longleftrightarrow>
     n = relay_networkId st \<and> h = relay_host st \<and> p = remembered \<and>
     (\<exists>a \<in> set ev. attempt_profile a = p \<and> attempt_signal a \<noteq> ProbeSignal.ServerHello)"
| "justified env diag remembered b st ev (NoteHealthy n h t clk) \<longleftrightarrow>
     b \<and> n = relay_networkId st \<and> h = relay_host st \<and> activeProfile st = ''none'' \<and>
     ev \<noteq> [] \<and> attempt_profile (last ev) = ''none'' \<and> attempt_signal (last ev) = ProbeSignal.ServerHello"
| "justified env diag remembered b st ev (Forget h clk) \<longleftrightarrow> False"
| "justified env diag remembered b st ev (Clear clk) \<longleftrightarrow> False"
| "justified env diag remembered b st ev (ProbeOrder n h hl t clk) \<longleftrightarrow> False"
| "justified env diag remembered b st ev (Load content clk) \<longleftrightarrow> False"

definition taught :: "Env \<Rightarrow> RelayContext \<Rightarrow> Context \<Rightarrow> string \<Rightarrow> Relay \<Rightarrow> bool \<Rightarrow> Relay \<Rightarrow> Attempt list \<Rightarrow> bool" where
  "taught env ctx diag remembered st b st' ev \<longleftrightarrow>
     (\<exists>ops. storeOps st' = ops @ storeOps st \<and> (forcedProfile ctx \<noteq> [] \<longrightarrow> ops = []) \<and>
        list_all (justified env diag remembered b st' ev) ops) \<and>
     relay_host st' = relay_host st \<and> relay_networkId st' = relay_networkId st"

lemma store_ops:
  "\<exists>clk. storeOps (snd (storeRemember env p k c st)) = Remember (relay_networkId st) (relay_host st) p k (of_nat c) 0 clk # storeOps st"
  "\<exists>clk. storeOps (storeHealthy env st) = NoteHealthy (relay_networkId st) (relay_host st) 0 clk # storeOps st"
  "\<exists>clk. storeOps (storeFailure env p st) = RecordFailure (relay_networkId st) (relay_host st) p clk # storeOps st"
  by (simp_all add: storeRemember_def storeHealthy_def storeFailure_def useStore_def logOp_def Let_def case_prod_beta)

lemma settleFailure_ops:
  "storeOps (settleFailure env ctx remembered failed st) = storeOps st \<or>
   (forcedProfile ctx = [] \<and> failed \<and> (\<exists>clk. storeOps (settleFailure env ctx remembered failed st) =
      RecordFailure (relay_networkId st) (relay_host st) remembered clk # storeOps st))"
  using store_ops(3) [of env remembered st] by (auto simp: settleFailure_def)

definition failed_before :: "string \<Rightarrow> Attempt list \<Rightarrow> bool" where
  "failed_before remembered ev \<longleftrightarrow> (\<exists>a \<in> set ev. attempt_profile a = remembered \<and> attempt_signal a \<noteq> ProbeSignal.ServerHello)"

lemma probeFailed_taught:
  assumes "failed \<longrightarrow> failed_before remembered ev"
  shows "taught env ctx diag remembered st False (probeFailed env ctx diag t0 remembered ev failed st) ev"
proof -
  let ?st1 = "settleFailure env ctx remembered failed st"
  let ?st' = "probeFailed env ctx diag t0 remembered ev failed st"
  have core: "core ?st' = core st" by simp
  have "untaught ?st1 ?st'"
    unfolding probeFailed_def Let_def case_prod_beta by (rule untaught_trans [OF untaught_ask untaught_recordTelemetry])
  then have "storeOps ?st' = storeOps ?st1" by (simp add: untaught_def)
  then show ?thesis
    using settleFailure_ops [of env ctx remembered failed st] assms core_eqD(8,9) [OF core]
    by (auto simp: taught_def failed_before_def)
qed

lemma learnFrom_taught:
  assumes ev: "ev \<noteq> []" "attempt_profile (last ev) = profile" "attempt_signal (last ev) = ProbeSignal.ServerHello"
    and failed: "failed \<longrightarrow> failed_before remembered ev" and active: "activeProfile st = profile"
  shows "taught env ctx diag remembered st True (snd (learnFrom env ctx profile remembered failed (infer ev diag) st)) ev"
proof -
  let ?v = "infer ev diag"
  let ?st' = "snd (learnFrom env ctx profile remembered failed ?v st)"
  note same = core_eqD [OF core_learnFrom [of env ctx profile remembered failed ?v st]]
  consider (forced) "forcedProfile ctx \<noteq> []" | (none) "forcedProfile ctx = []" "profile = ''none''"
    | (other) "forcedProfile ctx = []" "profile \<noteq> ''none''" by blast
  then show ?thesis
  proof cases
    case forced
    then show ?thesis by (simp add: taught_def learnFrom_def)
  next
    case none
    let ?s = "storeHealthy env st"
    have s: "relay_host ?s = relay_host st" "relay_networkId ?s = relay_networkId st"
      using core_eqD(8,9) [of ?s st] by simp_all
    obtain clk where h: "storeOps ?s = NoteHealthy (relay_networkId st) (relay_host st) 0 clk # storeOps st"
      using store_ops(2) by blast
    obtain clk' where r: "storeOps (snd (storeRemember env profile (verdict_kind ?v) (verdict_confidence ?v) ?s)) =
        Remember (relay_networkId st) (relay_host st) profile (verdict_kind ?v) (of_nat (verdict_confidence ?v)) 0 clk' # storeOps ?s"
      using store_ops(1) [of env profile "verdict_kind ?v" "verdict_confidence ?v" ?s] s by auto
    let ?ops = "(if remembered \<noteq> [] then [Remember (relay_networkId st) (relay_host st) profile (verdict_kind ?v) (of_nat (verdict_confidence ?v)) 0 clk'] else []) @
      [NoteHealthy (relay_networkId st) (relay_host st) 0 clk]"
    have "storeOps ?st' = ?ops @ storeOps st" using none h r by (simp add: learnFrom_def Let_def)
    moreover have "list_all (justified env diag remembered True ?st' ev) ?ops"
      using same(7-9) ev active none by simp
    ultimately show ?thesis
      using none same(8,9) unfolding taught_def by blast
  next
    case other
    obtain skip st1 where 1: "(if relay_isPacketProfile profile then (let (applied, s) = packetPolicyApplied env st in (\<not> applied, s)) else (False, st)) = (skip, st1)"
      by fastforce
    have st1: "core st1 = core st" "untaught st st1"
      using 1 untaught_packetPolicyApplied [of st env] core_packetPolicyApplied [of env st] by (auto simp: Let_def case_prod_beta split: if_splits)
    have used: "relay_isPacketProfile profile \<and> \<not> skip \<longrightarrow> policy_used env (connectedAddress st)"
      using 1 by (auto simp: packetPolicyApplied_def policy_used_def Let_def case_prod_beta split: if_splits option.splits)
    let ?st2 = "settleFailure env ctx remembered failed st1"
    let ?st3 = "snd (storeRemember env profile (verdict_kind ?v) (verdict_confidence ?v) ?st2)"
    have eq: "?st' = (if skip \<or> verdict_kind ?v = TransientFailure then st1 else ?st3)"
      using other by (simp add: learnFrom_def 1 Let_def case_prod_beta)
    have c2: "core ?st2 = core st" using st1(1) by simp
    show ?thesis
    proof (cases "skip \<or> verdict_kind ?v = TransientFailure")
      case True
      then show ?thesis using st1(2) by (simp add: taught_def eq untaught_def)
    next
      case False
      obtain clk where r: "storeOps ?st3 =
          Remember (relay_networkId st) (relay_host st) profile (verdict_kind ?v) (of_nat (verdict_confidence ?v)) 0 clk # storeOps ?st2"
        using store_ops(1) [of env profile "verdict_kind ?v" "verdict_confidence ?v" ?st2] core_eqD(8,9) [OF c2] by auto
      obtain ops2 where ops2: "storeOps ?st2 = ops2 @ storeOps st" "list_all (justified env diag remembered True ?st' ev) ops2"
      proof -
        have "storeOps st1 = storeOps st" "relay_host st1 = relay_host st" "relay_networkId st1 = relay_networkId st"
          using st1(2) by (simp_all add: untaught_def)
        then have "\<exists>ops2. storeOps ?st2 = ops2 @ storeOps st \<and> list_all (justified env diag remembered True ?st' ev) ops2"
          using settleFailure_ops [of env ctx remembered failed st1] failed same(8,9) by (fastforce simp: failed_before_def)
        then show thesis using that by blast
      qed
      let ?op = "Remember (relay_networkId st) (relay_host st) profile (verdict_kind ?v) (of_nat (verdict_confidence ?v)) 0 clk"
      have "justified env diag remembered True ?st' ev ?op"
        using same(7-9,12) ev active used False by simp
      moreover have "storeOps ?st' = (?op # ops2) @ storeOps st" using r ops2(1) False by (simp add: eq)
      ultimately show ?thesis
        using other ops2(2) same(8,9) unfolding taught_def by (intro conjI exI [of _ "?op # ops2"]) simp_all
    qed
  qed
qed

lemma taught_trans: "untaught st st1 \<Longrightarrow> taught env ctx diag remembered st1 b st' ev \<Longrightarrow> taught env ctx diag remembered st b st' ev"
  by (simp add: taught_def untaught_def)

lemma taught_then:
  assumes "taught env ctx diag remembered st b st1 ev" and "untaught st1 st2" and "core st1 = core st2"
  shows "taught env ctx diag remembered st b st2 ev"
proof -
  have "justified env diag remembered b st2 ev op" if "justified env diag remembered b st1 ev op" for op
    using that core_eqD(7-9,12) [OF assms(3)] by (cases op) simp_all
  then have "list_all (justified env diag remembered b st2 ev) ops" if "list_all (justified env diag remembered b st1 ev) ops" for ops
    using that by (auto simp: list_all_iff)
  then show ?thesis using assms(1,2) by (auto simp: taught_def untaught_def)
qed

lemma probeWon_taught:
  assumes "ev \<noteq> []" "attempt_profile (last ev) = profile" "attempt_signal (last ev) = ProbeSignal.ServerHello"
    and "failed \<longrightarrow> failed_before remembered ev"
  shows "taught env ctx diag remembered st True (probeWon env ctx diag t0 remembered profile ev failed st) ev"
proof -
  let ?st = "st\<lparr>activeProfile := profile\<rparr>"
  let ?st1 = "snd (learnFrom env ctx profile remembered failed (infer ev diag) ?st)"
  have t: "taught env ctx diag remembered ?st True ?st1 ev" by (rule learnFrom_taught) (use assms in simp_all)
  obtain v where "probeWon env ctx diag t0 remembered profile ev failed st =
      recordTelemetry env ctx ev v remembered True (ticks env (asked ?st1) - t0) (snd (ask (ticks env) ?st1))"
    by (simp add: probeWon_def ask_def Let_def case_prod_beta)
  moreover have "taught env ctx diag remembered ?st True
      (recordTelemetry env ctx ev v remembered True (ticks env (asked ?st1) - t0) (snd (ask (ticks env) ?st1))) ev"
    by (rule taught_then [OF t untaught_trans [OF untaught_ask untaught_recordTelemetry]]) simp
  ultimately have "taught env ctx diag remembered ?st True (probeWon env ctx diag t0 remembered profile ev failed st) ev" by simp
  then show ?thesis by (rule taught_trans [rotated]) (simp add: untaught_def)
qed

lemma probeLoop_taught:
  "probeLoop env ctx diag t0 remembered order tries evidence failed st = Done b st' \<Longrightarrow>
     failed \<longrightarrow> failed_before remembered evidence \<Longrightarrow> \<exists>ev. taught env ctx diag remembered st b st' ev"
proof (induction order arbitrary: tries evidence failed st)
  case Nil
  then show ?case
    using probeFailed_taught [OF Nil(2), of env ctx diag st t0] by (intro exI [of _ evidence]) simp
next
  case (Cons profile order)
  show ?case
  proof (cases "attempt env ctx profile tries st")
    case (GiveUp st1)
    have u: "untaught st st1" by (rule untaught_attempt [of env ctx profile tries]) (simp add: GiveUp)
    show ?thesis
      using Cons.prems(1) GiveUp taught_trans [OF u probeFailed_taught [OF Cons.prems(2)], of env ctx diag t0]
      by (intro exI [of _ evidence]) auto
  next
    case (Skipped st1)
    have u: "untaught st st1" by (rule untaught_attempt [of env ctx profile tries]) (simp add: Skipped)
    have "probeLoop env ctx diag t0 remembered order tries evidence failed st1 = Done b st'" using Cons.prems(1) Skipped by simp
    then show ?thesis using Cons.IH Cons.prems(2) taught_trans [OF u] by blast
  next
    case (Unsent st1)
    have u: "untaught st st1" by (rule untaught_attempt [of env ctx profile tries]) (simp add: Unsent)
    have "probeLoop env ctx diag t0 remembered order (tries + 1) evidence failed st1 = Done b st'" using Cons.prems(1) Unsent by simp
    then show ?thesis using Cons.IH Cons.prems(2) taught_trans [OF u] by blast
  next
    case (Answered signal elapsed st1)
    have u: "untaught st st1" by (rule untaught_attempt [of env ctx profile tries]) (simp add: Answered)
    let ?ev = "evidence @ [\<lparr>attempt_profile = profile, attempt_signal = signal, elapsedMs = elapsed\<rparr>]"
    have f: "failed \<longrightarrow> failed_before remembered ?ev" using Cons.prems(2) by (auto simp: failed_before_def)
    show ?thesis
    proof (cases "signal = ProbeSignal.ServerHello")
      case True
      have "taught env ctx diag remembered st1 True (probeWon env ctx diag t0 remembered profile ?ev failed st1) ?ev"
        by (rule probeWon_taught) (use True f in simp_all)
      moreover have "Done True (probeWon env ctx diag t0 remembered profile ?ev failed st1) = Done b st'"
        using Cons.prems(1) Answered True by (simp add: Let_def)
      ultimately show ?thesis using taught_trans [OF u] by blast
    next
      case False
      let ?failed = "failed \<or> (forcedProfile ctx = [] \<and> profile = remembered)"
      have "untaught st (st1\<lparr>firstResponse := []\<rparr>)" using u by (simp add: untaught_def)
      note t = taught_trans [OF this]
      have "?failed \<longrightarrow> failed_before remembered ?ev" using f False by (auto simp: failed_before_def)
      moreover have "probeLoop env ctx diag t0 remembered order (tries + 1) ?ev ?failed (st1\<lparr>firstResponse := []\<rparr>) = Done b st'"
        using Cons.prems(1) Answered False by (simp add: Let_def)
      ultimately show ?thesis
        using Cons.IH [of "tries + 1" ?ev ?failed "st1\<lparr>firstResponse := []\<rparr>"] t by blast
    qed
  qed (use Cons.prems in simp_all)
qed

lemma order_taught:
  assumes "forcedProfile ctx = []"
  shows "\<exists>clk. storeOps (snd (storeOrder env st)) = ProbeOrder (relay_networkId st) (relay_host st) (hello st) 0 clk # storeOps st"
  by (simp add: storeOrder_def useStore_def logOp_def Let_def case_prod_beta)



end
