(* ===== verification/Live_Stats.thy ===== *)
theory Live_Stats
  imports Strategy_Plan Json
begin

text \<open>
  The live counters of \<open>src/src/LiveStats.cpp\<close> and \<open>LiveStats.hpp\<close>: the shared memory the engine
  publishes, the counters one relayed connection (\<open>Flow\<close>) moves during its lifetime, and the
  snapshot the tray reads. The code updates the memory by interlocked operations, one counter at
  a time, from as many threads as there are connections. So an operation of the publisher is the
  list of its interlocked operations here, and threads interleave between any two of them.
\<close>

section \<open>The shared memory\<close>

definition kMagic :: u32 where "kMagic = 0x53484C53"
definition kVersion :: u32 where "kVersion = 2"
definition kMaxProfiles :: nat where "kMaxProfiles = 16"

text \<open>A \<open>LONG\<close> is a word of 32 bits; \<open>sint\<close> is its signed value.\<close>

record SharedState =
  magic :: u32
  version :: u32
  state_size :: u32
  enginePid :: u32
  startedAt :: u32
  activeFlows :: u32
  openedFlows :: u32
  decisions :: u32
  successfulDecisions :: u32
  bypassedDecisions :: u32
  unresolvedDecisions :: u32
  lastDecisionAt :: u32
  activeProfiles :: "u32 list"
  profileDecisions :: "u32 list"

text \<open>\<open>sizeof(SharedState)\<close>: twelve \<open>LONG\<close>s and two arrays of \<open>kMaxProfiles\<close>.\<close>

definition sizeofSharedState :: u32 where
  "sizeofSharedState = of_nat (4 * (12 + 2 * kMaxProfiles))"

definition unixSeconds32 :: "int \<Rightarrow> u32" where
  "unixSeconds32 seconds = of_int (clamp seconds 0 0x7FFFFFFF)"

definition nonNegative :: "u32 \<Rightarrow> u32" where
  "nonNegative v = (if sint v < 0 then 0 else v)"

definition cumulative :: "u32 \<Rightarrow> u32" where
  "cumulative v = v"

definition zeroState :: SharedState where
  "zeroState = \<lparr>magic = 0, version = 0, state_size = 0, enginePid = 0, startedAt = 0, activeFlows = 0,
     openedFlows = 0, decisions = 0, successfulDecisions = 0, bypassedDecisions = 0,
     unresolvedDecisions = 0, lastDecisionAt = 0, activeProfiles = replicate kMaxProfiles 0,
     profileDecisions = replicate kMaxProfiles 0\<rparr>"

text \<open>The state a new publisher leaves in the mapping (process id and clock are given).\<close>

definition publish :: "u32 \<Rightarrow> int \<Rightarrow> SharedState" where
  "publish pid seconds = zeroState\<lparr>version := kVersion, state_size := sizeofSharedState,
     enginePid := pid, startedAt := unixSeconds32 seconds, magic := kMagic\<rparr>"

definition retire :: "SharedState \<Rightarrow> SharedState" where
  "retire s = s\<lparr>magic := 0\<rparr>"

section \<open>Interlocked operations\<close>

datatype Counter = ActiveFlows | OpenedFlows | Decisions | SuccessfulDecisions | BypassedDecisions |
  UnresolvedDecisions | ActiveProfile nat | ProfileDecision nat

datatype Interlocked = Increment Counter | Decrement Counter | SetLastDecision u32

definition bump :: "u32 \<Rightarrow> nat \<Rightarrow> u32 list \<Rightarrow> u32 list" where
  "bump d i xs = xs[i := xs ! i + d]"

fun addTo :: "u32 \<Rightarrow> Counter \<Rightarrow> SharedState \<Rightarrow> SharedState" where
  "addTo d ActiveFlows s = s\<lparr>activeFlows := activeFlows s + d\<rparr>"
| "addTo d OpenedFlows s = s\<lparr>openedFlows := openedFlows s + d\<rparr>"
| "addTo d Decisions s = s\<lparr>decisions := decisions s + d\<rparr>"
| "addTo d SuccessfulDecisions s = s\<lparr>successfulDecisions := successfulDecisions s + d\<rparr>"
| "addTo d BypassedDecisions s = s\<lparr>bypassedDecisions := bypassedDecisions s + d\<rparr>"
| "addTo d UnresolvedDecisions s = s\<lparr>unresolvedDecisions := unresolvedDecisions s + d\<rparr>"
| "addTo d (ActiveProfile i) s = s\<lparr>activeProfiles := bump d i (activeProfiles s)\<rparr>"
| "addTo d (ProfileDecision i) s = s\<lparr>profileDecisions := bump d i (profileDecisions s)\<rparr>"

fun perform :: "Interlocked \<Rightarrow> SharedState \<Rightarrow> SharedState" where
  "perform (Increment c) s = addTo 1 c s"
| "perform (Decrement c) s = addTo (- 1) c s"
| "perform (SetLastDecision t) s = s\<lparr>lastDecisionAt := t\<rparr>"

section \<open>The publisher\<close>

text \<open>A publisher is known here by whether its mapping is \<open>available\<close>.\<close>

type_synonym Publisher = bool

fun slotFrom :: "Profile list \<Rightarrow> string \<Rightarrow> int \<Rightarrow> int" where
  "slotFrom [] profile index = -1"
| "slotFrom (p # ps) profile index =
     (if profile_name p = profile then index else slotFrom ps profile (index + 1))"

definition profileSlot :: "string \<Rightarrow> int" where
  "profileSlot profile = slotFrom (take (min (length profileTable) kMaxProfiles) profileTable) profile 0"

definition validSlot :: "int \<Rightarrow> bool" where
  "validSlot slot \<longleftrightarrow> 0 \<le> slot \<and> slot < int kMaxProfiles"

definition flowOpened :: "Publisher \<Rightarrow> Interlocked list" where
  "flowOpened available = (if available then [Increment ActiveFlows, Increment OpenedFlows] else [])"

definition flowProfileChanged :: "Publisher \<Rightarrow> int \<Rightarrow> int \<Rightarrow> Interlocked list" where
  "flowProfileChanged available previousSlot nextSlot =
     (if \<not> available \<or> previousSlot = nextSlot then []
      else (if validSlot previousSlot then [Decrement (ActiveProfile (nat previousSlot))] else []) @
           (if validSlot nextSlot then [Increment (ActiveProfile (nat nextSlot))] else []))"

definition flowDecision :: "Publisher \<Rightarrow> int \<Rightarrow> bool \<Rightarrow> bool \<Rightarrow> int \<Rightarrow> Interlocked list" where
  "flowDecision available slot success bypassed seconds =
     (if \<not> available then []
      else [Increment Decisions] @
           (if success
            then [Increment SuccessfulDecisions] @
                 (if validSlot slot then [Increment (ProfileDecision (nat slot))] else [])
            else [Increment UnresolvedDecisions]) @
           (if bypassed then [Increment BypassedDecisions] else []) @
           [SetLastDecision (unixSeconds32 seconds)])"

definition flowClosed :: "Publisher \<Rightarrow> int \<Rightarrow> Interlocked list" where
  "flowClosed available slot =
     (if \<not> available then []
      else (if validSlot slot then [Decrement (ActiveProfile (nat slot))] else []) @
           [Decrement ActiveFlows])"

section \<open>One flow\<close>

record Flow =
  publisher :: "Publisher option"
  flow_slot :: int
  decided :: bool

definition newFlow :: Flow where
  "newFlow = \<lparr>publisher = None, flow_slot = -1, decided = False\<rparr>"

definition flowFinish :: "Flow \<Rightarrow> Interlocked list \<times> Flow" where
  "flowFinish f =
     ((case publisher f of None \<Rightarrow> [] | Some p \<Rightarrow> flowClosed p (flow_slot f)), newFlow)"

definition flowBegin :: "Publisher option \<Rightarrow> Flow \<Rightarrow> Interlocked list \<times> Flow" where
  "flowBegin p f =
     (let (ops, f1) = flowFinish f in
      (ops @ (case p of None \<Rightarrow> [] | Some a \<Rightarrow> flowOpened a), f1\<lparr>publisher := p\<rparr>))"

definition flowSetProfile :: "string \<Rightarrow> Flow \<Rightarrow> Interlocked list \<times> Flow" where
  "flowSetProfile profile f =
     (case publisher f of None \<Rightarrow> ([], f)
      | Some p \<Rightarrow> (let nextSlot = profileSlot profile in
          (flowProfileChanged p (flow_slot f) nextSlot, f\<lparr>flow_slot := nextSlot\<rparr>)))"

definition flowDecide :: "bool \<Rightarrow> bool \<Rightarrow> int \<Rightarrow> Flow \<Rightarrow> Interlocked list \<times> Flow" where
  "flowDecide success bypassed seconds f =
     (case publisher f of None \<Rightarrow> ([], f)
      | Some p \<Rightarrow> if decided f then ([], f)
          else (flowDecision p (flow_slot f) success bypassed seconds, f\<lparr>decided := True\<rparr>))"

datatype FlowCall = Begin "Publisher option" | SetProfile string | Decision bool bool int | Finish

fun flowCall :: "FlowCall \<Rightarrow> Flow \<Rightarrow> Interlocked list \<times> Flow" where
  "flowCall (Begin p) f = flowBegin p f"
| "flowCall (SetProfile name) f = flowSetProfile name f"
| "flowCall (Decision success bypassed seconds) f = flowDecide success bypassed seconds f"
| "flowCall Finish f = flowFinish f"

fun flowCalls :: "FlowCall list \<Rightarrow> Flow \<Rightarrow> Interlocked list \<times> Flow" where
  "flowCalls [] f = ([], f)"
| "flowCalls (c # cs) f =
     (let (ops, f1) = flowCall c f; (ops', f2) = flowCalls cs f1 in (ops @ ops', f2))"

text \<open>A whole lifetime: the calls on a new flow, then the destructor, which is \<open>finish\<close>.\<close>

definition flowLifetime :: "FlowCall list \<Rightarrow> Interlocked list" where
  "flowLifetime calls = fst (flowCalls (calls @ [Finish]) newFlow)"

text \<open>
  Threads interleave: in each step some thread performs its next interlocked operation. The
  state holds what each thread has done (\<open>fst\<close>) and what it still has to do.
\<close>

type_synonym Threads = "(Interlocked list \<times> Interlocked list) list"

inductive interleave :: "Threads \<Rightarrow> SharedState \<Rightarrow> Threads \<Rightarrow> SharedState \<Rightarrow> bool" where
  interleave_refl: "interleave ts s ts s"
| interleave_step: "interleave ts s us t \<Longrightarrow> i < length us \<Longrightarrow> us ! i = (ops, op # rest) \<Longrightarrow>
    interleave ts s (us[i := (ops @ [op], rest)]) (perform op t)"

section \<open>The snapshot\<close>

record ProfileSnapshot =
  snap_name :: string
  snap_active :: u32
  snap_decisions :: u32

record LiveSnapshot =
  online :: bool
  snap_enginePid :: u32
  snap_startedAt :: u32
  snap_activeFlows :: u32
  snap_pendingFlows :: u32
  snap_openedFlows :: u32
  snap_allDecisions :: u32
  snap_successful :: u32
  snap_bypassed :: u32
  snap_unresolved :: u32
  snap_lastDecisionAt :: u32
  snap_profiles :: "ProfileSnapshot list"

definition offline :: LiveSnapshot where
  "offline = \<lparr>online = False, snap_enginePid = 0, snap_startedAt = 0, snap_activeFlows = 0,
     snap_pendingFlows = 0, snap_openedFlows = 0, snap_allDecisions = 0, snap_successful = 0,
     snap_bypassed = 0, snap_unresolved = 0, snap_lastDecisionAt = 0, snap_profiles = []\<rparr>"

definition profileSnapshot :: "SharedState \<Rightarrow> nat \<Rightarrow> ProfileSnapshot" where
  "profileSnapshot s index =
     \<lparr>snap_name = profile_name (profileTable ! index), snap_active = nonNegative (activeProfiles s ! index),
      snap_decisions = cumulative (profileDecisions s ! index)\<rparr>"

text \<open>The argument is the mapped view, \<open>None\<close> when the mapping cannot be opened or mapped.\<close>

definition readSnapshot :: "SharedState option \<Rightarrow> LiveSnapshot" where
  "readSnapshot view =
     (case view of None \<Rightarrow> offline
      | Some s \<Rightarrow>
          if magic s = kMagic \<and> version s = kVersion \<and> state_size s = sizeofSharedState
          then (let profiles = map (profileSnapshot s) [0..<min (length profileTable) kMaxProfiles];
                    classifiedActive = foldl (\<lambda>n p. n + snap_active p) 0 profiles;
                    active = nonNegative (activeFlows s) in
                \<lparr>online = True, snap_enginePid = nonNegative (enginePid s),
                 snap_startedAt = nonNegative (startedAt s), snap_activeFlows = active,
                 snap_pendingFlows = (if active > classifiedActive then active - classifiedActive else 0),
                 snap_openedFlows = cumulative (openedFlows s),
                 snap_allDecisions = cumulative (decisions s),
                 snap_successful = cumulative (successfulDecisions s),
                 snap_bypassed = cumulative (bypassedDecisions s),
                 snap_unresolved = cumulative (unresolvedDecisions s),
                 snap_lastDecisionAt = cumulative (lastDecisionAt s), snap_profiles = profiles\<rparr>)
          else offline)"

definition u32Text :: "u32 \<Rightarrow> string" where
  "u32Text v = dec_digits (unat v)"

definition profileJson :: "ProfileSnapshot \<Rightarrow> string" where
  "profileJson p = ''{'' @ quoted ''name'' @ '':'' @ quoted (escape (snap_name p)) @ '','' @
     quoted ''active'' @ '':'' @ u32Text (snap_active p) @ '','' @
     quoted ''decisions'' @ '':'' @ u32Text (snap_decisions p) @ ''}''"

definition jsonMember :: "string \<Rightarrow> u32 \<Rightarrow> string" where
  "jsonMember key v = '','' @ quoted key @ '':'' @ u32Text v"

definition toJson :: "LiveSnapshot \<Rightarrow> string" where
  "toJson s = ''{'' @ quoted ''messageType'' @ '':'' @ quoted ''live'' @ '','' @
     quoted ''online'' @ '':'' @ (if online s then ''true'' else ''false'') @
     jsonMember ''enginePid'' (snap_enginePid s) @ jsonMember ''startedAt'' (snap_startedAt s) @
     jsonMember ''activeFlows'' (snap_activeFlows s) @ jsonMember ''pendingFlows'' (snap_pendingFlows s) @
     jsonMember ''openedFlows'' (snap_openedFlows s) @ jsonMember ''decisions'' (snap_allDecisions s) @
     jsonMember ''successfulDecisions'' (snap_successful s) @
     jsonMember ''bypassedDecisions'' (snap_bypassed s) @
     jsonMember ''unresolvedDecisions'' (snap_unresolved s) @
     jsonMember ''lastDecisionAt'' (snap_lastDecisionAt s) @ '','' @ quoted ''profiles'' @ '':['' @
     concat (map2 (\<lambda>i p. (if i = 0 then [] else '','') @ profileJson p)
        [0..<length (snap_profiles s)] (snap_profiles s)) @ '']}''"

section \<open>Gauges of interleaved flows\<close>

text \<open>What a list of interlocked operations adds to a counter.\<close>

fun delta :: "Counter \<Rightarrow> Interlocked \<Rightarrow> int" where
  "delta c (Increment d) = of_bool (d = c)"
| "delta c (Decrement d) = - of_bool (d = c)"
| "delta c (SetLastDecision t) = 0"

definition net :: "Counter \<Rightarrow> Interlocked list \<Rightarrow> int" where
  "net c ops = sum_list (map (delta c) ops)"

lemma net_simps [simp]: "net c [] = 0" "net c (op # ops) = delta c op + net c ops"
  "net c (xs @ ys) = net c xs + net c ys"
  by (simp_all add: net_def)

fun counter :: "Counter \<Rightarrow> SharedState \<Rightarrow> u32" where
  "counter ActiveFlows s = activeFlows s"
| "counter OpenedFlows s = openedFlows s"
| "counter Decisions s = decisions s"
| "counter SuccessfulDecisions s = successfulDecisions s"
| "counter BypassedDecisions s = bypassedDecisions s"
| "counter UnresolvedDecisions s = unresolvedDecisions s"
| "counter (ActiveProfile i) s = activeProfiles s ! i"
| "counter (ProfileDecision i) s = profileDecisions s ! i"

fun counter_exists :: "Counter \<Rightarrow> bool" where
  "counter_exists (ActiveProfile i) = (i < kMaxProfiles)"
| "counter_exists (ProfileDecision i) = (i < kMaxProfiles)"
| "counter_exists c = True"

definition state_ok :: "SharedState \<Rightarrow> bool" where
  "state_ok s \<longleftrightarrow> length (activeProfiles s) = kMaxProfiles \<and> length (profileDecisions s) = kMaxProfiles"

lemma perform_frame [simp]:
  "state_ok (perform op s) = state_ok s" "magic (perform op s) = magic s"
  "version (perform op s) = version s" "state_size (perform op s) = state_size s"
  by (cases op; simp; rename_tac c; case_tac c; simp add: state_ok_def bump_def)+

lemma perform_counter:
  assumes "state_ok s" "counter_exists c"
  shows "counter c (perform op s) = counter c s + of_int (delta c op)"
  using assms
  by (cases op; simp; rename_tac d; case_tac d; case_tac c;
      simp add: state_ok_def bump_def nth_list_update)

text \<open>A gauge goes up and down with the flows that hold it; \<open>holds\<close> is what one flow holds of it.\<close>

fun gauge :: "Counter \<Rightarrow> bool" where
  "gauge ActiveFlows = True"
| "gauge (ActiveProfile i) = (i < kMaxProfiles)"
| "gauge c = False"

fun holds :: "Counter \<Rightarrow> Flow \<Rightarrow> int" where
  "holds ActiveFlows f = of_bool (publisher f = Some True)"
| "holds (ActiveProfile i) f = of_bool (publisher f = Some True \<and> flow_slot f = int i)"
| "holds c f = 0"

text \<open>Along the operations the level stays 0 or 1.\<close>

fun stays :: "Counter \<Rightarrow> int \<Rightarrow> Interlocked list \<Rightarrow> bool" where
  "stays c n [] = (n \<in> {0, 1})"
| "stays c n (op # ops) = (n \<in> {0, 1} \<and> stays c (n + delta c op) ops)"

lemma stays_append: "stays c n (xs @ ys) \<longleftrightarrow> stays c n xs \<and> stays c (n + net c xs) ys"
  by (induction xs arbitrary: n) (auto simp: add.assoc elim: stays.elims)

lemma stays_end: "stays c n xs \<Longrightarrow> n + net c xs \<in> {0, 1}"
  by (induction xs arbitrary: n) (auto simp: add.assoc [symmetric])

lemma validSlot_iff: "validSlot s \<longleftrightarrow> (\<exists>i. s = int i \<and> i < kMaxProfiles)"
  by (auto simp: validSlot_def intro: exI [of _ "nat s"])

lemma finish_gauge:
  assumes "gauge c" "flowFinish f = (ops, f')"
  shows "stays c (holds c f) ops \<and> holds c f + net c ops = 0 \<and> f' = newFlow"
  using assms
  by (cases c) (auto simp: flowFinish_def flowClosed_def validSlot_iff split: option.splits)

lemma call_gauge:
  assumes "gauge c" "flowCall call f = (ops, f')"
  shows "stays c (holds c f) ops \<and> holds c f + net c ops = holds c f'"
proof (cases call)
  case (Begin p)
  obtain ops1 f1 where fin: "flowFinish f = (ops1, f1)" by (cases "flowFinish f")
  note finish = finish_gauge [OF assms(1) fin]
  show ?thesis using assms fin finish Begin
    by (cases c; cases p)
      (auto simp: flowBegin_def flowOpened_def newFlow_def stays_append add.assoc [symmetric])
next
  case (SetProfile name)
  then show ?thesis using assms
    by (cases c) (auto simp: flowSetProfile_def flowProfileChanged_def validSlot_iff Let_def split: option.splits)
next
  case (Decision success bypassed seconds)
  then show ?thesis using assms
    by (cases c) (auto simp: flowDecide_def flowDecision_def split: option.splits if_splits)
next
  case Finish
  then show ?thesis using assms finish_gauge [of c f ops f'] by (cases c) (auto simp: newFlow_def)
qed

lemma calls_gauge:
  "gauge c \<Longrightarrow> flowCalls calls f = (ops, f') \<Longrightarrow>
    stays c (holds c f) ops \<and> holds c f + net c ops = holds c f'"
proof (induction calls arbitrary: f ops)
  case Nil
  then show ?case by (cases c) auto
next
  case (Cons call calls)
  obtain ops1 f1 where 1: "flowCall call f = (ops1, f1)" by (cases "flowCall call f")
  obtain ops2 where 2: "flowCalls calls f1 = (ops2, f')" "ops = ops1 @ ops2"
    using Cons.prems(2) 1 by (auto split: prod.splits)
  show ?case
    using call_gauge [OF Cons.prems(1) 1] Cons.IH [OF Cons.prems(1) 2(1)] 2(2)
    by (auto simp: stays_append add.assoc [symmetric])
qed

lemma flowCalls_append:
  "flowCalls (xs @ ys) f = (let (ops, f1) = flowCalls xs f; (ops', f2) = flowCalls ys f1 in (ops @ ops', f2))"
  by (induction xs arbitrary: f) (auto split: prod.splits)

lemma lifetime_gauge:
  assumes "gauge c"
  shows "stays c 0 (flowLifetime calls) \<and> net c (flowLifetime calls) = 0"
proof -
  obtain ops f where calls: "flowCalls (calls @ [Finish]) newFlow = (ops, f)" by (cases "flowCalls (calls @ [Finish]) newFlow")
  then have "f = newFlow" by (auto simp: flowCalls_append flowFinish_def split: prod.splits)
  moreover have "holds c newFlow = 0" by (cases c) (auto simp: newFlow_def)
  ultimately show ?thesis using calls_gauge [OF assms calls] calls by (simp add: flowLifetime_def)
qed

lemma call_decisions:
  "flowCall call f = (ops, f') \<Longrightarrow> net Decisions ops = net SuccessfulDecisions ops + net UnresolvedDecisions ops"
  by (cases call)
    (auto simp: flowBegin_def flowFinish_def flowClosed_def flowOpened_def flowSetProfile_def
      flowProfileChanged_def flowDecide_def flowDecision_def Let_def split: option.splits if_splits)

lemma calls_decisions:
  "flowCalls calls f = (ops, f') \<Longrightarrow> net Decisions ops = net SuccessfulDecisions ops + net UnresolvedDecisions ops"
  by (induction calls arbitrary: f ops) (auto dest!: call_decisions split: prod.splits)

section \<open>Interleaved threads\<close>

lemma sum_list_update_int: "i < length xs \<Longrightarrow> sum_list (xs[i := (x::int)]) = sum_list xs - xs ! i + x"
  by (induction xs arbitrary: i) (auto split: nat.splits)

definition total_net :: "Counter \<Rightarrow> Threads \<Rightarrow> int" where
  "total_net c us = sum_list (map (net c \<circ> fst) us)"

lemma total_net_step:
  assumes "i < length us" "us ! i = (ops, op # rest)"
  shows "total_net c (us[i := (ops @ [op], rest)]) = total_net c us + delta c op"
  using assms by (simp add: total_net_def map_update sum_list_update_int)

lemma interleave_inv:
  assumes "interleave ts s us t" "state_ok s"
  shows "state_ok t" "magic t = magic s" "version t = version s" "state_size t = state_size s"
    "map (\<lambda>(ops, rest). ops @ rest) us = map (\<lambda>(ops, rest). ops @ rest) ts"
    "counter_exists c \<Longrightarrow> counter c t = counter c s + of_int (total_net c us - total_net c ts)"
  using assms
proof (induction rule: interleave.induct)
  case (interleave_step ts s us t i ops op rest)
  {
    case 5
    have "map (\<lambda>(ops, rest). ops @ rest) (us[i := (ops @ [op], rest)]) = map (\<lambda>(ops, rest). ops @ rest) us"
      using interleave_step.hyps by (simp add: map_update list_update_same_conv)
    then show ?case using interleave_step.IH(5) 5 by simp
  next
    case 6
    then show ?case using interleave_step
      by (simp add: perform_counter total_net_step)
  }
qed auto

lemma finished_net:
  assumes "map (\<lambda>(ops, rest). ops @ rest) us = traces" "\<forall>u \<in> set us. snd u = []"
  shows "total_net c us = sum_list (map (net c) traces)"
proof -
  have "map fst us = traces" using assms by (auto simp: case_prod_beta)
  then show ?thesis unfolding total_net_def by (simp flip: map_map)
qed

lemma sum_list_levels:
  "\<forall>x \<in> set xs. f x \<in> {0, 1 :: int} \<Longrightarrow> sum_list (map f xs) = int (length (filter (\<lambda>x. f x = 1) xs))"
  by (induction xs) auto

lemma word_of_small_int:
  assumes "n < 2 ^ 31"
  shows "unat (nonNegative (of_int (int n))) = n"
proof -
  have "sint (word_of_int (int n) :: u32) = int n"
    using assms by (subst sint_sbintrunc') (simp add: signed_take_bit_int_eq_self)
  then show ?thesis using assms by (simp add: nonNegative_def unat_of_nat)
qed

text \<open>The gauges of any moment: the value read is the number of flows that hold the gauge.\<close>

lemma gauge_read:
  assumes run: "interleave (map (\<lambda>calls. ([], flowLifetime calls)) lifetimes) (publish pid seconds) us t"
    and few: "length lifetimes < 2 ^ 31" and c: "gauge c"
  shows "unat (nonNegative (counter c t)) = length (filter (\<lambda>u. net c (fst u) = 1) us)"
proof -
  let ?ts = "map (\<lambda>calls. ([], flowLifetime calls)) lifetimes"
  have start: "state_ok (publish pid seconds)" by (simp add: state_ok_def publish_def zeroState_def)
  have zero: "counter c (publish pid seconds) = 0" using c
    by (cases c) (auto simp: publish_def zeroState_def)
  have "total_net c ?ts = 0" by (induction lifetimes) (auto simp: total_net_def)
  then have count: "counter c t = of_int (total_net c us)"
    using interleave_inv(6) [OF run start, of c] c zero by (cases c) auto
  have traces: "map (\<lambda>(ops, rest). ops @ rest) us = map flowLifetime lifetimes"
    using interleave_inv(5) [OF run start] by (simp add: o_def)
  have "net c (fst u) \<in> {0, 1}" if "u \<in> set us" for u
  proof -
    have "fst u @ snd u \<in> set (map flowLifetime lifetimes)"
      using that unfolding traces [symmetric] by (force simp: case_prod_beta)
    then obtain calls where "fst u @ snd u = flowLifetime calls" by auto
    then have "stays c 0 (fst u)" using lifetime_gauge [OF c, of calls] stays_append by metis
    then show ?thesis using stays_end by fastforce
  qed
  then have "total_net c us = int (length (filter (\<lambda>u. net c (fst u) = 1) us))"
    unfolding total_net_def o_def by (intro sum_list_levels) blast
  moreover have "length (filter (\<lambda>u. net c (fst u) = 1) us) < 2 ^ 31"
    by (rule order_le_less_trans [OF length_filter_le])
      (use few arg_cong [OF traces, of length] in simp)
  ultimately show ?thesis using word_of_small_int count by simp
qed

lemma readSnapshot_online:
  assumes "interleave (map (\<lambda>calls. ([], flowLifetime calls)) lifetimes) (publish pid seconds) us t"
  shows "magic t = kMagic \<and> version t = kVersion \<and> state_size t = sizeofSharedState"
proof -
  have "state_ok (publish pid seconds)" by (simp add: state_ok_def publish_def zeroState_def)
  then show ?thesis using interleave_inv(2,3,4) [OF assms] by (simp add: publish_def zeroState_def)
qed

lemma snapshot_fields:
  assumes "magic t = kMagic \<and> version t = kVersion \<and> state_size t = sizeofSharedState"
  shows "online (readSnapshot (Some t))"
    "snap_activeFlows (readSnapshot (Some t)) = nonNegative (counter ActiveFlows t)"
    "i < length (snap_profiles (readSnapshot (Some t))) \<Longrightarrow>
      i < kMaxProfiles \<and> snap_active (snap_profiles (readSnapshot (Some t)) ! i) = nonNegative (counter (ActiveProfile i) t)"
    "snap_allDecisions (readSnapshot (Some t)) = counter Decisions t"
    "snap_successful (readSnapshot (Some t)) = counter SuccessfulDecisions t"
    "snap_unresolved (readSnapshot (Some t)) = counter UnresolvedDecisions t"
    "snap_activeFlows (readSnapshot (Some t)) = 0 \<Longrightarrow> snap_pendingFlows (readSnapshot (Some t)) = 0"
  using assms by (auto simp: readSnapshot_def Let_def profileSnapshot_def cumulative_def)

lemma decisions_add_up:
  assumes run: "interleave (map (\<lambda>calls. ([], flowLifetime calls)) lifetimes) (publish pid seconds) us t"
    and "\<forall>u \<in> set us. snd u = []"
  shows "decisions t = successfulDecisions t + unresolvedDecisions t"
proof -
  let ?ts = "map (\<lambda>calls. ([], flowLifetime calls)) lifetimes"
  have start: "state_ok (publish pid seconds)" by (simp add: state_ok_def publish_def zeroState_def)
  have traces: "map (\<lambda>(ops, rest). ops @ rest) us = map flowLifetime lifetimes"
    using interleave_inv(5) [OF run start] by (simp add: o_def)
  have none: "total_net c ?ts = 0" for c by (induction lifetimes) (auto simp: total_net_def)
  have split: "net Decisions (flowLifetime calls) =
      net SuccessfulDecisions (flowLifetime calls) + net UnresolvedDecisions (flowLifetime calls)" for calls
    unfolding flowLifetime_def by (rule calls_decisions [OF surjective_pairing])
  have "total_net Decisions us = total_net SuccessfulDecisions us + total_net UnresolvedDecisions us"
    unfolding finished_net [OF traces assms(2)] by (simp add: o_def split sum_list_addf)
  then show ?thesis
    using interleave_inv(6) [OF run start, of Decisions] interleave_inv(6) [OF run start, of SuccessfulDecisions]
      interleave_inv(6) [OF run start, of UnresolvedDecisions] none
    by (simp add: publish_def zeroState_def)
qed



end
