(* ===== verification/Process_Filter.thy ===== *)
theory Process_Filter
  imports Transparent_Flow
begin

text \<open>
  \<open>src/src/ProcessFilter.hpp\<close> and \<open>ProcessFilter.cpp\<close>: include and exclude rules on the
  image of the process that owns a connection, and the cache of decisions per endpoint. The
  rows of the system's connection tables, the image path of a process and the tick count
  are inputs of the operations.
\<close>

definition kMaximumRules :: nat where "kMaximumRules = 128"
definition kMaximumRuleLength :: nat where "kMaximumRuleLength = 1024"
definition kMaximumCachedEndpoints :: nat where "kMaximumCachedEndpoints = 8192"
definition kTcpCacheTtlMs :: u64 where "kTcpCacheTtlMs = 600000"
definition kUdpCacheTtlMs :: u64 where "kUdpCacheTtlMs = 120000"
definition kUnknownCacheTtlMs :: u64 where "kUnknownCacheTtlMs = 1000"
definition kProcessNameTtlMs :: u64 where "kProcessNameTtlMs = 30000"

section \<open>Rules\<close>

definition isBlank :: "char \<Rightarrow> bool" where
  "isBlank c \<longleftrightarrow> c = CHR '' '' \<or> c = CHR 0x09 \<or> c = CHR 0x0D \<or> c = CHR 0x0A"

definition trim :: "string \<Rightarrow> string" where
  "trim value = rev (dropWhile isBlank (rev (dropWhile isBlank value)))"

definition normalize :: "string \<Rightarrow> string" where
  "normalize value =
     (let v = trim value in
      if length v > kMaximumRuleLength then []
      else map (\<lambda>c. if c = CHR ''/'' then CHR 0x5C else c) (map tolower v))"

fun normalizeLoop :: "string list \<Rightarrow> string list \<Rightarrow> nat \<Rightarrow> string list \<times> nat" where
  "normalizeLoop [] result rejected = (result, rejected)"
| "normalizeLoop (value # values) result rejected =
     (let normalized = normalize value in
      if normalized = [] then
        normalizeLoop values result (if list_all isBlank value then rejected else rejected + 1)
      else if normalized \<in> set result then normalizeLoop values result rejected
      else if length result = kMaximumRules then normalizeLoop values result (rejected + 1)
      else normalizeLoop values (result @ [normalized]) rejected)"

definition normalizeRules :: "string list \<Rightarrow> string list \<times> nat" where
  "normalizeRules values = normalizeLoop values [] 0"

text \<open>
  The loop of \<open>wildcardMatch\<close>. \<open>star\<close> is \<open>starIndex\<close> with \<open>retryTextIndex\<close>, \<open>None\<close> for
  \<open>npos\<close>. It ends: a turn either moves the retry position on, or the position in the text,
  or the one in the pattern.
\<close>

function wildcardLoop :: "string \<Rightarrow> string \<Rightarrow> nat \<Rightarrow> nat \<Rightarrow> (nat \<times> nat) option \<Rightarrow> bool" where
  "wildcardLoop pattern text p t star =
     (if t < length text then
        (if p < length pattern \<and> (pattern ! p = CHR ''?'' \<or> pattern ! p = text ! t)
         then wildcardLoop pattern text (p + 1) (t + 1) star
         else if p < length pattern \<and> pattern ! p = CHR ''*''
         then wildcardLoop pattern text (p + 1) t (Some (p, t))
         else case star of
             Some (s, retry) \<Rightarrow> wildcardLoop pattern text (s + 1) (retry + 1) (Some (s, retry + 1))
           | None \<Rightarrow> False)
      else list_all (\<lambda>c. c = CHR ''*'') (drop p pattern))"
  by pat_completeness auto
termination
  by (relation "measures [
      (\<lambda>(pattern, text, p, t, star). case star of None \<Rightarrow> Suc (length text) | Some (s, retry) \<Rightarrow> length text - min retry t),
      (\<lambda>(pattern, text, p, t, star). length text - t),
      (\<lambda>(pattern, text, p, t, star). length pattern - p)]")
    (auto split: option.split)

declare wildcardLoop.simps [simp del]

definition wildcardMatch :: "string \<Rightarrow> string \<Rightarrow> bool" where
  "wildcardMatch pattern text = wildcardLoop pattern text 0 0 None"

definition matchesAny :: "string list \<Rightarrow> string \<Rightarrow> string \<Rightarrow> bool" where
  "matchesAny patterns fullPath basename =
     list_ex (\<lambda>pattern. wildcardMatch pattern (if CHR 0x5C \<in> set pattern then fullPath else basename)) patterns"

record Rules =
  rejectedIncludes :: nat
  rejectedExcludes :: nat
  includeRules :: "string list"
  excludeRules :: "string list"

definition newRules :: "string list \<Rightarrow> string list \<Rightarrow> Rules" where
  "newRules ins exs = \<lparr>rejectedIncludes = snd (normalizeRules ins), rejectedExcludes = snd (normalizeRules exs),
     includeRules = fst (normalizeRules ins), excludeRules = fst (normalizeRules exs)\<rparr>"

definition includeListInvalid :: "Rules \<Rightarrow> bool" where
  "includeListInvalid r \<longleftrightarrow> includeRules r = [] \<and> rejectedIncludes r \<noteq> 0"

definition rules_enabled :: "Rules \<Rightarrow> bool" where
  "rules_enabled r \<longleftrightarrow> includeRules r \<noteq> [] \<or> excludeRules r \<noteq> [] \<or> includeListInvalid r"

definition baseName :: "string \<Rightarrow> string" where
  "baseName fullPath = rev (takeWhile (\<lambda>c. c \<noteq> CHR 0x5C) (rev fullPath))"

definition allowsImage :: "Rules \<Rightarrow> string \<Rightarrow> bool" where
  "allowsImage r imagePath =
     (if includeListInvalid r then False
      else let fullPath = normalize imagePath in
        if fullPath = [] then False
        else if matchesAny (excludeRules r) fullPath (baseName fullPath) then False
        else includeRules r = [] \<or> matchesAny (includeRules r) fullPath (baseName fullPath))"

section \<open>Owners\<close>

datatype Protocol = Tcp | Udp

record Endpoint =
  ipv6 :: bool
  protocol :: Protocol
  localAddress :: "byte list"
  remoteAddress :: "byte list"
  localPort :: u16
  remotePort :: u16

text \<open>A row of the system's table; ports and addresses in the order of the wire.\<close>

record OwnerRow =
  row_localAddr :: "byte list"
  row_remoteAddr :: "byte list"
  row_localPort :: u16
  row_remotePort :: u16
  owningPid :: u32

definition address_length :: "Endpoint \<Rightarrow> nat" where
  "address_length e = (if ipv6 e then 16 else 4)"

definition zeroAddress :: "byte list \<Rightarrow> nat \<Rightarrow> bool" where
  "zeroAddress address len = list_all (\<lambda>b. b = 0) (take len address)"

definition sameBytes :: "nat \<Rightarrow> byte list \<Rightarrow> byte list \<Rightarrow> bool" where
  "sameBytes n a b \<longleftrightarrow> take n a = take n b"

fun tcpOwner :: "Endpoint \<Rightarrow> OwnerRow list \<Rightarrow> u32 option" where
  "tcpOwner e [] = None"
| "tcpOwner e (row # rows) =
     (if row_localPort row = localPort e \<and> row_remotePort row = remotePort e \<and>
         sameBytes (address_length e) (row_localAddr row) (localAddress e) \<and>
         sameBytes (address_length e) (row_remoteAddr row) (remoteAddress e)
      then Some (owningPid row) else tcpOwner e rows)"

definition selectUdpOwner :: "u32 \<Rightarrow> u32 option \<times> bool \<Rightarrow> u32 option \<times> bool" where
  "selectUdpOwner candidate = (\<lambda>(selected, ambiguous).
     case selected of None \<Rightarrow> (Some candidate, ambiguous)
     | Some s \<Rightarrow> (selected, if s \<noteq> candidate then True else ambiguous))"

fun udpLoop :: "Endpoint \<Rightarrow> OwnerRow list \<Rightarrow> u32 option \<times> bool \<Rightarrow> u32 option \<times> bool" where
  "udpLoop e [] st = st"
| "udpLoop e (row # rows) st =
     (if row_localPort row \<noteq> localPort e then udpLoop e rows st
      else if \<not> zeroAddress (row_localAddr row) (address_length e) \<and>
              \<not> sameBytes (address_length e) (row_localAddr row) (localAddress e) then udpLoop e rows st
      else udpLoop e rows (selectUdpOwner (owningPid row) st))"

definition udpOwner :: "Endpoint \<Rightarrow> OwnerRow list \<Rightarrow> u32 option" where
  "udpOwner e rows = (case udpLoop e rows (None, False) of (selected, ambiguous) \<Rightarrow> if ambiguous then None else selected)"

text \<open>\<open>query\<close> is \<open>OpenProcess\<close>, \<open>QueryFullProcessImageNameW\<close> and the conversion to UTF-8.\<close>

definition processImage :: "(u32 \<Rightarrow> string option) \<Rightarrow> u32 \<Rightarrow> string" where
  "processImage query processId =
     (if processId = 0 then []
      else if processId = 4 then ''system''
      else case query processId of None \<Rightarrow> [] | Some path \<Rightarrow> normalize path)"

section \<open>The cache\<close>

text \<open>
  \<open>operator==\<close> on endpoints compares the addresses up to the length of their family. The
  table is keyed by what it compares, and the hash is over the same bytes.
\<close>

type_synonym EndpointKey = "bool \<times> Protocol \<times> u16 \<times> u16 \<times> byte list \<times> byte list"

definition endpointKey :: "Endpoint \<Rightarrow> EndpointKey" where
  "endpointKey e = (ipv6 e, protocol e, localPort e, remotePort e,
     take (address_length e) (localAddress e), take (address_length e) (remoteAddress e))"

definition endpoint_eq :: "Endpoint \<Rightarrow> Endpoint \<Rightarrow> bool" where
  "endpoint_eq l r =
     (if ipv6 l \<noteq> ipv6 r \<or> protocol l \<noteq> protocol r \<or> localPort l \<noteq> localPort r \<or> remotePort l \<noteq> remotePort r then False
      else sameBytes (address_length l) (localAddress l) (localAddress r) \<and>
           sameBytes (address_length l) (remoteAddress l) (remoteAddress r))"

definition EndpointHash :: "Endpoint \<Rightarrow> u64" where
  "EndpointHash e = foldl hash_add 1469598103934665603
     ([if ipv6 e then 1 else 0, case protocol e of Tcp \<Rightarrow> 6 | Udp \<Rightarrow> 17] @
      take (address_length e) (localAddress e) @ take (address_length e) (remoteAddress e) @
      [hi8 (localPort e), lo8 (localPort e), hi8 (remotePort e), lo8 (remotePort e)])"

record CachedDecision =
  intercept :: bool
  decision_expiresAtMs :: u64
  resolved :: bool

record ProcessName =
  image :: string
  name_expiresAtMs :: u64

record Filter =
  rules :: Rules
  filter_nextSweepMs :: u64
  endpoints :: "(EndpointKey, CachedDecision) table"
  processNames :: "(u32, ProcessName) table"

definition newFilter :: "Rules \<Rightarrow> Filter" where
  "newFilter r = \<lparr>rules = r, filter_nextSweepMs = 0, endpoints = [], processNames = []\<rparr>"

definition roomForName :: "u64 \<Rightarrow> (u32, ProcessName) table \<Rightarrow> (u32, ProcessName) table" where
  "roomForName now t =
     (if length t \<ge> kMaximumCachedEndpoints then
        let t1 = erase_if (\<lambda>item. name_expiresAtMs (snd item) \<le> now) t
        in if length t1 \<ge> kMaximumCachedEndpoints then tl t1 else t1
      else t)"

definition cachedProcessImage :: "(u32 \<Rightarrow> string option) \<Rightarrow> u32 \<Rightarrow> u64 \<Rightarrow> Filter \<Rightarrow> string \<times> Filter" where
  "cachedProcessImage query processId now f =
     (let cached = map_of (processNames f) processId in
      if (case cached of Some n \<Rightarrow> name_expiresAtMs n > now | None \<Rightarrow> False)
      then (image (the cached), f)
      else let img = processImage query processId in
        (img, f\<lparr>processNames := AList.update processId \<lparr>image = img, name_expiresAtMs = now + kProcessNameTtlMs\<rparr>
           (roomForName now (processNames f))\<rparr>))"

text \<open>
  \<open>std::nth_element\<close> moves the entries that come first in the given order to the front:
  bypassed before intercepted, then the earliest expiry. Ties may be broken in any way.
\<close>

definition evictEndpoints :: "(EndpointKey, CachedDecision) table \<Rightarrow> (EndpointKey, CachedDecision) table" where
  "evictEndpoints t =
     (let candidates = sort_key (\<lambda>item. unat (decision_expiresAtMs (snd item)) + (if intercept (snd item) then 2 ^ 64 else 0)) t;
          victims = take (max 1 (length t div 16)) candidates
      in erase_if (\<lambda>item. fst item \<in> set (map fst victims)) t)"

definition filter_makeRoom :: "u64 \<Rightarrow> Filter \<Rightarrow> Filter" where
  "filter_makeRoom now f =
     (if now \<ge> filter_nextSweepMs f then
        let f1 = f\<lparr>filter_nextSweepMs := now + 1000,
              endpoints := erase_if (\<lambda>item. decision_expiresAtMs (snd item) \<le> now) (endpoints f)\<rparr>
        in if length (endpoints f1) < kMaximumCachedEndpoints then f1
           else f1\<lparr>endpoints := evictEndpoints (endpoints f1)\<rparr>
      else f\<lparr>endpoints := evictEndpoints (endpoints f)\<rparr>)"

text \<open>
  What a call finds in the system: the connection tables, absent when they cannot be
  fetched, and the image paths. The source gives up its lock during the lookup; a call is
  one step here.
\<close>

record System =
  tcpTable :: "OwnerRow list option"
  udpTable :: "OwnerRow list option"
  imageOf :: "u32 \<Rightarrow> string option"
  tickCount :: u64

definition ownerOf :: "System \<Rightarrow> Endpoint \<Rightarrow> u32 option" where
  "ownerOf sys e =
     (case protocol e of
        Tcp \<Rightarrow> (case tcpTable sys of None \<Rightarrow> None | Some rows \<Rightarrow> tcpOwner e rows)
      | Udp \<Rightarrow> (case udpTable sys of None \<Rightarrow> None | Some rows \<Rightarrow> udpOwner e rows))"

definition liveTtl :: "Endpoint \<Rightarrow> u64" where
  "liveTtl e = (case protocol e of Tcp \<Rightarrow> kTcpCacheTtlMs | Udp \<Rightarrow> kUdpCacheTtlMs)"

definition shouldIntercept ::
  "System \<Rightarrow> Endpoint \<Rightarrow> bool \<Rightarrow> bool \<Rightarrow> u64 \<Rightarrow> Filter \<Rightarrow> bool \<times> Filter" where
  "shouldIntercept sys e outbound newTcpFlow nowMs f =
     (if \<not> rules_enabled (rules f) then (True, f)
      else if localPort e = 0 \<or> remotePort e = 0 then (False, f)
      else let now = (if nowMs = 0 then tickCount sys else nowMs); key = endpointKey e;
               cached = map_of (endpoints f) key in
        if (case cached of Some d \<Rightarrow> decision_expiresAtMs d > now | None \<Rightarrow> False)
        then let d = the cached in
          (intercept d,
           if resolved d then f\<lparr>endpoints := AList.update key
             (d\<lparr>decision_expiresAtMs := max (decision_expiresAtMs d) (now + liveTtl e)\<rparr>) (endpoints f)\<rparr> else f)
        else if \<not> outbound \<or> (protocol e = Tcp \<and> \<not> newTcpFlow) then (False, f)
        else let (img, f1) = (case ownerOf sys e of Some pid \<Rightarrow> cachedProcessImage (imageOf sys) pid now f
                              | None \<Rightarrow> ([], f));
                 verdict = (img \<noteq> [] \<and> allowsImage (rules f1) img);
                 ttl = (if img = [] then kUnknownCacheTtlMs else liveTtl e);
                 f2 = (if length (endpoints f1) \<ge> kMaximumCachedEndpoints \<and> map_of (endpoints f1) key = None
                       then filter_makeRoom now f1 else f1)
          in (verdict, f2\<lparr>endpoints := AList.update key
               \<lparr>intercept = verdict, decision_expiresAtMs = now + ttl, resolved = img \<noteq> []\<rparr> (endpoints f2)\<rparr>))"

definition filter_forget :: "Endpoint \<Rightarrow> Filter \<Rightarrow> Filter" where
  "filter_forget e f = f\<lparr>endpoints := AList.delete (endpointKey e) (endpoints f)\<rparr>"

definition filter_clear :: "Filter \<Rightarrow> Filter" where
  "filter_clear f = f\<lparr>endpoints := [], processNames := []\<rparr>"

section \<open>Wildcards\<close>

text \<open>The meaning of a pattern: \<open>?\<close> is any character, \<open>*\<close> any sequence of characters.\<close>

fun glob :: "string \<Rightarrow> string \<Rightarrow> bool" where
  "glob [] str = (str = [])"
| "glob (c # pattern) str =
     (if c = CHR ''*'' then glob pattern str \<or> (case str of [] \<Rightarrow> False | _ # rest \<Rightarrow> glob (c # pattern) rest)
      else case str of [] \<Rightarrow> False | t # rest \<Rightarrow> (c = CHR ''?'' \<or> c = t) \<and> glob pattern rest)"

lemma glob_empty: "glob pattern [] \<longleftrightarrow> list_all (\<lambda>c. c = CHR ''*'') pattern"
  by (induction pattern) auto

lemma glob_star: "glob (CHR ''*'' # pattern) str \<longleftrightarrow> (\<exists>k \<le> length str. glob pattern (drop k str))"
proof (induction str)
  case (Cons t str)
  have "(\<exists>k \<le> length (t # str). glob pattern (drop k (t # str))) \<longleftrightarrow>
      glob pattern (t # str) \<or> (\<exists>k \<le> length str. glob pattern (drop k str))"
    by (metis (no_types, lifting) drop_Suc_Cons length_Cons not_less_eq_eq old.nat.exhaust drop_0 zero_le)
  then show ?case using Cons by simp
qed simp

text \<open>A part of a pattern without stars matches exactly its own length.\<close>

lemma glob_fixed:
  "CHR ''*'' \<notin> set fixed \<Longrightarrow> glob (fixed @ rest) str \<Longrightarrow>
    length fixed \<le> length str \<and> glob rest (drop (length fixed) str)"
proof (induction fixed arbitrary: str)
  case (Cons c fixed)
  then show ?case by (cases str) auto
qed simp

text \<open>
  The state of the loop: since the last star, pattern and text have advanced together, over
  a part of the pattern without stars.
\<close>

definition since_star :: "string \<Rightarrow> nat \<Rightarrow> nat \<Rightarrow> (nat \<times> nat) option \<Rightarrow> bool" where
  "since_star pattern p t star \<longleftrightarrow> (case star of None \<Rightarrow> True
     | Some (s, retry) \<Rightarrow> s < p \<and> p \<le> length pattern \<and> p + retry = s + 1 + t \<and>
         CHR ''*'' \<notin> set (take (p - (s + 1)) (drop (s + 1) pattern)))"

definition later_match :: "string \<Rightarrow> string \<Rightarrow> (nat \<times> nat) option \<Rightarrow> bool" where
  "later_match pattern str star \<longleftrightarrow> (case star of None \<Rightarrow> False
     | Some (s, retry) \<Rightarrow> \<exists>k. retry < k \<and> k \<le> length str \<and> glob (drop (s + 1) pattern) (drop k str))"

lemma later_fixed:
  assumes "since_star pattern p t star" "later_match pattern str star" "t \<le> length str"
  shows "\<exists>j. t < j \<and> j \<le> length str \<and> glob (drop p pattern) (drop j str)"
proof -
  obtain s retry k where s: "star = Some (s, retry)" "s < p" "p \<le> length pattern" "p + retry = s + 1 + t"
    "CHR ''*'' \<notin> set (take (p - (s + 1)) (drop (s + 1) pattern))"
    and k: "retry < k" "k \<le> length str" "glob (drop (s + 1) pattern) (drop k str)"
    using assms by (auto simp: since_star_def later_match_def split: option.splits)
  let ?fixed = "take (p - (s + 1)) (drop (s + 1) pattern)"
  have "drop (s + 1) pattern = ?fixed @ drop p pattern"
    using append_take_drop_id [of "p - (s + 1)" "drop (s + 1) pattern"] s(2) by simp
  then have g: "glob (?fixed @ drop p pattern) (drop k str)" using k(3) by simp
  have "length ?fixed = p - (s + 1)" using s(3) by simp
  then show ?thesis
    using glob_fixed [OF s(5) g] k s(2,4) by (intro exI [of _ "k + (p - (s + 1))"]) (auto simp: add.commute)
qed

lemma since_star_match:
  assumes "since_star pattern p t star" "p < length pattern" "pattern ! p \<noteq> CHR ''*''"
  shows "since_star pattern (p + 1) (t + 1) star"
proof -
  have "take (p - s) (drop (Suc s) pattern) = take (p - Suc s) (drop (Suc s) pattern) @ [pattern ! p]" if "s < p" for s
  proof -
    have "p - s = Suc (p - Suc s)" "p - Suc s < length (drop (Suc s) pattern)" using that assms(2) by auto
    then show ?thesis using that by (simp add: take_Suc_conv_app_nth)
  qed
  then show ?thesis using assms by (auto simp: since_star_def split: option.splits)
qed

text \<open>At a star the older alternatives are covered by the new one, so forgetting them loses nothing.\<close>

lemma star_covers:
  assumes dp: "drop p pattern = CHR ''*'' # drop (p + 1) pattern" and inv: "since_star pattern p t star" "t \<le> length str"
  shows "glob (drop p pattern) (drop t str) \<or> later_match pattern str star \<longleftrightarrow>
    glob (drop (p + 1) pattern) (drop t str) \<or> later_match pattern str (Some (p, t))"
proof -
  have star: "glob (drop p pattern) (drop j str) \<longleftrightarrow> (\<exists>k. j \<le> k \<and> k \<le> length str \<and> glob (drop (p + 1) pattern) (drop k str))"
    if "j \<le> length str" for j
  proof
    assume "glob (drop p pattern) (drop j str)"
    then obtain k where "k \<le> length (drop j str)" "glob (drop (p + 1) pattern) (drop k (drop j str))"
      unfolding dp glob_star by blast
    then show "\<exists>k. j \<le> k \<and> k \<le> length str \<and> glob (drop (p + 1) pattern) (drop k str)"
      using that by (intro exI [of _ "k + j"]) auto
  next
    assume "\<exists>k. j \<le> k \<and> k \<le> length str \<and> glob (drop (p + 1) pattern) (drop k str)"
    then obtain k where "j \<le> k" "k \<le> length str" "glob (drop (p + 1) pattern) (drop k str)" by blast
    then show "glob (drop p pattern) (drop j str)"
      unfolding dp glob_star by (intro exI [of _ "k - j"]) auto
  qed
  have "later_match pattern str star \<Longrightarrow> glob (drop p pattern) (drop t str)"
    using later_fixed [OF inv(1) _ inv(2)] star star [OF inv(2)] by (meson less_or_eq_imp_le order_trans)
  moreover have "glob (drop p pattern) (drop t str) \<longleftrightarrow>
      glob (drop (p + 1) pattern) (drop t str) \<or> later_match pattern str (Some (p, t))"
    using inv(2) unfolding star [OF inv(2)] later_match_def by (auto simp: le_less)
  ultimately show ?thesis by blast
qed

lemma retry_next:
  assumes "retry < length str"
  shows "later_match pattern str (Some (s, retry)) \<longleftrightarrow>
    glob (drop (s + 1) pattern) (drop (retry + 1) str) \<or> later_match pattern str (Some (s, retry + 1))"
  using assms unfolding later_match_def by (auto simp: Suc_le_eq) (metis Suc_lessI, meson Suc_lessD)

lemma wildcardLoop_correct:
  "CHR ''*'' \<notin> set str \<Longrightarrow> since_star pattern p t star \<Longrightarrow> t \<le> length str \<Longrightarrow> p \<le> length pattern \<Longrightarrow>
   wildcardLoop pattern str p t star \<longleftrightarrow> glob (drop p pattern) (drop t str) \<or> later_match pattern str star"
proof (induction pattern str p t star rule: wildcardLoop.induct)
  case (1 pattern str p t star)
  note inv = "1.prems"
  show ?case
  proof (cases "t < length str")
    case False
    then have "\<not> later_match pattern str star" using later_fixed [OF inv(2) _ inv(3)] by fastforce
    then show ?thesis using False by (subst wildcardLoop.simps) (simp add: glob_empty)
  next
    case t: True
    have dt: "drop t str = str ! t # drop (t + 1) str" using t by (simp add: Cons_nth_drop_Suc)
    have dp: "drop p pattern = pattern ! p # drop (p + 1) pattern" if "p < length pattern" using that by (simp add: Cons_nth_drop_Suc)
    have nostar: "str ! t \<noteq> CHR ''*''" using inv(1) t nth_mem by metis
    consider (match) "p < length pattern" "pattern ! p = CHR ''?'' \<or> pattern ! p = str ! t"
      | (star) "p < length pattern" "pattern ! p = CHR ''*''"
      | (fail) "p < length pattern \<Longrightarrow> pattern ! p \<noteq> CHR ''*'' \<and> pattern ! p \<noteq> CHR ''?'' \<and> pattern ! p \<noteq> str ! t"
      by blast
    then show ?thesis
    proof cases
      case match
      have c: "pattern ! p \<noteq> CHR ''*''" using match nostar by auto
      show ?thesis
        using "1.IH"(1) [OF t _ inv(1) since_star_match [OF inv(2) match(1) c]] match t dp dt c
        by (subst wildcardLoop.simps) auto
    next
      case star
      have n: "\<not> (p < length pattern \<and> (pattern ! p = CHR ''?'' \<or> pattern ! p = str ! t))" using star nostar by auto
      have s: "since_star pattern (p + 1) t (Some (p, t))" using star by (simp add: since_star_def)
      show ?thesis
        using "1.IH"(2) [OF t n _ inv(1) s] star_covers [OF _ inv(2,3)] dp star t n by (subst wildcardLoop.simps) auto
    next
      case fail
      have g: "\<not> glob (drop p pattern) (drop t str)"
        by (cases "p < length pattern") (use fail dp dt in auto)
      have n: "\<not> (p < length pattern \<and> (pattern ! p = CHR ''?'' \<or> pattern ! p = str ! t))"
        "\<not> (p < length pattern \<and> pattern ! p = CHR ''*'')" using fail by auto
      show ?thesis
      proof (cases star)
        case None
        then show ?thesis using g n t by (subst wildcardLoop.simps) (auto simp: later_match_def)
      next
        case (Some sr)
        obtain s retry where sr: "sr = (s, retry)" by fastforce
        have b: "s < p" "p + retry = s + 1 + t" using inv(2) Some sr by (auto simp: since_star_def)
        have s: "since_star pattern (s + 1) (retry + 1) (Some (s, retry + 1))"
          using b inv(4) by (simp add: since_star_def)
        show ?thesis
          using "1.IH"(3) [OF t n Some sr [symmetric] inv(1) s] retry_next [of retry str pattern s] g n t b inv(4) Some sr
          by (subst wildcardLoop.simps) auto
      qed
    qed
  qed
qed

text \<open>
  \<open>wildcardMatch\<close>, which backtracks to the last star only, decides exactly whether the
  pattern describes the text, for every text without an asterisk (no Windows path has one):
  \<open>?\<close> stands for one character and \<open>*\<close> for any number of them.
\<close>

lemma wildcardMatch_glob:
  "CHR ''*'' \<notin> set str \<Longrightarrow> wildcardMatch pattern str \<longleftrightarrow> glob pattern str"
  using wildcardLoop_correct [of str pattern 0 0 None]
  by (simp add: wildcardMatch_def since_star_def later_match_def)

lemma wildcardMatch_glob_example:
  "wildcardMatch ''*chrome*.e?e'' ''google chrome.exe'' \<and> \<not> wildcardMatch ''*chrome*.e?e'' ''firefox.exe''"
proof -
  have "glob ''*chrome*.e?e'' ''google chrome.exe''" "\<not> glob ''*chrome*.e?e'' ''firefox.exe''" by code_simp+
  then show ?thesis
    using wildcardMatch_glob [of "''google chrome.exe''" "''*chrome*.e?e''"] wildcardMatch_glob [of "''firefox.exe''" "''*chrome*.e?e''"]
    by simp
qed

text \<open>
  An asterisk in the text is compared before the star of the pattern is noticed, so the
  pattern that matches everything refuses a text that begins with one.
\<close>

lemma wildcardMatch_asterisk: "glob ''*'' ''*.exe'' \<and> \<not> wildcardMatch ''*'' ''*.exe''"
  by code_simp

section \<open>Decisions follow the rules\<close>

lemma endpointKey_eq: "endpointKey l = endpointKey r \<longleftrightarrow> endpoint_eq l r"
  by (auto simp: endpointKey_def endpoint_eq_def sameBytes_def address_length_def)

lemma endpoint_hash_eq: "endpoint_eq l r \<Longrightarrow> EndpointHash l = EndpointHash r"
  by (auto simp: endpoint_eq_def EndpointHash_def sameBytes_def address_length_def split: if_splits)

datatype filter_op =
    Ask System Endpoint bool bool u64
  | Forget Endpoint
  | ClearFilter

fun filter_step :: "filter_op \<Rightarrow> Filter \<Rightarrow> Filter" where
  "filter_step (Ask sys e outbound fresh now) f = snd (shouldIntercept sys e outbound fresh now f)"
| "filter_step (Forget e) f = filter_forget e f"
| "filter_step ClearFilter f = filter_clear f"

text \<open>
  Images the system has named for a process in the calls so far (latest first), and whether
  some call identified the owner of the endpoint by an image that the rules allow.
\<close>

fun named :: "filter_op list \<Rightarrow> u32 \<Rightarrow> string \<Rightarrow> bool" where
  "named [] pid img \<longleftrightarrow> False"
| "named (Ask sys e outbound fresh now # ops) pid img \<longleftrightarrow> processImage (imageOf sys) pid = img \<or> named ops pid img"
| "named (_ # ops) pid img \<longleftrightarrow> named ops pid img"

fun identified :: "Rules \<Rightarrow> filter_op list \<Rightarrow> EndpointKey \<Rightarrow> bool" where
  "identified r [] key \<longleftrightarrow> False"
| "identified r (Ask sys e outbound fresh now # ops) key \<longleftrightarrow>
     endpointKey e = key \<and> outbound \<and> (protocol e = Tcp \<longrightarrow> fresh) \<and>
       (\<exists>pid img. ownerOf sys e = Some pid \<and> named (Ask sys e outbound fresh now # ops) pid img \<and> img \<noteq> [] \<and> allowsImage r img)
     \<or> identified r ops key"
| "identified r (Forget e # ops) key \<longleftrightarrow> endpointKey e \<noteq> key \<and> identified r ops key"
| "identified r (ClearFilter # ops) key \<longleftrightarrow> False"

definition filter_hist_step :: "filter_op \<Rightarrow> Filter \<times> filter_op list \<Rightarrow> Filter \<times> filter_op list" where
  "filter_hist_step op = (\<lambda>(f, ops). (filter_step op f, op # ops))"

definition filter_reorder :: "Filter \<times> filter_op list \<Rightarrow> Filter \<times> filter_op list \<Rightarrow> bool" where
  "filter_reorder = (\<lambda>(f, ops) (f', ops'). ops' = ops \<and> mset (endpoints f') = mset (endpoints f) \<and>
     mset (processNames f') = mset (processNames f) \<and>
     rules f' = rules f \<and> filter_nextSweepMs f' = filter_nextSweepMs f)"

definition filter_inv :: "Rules \<Rightarrow> Filter \<times> filter_op list \<Rightarrow> bool" where
  "filter_inv r = (\<lambda>(f, ops). rules f = r \<and> table_ok kMaximumCachedEndpoints (\<lambda>_. True) (endpoints f) \<and>
     table_ok kMaximumCachedEndpoints (\<lambda>_. True) (processNames f) \<and>
     (\<forall>pid n. map_of (processNames f) pid = Some n \<longrightarrow> named ops pid (image n)) \<and>
     (\<forall>key d. map_of (endpoints f) key = Some d \<longrightarrow> intercept d \<longrightarrow> identified r ops key))"

lemma named_mono: "named ops pid img \<Longrightarrow> named (op # ops) pid img"
  by (cases op) auto

lemma evictEndpoints_subset: "set (evictEndpoints t) \<subseteq> set t"
  by (auto simp: evictEndpoints_def Let_def)

lemma evictEndpoints_shrinks: "t \<noteq> [] \<Longrightarrow> length (evictEndpoints t) < length t"
proof -
  assume t: "t \<noteq> []"
  define f where "f = (\<lambda>item :: EndpointKey \<times> CachedDecision.
    unat (decision_expiresAtMs (snd item)) + (if intercept (snd item) then 2 ^ 64 else 0))"
  have "set (sort_key f t) = set t" "length (sort_key f t) = length t" by simp_all
  then obtain v vs where s: "sort_key f t = v # vs" "v \<in> set t" using t by (cases "sort_key f t") auto
  have "fst v \<in> set (map fst (take (max 1 (length t div 16)) (sort_key f t)))"
    unfolding s(1) by (cases "max 1 (length t div 16)") auto
  then show ?thesis using s(2) unfolding evictEndpoints_def Let_def erase_if_def f_def
    by (intro length_filter_less [of v]) auto
qed

lemma table_subset_ok:
  "table_ok cap P t \<Longrightarrow> set t' \<subseteq> set t \<Longrightarrow> distinct (keys t') \<Longrightarrow> length t' \<le> length t \<Longrightarrow> table_ok cap P t'"
  by (auto simp: table_ok_def)

lemma evictEndpoints_ok: "table_ok cap P t \<Longrightarrow> table_ok cap P (evictEndpoints t)"
  by (simp add: evictEndpoints_def Let_def)

lemma filter_makeRoom_props:
  assumes "table_ok kMaximumCachedEndpoints P (endpoints f)"
  shows "table_ok kMaximumCachedEndpoints P (endpoints (filter_makeRoom now f)) \<and>
    length (endpoints (filter_makeRoom now f)) < kMaximumCachedEndpoints \<and>
    set (endpoints (filter_makeRoom now f)) \<subseteq> set (endpoints f) \<and>
    rules (filter_makeRoom now f) = rules f \<and> processNames (filter_makeRoom now f) = processNames f"
proof -
  have frees: "length (evictEndpoints t) < kMaximumCachedEndpoints" if "table_ok kMaximumCachedEndpoints P t" for t
    using that evictEndpoints_shrinks [of t]
    by (cases "t = []") (auto simp: table_ok_def evictEndpoints_def kMaximumCachedEndpoints_def erase_if_def)
  define t1 where "t1 = erase_if (\<lambda>item. decision_expiresAtMs (snd item) \<le> now) (endpoints f)"
  have t1: "table_ok kMaximumCachedEndpoints P t1" "set t1 \<subseteq> set (endpoints f)"
    using assms by (auto simp: t1_def)
  show ?thesis
    using assms t1 frees [OF assms] frees [OF t1(1)] evictEndpoints_subset [of t1] evictEndpoints_subset [of "endpoints f"]
      evictEndpoints_ok [OF assms] evictEndpoints_ok [OF t1(1)]
    unfolding filter_makeRoom_def t1_def [symmetric] Let_def by auto
qed

lemma roomForName_ok:
  "table_ok kMaximumCachedEndpoints (\<lambda>_. True) t \<Longrightarrow>
    table_ok kMaximumCachedEndpoints (\<lambda>_. True) (AList.update k v (roomForName now t)) \<and> set (roomForName now t) \<subseteq> set t"
proof -
  assume t: "table_ok kMaximumCachedEndpoints (\<lambda>_. True) t"
  let ?e = "erase_if (\<lambda>item. name_expiresAtMs (snd item) \<le> now) t"
  have e: "table_ok kMaximumCachedEndpoints (\<lambda>_. True) ?e" using t by simp
  have "table_ok kMaximumCachedEndpoints (\<lambda>_. True) (roomForName now t) \<and>
      length (roomForName now t) < kMaximumCachedEndpoints \<and> set (roomForName now t) \<subseteq> set t"
  proof (cases "length t \<ge> kMaximumCachedEndpoints \<and> length ?e \<ge> kMaximumCachedEndpoints")
    case True
    then have "?e \<noteq> []" by (auto simp: kMaximumCachedEndpoints_def)
    then obtain x xs where x: "?e = x # xs" by (cases ?e) auto
    have "set xs \<subseteq> set t" by (metis (no_types, lifting) x set_subset_Cons set_erase_if mem_Collect_eq subset_iff)
    then show ?thesis using True e by (simp add: roomForName_def Let_def x table_ok_def)
  next
    case False
    then show ?thesis using t e by (auto simp: roomForName_def Let_def)
  qed
  then show ?thesis by (auto intro!: table_ok_update)
qed

lemma cachedProcessImage_props:
  assumes names: "table_ok kMaximumCachedEndpoints (\<lambda>_. True) (processNames f)"
    "\<And>p n. map_of (processNames f) p = Some n \<Longrightarrow> named ops p (image n)"
    and op: "op = Ask sys e outbound fresh now'"
    and r: "cachedProcessImage (imageOf sys) pid now f = (img, f1)"
  shows "named (op # ops) pid img" "rules f1 = rules f" "endpoints f1 = endpoints f"
    "table_ok kMaximumCachedEndpoints (\<lambda>_. True) (processNames f1)"
    "\<And>p n. map_of (processNames f1) p = Some n \<Longrightarrow> named (op # ops) p (image n)"
proof -
  define fresh_lookup where "fresh_lookup \<longleftrightarrow>
    \<not> (case map_of (processNames f) pid of Some n \<Rightarrow> name_expiresAtMs n > now | None \<Rightarrow> False)"
  let ?v = "\<lparr>image = processImage (imageOf sys) pid, name_expiresAtMs = now + kProcessNameTtlMs\<rparr>"
  let ?t = "AList.update pid ?v (roomForName now (processNames f))"
  have cases: "(img, f1) = (if fresh_lookup then (processImage (imageOf sys) pid, f\<lparr>processNames := ?t\<rparr>)
      else (image (the (map_of (processNames f) pid)), f))"
    using r by (auto simp: cachedProcessImage_def Let_def fresh_lookup_def)
  have old: "map_of (processNames f) p = Some n \<Longrightarrow> named (op # ops) p (image n)" for p n
    using names(2) named_mono by blast
  have new: "map_of ?t p = Some n \<Longrightarrow> named (op # ops) p (image n)" for p n
    using map_of_subset [OF _ roomForName_ok [OF names(1), THEN conjunct2]] names(1) old op
    by (auto simp: table_ok_def split: if_splits)
  show "named (op # ops) pid img"
  proof (cases fresh_lookup)
    case False
    then obtain n where "map_of (processNames f) pid = Some n" by (auto simp: fresh_lookup_def split: option.splits)
    then show ?thesis using old cases False by simp
  qed (use cases op in simp)
  show "rules f1 = rules f" "endpoints f1 = endpoints f" using cases by (auto split: if_splits)
  show "table_ok kMaximumCachedEndpoints (\<lambda>_. True) (processNames f1)"
    using cases names(1) roomForName_ok [OF names(1)] by (auto split: if_splits)
  show "\<And>p n. map_of (processNames f1) p = Some n \<Longrightarrow> named (op # ops) p (image n)"
    using cases old new by (auto split: if_splits)
qed

text \<open>Putting a decision in the cache, after making room when it is full.\<close>

lemma insert_decision:
  assumes t: "table_ok kMaximumCachedEndpoints (\<lambda>_. True) (endpoints f1)"
    and old: "\<And>k d. map_of (endpoints f1) k = Some d \<Longrightarrow> intercept d \<Longrightarrow> Q k" and new: "intercept v \<Longrightarrow> Q key"
    and f2: "f2 = (if length (endpoints f1) \<ge> kMaximumCachedEndpoints \<and> map_of (endpoints f1) key = None
      then filter_makeRoom now f1 else f1)"
  shows "table_ok kMaximumCachedEndpoints (\<lambda>_. True) (AList.update key v (endpoints f2))"
    "\<And>k d. map_of (AList.update key v (endpoints f2)) k = Some d \<Longrightarrow> intercept d \<Longrightarrow> Q k"
    "rules f2 = rules f1" "processNames f2 = processNames f1"
proof -
  note room = filter_makeRoom_props [OF t, of now]
  show "rules f2 = rules f1" "processNames f2 = processNames f1" using room f2 by auto
  show "table_ok kMaximumCachedEndpoints (\<lambda>_. True) (AList.update key v (endpoints f2))"
    using room f2 t by (auto intro!: table_ok_update)
  have sub: "map_of (endpoints f2) k = Some d \<Longrightarrow> map_of (endpoints f1) k = Some d" for k d
  proof (rule map_of_subset)
    show "distinct (keys (endpoints f1))" using t by (simp add: table_ok_def)
    show "set (endpoints f2) \<subseteq> set (endpoints f1)" using room f2 by (simp split: if_splits)
  qed
  show "Q k" if "map_of (AList.update key v (endpoints f2)) k = Some d" "intercept d" for k d
    using that old [OF sub] new by (cases "k = key") simp_all
qed

lemma shouldIntercept_inv:
  assumes inv: "filter_inv r (f, ops)" and en: "rules_enabled r"
    and s: "shouldIntercept sys e outbound fresh nowMs f = (verdict, f')"
  shows "filter_inv r (f', Ask sys e outbound fresh nowMs # ops) \<and>
    (verdict \<longrightarrow> identified r (Ask sys e outbound fresh nowMs # ops) (endpointKey e))"
proof -
  define op where "op = Ask sys e outbound fresh nowMs"
  define now where "now = (if nowMs = 0 then tickCount sys else nowMs)"
  let ?key = "endpointKey e" and ?c = "map_of (endpoints f) (endpointKey e)"
  have f: "rules f = r" "table_ok kMaximumCachedEndpoints (\<lambda>_. True) (endpoints f)"
    "table_ok kMaximumCachedEndpoints (\<lambda>_. True) (processNames f)"
    and nm: "\<And>p n. map_of (processNames f) p = Some n \<Longrightarrow> named ops p (image n)"
    and ep: "\<And>k d. map_of (endpoints f) k = Some d \<Longrightarrow> intercept d \<Longrightarrow> identified r (op # ops) k"
    using inv by (auto simp: filter_inv_def op_def)
  have keep: "filter_inv r (f, op # ops)" using f nm ep named_mono by (auto simp: filter_inv_def)
  consider (ports) "localPort e = 0 \<or> remotePort e = 0"
    | (hit) d where "\<not> (localPort e = 0 \<or> remotePort e = 0)" "?c = Some d" "decision_expiresAtMs d > now"
    | (bypass) "\<not> (localPort e = 0 \<or> remotePort e = 0)" "\<And>d. ?c = Some d \<Longrightarrow> \<not> decision_expiresAtMs d > now"
        "\<not> outbound \<or> (protocol e = Tcp \<and> \<not> fresh)"
    | (look) "\<not> (localPort e = 0 \<or> remotePort e = 0)" "\<And>d. ?c = Some d \<Longrightarrow> \<not> decision_expiresAtMs d > now"
        "\<not> (\<not> outbound \<or> (protocol e = Tcp \<and> \<not> fresh))"
    by (cases ?c) blast+
  then have "filter_inv r (f', op # ops) \<and> (verdict \<longrightarrow> identified r (op # ops) ?key)"
  proof cases
    case ports
    then show ?thesis using s en f(1) keep by (simp add: shouldIntercept_def)
  next
    case hit
    let ?d = "d\<lparr>decision_expiresAtMs := max (decision_expiresAtMs d) (now + liveTtl e)\<rparr>"
    have r': "verdict = intercept d" "f' = (if resolved d then f\<lparr>endpoints := AList.update ?key ?d (endpoints f)\<rparr> else f)"
      using s en f(1) hit by (auto simp: shouldIntercept_def Let_def now_def [symmetric])
    have "table_ok kMaximumCachedEndpoints (\<lambda>_. True) (AList.update ?key ?d (endpoints f))"
      using f(2) hit(2) by (intro table_ok_update) auto
    then have "filter_inv r (f', op # ops)"
      using keep f nm ep hit(2) named_mono by (auto simp: filter_inv_def r'(2))
    then show ?thesis using ep hit(2) r'(1) by blast
  next
    case bypass
    then have "(verdict, f') = (False, f)" using s en f(1)
      by (cases ?c) (auto simp: shouldIntercept_def Let_def now_def [symmetric])
    then show ?thesis using keep by simp
  next
    case look
    obtain img f1 where c: "(case ownerOf sys e of Some pid \<Rightarrow> cachedProcessImage (imageOf sys) pid now f | None \<Rightarrow> ([], f)) = (img, f1)"
      by fastforce
    have f1: "rules f1 = r" "endpoints f1 = endpoints f" "table_ok kMaximumCachedEndpoints (\<lambda>_. True) (processNames f1)"
      "\<And>p n. map_of (processNames f1) p = Some n \<Longrightarrow> named (op # ops) p (image n)"
      "img \<noteq> [] \<Longrightarrow> \<exists>pid. ownerOf sys e = Some pid \<and> named (op # ops) pid img"
      using c cachedProcessImage_props [OF f(3) nm op_def, of _ now img f1] f nm named_mono by (auto split: option.splits)
    define v where "v = \<lparr>intercept = img \<noteq> [] \<and> allowsImage r img,
      decision_expiresAtMs = now + (if img = [] then kUnknownCacheTtlMs else liveTtl e), resolved = img \<noteq> []\<rparr>"
    define f2 where "f2 = (if length (endpoints f1) \<ge> kMaximumCachedEndpoints \<and> map_of (endpoints f1) ?key = None
      then filter_makeRoom now f1 else f1)"
    have r': "verdict = intercept v" "f' = f2\<lparr>endpoints := AList.update ?key v (endpoints f2)\<rparr>"
      using s en f(1) look c f1(1)
      by (cases ?c; auto simp: shouldIntercept_def Let_def now_def [symmetric] f2_def v_def)+
    have v: "intercept v \<Longrightarrow> identified r (op # ops) ?key" using f1(5) look(3) by (auto simp: v_def op_def)
    have t: "table_ok kMaximumCachedEndpoints (\<lambda>_. True) (endpoints f1)" using f(2) f1(2) by simp
    note ins = insert_decision [OF t, where Q = "identified r (op # ops)", OF _ v f2_def]
    show ?thesis using ins f1 ep v unfolding r' filter_inv_def by auto
  qed
  then show ?thesis unfolding op_def .
qed

lemma shouldIntercept_disabled:
  "\<not> rules_enabled (rules f) \<Longrightarrow> shouldIntercept sys e outbound fresh nowMs f = (True, f)"
  by (simp add: shouldIntercept_def)

lemma filter_step_inv:
  assumes "rules_enabled r" "filter_inv r h"
  shows "filter_inv r (filter_hist_step op h)"
proof -
  obtain f ops where h: "h = (f, ops)" by fastforce
  show ?thesis
  proof (cases op)
    case (Ask sys e outbound fresh nowMs)
    then show ?thesis
      using shouldIntercept_inv [OF assms(2) [unfolded h] assms(1), of sys e outbound fresh nowMs]
      by (simp add: filter_hist_step_def h prod_eq_iff)
  next
    case (Forget e)
    then show ?thesis using assms(2)
      by (auto simp: filter_hist_step_def h filter_forget_def filter_inv_def)
  next
    case ClearFilter
    then show ?thesis using assms(2)
      by (auto simp: filter_hist_step_def h filter_clear_def filter_inv_def)
  qed
qed

lemma filter_reorder_inv: "filter_inv r h \<Longrightarrow> filter_reorder h h' \<Longrightarrow> filter_inv r h'"
proof -
  assume inv: "filter_inv r h" and "filter_reorder h h'"
  then obtain f f' ops where h: "h = (f, ops)" "h' = (f', ops)" "mset (endpoints f') = mset (endpoints f)"
    "mset (processNames f') = mset (processNames f)" "rules f' = rules f"
    by (auto simp: filter_reorder_def split: prod.splits)
  have "map_of (endpoints f') = map_of (endpoints f)" "map_of (processNames f') = map_of (processNames f)"
    using inv h by (auto simp: filter_inv_def table_ok_def intro!: map_of_reorder)
  moreover have "table_ok kMaximumCachedEndpoints (\<lambda>_. True) (endpoints f')"
    "table_ok kMaximumCachedEndpoints (\<lambda>_. True) (processNames f')"
    using inv h table_ok_reorder [OF _ h(3)] table_ok_reorder [OF _ h(4)] by (auto simp: filter_inv_def)
  ultimately show "filter_inv r h'" using inv h by (simp add: filter_inv_def)
qed

interpretation process_rules: machine filter_hist_step filter_reorder
  "\<lambda>h. rules_enabled r \<longrightarrow> filter_inv r h" for r
  by unfold_locales (auto intro: filter_step_inv filter_reorder_inv)

text \<open>
  C29. Process rules never hijack an unidentified flow. In every history of the filter, when
  rules are set and a packet is to be intercepted, then this call or an earlier one for the
  same endpoint, not forgotten since, was for an outbound packet (for TCP: of a new flow),
  found a process that owns it, and got for that process an image that the rules allow. The
  cache of decisions and the one of process names hold at most 8192 entries.
\<close>

theorem intercept_identified:
  assumes "reach filter_hist_step filter_reorder (newFilter r, []) (f, ops)" and "rules_enabled r"
    and "fst (shouldIntercept sys e outbound fresh nowMs f)"
  shows "identified r (Ask sys e outbound fresh nowMs # ops) (endpointKey e) \<and>
    length (endpoints f) \<le> 8192 \<and> length (processNames f) \<le> 8192"
proof -
  have "filter_inv r (newFilter r, [])" by (simp add: filter_inv_def newFilter_def)
  then have inv: "filter_inv r (f, ops)"
    using process_rules.reach_inv [OF assms(1)] assms(2) by blast
  then show ?thesis
    using shouldIntercept_inv [OF inv assms(2), of sys e outbound fresh nowMs] assms(3)
    by (auto simp: prod_eq_iff filter_inv_def table_ok_def kMaximumCachedEndpoints_def)
qed

definition chromeRules :: Rules where
  "chromeRules = newRules [''chrome.exe''] []"

definition sampleSystem :: System where
  "sampleSystem = \<lparr>tcpTable = Some [\<lparr>row_localAddr = [10, 0, 0, 2], row_remoteAddr = [1, 2, 3, 4],
     row_localPort = 50000, row_remotePort = 443, owningPid = 77\<rparr>], udpTable = None,
     imageOf = (\<lambda>pid. if pid = 77 then Some ''C:/Apps/Chrome.exe'' else None), tickCount = 5000\<rparr>"

definition sampleEndpoint :: Endpoint where
  "sampleEndpoint = \<lparr>ipv6 = False, protocol = Tcp, localAddress = [10, 0, 0, 2, 0, 0, 0, 0, 0, 0, 0, 0, 0, 0, 0, 0],
     remoteAddress = [1, 2, 3, 4, 0, 0, 0, 0, 0, 0, 0, 0, 0, 0, 0, 0], localPort = 50000, remotePort = 443\<rparr>"

theorem intercept_identified_witness:
  "fst (shouldIntercept sampleSystem sampleEndpoint True True 0 (newFilter chromeRules)) \<and>
   identified chromeRules [Ask sampleSystem sampleEndpoint True True 0] (endpointKey sampleEndpoint)"
proof -
  have a: "fst (shouldIntercept sampleSystem sampleEndpoint True True 0 (newFilter chromeRules))" by code_simp
  have e: "rules_enabled chromeRules" by code_simp
  show ?thesis using intercept_identified [OF reach.start e a] a by simp
qed

section \<open>What the rules allow\<close>

lemma normalizeLoop_props:
  "length result \<le> 128 \<Longrightarrow> distinct result \<Longrightarrow> list_all (\<lambda>p. p \<noteq> [] \<and> length p \<le> 1024) result \<Longrightarrow>
   length (fst (normalizeLoop values result n)) \<le> 128 \<and> distinct (fst (normalizeLoop values result n)) \<and>
   list_all (\<lambda>p. p \<noteq> [] \<and> length p \<le> 1024) (fst (normalizeLoop values result n))"
proof (induction "values" result n rule: normalizeLoop.induct)
  case (2 v vs result n)
  have "length (normalize v) \<le> 1024" by (auto simp: normalize_def Let_def kMaximumRuleLength_def)
  then show ?case using 2 by (auto simp: Let_def kMaximumRules_def)
qed simp

lemma allowsImage_fails_closed:
  "includeListInvalid r \<Longrightarrow> \<not> allowsImage r path \<and> rules_enabled r"
  by (simp add: allowsImage_def rules_enabled_def)

lemma exclude_wins:
  "matchesAny (excludeRules r) (normalize path) (baseName (normalize path)) \<Longrightarrow> \<not> allowsImage r path"
  by (simp add: allowsImage_def Let_def)

end
