(* ===== verification/Command_Line.thy ===== *)
theory Command_Line
  imports Prelude
begin

text \<open>
  \<open>src/src/CommandLine.hpp\<close>: quoting one argument for a Windows command line. The header
  promises that the result goes through \<open>CommandLineToArgvW\<close> and the argv rules of the C
  runtime unchanged; those documented rules are written down below as \<open>splitArgs\<close>, and the
  round trip is proved for whole command lines.
\<close>

type_synonym wchar = "16 word"

text \<open>A wide string literal.\<close>

definition wide :: "string \<Rightarrow> wchar list" where
  "wide s = map (\<lambda>c. of_nat (of_char c)) s"

definition needsQuotes :: "wchar list \<Rightarrow> bool" where
  "needsQuotes argument \<longleftrightarrow> list_ex (\<lambda>c. c = 32 \<or> c = 9 \<or> c = 10 \<or> c = 11 \<or> c = 34) argument"

text \<open>The loop over the characters; 92 is the backslash, 34 the quote.\<close>

fun quoteLoop :: "wchar list \<Rightarrow> nat \<Rightarrow> wchar list" where
  "quoteLoop [] backslashes = replicate (backslashes * 2) 92 @ [34]"
| "quoteLoop (character # rest) backslashes =
     (if character = 92 then quoteLoop rest (backslashes + 1)
      else if character = 34 then replicate (backslashes * 2 + 1) 92 @ [character] @ quoteLoop rest 0
      else replicate backslashes 92 @ [character] @ quoteLoop rest 0)"

definition quoteArgument :: "wchar list \<Rightarrow> wchar list" where
  "quoteArgument argument =
     (if argument \<noteq> [] \<and> \<not> needsQuotes argument then argument else 34 # quoteLoop argument 0)"

section \<open>The documented argv rules\<close>

text \<open>
  One argument: \<open>2n\<close> backslashes before a quote are \<open>n\<close> backslashes and the quote opens or
  closes a quoted part, \<open>2n+1\<close> are \<open>n\<close> backslashes and a literal quote, other backslashes
  are themselves; inside quotes, two quotes in a row are one literal quote; a blank outside
  quotes ends the argument.
\<close>

fun scanArg :: "wchar list \<Rightarrow> bool \<Rightarrow> nat \<Rightarrow> wchar list \<Rightarrow> wchar list \<times> wchar list" where
  "scanArg [] inq bs acc = (acc @ replicate bs 92, [])"
| "scanArg (c # cs) inq bs acc =
     (if c = 92 then scanArg cs inq (bs + 1) acc
      else if c = 34 then
        (if odd bs then scanArg cs inq 0 (acc @ replicate (bs div 2) 92 @ [34])
         else if inq \<and> cs \<noteq> [] \<and> hd cs = 34 then scanArg (tl cs) inq 0 (acc @ replicate (bs div 2) 92 @ [34])
         else scanArg cs (\<not> inq) 0 (acc @ replicate (bs div 2) 92))
      else if (c = 32 \<or> c = 9) \<and> \<not> inq then (acc @ replicate bs 92, cs)
      else scanArg cs inq 0 (acc @ replicate bs 92 @ [c]))"

lemma scanArg_rest: "length (snd (scanArg cs inq bs acc)) \<le> length cs"
proof (induction cs inq bs acc rule: scanArg.induct)
  case (2 c cs inq bs acc)
  then show ?case by (cases cs) (auto intro: le_SucI order_trans split: if_splits)
qed simp

lemma scanArg_progress: "cs \<noteq> [] \<Longrightarrow> length (snd (scanArg cs inq bs acc)) < length cs"
  by (cases cs) (auto simp: less_Suc_eq_le scanArg_rest intro: order_trans [OF scanArg_rest])

function splitArgs :: "wchar list \<Rightarrow> wchar list list" where
  "splitArgs line = (let cs = dropWhile (\<lambda>c. c = 32 \<or> c = 9) line in
     if cs = [] then [] else let (arg, rest) = scanArg cs False 0 [] in arg # splitArgs rest)"
  by pat_completeness auto
termination
proof (relation "measure length")
  fix line cs :: "wchar list" and x :: "wchar list \<times> wchar list" and arg rest :: "wchar list"
  assume "cs = dropWhile (\<lambda>c. c = 32 \<or> c = 9) line" "cs \<noteq> []" "x = scanArg cs False 0 []" "(arg, rest) = x"
  then have "length rest < length cs" "length cs \<le> length line"
    using scanArg_progress [of cs False 0 "[]"] by (auto simp: length_dropWhile_le dest: sym)
  then show "(rest, line) \<in> measure length" by simp
qed simp

declare splitArgs.simps [simp del]

fun joinArgs :: "wchar list list \<Rightarrow> wchar list" where
  "joinArgs [] = []"
| "joinArgs [a] = quoteArgument a"
| "joinArgs (a # as) = quoteArgument a @ 32 # joinArgs as"

section \<open>The round trip\<close>

lemma scanArg_backslashes: "scanArg (replicate k 92 @ cs) inq m acc = scanArg cs inq (m + k) acc"
  by (induction k arbitrary: m) auto

lemma scanArg_quoted:
  "rest = [] \<or> hd rest = 32 \<Longrightarrow>
    scanArg (quoteLoop cs b @ rest) True 0 acc = scanArg rest False 0 (acc @ replicate b 92 @ cs)"
proof (induction cs b arbitrary: acc rule: quoteLoop.induct)
  case (1 b)
  then show ?case by (cases rest) (auto simp: scanArg_backslashes)
next
  case (2 c cs b)
  then show ?case
    by (cases "c = 92"; cases "c = 34")
      (auto simp: scanArg_backslashes replicate_append_same replicate_app_Cons_same)
qed

lemma scanArg_end: "rest = [] \<or> hd rest = 32 \<Longrightarrow> scanArg rest False m acc = (acc @ replicate m 92, tl rest)"
  by (cases rest) auto

lemma scanArg_plain:
  "\<not> needsQuotes cs \<Longrightarrow> rest = [] \<or> hd rest = 32 \<Longrightarrow>
    scanArg (cs @ rest) False m acc = (acc @ replicate m 92 @ cs, tl rest)"
proof (induction cs arbitrary: m acc)
  case Nil
  then show ?case using scanArg_end by simp
next
  case (Cons c cs)
  then show ?case
    by (cases "c = 92") (auto simp: needsQuotes_def replicate_app_Cons_same)
qed

lemma quoteArgument_scanned:
  assumes "rest = [] \<or> hd rest = 32"
  shows "scanArg (quoteArgument a @ rest) False 0 [] = (a, tl rest)"
  using scanArg_plain [OF _ assms, of a 0 "[]"] scanArg_quoted [OF assms, of a 0 "[]"] scanArg_end [OF assms, of 0 a]
  by (auto simp: quoteArgument_def)

lemma quoteArgument_start: "quoteArgument a \<noteq> [] \<and> hd (quoteArgument a) \<noteq> 32 \<and> hd (quoteArgument a) \<noteq> 9"
  by (cases a) (auto simp: quoteArgument_def needsQuotes_def)

lemma dropWhile_quoted: "dropWhile (\<lambda>c. c = 32 \<or> c = 9) (quoteArgument a @ rest) = quoteArgument a @ rest"
  using quoteArgument_start [of a] by (cases "quoteArgument a") auto

text \<open>
  Quoting round-trips: a command line made of arguments quoted by \<open>quoteArgument\<close> and
  separated by blanks is split by the documented argv rules into exactly those arguments,
  whatever characters they hold, empty ones included.
\<close>

lemma quoteArgument_roundtrip: "splitArgs (joinArgs args) = args"
proof (induction args rule: joinArgs.induct)
  case 1
  show ?case by (simp add: splitArgs.simps)
next
  case (2 a)
  show ?case
    using quoteArgument_scanned [of "[]" a] dropWhile_quoted [of a "[]"] quoteArgument_start [of a]
    by (simp add: splitArgs.simps [of "quoteArgument a"] splitArgs.simps [of "[]"])
next
  case (3 a b as)
  show ?case
    using 3 quoteArgument_scanned [of "32 # joinArgs (b # as)" a] dropWhile_quoted [of a "32 # joinArgs (b # as)"]
    by (subst splitArgs.simps) simp
qed

end
