(* ===== verification/Divert_Packet.thy ===== *)
theory Divert_Packet
  imports Packet_Registry
begin

text \<open>
  \<open>src/src/WinDivertPacket.cpp\<close>: variants of a captured packet with another payload. The
  WinDivert library is a third-party driver: its packet parser, its checksum routine and its
  packet size limit are the record \<open>Divert\<close>, an argument of everything that calls it. Packets are
  byte lists; the header fields are those of IPv4, IPv6, TCP and UDP.
\<close>

datatype IpVersion = V4 | V6

datatype Transport = TcpT | UdpT

record ParseResult =
  parsed :: bool
  ipHeader :: "IpVersion option"
  transportHeader :: "(Transport \<times> nat) option"
  payloadAt :: "(nat \<times> nat) option"
  nextLength :: "nat option"

text \<open>\<open>WINDIVERT_ADDRESS\<close>; what the program only passes on is \<open>addr_rest\<close>.\<close>

record DivertAddress =
  addr_outbound :: bool
  addr_ipChecksum :: bool
  addr_tcpChecksum :: bool
  addr_rest :: nat

record Divert =
  parsePacket :: "byte list \<Rightarrow> ParseResult"
  calcChecksums :: "byte list \<Rightarrow> DivertAddress \<Rightarrow> byte list \<times> DivertAddress"
  mtuMax :: nat

definition field :: "byte list \<Rightarrow> nat \<Rightarrow> nat \<Rightarrow> byte list" where
  "field p off n = take n (drop off p)"

definition get16 :: "byte list \<Rightarrow> nat \<Rightarrow> u16" where
  "get16 p off = be16 (p ! off) (p ! (off + 1))"

definition set_bytes :: "byte list \<Rightarrow> nat \<Rightarrow> byte list \<Rightarrow> byte list" where
  "set_bytes p off bs = take off p @ bs @ drop (off + length bs) p"

definition set16 :: "byte list \<Rightarrow> nat \<Rightarrow> u16 \<Rightarrow> byte list" where
  "set16 p off v = set_bytes p off [hi8 v, lo8 v]"

definition get32 :: "byte list \<Rightarrow> nat \<Rightarrow> u32" where
  "get32 p off = push_bit 24 (ucast (p ! off)) OR push_bit 16 (ucast (p ! (off + 1))) OR
     push_bit 8 (ucast (p ! (off + 2))) OR ucast (p ! (off + 3))"

definition set32 :: "byte list \<Rightarrow> nat \<Rightarrow> u32 \<Rightarrow> byte list" where
  "set32 p off v = set_bytes p off [ucast (drop_bit 24 v), ucast (drop_bit 16 v), ucast (drop_bit 8 v), ucast v]"

section \<open>Variants\<close>

text \<open>Headers of the packet with the new payload and the wire length fixed; \<open>None\<close> is an empty result.\<close>

definition variantFrame :: "Divert \<Rightarrow> byte list \<Rightarrow> Transport \<Rightarrow> nat \<Rightarrow> byte list \<Rightarrow> byte list option" where
  "variantFrame D packet kind payload replacement =
     (let r = parsePacket D packet in
      if \<not> parsed r \<or> map_option fst (transportHeader r) \<noteq> Some kind \<or> map_option fst (payloadAt r) \<noteq> Some payload then None
      else if payload = 0 \<or> payload + length replacement > mtuMax D then None
      else let out = take payload packet @ replacement;
               isIpv6 = (unat (out ! 0) div 16 = 6);
               ipBase = (if isIpv6 then 40 else 0)
        in if length out < ipBase \<or> length out - ipBase > 0xFFFF then None
           else Some (set16 out (if isIpv6 then 4 else 2) (of_nat (length out - ipBase))))"

definition ipLengthTtl :: "IpVersion \<Rightarrow> byte \<Rightarrow> byte list \<Rightarrow> byte list" where
  "ipLengthTtl ip ttl out =
     (case ip of
        V4 \<Rightarrow> let o1 = set16 out 2 (of_nat (length out)) in if ttl \<noteq> 0 then set_bytes o1 8 [ttl] else o1
      | V6 \<Rightarrow> let o1 = set16 out 4 (of_nat (length out - 40)) in if ttl \<noteq> 0 then set_bytes o1 7 [ttl] else o1)"

definition buildTcpVariant ::
  "Divert \<Rightarrow> byte list \<Rightarrow> nat \<Rightarrow> byte list \<Rightarrow> u32 \<Rightarrow> DivertAddress \<Rightarrow> byte \<Rightarrow> bool \<Rightarrow> byte list" where
  "buildTcpVariant D packet payload replacement seqOffset address ttl corruptChecksum =
     (case variantFrame D packet TcpT payload replacement of None \<Rightarrow> []
      | Some out \<Rightarrow>
          let r = parsePacket D out in
          (case (parsed r, transportHeader r, ipHeader r) of
             (True, Some (TcpT, tcp), Some ip) \<Rightarrow>
               let o1 = ipLengthTtl ip ttl out;
                   o2 = set32 o1 (tcp + 4) (get32 o1 (tcp + 4) + seqOffset);
                   o3 = fst (calcChecksums D o2 address)
               in if corruptChecksum then set16 o3 (tcp + 16) (get16 o3 (tcp + 16) XOR 0xFFFF) else o3
           | _ \<Rightarrow> []))"

definition buildUdpVariant ::
  "Divert \<Rightarrow> byte list \<Rightarrow> nat \<Rightarrow> byte list \<Rightarrow> DivertAddress \<Rightarrow> byte list" where
  "buildUdpVariant D packet payload replacement address =
     (case variantFrame D packet UdpT payload replacement of None \<Rightarrow> []
      | Some out \<Rightarrow>
          if payload < 8 \<or> length replacement > 0xFFFF - 8 then []
          else let out1 = set16 out (payload - 8 + 4) (of_nat (8 + length replacement));
                   r = parsePacket D out1 in
            (case (parsed r, transportHeader r, ipHeader r) of
               (True, Some (UdpT, udp), Some ip) \<Rightarrow>
                 let o1 = ipLengthTtl ip 0 out1;
                     o2 = set16 o1 (udp + 4) (of_nat (8 + length replacement))
                 in fst (calcChecksums D o2 address)
             | _ \<Rightarrow> []))"

end
