(* ===== verification/Interceptor.thy ===== *)
theory Interceptor
  imports Divert_Packet Quic_Strategy Process_Filter Flow_Tables Recovery_Policy
begin

text \<open>
  The packet loop of \<open>src/src/WinDivertInterceptor.cpp\<close>, which ties the registries, the
  table of rewritten tuples, the process rules, the packet strategies and the QUIC registry
  together. One captured packet is one step; the tick count is read once per packet. The
  WinDivert library (\<open>Divert\<close>), \<open>inet_ntop\<close>, the random generator and the system's
  connection tables are arguments. Logging is left out.
\<close>

definition kHttpsPort :: u16 where "kHttpsPort = 443"
definition kDnsPort :: u16 where "kDnsPort = 53"
definition kFatalSendFailures :: u32 where "kFatalSendFailures = 16"
definition kFatalSendWindowMs :: u64 where "kFatalSendWindowMs = 500"
definition kSendStreakGapMs :: u64 where "kSendStreakGapMs = 1000"

record Interceptor =
  ic_flows :: FlowRegistry
  ic_datagrams :: DatagramRegistry
  ic_policies :: PolicyRegistry
  ic_quic :: AdaptiveRegistry
  ic_tcpFlows :: TcpFlowTable
  ic_filter :: "Filter option"

record Ports =
  proxyPort :: u16
  dnsProxyPort :: u16
  ic_connectPort :: u16
  quicMode :: QuicMode

text \<open>What a packet's handling asks of the system besides the driver.\<close>

record Surroundings =
  ntop :: "IpVersion \<Rightarrow> byte list \<Rightarrow> string"
  sys :: System
  randomBytes :: "byte list option"

section \<open>Headers\<close>

definition ipAddress :: "IpVersion \<Rightarrow> byte list \<Rightarrow> bool \<Rightarrow> byte list" where
  "ipAddress ip p destination =
     (case ip of V4 \<Rightarrow> field p (if destination then 16 else 12) 4
      | V6 \<Rightarrow> field p (if destination then 24 else 8) 16)"

definition addressText :: "Surroundings \<Rightarrow> IpVersion \<Rightarrow> byte list \<Rightarrow> bool \<Rightarrow> string" where
  "addressText env ip p destination = ntop env ip (ipAddress ip p destination)"

definition packetAddress :: "IpVersion \<Rightarrow> byte list \<Rightarrow> bool \<Rightarrow> Address" where
  "packetAddress ip p destination =
     (case addressFromBytes (ipAddress ip p destination) (ip = V6) of Some a \<Rightarrow> a | None \<Rightarrow> [])"

definition swapAddresses :: "IpVersion \<Rightarrow> byte list \<Rightarrow> byte list" where
  "swapAddresses ip p =
     (case ip of V4 \<Rightarrow> set_bytes p 12 (field p 16 4 @ field p 12 4)
      | V6 \<Rightarrow> set_bytes p 8 (field p 24 16 @ field p 8 16))"

definition packetTtl :: "IpVersion \<Rightarrow> byte list \<Rightarrow> byte" where
  "packetTtl ip p = (case ip of V4 \<Rightarrow> p ! 8 | V6 \<Rightarrow> p ! 7)"

definition pad16 :: "byte list \<Rightarrow> byte list" where
  "pad16 a = take 16 (a @ replicate 16 0)"

definition processEndpoint :: "IpVersion \<Rightarrow> byte list \<Rightarrow> u16 \<Rightarrow> u16 \<Rightarrow> Protocol \<Rightarrow> bool \<Rightarrow> Endpoint" where
  "processEndpoint ip p sourcePort destinationPort prot outbound =
     \<lparr>ipv6 = (ip = V6), protocol = prot,
      localAddress = pad16 (ipAddress ip p (\<not> outbound)), remoteAddress = pad16 (ipAddress ip p outbound),
      localPort = (if outbound then sourcePort else destinationPort),
      remotePort = (if outbound then destinationPort else sourcePort)\<rparr>"

section \<open>The batch\<close>

type_synonym PacketBatch = "(byte list \<times> DivertAddress) list"

text \<open>
  \<open>bytes\<close>, \<open>addresses\<close> and \<open>lengths\<close> of the source are the concatenation and the columns of
  this list; \<open>append\<close> adds a row. Where the source appends packets and rolls the batch back when
  one of them cannot be built, the list of them is built first and added as a whole.
\<close>

section \<open>TCP\<close>

record TcpView =
  view_ip :: IpVersion
  view_tcp :: nat
  view_payload :: "(nat \<times> nat) option"
  sourcePort :: u16
  destinationPort :: u16
  fin :: bool
  syn :: bool
  rst :: bool
  ack :: bool

definition tcpView :: "byte list \<Rightarrow> IpVersion \<Rightarrow> nat \<Rightarrow> (nat \<times> nat) option \<Rightarrow> TcpView" where
  "tcpView p ip tcp pay =
     \<lparr>view_ip = ip, view_tcp = tcp, view_payload = pay, sourcePort = get16 p tcp, destinationPort = get16 p (tcp + 2),
      fin = bit (p ! (tcp + 13)) 0, syn = bit (p ! (tcp + 13)) 1, rst = bit (p ! (tcp + 13)) 2, ack = bit (p ! (tcp + 13)) 4\<rparr>"

definition isRuled :: "Interceptor \<Rightarrow> bool" where
  "isRuled st = (case ic_filter st of Some f \<Rightarrow> rules_enabled (rules f) | None \<Rightarrow> False)"

definition askFilter :: "System \<Rightarrow> Endpoint \<Rightarrow> bool \<Rightarrow> bool \<Rightarrow> Interceptor \<Rightarrow> bool \<times> Interceptor" where
  "askFilter s e outbound newTcpFlow st =
     (case ic_filter st of None \<Rightarrow> (True, st)
      | Some f \<Rightarrow> let (v, f') = shouldIntercept s e outbound newTcpFlow 0 f in (v, st\<lparr>ic_filter := Some f'\<rparr>))"

definition track :: "TupleKind \<Rightarrow> Address \<Rightarrow> u16 \<Rightarrow> TcpView \<Rightarrow> u64 \<Rightarrow> Interceptor \<Rightarrow> bool \<times> Interceptor" where
  "track kind server port v tick st =
     (let (known, t) = tcp_track kind server port (fin v) (rst v) 0 tick (ic_tcpFlows st)
      in (known, st\<lparr>ic_tcpFlows := t\<rparr>))"

text \<open>The first \<open>switch\<close>: does the packet belong to a tuple whose SYN passed through here?\<close>

definition tcpOwned ::
  "Surroundings \<Rightarrow> byte list \<Rightarrow> TcpView \<Rightarrow> PacketRoute \<Rightarrow> Interceptor \<Rightarrow> bool \<times> Interceptor" where
  "tcpOwned env p v route st =
     (let tick = tickCount (sys env); ip = view_ip v; isSyn = (syn v \<and> \<not> ack v);
          endpoint = processEndpoint ip p (sourcePort v) (destinationPort v) Tcp True
      in case route of
        ReflectClientToProxy \<Rightarrow>
          (let server = packetAddress ip p True in
           if isSyn then
             (let (allowed, st1) = (if isRuled st then askFilter (sys env) endpoint True True st else (True, st)) in
              if \<not> allowed then (False, st1\<lparr>ic_tcpFlows := tcp_remove Client server (sourcePort v) (ic_tcpFlows st1)\<rparr>)
              else (True, st1\<lparr>ic_tcpFlows := tcp_add Client server (sourcePort v) 0 tick (ic_tcpFlows st1)\<rparr>))
           else
             (let (known, st1) = track Client server (sourcePort v) v tick st in
              (known, if known \<and> rst v \<and> isRuled st
                      then st1\<lparr>ic_filter := map_option (filter_forget endpoint) (ic_filter st1)\<rparr> else st1)))
      | ReflectProxyToClient \<Rightarrow> track Client (packetAddress ip p True) (destinationPort v) v tick st
      | RedirectProxyToTarget \<Rightarrow>
          (let server = packetAddress ip p True in
           (True, if isSyn then st\<lparr>ic_tcpFlows := tcp_add Upstream server (sourcePort v) 0 tick (ic_tcpFlows st)\<rparr>
                  else snd (track Upstream server (sourcePort v) v tick st)))
      | RedirectTargetToProxy \<Rightarrow> track Upstream (packetAddress ip p False) (destinationPort v) v tick st
      | Pass \<Rightarrow> (False, st))"

text \<open>The second \<open>switch\<close>: rewriting a packet that is owned.\<close>

definition tcpRewrite ::
  "Surroundings \<Rightarrow> Ports \<Rightarrow> byte list \<Rightarrow> DivertAddress \<Rightarrow> TcpView \<Rightarrow> PacketRoute \<Rightarrow> Interceptor \<Rightarrow>
    byte list \<times> DivertAddress \<times> Interceptor" where
  "tcpRewrite env ports p addr v route st =
     (let tick = tickCount (sys env); ip = view_ip v; tcp = view_tcp v in
      case route of
        ReflectClientToProxy \<Rightarrow>
          (swapAddresses ip (set16 p (tcp + 2) (proxyPort ports)), addr\<lparr>addr_outbound := False\<rparr>,
           if syn v \<and> \<not> ack v
           then st\<lparr>ic_flows := flow_observe (addressText env ip p True) (sourcePort v) kHttpsPort (ic_connectPort ports) 0 tick (ic_flows st)\<rparr>
           else st)
      | ReflectProxyToClient \<Rightarrow>
          (swapAddresses ip (set16 p tcp kHttpsPort), addr\<lparr>addr_outbound := False\<rparr>, st)
      | RedirectProxyToTarget \<Rightarrow> (set16 p (tcp + 2) kHttpsPort, addr, st)
      | RedirectTargetToProxy \<Rightarrow>
          (set16 p tcp (ic_connectPort ports), addr,
           if syn v \<and> ack v
           then st\<lparr>ic_policies := observeHop (packetAddress ip p False) (destinationPort v) (packetTtl ip p) 0 tick (ic_policies st)\<rparr>
           else st)
      | Pass \<Rightarrow> (p, addr, st))"

text \<open>The packets a policy sends in place of or ahead of the original.\<close>

record Applied =
  sent :: PacketBatch
  packetAppended :: bool
  wasApplied :: bool

definition applyFragments :: "byte list \<Rightarrow> DivertAddress \<Rightarrow> nat \<Rightarrow> nat \<Rightarrow> Policy \<Rightarrow> Applied" where
  "applyFragments p addr payload payloadLength policy =
     (let ipHeaderLength = 4 * (unat (p ! 0) mod 16);
          boundary = ipv4FragmentBoundary (payload - ipHeaderLength) policy payloadLength;
          fragments = (if boundary = 0 then [] else buildIpv4Fragments p ipHeaderLength (ipHeaderLength + boundary))
      in if length fragments = 2
         then \<lparr>sent = map (\<lambda>f. (f, addr)) fragments, packetAppended = True, wasApplied = True\<rparr>
         else \<lparr>sent = [], packetAppended = False, wasApplied = False\<rparr>)"

definition applySegments :: "Divert \<Rightarrow> byte list \<Rightarrow> DivertAddress \<Rightarrow> nat \<Rightarrow> nat \<Rightarrow> Policy \<Rightarrow> Applied" where
  "applySegments D p addr payload payloadLength policy =
     (let segmentPolicy = (if mode policy = IpFragment then policy\<lparr>mode := ReverseOrder\<rparr> else policy);
          segments = buildSegments (field p payload payloadLength) segmentPolicy;
          variants = filter (\<lambda>x. x \<noteq> []) (map (\<lambda>s. buildTcpVariant D p payload (segment_payload s) (sequenceOffset s) addr 0 False) segments);
          appended = (segments \<noteq> [] \<and> length variants = length segments)
      in \<lparr>sent = (if appended then map (\<lambda>x. (x, addr)) variants else []), packetAppended = appended,
          wasApplied = (appended \<and> splitsSni policy (segmentSplit policy payloadLength))\<rparr>)"

definition applyFake :: "Divert \<Rightarrow> byte list \<Rightarrow> DivertAddress \<Rightarrow> nat \<Rightarrow> Policy \<Rightarrow> Applied" where
  "applyFake D p addr payload policy =
     (let fake = buildFakeClientHello (coverSni policy);
          badChecksum = (mode policy = FakeBadChecksum);
          seqOffset = (if mode policy = FakeBadSequence then of_int (fakeSequenceDelta policy) else 0);
          ttl = (if mode policy = FakeAutoTtl then fakeTtl policy else 0);
          fakePacket = buildTcpVariant D p payload fake seqOffset addr ttl badChecksum;
          fakeAddress = (if badChecksum then addr\<lparr>addr_ipChecksum := True, addr_tcpChecksum := True\<rparr> else addr)
      in if fakePacket \<noteq> [] then \<lparr>sent = [(fakePacket, fakeAddress)], packetAppended = False, wasApplied = True\<rparr>
         else \<lparr>sent = [], packetAppended = False, wasApplied = False\<rparr>)"

definition applyPolicy :: "Divert \<Rightarrow> byte list \<Rightarrow> DivertAddress \<Rightarrow> IpVersion \<Rightarrow> nat \<Rightarrow> nat \<Rightarrow> Policy \<Rightarrow> Applied" where
  "applyPolicy D p addr ip payload payloadLength policy =
     (if mode policy = IpFragment \<and> ip = V4 then applyFragments p addr payload payloadLength policy
      else if mode policy = ReverseOrder \<or> mode policy = SequenceOverlap \<or> (mode policy = IpFragment \<and> ip = V6)
      then applySegments D p addr payload payloadLength policy
      else applyFake D p addr payload policy)"

text \<open>The strategy step for the first TLS record on its way to the target.\<close>

definition tcpStrategy ::
  "Divert \<Rightarrow> Surroundings \<Rightarrow> byte list \<Rightarrow> DivertAddress \<Rightarrow> TcpView \<Rightarrow> Interceptor \<Rightarrow> PacketBatch \<times> bool \<times> Interceptor" where
  "tcpStrategy D env p addr v st =
     (case view_payload v of
        Some (payload, payloadLength) \<Rightarrow>
          if payloadLength \<ge> 2 \<and> looksLikeTlsRecord (field p payload payloadLength) = Some True then
            let target = packetAddress (view_ip v) p True; tick = tickCount (sys env);
                (policy, reg) = take_policy target (sourcePort v) (Some (get32 p (view_tcp v + 4))) 0 tick (ic_policies st);
                st1 = st\<lparr>ic_policies := reg\<rparr>
            in (case policy of
                  None \<Rightarrow> ([], False, st1)
                | Some pol \<Rightarrow>
                    let a = applyPolicy D p addr (view_ip v) payload payloadLength pol
                    in (sent a, packetAppended a,
                        if wasApplied a then st1\<lparr>ic_policies := noteApplied target (sourcePort v) 0 tick (ic_policies st1)\<rparr> else st1))
          else ([], False, st)
      | None \<Rightarrow> ([], False, st))"

definition handleTcp ::
  "Divert \<Rightarrow> Surroundings \<Rightarrow> Ports \<Rightarrow> byte list \<Rightarrow> DivertAddress \<Rightarrow> TcpView \<Rightarrow> Interceptor \<Rightarrow> PacketBatch \<times> Interceptor" where
  "handleTcp D env ports p addr v st =
     (let route = routePacket (addr_outbound addr) (sourcePort v) (destinationPort v) kHttpsPort (proxyPort ports) (ic_connectPort ports);
          (owned, st1) = tcpOwned env p v route st
      in if \<not> owned then ([(p, addr)], st1)
         else let (p2, addr2, st2) = tcpRewrite env ports p addr v route st1;
                  (p3, addr3) = calcChecksums D p2 addr2;
                  (extra, appended, st3) =
                    (if route = RedirectProxyToTarget then tcpStrategy D env p3 addr3 v st2 else ([], False, st2))
           in (extra @ (if appended then [] else [(p3, addr3)]), st3))"

section \<open>UDP\<close>

record UdpView =
  udp_ip :: IpVersion
  udp_at :: nat
  udp_payload :: "(nat \<times> nat) option"
  udp_source :: u16
  udp_destination :: u16

definition udpView :: "byte list \<Rightarrow> IpVersion \<Rightarrow> nat \<Rightarrow> (nat \<times> nat) option \<Rightarrow> UdpView" where
  "udpView p ip udp pay =
     \<lparr>udp_ip = ip, udp_at = udp, udp_payload = pay, udp_source = get16 p udp, udp_destination = get16 p (udp + 2)\<rparr>"

text \<open>Process rules decide about outgoing DNS and about QUIC in both directions.\<close>

definition udpBypass :: "Surroundings \<Rightarrow> byte list \<Rightarrow> UdpView \<Rightarrow> bool \<Rightarrow> Interceptor \<Rightarrow> bool \<times> Interceptor" where
  "udpBypass env p v outbound st =
     (let scoped = (isRuled st \<and>
            ((outbound \<and> (udp_destination v = kDnsPort \<or> udp_destination v = kHttpsPort)) \<or>
             (\<not> outbound \<and> udp_source v = kHttpsPort)))
      in if scoped
         then let (ok, st1) = askFilter (sys env)
                    (processEndpoint (udp_ip v) p (udp_source v) (udp_destination v) Udp outbound) outbound False st
              in (\<not> ok, st1)
         else (False, st))"

definition udpRewrite ::
  "Divert \<Rightarrow> Surroundings \<Rightarrow> Ports \<Rightarrow> byte list \<Rightarrow> DivertAddress \<Rightarrow> UdpView \<Rightarrow> DatagramRoute \<Rightarrow> Interceptor \<Rightarrow>
    byte list \<times> DivertAddress \<times> Interceptor" where
  "udpRewrite D env ports p addr v route st =
     (let ip = udp_ip v; udp = udp_at v in
      case route of
        ReflectDnsToProxy \<Rightarrow>
          (let (p', addr') = calcChecksums D (swapAddresses ip (set16 p (udp + 2) (dnsProxyPort ports))) (addr\<lparr>addr_outbound := False\<rparr>)
           in (p', addr', st\<lparr>ic_datagrams := datagram_observe (addressText env ip p True) (udp_source v) 0 (tickCount (sys env)) (ic_datagrams st)\<rparr>))
      | ReflectDnsToClient \<Rightarrow>
          (let (p', addr') = calcChecksums D (swapAddresses ip (set16 p udp kDnsPort)) (addr\<lparr>addr_outbound := False\<rparr>)
           in (p', addr', st))
      | PassDatagram \<Rightarrow> (p, addr, st))"

text \<open>The QUIC step of a datagram that is not rewritten: packets sent ahead of it, and whether it is dropped.\<close>

definition quicOutbound ::
  "Divert \<Rightarrow> Surroundings \<Rightarrow> byte list \<Rightarrow> DivertAddress \<Rightarrow> UdpView \<Rightarrow> Interceptor \<Rightarrow> PacketBatch \<times> bool \<times> Interceptor" where
  "quicOutbound D env p addr v st =
     (let initial = (case udp_payload v of Some (off, n) \<Rightarrow> looksLikeInitial (field p off n) = Some True | None \<Rightarrow> False)
      in if needsOutbound initial (ic_quic st)
         then let (decision, q) = quic_outbound (addressText env (udp_ip v) p True) (udp_source v) initial
                    (tickCount (sys env)) (ic_quic st);
                  prime = (case udp_payload v of
                      Some (off, n) \<Rightarrow> if decision = PrimeAndPass
                        then buildUdpVariant D p off (buildPrimePayload (randomBytes env)) addr else []
                    | None \<Rightarrow> [])
              in (if prime = [] then [] else [(prime, addr)], decision = DropQuic, st\<lparr>ic_quic := q\<rparr>)
         else ([], False, st))"

definition quicStep ::
  "Divert \<Rightarrow> Surroundings \<Rightarrow> Ports \<Rightarrow> byte list \<Rightarrow> DivertAddress \<Rightarrow> UdpView \<Rightarrow> bool \<Rightarrow> Interceptor \<Rightarrow>
    PacketBatch \<times> bool \<times> Interceptor" where
  "quicStep D env ports p addr v outbound st =
     (let sending = (outbound \<and> udp_destination v = kHttpsPort); receiving = (\<not> outbound \<and> udp_source v = kHttpsPort)
      in case quicMode ports of
           QuicBlock \<Rightarrow> ([], sending \<or> receiving, st)
         | QuicAdaptive \<Rightarrow>
             (if sending then quicOutbound D env p addr v st
              else if receiving \<and> needsInbound (ic_quic st)
              then ([], False, st\<lparr>ic_quic := quic_inbound (addressText env (udp_ip v) p False) (udp_destination v)
                                (tickCount (sys env)) (ic_quic st)\<rparr>)
              else ([], False, st))
         | QuicAllow \<Rightarrow> ([], False, st))"

definition handleUdp ::
  "Divert \<Rightarrow> Surroundings \<Rightarrow> Ports \<Rightarrow> byte list \<Rightarrow> DivertAddress \<Rightarrow> UdpView \<Rightarrow> Interceptor \<Rightarrow> PacketBatch \<times> Interceptor" where
  "handleUdp D env ports p addr v st =
     (let outbound = addr_outbound addr;
          route = routeDatagram outbound (udp_source v) (udp_destination v) kDnsPort (dnsProxyPort ports);
          (bypass, st1) = udpBypass env p v outbound st
      in if bypass then ([(p, addr)], st1)
         else if route = PassDatagram
         then let (extra, drop, st2) = quicStep D env ports p addr v outbound st1
              in (extra @ (if drop then [] else [(p, addr)]), st2)
         else let (p2, addr2, st2) = udpRewrite D env ports p addr v route st1
              in ([(p2, addr2)], st2))"

section \<open>A captured batch\<close>

definition handlePacket ::
  "Divert \<Rightarrow> Surroundings \<Rightarrow> Ports \<Rightarrow> ParseResult \<Rightarrow> byte list \<Rightarrow> DivertAddress \<Rightarrow> Interceptor \<Rightarrow> PacketBatch \<times> Interceptor" where
  "handlePacket D env ports r p addr st =
     (if p = [] then ([], st)
      else case (parsed r, transportHeader r, ipHeader r) of
        (True, Some (TcpT, tcp), Some ip) \<Rightarrow> handleTcp D env ports p addr (tcpView p ip tcp (payloadAt r)) st
      | (True, Some (UdpT, udp), Some ip) \<Rightarrow> handleUdp D env ports p addr (udpView p ip udp (payloadAt r)) st
      | _ \<Rightarrow> ([(p, addr)], st))"

text \<open>
  The packets of one read stand back to back; the parser says how many bytes follow the first.
  Every packet has its own surroundings, since the clock moves between them.
\<close>

fun batchLoop ::
  "Divert \<Rightarrow> Ports \<Rightarrow> (DivertAddress \<times> Surroundings) list \<Rightarrow> byte list \<Rightarrow> PacketBatch \<Rightarrow> Interceptor \<Rightarrow> PacketBatch \<times> Interceptor" where
  "batchLoop D ports [] bytes batch st = (batch, st)"
| "batchLoop D ports ((addr, env) # rest) bytes batch st =
     (if bytes = [] then (batch, st)
      else let r = parsePacket D bytes;
               following = (case nextLength r of Some n \<Rightarrow> n | None \<Rightarrow> 0);
               packetLength = length bytes - following;
               (out, st1) = handlePacket D env ports r (take packetLength bytes) addr st
           in if nextLength r = None \<or> following \<ge> length bytes then (batch @ out, st1)
              else batchLoop D ports rest (drop packetLength bytes) (batch @ out) st1)"

section \<open>Sending\<close>

record SendState =
  failedSends :: u32
  streakStartMs :: u64
  lastFailureMs :: u64
  running :: bool
  fatalErrorCode :: u32

definition sendSucceeded :: "SendState \<Rightarrow> SendState" where
  "sendSucceeded s = s\<lparr>failedSends := 0\<rparr>"

definition sendFailed :: "u32 \<Rightarrow> u64 \<Rightarrow> SendState \<Rightarrow> bool \<times> SendState" where
  "sendFailed error nowMs s =
     (let s1 = (if failedSends s = 0 \<or> nowMs - lastFailureMs s > kSendStreakGapMs
                then s\<lparr>failedSends := 0, streakStartMs := nowMs\<rparr> else s);
          s2 = s1\<lparr>lastFailureMs := nowMs, failedSends := failedSends s1 + 1\<rparr>
      in if failedSends s2 \<ge> kFatalSendFailures \<and> nowMs - streakStartMs s2 \<ge> kFatalSendWindowMs
         then (False, s2\<lparr>fatalErrorCode := error, running := False\<rparr>) else (True, s2))"

text \<open>
  What the driver and the clock do while packet \<open>i\<close> is sent: the answer to each attempt (an
  error, or \<open>None\<close> for success), whether the interceptor is still running after it, and the tick
  count read when the packet is given up.
\<close>

record SendWorld =
  attempt :: "nat \<Rightarrow> u32 \<Rightarrow> u32 option"
  stillRunning :: "nat \<Rightarrow> u32 \<Rightarrow> bool"
  tickAt :: "nat \<Rightarrow> u64"

function sendOne :: "SendWorld \<Rightarrow> nat \<Rightarrow> u32 \<Rightarrow> u32 option \<times> bool" where
  "sendOne W i retries =
     (case attempt W i retries of
        None \<Rightarrow> (None, stillRunning W i retries)
      | Some error \<Rightarrow>
          if \<not> stillRunning W i retries \<or> \<not> shouldRetryWinDivertRead error retries
          then (Some error, stillRunning W i retries)
          else sendOne W i (retries + 1))"
  by pat_completeness auto
termination
proof (relation "measure (\<lambda>(W, i, retries). 3 - unat retries)", goal_cases)
  case (2 W i retries error)
  then have "unat retries < 3"
    by (simp add: shouldRetryWinDivertRead_def kMaxWinDivertReadRetries_def word_less_nat_alt)
  then show ?case by (simp add: unat_word_ariths)
qed simp

declare sendOne.simps [simp del]

text \<open>The packets from index \<open>i\<close> on, one by one; the result is what reached the wire.\<close>

fun sendRest :: "SendWorld \<Rightarrow> nat \<Rightarrow> PacketBatch \<Rightarrow> SendState \<Rightarrow> PacketBatch \<times> SendState" where
  "sendRest W i [] s = ([], s)"
| "sendRest W i (x # xs) s =
     (if \<not> running s then ([], s)
      else case sendOne W i 0 of
        (None, alive) \<Rightarrow>
          let (wire, s') = sendRest W (i + 1) xs (sendSucceeded (s\<lparr>running := alive\<rparr>)) in (x # wire, s')
      | (Some error, alive) \<Rightarrow>
          if \<not> alive then sendRest W (i + 1) xs (s\<lparr>running := False\<rparr>)
          else let (go, s') = sendFailed error (tickAt W i) s in
               if go then sendRest W (i + 1) xs s' else ([], s'))"

fun resumeLoop :: "nat list \<Rightarrow> nat \<Rightarrow> nat \<Rightarrow> nat \<Rightarrow> nat \<times> nat" where
  "resumeLoop [] sentBytes n covered = (n, covered)"
| "resumeLoop (l # ls) sentBytes n covered =
     (if covered + l \<le> sentBytes then resumeLoop ls sentBytes (n + 1) (covered + l) else (n, covered))"

definition resumeIndex :: "nat list \<Rightarrow> nat \<Rightarrow> nat" where
  "resumeIndex lengths sentBytes =
     (let (n, covered) = resumeLoop lengths sentBytes 0 0 in if covered \<noteq> sentBytes then 0 else n)"

text \<open>
  Sending a batch. The fast path sends it at once: \<open>None\<close> is success, otherwise the driver
  reports the bytes it sent, and \<open>alive\<close> is \<open>running_\<close> after the call. The second component
  of the result is the list of packets that were sent one by one.
\<close>

definition sendBatch :: "SendWorld \<Rightarrow> nat option \<Rightarrow> bool \<Rightarrow> PacketBatch \<Rightarrow> SendState \<Rightarrow> nat \<times> PacketBatch \<times> SendState" where
  "sendBatch W sentAtOnce alive batch s =
     (if batch = [] then (0, [], s)
      else if length batch > 1 then
        (case sentAtOnce of
           None \<Rightarrow> (length batch, [], sendSucceeded (s\<lparr>running := alive\<rparr>))
         | Some sentBytes \<Rightarrow>
             if \<not> alive then (0, [], s\<lparr>running := False\<rparr>)
             else let n = resumeIndex (map (length \<circ> fst) batch) sentBytes;
                      (wire, s') = sendRest W n (drop n batch) s
                  in (n, wire, s'))
      else let (wire, s') = sendRest W 0 batch s in (0, wire, s'))"

section \<open>Reading, starting and stopping\<close>

datatype ReadVerdict = RetryRead u32 | StopReading u32

definition readFailed :: "u32 \<Rightarrow> u32 \<Rightarrow> ReadVerdict \<times> u32" where
  "readFailed error completedReadRetries =
     (if shouldRetryWinDivertRead error completedReadRetries
      then (RetryRead (winDivertRetryDelayMs completedReadRetries), completedReadRetries + 1)
      else (StopReading error, completedReadRetries))"

definition portsValid :: "Ports \<Rightarrow> bool" where
  "portsValid ports =
     (let proxy = proxyPort ports; dns = dnsProxyPort ports; conn = ic_connectPort ports in
      \<not> (proxy = 0 \<or> dns = 0 \<or> conn = 0 \<or> proxy = conn \<or> proxy = dns \<or> dns = conn \<or> proxy = kHttpsPort \<or>
         dns = kHttpsPort \<or> dns = kDnsPort \<or> conn = kHttpsPort))"

definition processAwareQuicBlock :: "Ports \<Rightarrow> Interceptor \<Rightarrow> bool" where
  "processAwareQuicBlock ports st = (quicMode ports = QuicBlock \<and> isRuled st)"

definition capturesQuic :: "Ports \<Rightarrow> Interceptor \<Rightarrow> bool" where
  "capturesQuic ports st = (quicMode ports = QuicAdaptive \<or> processAwareQuicBlock ports st)"

text \<open>The driver's filter language, written out for the packets the loop reads.\<close>

definition captureTcp :: "Ports \<Rightarrow> bool \<Rightarrow> u16 \<Rightarrow> u16 \<Rightarrow> bool" where
  "captureTcp ports outbound source destination =
     ((outbound \<and> (destination = kHttpsPort \<or> destination = ic_connectPort ports \<or> source = proxyPort ports)) \<or>
      (\<not> outbound \<and> source = kHttpsPort))"

definition captureUdp :: "Ports \<Rightarrow> bool \<Rightarrow> Interceptor \<Rightarrow> bool \<Rightarrow> u16 \<Rightarrow> u16 \<Rightarrow> bool" where
  "captureUdp ports captureDns st outbound source destination =
     ((captureDns \<and> outbound \<and> (destination = kDnsPort \<or> source = dnsProxyPort ports)) \<or>
      (capturesQuic ports st \<and> ((outbound \<and> destination = kHttpsPort) \<or> (\<not> outbound \<and> source = kHttpsPort))))"

definition stopInterceptor :: "Interceptor \<Rightarrow> Interceptor" where
  "stopInterceptor st =
     st\<lparr>ic_flows := flow_clear (ic_flows st), ic_datagrams := datagram_clear (ic_datagrams st),
        ic_policies := registry_clear (ic_policies st), ic_quic := quic_clear (ic_quic st),
        ic_tcpFlows := tcp_clear (ic_tcpFlows st), ic_filter := map_option filter_clear (ic_filter st)\<rparr>"

end
