(* ===== verification/Packet_Path.thy ===== *)
theory Packet_Path
  imports Interceptor
begin

text \<open>
  What the packet loop guarantees: the two legs of a redirected connection are translated
  consistently in both directions, only packets of connections admitted on their SYN are
  touched, and a failing packet does not take its neighbours down.
\<close>

section \<open>Header fields\<close>

lemma length_set_bytes [simp]: "off + length bs \<le> length p \<Longrightarrow> length (set_bytes p off bs) = length p"
  by (simp add: set_bytes_def)

lemma length_set16 [simp]: "off + 2 \<le> length p \<Longrightarrow> length (set16 p off v) = length p"
  by (simp add: set16_def)

lemma nth_set_bytes:
  "off + length bs \<le> length p \<Longrightarrow> i < length p \<Longrightarrow>
    set_bytes p off bs ! i = (if off \<le> i \<and> i < off + length bs then bs ! (i - off) else p ! i)"
  by (auto simp: set_bytes_def nth_append)

lemma get16_set16: "off + 2 \<le> length p \<Longrightarrow> get16 (set16 p off v) off = v"
  by (simp add: get16_def set16_def nth_set_bytes)

lemma get16_set_bytes:
  "off + length bs \<le> length p \<Longrightarrow> i + 2 \<le> length p \<Longrightarrow> i + 2 \<le> off \<or> off + length bs \<le> i \<Longrightarrow>
    get16 (set_bytes p off bs) i = get16 p i"
  by (auto simp: get16_def nth_set_bytes)

lemma get16_set16_other:
  "off + 2 \<le> length p \<Longrightarrow> i + 2 \<le> length p \<Longrightarrow> i + 2 \<le> off \<or> off + 2 \<le> i \<Longrightarrow> get16 (set16 p off v) i = get16 p i"
  by (simp add: set16_def get16_set_bytes)

lemma field_set_bytes_before: "i + n \<le> off \<Longrightarrow> off \<le> length p \<Longrightarrow> field (set_bytes p off bs) i n = field p i n"
  by (simp add: field_def set_bytes_def) (simp add: drop_take)

lemma length_field [simp]: "off + n \<le> length p \<Longrightarrow> length (field p off n) = n"
  by (simp add: field_def)

lemma field_set_bytes_inside:
  "off + length a + length b \<le> length p \<Longrightarrow>
    field (set_bytes p off (a @ b)) off (length a) = a \<and> field (set_bytes p off (a @ b)) (off + length a) (length b) = b"
  by (simp add: field_def set_bytes_def)

text \<open>A packet whose network header ends before its transport header, whose ports are there.\<close>

definition headersFit :: "IpVersion \<Rightarrow> nat \<Rightarrow> byte list \<Rightarrow> bool" where
  "headersFit ip transport p \<longleftrightarrow> (case ip of V4 \<Rightarrow> 20 | V6 \<Rightarrow> 40) \<le> transport \<and> transport + 4 \<le> length p"

text \<open>Source address and port, destination address and port.\<close>

definition wireEnds :: "byte list \<Rightarrow> IpVersion \<Rightarrow> nat \<Rightarrow> byte list \<times> u16 \<times> byte list \<times> u16" where
  "wireEnds p ip transport =
     (ipAddress ip p False, get16 p transport, ipAddress ip p True, get16 p (transport + 2))"

definition mirror :: "byte list \<times> u16 \<times> byte list \<times> u16 \<Rightarrow> byte list \<times> u16 \<times> byte list \<times> u16" where
  "mirror = (\<lambda>(a, p, b, q). (b, q, a, p))"

lemma ipAddress_set16:
  "headersFit ip t p \<Longrightarrow> t \<le> off \<Longrightarrow> off + 2 \<le> length p \<Longrightarrow> ipAddress ip (set16 p off v) d = ipAddress ip p d"
  by (cases ip) (auto simp: ipAddress_def set16_def headersFit_def intro!: field_set_bytes_before)

lemma ipAddress_swap:
  assumes "headersFit ip t p"
  shows "ipAddress ip (swapAddresses ip p) d = ipAddress ip p (\<not> d)"
proof (cases ip)
  case V4
  then show ?thesis
    using assms field_set_bytes_inside [of 12 "field p 16 4" "field p 12 4" p]
    by (simp add: ipAddress_def swapAddresses_def headersFit_def)
next
  case V6
  then show ?thesis
    using assms field_set_bytes_inside [of 8 "field p 24 16" "field p 8 16" p]
    by (simp add: ipAddress_def swapAddresses_def headersFit_def)
qed

lemma get16_swap:
  "headersFit ip t p \<Longrightarrow> t \<le> off \<Longrightarrow> off + 2 \<le> length p \<Longrightarrow> get16 (swapAddresses ip p) off = get16 p off"
  by (cases ip) (auto simp: swapAddresses_def headersFit_def intro!: get16_set_bytes)

lemma headersFit_set16: "headersFit ip t p \<Longrightarrow> off + 2 \<le> length p \<Longrightarrow> headersFit ip t (set16 p off v)"
  by (simp add: headersFit_def)

lemma headersFit_room: "headersFit ip t p \<Longrightarrow> t + 4 \<le> length p"
  by (simp add: headersFit_def)

text \<open>Setting a port, with or without swapping the addresses, does exactly that to the endpoints.\<close>

lemma wireEnds_set_destination:
  "headersFit ip t p \<Longrightarrow> wireEnds p ip t = (a, sp, b, dp) \<Longrightarrow> wireEnds (set16 p (t + 2) v) ip t = (a, sp, b, v)"
  using headersFit_room [of ip t p]
  by (simp del: add_2_eq_Suc' add: wireEnds_def ipAddress_set16 get16_set16 get16_set16_other)

lemma wireEnds_set_source:
  "headersFit ip t p \<Longrightarrow> wireEnds p ip t = (a, sp, b, dp) \<Longrightarrow> wireEnds (set16 p t v) ip t = (a, v, b, dp)"
  using headersFit_room [of ip t p]
  by (simp del: add_2_eq_Suc' add: wireEnds_def ipAddress_set16 get16_set16 get16_set16_other)

lemma wireEnds_swap:
  "headersFit ip t p \<Longrightarrow> wireEnds p ip t = (a, sp, b, dp) \<Longrightarrow> wireEnds (swapAddresses ip p) ip t = (b, sp, a, dp)"
  using headersFit_room [of ip t p] by (auto simp: wireEnds_def ipAddress_swap get16_swap)

section \<open>Translation of a connection\<close>

text \<open>The route of a packet and the tuple under which it is looked up.\<close>

definition routeOf :: "Ports \<Rightarrow> DivertAddress \<Rightarrow> TcpView \<Rightarrow> PacketRoute" where
  "routeOf ports addr v =
     routePacket (addr_outbound addr) (sourcePort v) (destinationPort v) kHttpsPort (proxyPort ports) (ic_connectPort ports)"

fun tupleOf :: "PacketRoute \<Rightarrow> byte list \<Rightarrow> TcpView \<Rightarrow> (TupleKind \<times> Address \<times> u16) option" where
  "tupleOf ReflectClientToProxy p v = Some (Client, packetAddress (view_ip v) p True, sourcePort v)"
| "tupleOf ReflectProxyToClient p v = Some (Client, packetAddress (view_ip v) p True, destinationPort v)"
| "tupleOf RedirectProxyToTarget p v = Some (Upstream, packetAddress (view_ip v) p True, sourcePort v)"
| "tupleOf RedirectTargetToProxy p v = Some (Upstream, packetAddress (view_ip v) p False, destinationPort v)"
| "tupleOf Pass p v = None"

abbreviation rewritten :: "Surroundings \<Rightarrow> Ports \<Rightarrow> byte list \<Rightarrow> DivertAddress \<Rightarrow> TcpView \<Rightarrow> Interceptor \<Rightarrow> byte list" where
  "rewritten env ports p addr v st \<equiv> fst (tcpRewrite env ports p addr v (routeOf ports addr v) st)"

lemma rewritten_client:
  assumes "headersFit (view_ip v) (view_tcp v) p" "wireEnds p (view_ip v) (view_tcp v) = (a, sp, b, dp)"
  shows "wireEnds (fst (tcpRewrite env ports p addr v ReflectClientToProxy st)) (view_ip v) (view_tcp v) = (b, sp, a, proxyPort ports)"
    and "wireEnds (fst (tcpRewrite env ports p addr v ReflectProxyToClient st)) (view_ip v) (view_tcp v) = (b, kHttpsPort, a, dp)"
    and "wireEnds (fst (tcpRewrite env ports p addr v RedirectProxyToTarget st)) (view_ip v) (view_tcp v) = (a, sp, b, kHttpsPort)"
    and "wireEnds (fst (tcpRewrite env ports p addr v RedirectTargetToProxy st)) (view_ip v) (view_tcp v) = (a, ic_connectPort ports, b, dp)"
  using assms headersFit_room [OF assms(1)]
  by (simp_all del: add_2_eq_Suc' add: tcpRewrite_def Let_def wireEnds_swap [OF headersFit_set16 wireEnds_set_destination]
      wireEnds_swap [OF headersFit_set16 wireEnds_set_source] wireEnds_set_destination wireEnds_set_source)

text \<open>
  C8. Redirection is transparent to both sides. Take a packet of a client to a server's port 443,
  or of the relay to a server's connect port, and the answer to what it was rewritten to: the
  answer is rewritten to the answer to the original packet, and it is looked up under the same
  tuple.
\<close>

theorem rewriting_transparent:
  fixes p r :: "byte list" and v w :: TcpView and ports :: Ports
  assumes "portsValid ports" and "v = tcpView p ip t pay" and "w = tcpView r ip t' pay'"
    and "headersFit ip t p" and "headersFit ip t' r"
    and "addr_outbound addr" and "destinationPort v = kHttpsPort \<or> destinationPort v = ic_connectPort ports"
    and "sourcePort v \<noteq> proxyPort ports"
    and "addr_outbound addr' = (destinationPort v = kHttpsPort)"
    and "wireEnds r ip t' = mirror (wireEnds (rewritten env ports p addr v st) ip t)"
  shows "wireEnds (rewritten env' ports r addr' w st') ip t' = mirror (wireEnds p ip t) \<and>
    tupleOf (routeOf ports addr' w) r w = tupleOf (routeOf ports addr v) p v"
proof -
  obtain a sp b dp where e: "wireEnds p ip t = (a, sp, b, dp)" by (cases "wireEnds p ip t")
  have v: "view_ip v = ip" "view_tcp v = t" "sourcePort v = sp" "destinationPort v = dp" "ipAddress ip p True = b"
    using assms(2) e by (simp_all add: tcpView_def wireEnds_def)
  have w: "view_ip w = ip" "view_tcp w = t'" by (simp_all add: assms(3) tcpView_def)
  note legs = rewritten_client [of v p, unfolded v, OF assms(4) e]
  show ?thesis
  proof (cases "dp = kHttpsPort")
    case True
    have rv: "routeOf ports addr v = ReflectClientToProxy"
      using assms(1,6,8) True v by (auto simp: routeOf_def routePacket_def portsValid_def Let_def)
    have er: "wireEnds r ip t' = (a, proxyPort ports, b, sp)"
      using assms(10) legs(1) by (simp add: rv mirror_def)
    have rw: "routeOf ports addr' w = ReflectProxyToClient" "destinationPort w = sp" "ipAddress ip r True = b"
      using assms(9) er True v by (auto simp: routeOf_def routePacket_def assms(3) tcpView_def wireEnds_def)
    show ?thesis
      using rewritten_client(2) [of w r, unfolded w, OF assms(5) er] rv rw True v w e
      by (simp add: mirror_def packetAddress_def)
  next
    case False
    then have rv: "routeOf ports addr v = RedirectProxyToTarget"
      using assms(6,7,8) v by (auto simp: routeOf_def routePacket_def)
    have er: "wireEnds r ip t' = (b, kHttpsPort, a, sp)"
      using assms(10) legs(3) by (simp add: rv mirror_def)
    have rw: "routeOf ports addr' w = RedirectTargetToProxy" "destinationPort w = sp" "ipAddress ip r False = b"
      using assms(9) er False v by (auto simp: routeOf_def routePacket_def assms(3) tcpView_def wireEnds_def)
    show ?thesis
      using rewritten_client(4) [of w r, unfolded w, OF assms(5) er] rv rw False v w e assms(7)
      by (simp add: mirror_def packetAddress_def)
  qed
qed

definition samplePorts :: Ports where
  "samplePorts = \<lparr>proxyPort = 8443, dnsProxyPort = 5353, ic_connectPort = 4443, quicMode = QuicAdaptive\<rparr>"

definition sampleTcp :: "byte list \<Rightarrow> u16 \<Rightarrow> byte list \<Rightarrow> u16 \<Rightarrow> byte \<Rightarrow> byte list" where
  "sampleTcp a source b destination flags =
     set_bytes (set16 (set16 (set_bytes (replicate 40 0) 12 (a @ b)) 20 source) 22 destination) 33 [flags]"

definition sampleAround :: Surroundings where
  "sampleAround = \<lparr>ntop = (\<lambda>ip bytes. ''192.0.2.1''), sys = sampleSystem, randomBytes = None\<rparr>"

definition newInterceptor :: "Filter option \<Rightarrow> Interceptor" where
  "newInterceptor f =
     \<lparr>ic_flows = emptyFlows, ic_datagrams = emptyDatagrams, ic_policies = emptyRegistry,
      ic_quic = newAdaptive 1000 60000, ic_tcpFlows = emptyTcp, ic_filter = f\<rparr>"

definition sampleAddress :: DivertAddress where
  "sampleAddress = \<lparr>addr_outbound = True, addr_ipChecksum = False, addr_tcpChecksum = False, addr_rest = 0\<rparr>"

theorem rewriting_transparent_witness:
  "wireEnds (rewritten sampleAround samplePorts (sampleTcp [10,0,0,2] 8443 [192,0,2,1] 50000 16) sampleAddress
      (tcpView (sampleTcp [10,0,0,2] 8443 [192,0,2,1] 50000 16) V4 20 None) (newInterceptor None)) V4 20 =
   ([192,0,2,1], 443, [10,0,0,2], 50000)"
proof -
  let ?p = "sampleTcp [10,0,0,2] 50000 [192,0,2,1] 443 2" and ?r = "sampleTcp [10,0,0,2] 8443 [192,0,2,1] 50000 16"
  let ?v = "tcpView ?p V4 20 None" and ?w = "tcpView ?r V4 20 None"
  have f: "headersFit V4 20 ?p" "headersFit V4 20 ?r" "portsValid samplePorts" by code_simp+
  have v: "destinationPort ?v = kHttpsPort \<or> destinationPort ?v = ic_connectPort samplePorts"
    "sourcePort ?v \<noteq> proxyPort samplePorts" "addr_outbound sampleAddress = (destinationPort ?v = kHttpsPort)"
    "addr_outbound sampleAddress"
    by code_simp+
  have e: "wireEnds ?r V4 20 = mirror (wireEnds (rewritten sampleAround samplePorts ?p sampleAddress ?v (newInterceptor None)) V4 20)"
    by code_simp
  have m: "mirror (wireEnds ?p V4 20) = ([192,0,2,1], 443, [10,0,0,2], 50000)" by code_simp
  show ?thesis
    using rewriting_transparent [OF f(3) refl refl f(1,2) v(4,1,2,3) e, where env' = sampleAround and st' = "newInterceptor None"]
    unfolding m by (rule conjunct1)
qed

section \<open>Which packets are touched\<close>

text \<open>What the loop saw, latest first: packet, view, route, and whether it was taken up.\<close>

type_synonym TcpLog = "(byte list \<times> TcpView \<times> PacketRoute \<times> bool) list"

definition opens :: "PacketRoute \<Rightarrow> TcpView \<Rightarrow> bool" where
  "opens route v \<longleftrightarrow> (route = ReflectClientToProxy \<or> route = RedirectProxyToTarget) \<and> syn v \<and> \<not> ack v"

text \<open>The last SYN of the tuple was taken up and no RST followed it.\<close>

fun opened :: "TcpLog \<Rightarrow> TupleKind \<times> Address \<times> u16 \<Rightarrow> bool" where
  "opened [] tuple \<longleftrightarrow> False"
| "opened ((p, v, route, owned) # log) tuple \<longleftrightarrow>
     (if tupleOf route p v = Some tuple then if opens route v then owned else \<not> rst v \<and> opened log tuple
      else opened log tuple)"

datatype ic_op =
    CaptureTcp Surroundings "byte list" DivertAddress TcpView
  | CaptureUdp Surroundings "byte list" DivertAddress UdpView
  | StopInterceptor

fun ic_step :: "Divert \<Rightarrow> Ports \<Rightarrow> ic_op \<Rightarrow> Interceptor \<times> TcpLog \<Rightarrow> Interceptor \<times> TcpLog" where
  "ic_step D ports (CaptureTcp env p addr v) (st, log) =
     (snd (handleTcp D env ports p addr v st),
      (p, v, routeOf ports addr v, fst (tcpOwned env p v (routeOf ports addr v) st)) # log)"
| "ic_step D ports (CaptureUdp env p addr v) (st, log) = (snd (handleUdp D env ports p addr v st), log)"
| "ic_step D ports StopInterceptor (st, log) = (stopInterceptor st, [])"

text \<open>
  Between two steps other threads may do anything to the registries the interceptor shares
  with them; the table of tuples is its own, and only its order is not determined.
\<close>

definition ic_shared :: "Interceptor \<times> TcpLog \<Rightarrow> Interceptor \<times> TcpLog \<Rightarrow> bool" where
  "ic_shared = (\<lambda>(st, log) (st', log'). mset (tcp_entries (ic_tcpFlows st')) = mset (tcp_entries (ic_tcpFlows st)) \<and>
     nextSweepMs (ic_tcpFlows st') = nextSweepMs (ic_tcpFlows st) \<and> log' = log)"

definition tuples_opened :: "Interceptor \<times> TcpLog \<Rightarrow> bool" where
  "tuples_opened = (\<lambda>(st, log). tcp_ok (ic_tcpFlows st) \<and>
     (\<forall>k s p. map_of (tcp_entries (ic_tcpFlows st)) (tupleKey k s p) \<noteq> None \<longrightarrow> opened log (k, s, p)))"

lemma tuples_opened_cong:
  "ic_tcpFlows st = ic_tcpFlows st' \<Longrightarrow> tuples_opened (st, log) = tuples_opened (st', log)"
  by (simp add: tuples_opened_def)

lemma tcp_track_known:
  assumes "tcp_ok table"
  shows "tcp_ok (snd (tcp_track k s p f r n t table))"
    and "map_of (tcp_entries (snd (tcp_track k s p f r n t table))) key \<noteq> None \<Longrightarrow>
      map_of (tcp_entries table) key \<noteq> None \<and> \<not> (key = tupleKey k s p \<and> r)"
    and "fst (tcp_track k s p f r n t table) \<Longrightarrow> map_of (tcp_entries table) (tupleKey k s p) \<noteq> None"
  using assms
  by (auto simp: tcp_track_def Let_def intro!: table_ok_update split: option.splits if_splits)

lemma tcpFlows_tcpRewrite [simp]: "ic_tcpFlows (snd (snd (tcpRewrite env ports p addr v route st))) = ic_tcpFlows st"
  by (cases route) (simp_all add: tcpRewrite_def Let_def)

lemma tcpFlows_tcpStrategy [simp]: "ic_tcpFlows (snd (snd (tcpStrategy D env p addr v st))) = ic_tcpFlows st"
  by (simp add: tcpStrategy_def Let_def case_prod_beta split: option.splits)

lemma tcpFlows_handleTcp:
  "ic_tcpFlows (snd (handleTcp D env ports p addr v st)) = ic_tcpFlows (snd (tcpOwned env p v (routeOf ports addr v) st))"
proof -
  obtain owned st1 where o: "tcpOwned env p v (routeOf ports addr v) st = (owned, st1)" by fastforce
  obtain p2 addr2 st2 where r: "tcpRewrite env ports p addr v (routeOf ports addr v) st1 = (p2, addr2, st2)"
    using prod_cases3 by blast
  obtain p3 addr3 where c: "calcChecksums D p2 addr2 = (p3, addr3)" by fastforce
  obtain extra a st3 where s: "tcpStrategy D env p3 addr3 v st2 = (extra, a, st3)" using prod_cases3 by blast
  have "ic_tcpFlows st2 = ic_tcpFlows st1" "ic_tcpFlows st3 = ic_tcpFlows st2"
    using tcpFlows_tcpRewrite [of env ports p addr v "routeOf ports addr v" st1]
      tcpFlows_tcpStrategy [of D env p3 addr3 v st2] by (simp_all add: r s)
  then show ?thesis by (simp add: handleTcp_def routeOf_def [symmetric] Let_def o r c s)
qed

lemma tcpFlows_askFilter [simp]: "ic_tcpFlows (snd (askFilter s e outbound fresh st)) = ic_tcpFlows st"
  by (simp add: askFilter_def split: option.splits prod.splits)

lemma tcpFlows_udpBypass [simp]: "ic_tcpFlows (snd (udpBypass env p v outbound st)) = ic_tcpFlows st"
  by (simp add: udpBypass_def Let_def case_prod_beta)

lemma tcpFlows_quicStep [simp]: "ic_tcpFlows (snd (snd (quicStep D env ports p addr v outbound st))) = ic_tcpFlows st"
  by (simp add: quicStep_def quicOutbound_def Let_def case_prod_beta split: QuicMode.splits)

lemma tcpFlows_udpRewrite [simp]: "ic_tcpFlows (snd (snd (udpRewrite D env ports p addr v route st))) = ic_tcpFlows st"
  by (cases route) (simp_all add: udpRewrite_def Let_def case_prod_beta)

lemma tcpFlows_handleUdp [simp]: "ic_tcpFlows (snd (handleUdp D env ports p addr v st)) = ic_tcpFlows st"
  by (simp add: handleUdp_def Let_def case_prod_beta)

text \<open>What the first switch does to the table: a SYN adds or removes its tuple, any other packet tracks it.\<close>

lemma tcpOwned_table:
  fixes st :: Interceptor and env :: Surroundings
  defines "T \<equiv> ic_tcpFlows st" and "tick \<equiv> tickCount (sys env)"
  shows "case tupleOf route p v of
      None \<Rightarrow> tcpOwned env p v route st = (False, st)
    | Some (k, s, l) \<Rightarrow>
        if opens route v
        then ic_tcpFlows (snd (tcpOwned env p v route st)) =
          (if fst (tcpOwned env p v route st) then tcp_add k s l 0 tick T else tcp_remove k s l T)
        else ic_tcpFlows (snd (tcpOwned env p v route st)) = snd (tcp_track k s l (fin v) (rst v) 0 tick T) \<and>
          (fst (tcpOwned env p v route st) \<longleftrightarrow>
             route = RedirectProxyToTarget \<or> fst (tcp_track k s l (fin v) (rst v) 0 tick T))"
  by (cases route) (simp_all add: tcpOwned_def opens_def track_def Let_def case_prod_beta T_def tick_def)

text \<open>One packet keeps the table within what the log opened.\<close>

lemma tcpOwned_opened:
  fixes env :: Surroundings and p :: "byte list" and v :: TcpView and route :: PacketRoute
  assumes inv: "tuples_opened (st, log)"
  defines "res \<equiv> tcpOwned env p v route st"
  shows "tuples_opened (snd res, (p, v, route, fst res) # log)"
proof -
  let ?T = "ic_tcpFlows st"
  have ok: "tcp_ok ?T"
    and known: "\<And>k s l. map_of (tcp_entries ?T) (tupleKey k s l) \<noteq> None \<Longrightarrow> opened log (k, s, l)"
    using inv by (auto simp: tuples_opened_def)
  note added = tcp_add_known [OF ok] and tracked = tcp_track_known [OF ok]
  note table = tcpOwned_table [where env = env and p = p and v = v and route = route and st = st, folded res_def]
  show ?thesis
  proof (cases "tupleOf route p v")
    case None
    then show ?thesis using table ok known by (simp add: tuples_opened_def)
  next
    case (Some tuple)
    obtain k s l where t: "tuple = (k, s, l)" by (cases tuple)
    show ?thesis
    proof (cases "opens route v")
      case True
      have T': "ic_tcpFlows (snd res) = (if fst res then tcp_add k s l 0 (tickCount (sys env)) ?T else tcp_remove k s l ?T)"
        using table True by (simp add: Some t)
      have add: "tcp_ok (tcp_add k s l 0 (tickCount (sys env)) ?T)"
        "map_of (tcp_entries (tcp_add k s l 0 (tickCount (sys env)) ?T)) key = Some y \<Longrightarrow>
          key = tupleKey k s l \<or> map_of (tcp_entries ?T) key \<noteq> None" for key y
        using added [of k s l 0 "tickCount (sys env)" key] by auto
      show ?thesis
      proof (cases "fst res")
        case taken: True
        show ?thesis
          using add(1) known by (auto simp: tuples_opened_def T' Some t True taken dest!: add(2))
      next
        case False
        then show ?thesis using ok known by (auto simp: tuples_opened_def T' Some t True tcp_remove_def)
      qed
    next
      case False
      have T': "ic_tcpFlows (snd res) = snd (tcp_track k s l (fin v) (rst v) 0 (tickCount (sys env)) ?T)"
        using table False by (simp add: Some t)
      show ?thesis
        using tracked(1,2) [of k s l "fin v" "rst v" 0 "tickCount (sys env)"] known
        by (auto simp: tuples_opened_def T' Some t False)
    qed
  qed
qed

interpretation packet_history: machine "ic_step D ports" ic_shared tuples_opened for D ports
proof
  show "tuples_opened s \<Longrightarrow> tuples_opened (ic_step D ports op s)" for s op
  proof -
    assume inv: "tuples_opened s"
    obtain st log where s: "s = (st, log)" by (cases s)
    show ?thesis
    proof (cases op)
      case (CaptureTcp env p addr v)
      then show ?thesis
        using tcpOwned_opened [of st log env p v "routeOf ports addr v"] inv
        by (simp del: opened.simps add: s tuples_opened_cong [OF tcpFlows_handleTcp])
    next
      case (CaptureUdp env p addr v)
      then show ?thesis using inv by (simp add: s tuples_opened_cong [OF tcpFlows_handleUdp])
    next
      case StopInterceptor
      then show ?thesis by (simp add: s tuples_opened_def stopInterceptor_def tcp_clear_def)
    qed
  qed
  show "tuples_opened s \<Longrightarrow> ic_shared s s' \<Longrightarrow> tuples_opened s'" for s s'
    using map_of_reorder [of "tcp_entries (ic_tcpFlows (fst s))" "tcp_entries (ic_tcpFlows (fst s'))"]
      table_ok_reorder [of kMaxTcpFlows "\<lambda>_. True" "tcp_entries (ic_tcpFlows (fst s))" "tcp_entries (ic_tcpFlows (fst s'))"]
    by (cases s; cases s') (auto simp: tuples_opened_def ic_shared_def table_ok_def)
qed

text \<open>
  Leave to touch a packet: it opens a connection that the process rules let through, it goes
  from the relay to a target, or its connection was opened and not reset.
\<close>

definition licensed :: "Surroundings \<Rightarrow> Ports \<Rightarrow> TcpLog \<Rightarrow> byte list \<Rightarrow> DivertAddress \<Rightarrow> TcpView \<Rightarrow> Interceptor \<Rightarrow> bool" where
  "licensed env ports log p addr v st \<longleftrightarrow>
     (let route = routeOf ports addr v in
      case tupleOf route p v of
        None \<Rightarrow> False
      | Some tuple \<Rightarrow>
          route = RedirectProxyToTarget \<or>
          (if opens route v
           then \<not> isRuled st \<or> fst (askFilter (sys env)
             (processEndpoint (view_ip v) p (sourcePort v) (destinationPort v) Tcp True) True True st)
           else opened log tuple))"

lemma tcpOwned_licensed:
  assumes "tuples_opened (st, log)" and "fst (tcpOwned env p v (routeOf ports addr v) st)"
  shows "licensed env ports log p addr v st"
proof -
  let ?route = "routeOf ports addr v"
  note table = tcpOwned_table [where env = env and p = p and v = v and route = ?route and st = st]
  obtain tuple where t: "tupleOf ?route p v = Some tuple"
    using table assms(2) by (cases "tupleOf ?route p v") auto
  obtain k s l where tuple: "tuple = (k, s, l)" by (cases tuple)
  show ?thesis
  proof (cases "opens ?route v")
    case True
    then show ?thesis
      using assms(2) t
      by (cases ?route) (auto simp: licensed_def tcpOwned_def opens_def Let_def case_prod_beta split: if_splits)
  next
    case False
    have ok: "tcp_ok (ic_tcpFlows st)" using assms(1) by (simp add: tuples_opened_def)
    show ?thesis
      using table tcp_track_known(3) [OF ok, of k s l "fin v" "rst v" 0 "tickCount (sys env)"] assms False
      by (auto simp: licensed_def Let_def t tuple tuples_opened_def)
  qed
qed

text \<open>
  C7. The interceptor touches only connections it admitted. In every history, with other threads
  free to change the shared registries between packets, a TCP packet leaves the loop exactly as
  it came in unless it opens a connection the process rules let through, comes from the relay's
  own connection to a target, or belongs to a connection whose last SYN was taken up and which
  was not reset since. At most 65536 connections are remembered.
\<close>

theorem touched_licensed:
  assumes "reach (ic_step D ports) ic_shared (newInterceptor f, []) (st, log)"
  shows "(if licensed env ports log p addr v st then True else fst (handleTcp D env ports p addr v st) = [(p, addr)]) \<and>
    length (tcp_entries (ic_tcpFlows st)) \<le> 65536"
proof -
  have inv: "tuples_opened (st, log)"
    by (rule packet_history.reach_inv [OF assms]) (simp add: tuples_opened_def newInterceptor_def emptyTcp_def)
  have "fst (handleTcp D env ports p addr v st) = [(p, addr)]" if "\<not> licensed env ports log p addr v st"
    using tcpOwned_licensed [OF inv, of env p v ports addr] that
    by (auto simp: handleTcp_def routeOf_def [symmetric] Let_def case_prod_beta)
  then show ?thesis using inv by (simp add: tuples_opened_def table_ok_def kMaxTcpFlows_def)
qed

definition sampleDivert :: Divert where
  "sampleDivert = \<lparr>parsePacket = (\<lambda>p. \<lparr>parsed = False, ipHeader = None, transportHeader = None, payloadAt = None, nextLength = None\<rparr>),
     calcChecksums = Pair, mtuMax = 65575\<rparr>"

theorem touched_licensed_witness:
  "fst (handleTcp sampleDivert sampleAround samplePorts (sampleTcp [10,0,0,2] 50001 [192,0,2,1] 443 16) sampleAddress
      (tcpView (sampleTcp [10,0,0,2] 50001 [192,0,2,1] 443 16) V4 20 None)
      (snd (handleTcp sampleDivert sampleAround samplePorts (sampleTcp [10,0,0,2] 50000 [192,0,2,1] 443 2) sampleAddress
        (tcpView (sampleTcp [10,0,0,2] 50000 [192,0,2,1] 443 2) V4 20 None) (newInterceptor None)))) =
    [(sampleTcp [10,0,0,2] 50001 [192,0,2,1] 443 16, sampleAddress)]"
proof -
  let ?syn = "sampleTcp [10,0,0,2] 50000 [192,0,2,1] 443 2" and ?stray = "sampleTcp [10,0,0,2] 50001 [192,0,2,1] 443 16"
  let ?op = "CaptureTcp sampleAround ?syn sampleAddress (tcpView ?syn V4 20 None)"
  let ?s = "ic_step sampleDivert samplePorts ?op (newInterceptor None, [])"
  have r: "reach (ic_step sampleDivert samplePorts) ic_shared (newInterceptor None, []) (fst ?s, snd ?s)"
    unfolding prod.collapse by (intro reach.operation reach.start)
  have "\<not> licensed sampleAround samplePorts (snd ?s) ?stray sampleAddress (tcpView ?stray V4 20 None) (fst ?s)"
    by code_simp
  then have "fst (handleTcp sampleDivert sampleAround samplePorts ?stray sampleAddress (tcpView ?stray V4 20 None) (fst ?s)) =
      [(?stray, sampleAddress)]"
    using touched_licensed [OF r, of sampleAround ?stray sampleAddress "tcpView ?stray V4 20 None"] by simp
  then show ?thesis by simp
qed

section \<open>Sending\<close>

lemma resumeLoop_prefix:
  assumes "list_all (\<lambda>l. 0 < l) ls" "k \<le> length ls" "sentBytes = covered + sum_list (take k ls)"
  shows "resumeLoop ls sentBytes n covered = (n + k, sentBytes)"
  using assms
proof (induction ls arbitrary: n covered k)
  case (Cons l ls)
  show ?case
  proof (cases k)
    case (Suc j)
    then show ?thesis using Cons.prems Cons.IH [of j "covered + l" "n + 1"] by simp
  qed (use Cons.prems in simp)
qed simp

lemma resumeIndex_prefix:
  "list_all (\<lambda>l. 0 < l) ls \<Longrightarrow> k \<le> length ls \<Longrightarrow> resumeIndex ls (sum_list (take k ls)) = k"
  using resumeLoop_prefix [of ls k "sum_list (take k ls)" 0 0] by (simp add: resumeIndex_def)

lemma sendOne_running: "stillRunning W = (\<lambda>_ _. True) \<Longrightarrow> snd (sendOne W i retries)"
proof (induction W i retries rule: sendOne.induct)
  case (1 W i retries)
  then show ?case by (subst sendOne.simps) (auto split: option.split)
qed

definition gaveUp :: "SendWorld \<Rightarrow> nat \<Rightarrow> bool" where
  "gaveUp W i \<longleftrightarrow> fst (sendOne W i 0) \<noteq> None"

lemma sendFailed_tolerates:
  assumes "running s" "unat (failedSends s) < 15"
  shows "fst (sendFailed error now s) \<and> running (snd (sendFailed error now s)) \<and>
    unat (failedSends (snd (sendFailed error now s))) \<le> unat (failedSends s) + 1"
proof -
  have step: "unat (failedSends s + 1) = unat (failedSends s) + 1" using assms(2) by (simp add: unat_word_ariths)
  then have "failedSends s + 1 < kFatalSendFailures"
    using assms(2) by (simp add: kFatalSendFailures_def word_less_nat_alt)
  moreover have "(1 :: u32) < kFatalSendFailures" by (simp add: kFatalSendFailures_def)
  ultimately show ?thesis using assms(1) step by (auto simp: sendFailed_def Let_def not_le)
qed

lemma sendRest_neighbours:
  assumes "stillRunning W = (\<lambda>_ _. True)" "running s"
    "unat (failedSends s) + length (filter (\<lambda>(j, x). gaveUp W j) (List.enumerate i xs)) < 16"
  shows "fst (sendRest W i xs s) = map snd (filter (\<lambda>(j, x). \<not> gaveUp W j) (List.enumerate i xs)) \<and>
    running (snd (sendRest W i xs s))"
  using assms(2,3)
proof (induction xs arbitrary: i s)
  case (Cons x xs)
  obtain verdict alive where o: "sendOne W i 0 = (verdict, alive)" by fastforce
  have alive: "alive" using sendOne_running [OF assms(1), of i 0] by (simp add: o)
  show ?case
  proof (cases verdict)
    case None
    then show ?thesis
      using Cons.prems Cons.IH [of "sendSucceeded (s\<lparr>running := True\<rparr>)" "Suc i"] alive
      by (simp add: o gaveUp_def sendSucceeded_def case_prod_beta)
  next
    case (Some error)
    have bound: "unat (failedSends s) < 15" using Cons.prems(2) by (simp add: o gaveUp_def Some)
    obtain go s' where f: "sendFailed error (tickAt W i) s = (go, s')" by fastforce
    have "go" "running s'" "unat (failedSends s') \<le> unat (failedSends s) + 1"
      using sendFailed_tolerates [OF Cons.prems(1) bound, of error "tickAt W i"] by (simp_all add: f)
    then show ?thesis
      using Cons.prems Cons.IH [of s' "Suc i"] alive by (simp add: o gaveUp_def Some f)
  qed
qed simp

text \<open>
  C30. A bad packet does not take its neighbours down. If sending a batch at once fails after
  the driver has sent its first \<open>k\<close> packets, then sending goes on with packet \<open>k\<close>: no packet is
  sent twice, and each of the others is sent in order unless its own attempts fail, as long as
  fewer than sixteen failures are on record.
\<close>

theorem send_neighbours:
  assumes "1 < length batch" and "k \<le> length batch" and "list_all (\<lambda>(packet, addr). packet \<noteq> []) batch"
    and "stillRunning W = (\<lambda>_ _. True)" and "running s"
    and "unat (failedSends s) + length (filter (\<lambda>(j, x). gaveUp W j) (List.enumerate k (drop k batch))) < 16"
  shows "case sendBatch W (Some (sum_list (take k (map (length \<circ> fst) batch)))) True batch s of
    (n, wire, s') \<Rightarrow> take n batch @ wire =
      take k batch @ map snd (filter (\<lambda>(j, x). \<not> gaveUp W j) (List.enumerate k (drop k batch))) \<and> running s'"
proof -
  have ls: "list_all (\<lambda>l. 0 < l) (map (length \<circ> fst) batch)" using assms(3) by (auto simp: list_all_iff)
  have n: "resumeIndex (map (length \<circ> fst) batch) (sum_list (take k (map (length \<circ> fst) batch))) = k"
    by (rule resumeIndex_prefix [OF ls]) (use assms(2) in simp)
  have "batch \<noteq> []" using assms(1) by auto
  then show ?thesis
    using sendRest_neighbours [OF assms(4,5,6)] assms(1) by (simp add: sendBatch_def n case_prod_beta)
qed

definition sampleWorld :: SendWorld where
  "sampleWorld = \<lparr>attempt = (\<lambda>i retries. if i = 1 then Some 87 else None), stillRunning = (\<lambda>_ _. True), tickAt = (\<lambda>_. 0)\<rparr>"

definition idleSends :: SendState where
  "idleSends = \<lparr>failedSends = 0, streakStartMs = 0, lastFailureMs = 0, running = True, fatalErrorCode = 0\<rparr>"

theorem send_neighbours_witness:
  "case sendBatch sampleWorld (Some 3) True [([1, 2, 3], sampleAddress), ([4], sampleAddress), ([5, 6], sampleAddress)] idleSends of
    (n, wire, s') \<Rightarrow> take n [([1, 2, 3], sampleAddress), ([4], sampleAddress), ([5, 6], sampleAddress)] @ wire =
      [([1, 2, 3], sampleAddress), ([5, 6], sampleAddress)] \<and> running s'"
proof -
  let ?batch = "[([1, 2, 3], sampleAddress), ([4], sampleAddress), ([5, 6], sampleAddress)]"
  have g: "gaveUp sampleWorld 1" "\<not> gaveUp sampleWorld 2"
    by (simp_all add: gaveUp_def sampleWorld_def sendOne.simps shouldRetryWinDivertRead_def isTransientWinDivertReadError_def)
  have h: "1 < length ?batch" "1 \<le> length ?batch" "list_all (\<lambda>(packet, addr). packet \<noteq> []) ?batch"
    "stillRunning sampleWorld = (\<lambda>_ _. True)" "running idleSends"
    "unat (failedSends idleSends) + length (filter (\<lambda>(j, x). gaveUp sampleWorld j) (List.enumerate 1 (drop 1 ?batch))) < 16"
    using g by (simp_all add: sampleWorld_def idleSends_def numeral_2_eq_2)
  from send_neighbours [OF h] show ?thesis using g by (simp add: numeral_2_eq_2 numeral_3_eq_3 case_prod_beta)
qed

end
