(* ===== verification/Engine_Options.thy ===== *)
theory Engine_Options
  imports Command_Line Strategy_Store Quic_Strategy
begin

text \<open>
  The command line of the program, \<open>parseArgs\<close> to \<open>collectEngineArguments\<close> of \<open>src/src/main.cpp\<close>, and
  the command line with which \<open>TrayApp::startEngine\<close> of \<open>src/src/TrayApp.cpp\<close> creates the network
  engine. The conversion of an argument from UTF-16 to the narrow \<open>argv\<close> is Windows' and a parameter.
\<close>

section \<open>Options\<close>

record Options =
  opt_workerUrl :: string
  opt_forcedStrategy :: string
  opt_processInclude :: "string list"
  opt_processExclude :: "string list"
  opt_port :: u16
  opt_splitDelayMs :: u32
  opt_splitDelaySet :: bool
  opt_setup :: bool
  opt_setupOnly :: bool
  opt_redeploy :: bool
  opt_manualProxy :: bool
  opt_quicMode :: QuicMode
  opt_tunnelFallback :: bool
  opt_restoreProxy :: bool
  opt_forgetToken :: bool
  opt_forgetStrategies :: bool
  opt_listStrategies :: bool
  opt_verbose :: bool
  opt_console :: bool
  opt_engine :: bool
  opt_shutdownEventName :: string
  opt_readyEventName :: string
  opt_liveStatsName :: string
  opt_parentPid :: u32

definition newOptions :: Options where
  "newOptions = \<lparr>opt_workerUrl = [], opt_forcedStrategy = [], opt_processInclude = [], opt_processExclude = [], opt_port = 1080,
     opt_splitDelayMs = 0, opt_splitDelaySet = False, opt_setup = False, opt_setupOnly = False, opt_redeploy = False,
     opt_manualProxy = False, opt_quicMode = QuicAllow, opt_tunnelFallback = False, opt_restoreProxy = False, opt_forgetToken = False,
     opt_forgetStrategies = False, opt_listStrategies = False, opt_verbose = False, opt_console = False, opt_engine = False,
     opt_shutdownEventName = [], opt_readyEventName = [], opt_liveStatsName = [], opt_parentPid = 0\<rparr>"

definition validProcessPattern :: "string \<Rightarrow> bool" where
  "validProcessPattern pattern \<longleftrightarrow> length pattern > 0 \<and> length pattern \<le> 1024"

definition setPort :: "string \<Rightarrow> Options \<Rightarrow> int + Options" where
  "setPort v opts =
     (let (ok, port) = parseUnsigned v (0 :: u32) in
      if \<not> ok \<or> port = 0 \<or> port > 65535 then Inl 1 else Inr (opts\<lparr>opt_port := ucast port\<rparr>))"

definition setSplitDelay :: "string \<Rightarrow> Options \<Rightarrow> int + Options" where
  "setSplitDelay v opts =
     (let (ok, delay) = parseUnsigned v (opt_splitDelayMs opts) in
      if \<not> ok \<or> delay > 2000 then Inl 1 else Inr (opts\<lparr>opt_splitDelayMs := delay, opt_splitDelaySet := True\<rparr>))"

definition setQuicMode :: "string \<Rightarrow> Options \<Rightarrow> int + Options" where
  "setQuicMode mode opts =
     (if mode = ''adaptive'' then Inr (opts\<lparr>opt_quicMode := QuicAdaptive\<rparr>)
      else if mode = ''block'' then Inr (opts\<lparr>opt_quicMode := QuicBlock\<rparr>)
      else if mode = ''allow'' then Inr (opts\<lparr>opt_quicMode := QuicAllow\<rparr>) else Inl 1)"

definition setParentPid :: "string \<Rightarrow> Options \<Rightarrow> int + Options" where
  "setParentPid v opts =
     (let (ok, pid) = parseUnsigned v (0 :: u32) in if \<not> ok then Inl 1 else Inr (opts\<lparr>opt_parentPid := pid\<rparr>))"

text \<open>The options that take the next argument; \<open>None\<close> for any other name.\<close>

definition valueOption :: "string \<Rightarrow> (string \<Rightarrow> Options \<Rightarrow> int + Options) option" where
  "valueOption arg =
     (if arg = ''--worker'' then Some (\<lambda>v opts. Inr (opts\<lparr>opt_workerUrl := v\<rparr>))
      else if arg = ''--port'' then Some setPort
      else if arg = ''--split-delay'' then Some setSplitDelay
      else if arg = ''--strategy'' then
        Some (\<lambda>v opts. if findProfile v = None then Inl 1 else Inr (opts\<lparr>opt_forcedStrategy := v\<rparr>))
      else if arg = ''--quic-mode'' then Some setQuicMode
      else if arg = ''--include-process'' then
        Some (\<lambda>v opts. if validProcessPattern v then Inr (opts\<lparr>opt_processInclude := opt_processInclude opts @ [v]\<rparr>) else Inl 1)
      else if arg = ''--exclude-process'' then
        Some (\<lambda>v opts. if validProcessPattern v then Inr (opts\<lparr>opt_processExclude := opt_processExclude opts @ [v]\<rparr>) else Inl 1)
      else if arg = ''--shutdown-event'' then Some (\<lambda>v opts. Inr (opts\<lparr>opt_shutdownEventName := v\<rparr>))
      else if arg = ''--ready-event'' then Some (\<lambda>v opts. Inr (opts\<lparr>opt_readyEventName := v\<rparr>))
      else if arg = ''--live-stats'' then Some (\<lambda>v opts. Inr (opts\<lparr>opt_liveStatsName := v\<rparr>))
      else if arg = ''--parent-pid'' then Some setParentPid
      else None)"

definition flagOption :: "string \<Rightarrow> (Options \<Rightarrow> Options) option" where
  "flagOption arg =
     (if arg = ''--manual-proxy'' \<or> arg = ''--no-system-proxy'' then Some (\<lambda>opts. opts\<lparr>opt_manualProxy := True\<rparr>)
      else if arg = ''--allow-quic'' then Some (\<lambda>opts. opts\<lparr>opt_quicMode := QuicAllow\<rparr>)
      else if arg = ''--tunnel-fallback'' then Some (\<lambda>opts. opts\<lparr>opt_tunnelFallback := True\<rparr>)
      else if arg = ''--restore-proxy'' then Some (\<lambda>opts. opts\<lparr>opt_restoreProxy := True\<rparr>)
      else if arg = ''--forget-token'' then Some (\<lambda>opts. opts\<lparr>opt_forgetToken := True\<rparr>)
      else if arg = ''--forget-strategies'' then Some (\<lambda>opts. opts\<lparr>opt_forgetStrategies := True\<rparr>)
      else if arg = ''--list-strategies'' then Some (\<lambda>opts. opts\<lparr>opt_listStrategies := True\<rparr>)
      else if arg = ''--verbose'' then Some (\<lambda>opts. opts\<lparr>opt_verbose := True\<rparr>)
      else if arg = ''--console'' then Some (\<lambda>opts. opts\<lparr>opt_console := True\<rparr>)
      else if arg = ''--engine'' then Some (\<lambda>opts. opts\<lparr>opt_engine := True\<rparr>)
      else if arg = ''--setup'' then Some (\<lambda>opts. opts\<lparr>opt_setup := True\<rparr>)
      else if arg = ''--setup-only'' then Some (\<lambda>opts. opts\<lparr>opt_setup := True, opt_setupOnly := True\<rparr>)
      else if arg = ''--redeploy'' then Some (\<lambda>opts. opts\<lparr>opt_redeploy := True\<rparr>)
      else None)"

text \<open>
  The loop over \<open>argv\<close> behind the program's name; \<open>Inl\<close> is the exit code of a program that ends
  here. A value option at the very end is an unknown parameter.
\<close>

function parseArgs :: "string list \<Rightarrow> Options \<Rightarrow> int + Options" where
  "parseArgs [] opts = Inr opts"
| "parseArgs (arg # rest) opts =
     (case valueOption arg of
        Some set_value \<Rightarrow>
          if rest = [] then Inl 1
          else (case set_value (hd rest) opts of Inl code \<Rightarrow> Inl code | Inr opts1 \<Rightarrow> parseArgs (tl rest) opts1)
      | None \<Rightarrow>
          (case flagOption arg of Some set_flag \<Rightarrow> parseArgs rest (set_flag opts)
           | None \<Rightarrow> Inl (if arg = ''--help'' then 0 else 1)))"
  by pat_completeness auto
termination by (relation "measure (\<lambda>(args, opts). length args)") auto

declare parseArgs.simps(2) [simp del]

definition shouldRunTray :: "Options \<Rightarrow> bool" where
  "shouldRunTray opts \<longleftrightarrow> \<not> opt_engine opts \<and> \<not> opt_console opts \<and> \<not> opt_verbose opts \<and>
     \<not> opt_manualProxy opts \<and> \<not> opt_setup opts \<and> \<not> opt_redeploy opts \<and> \<not> opt_restoreProxy opts \<and>
     \<not> opt_forgetToken opts \<and> \<not> opt_forgetStrategies opts \<and> \<not> opt_listStrategies opts"

section \<open>The engine's command line\<close>

definition internalValue :: "wchar list \<Rightarrow> bool" where
  "internalValue argument \<longleftrightarrow> argument = wide ''--shutdown-event'' \<or> argument = wide ''--ready-event'' \<or>
     argument = wide ''--parent-pid'' \<or> argument = wide ''--live-stats''"

function collectEngineArguments :: "wchar list list \<Rightarrow> wchar list list" where
  "collectEngineArguments [] = []"
| "collectEngineArguments (argument # rest) =
     (if internalValue argument then collectEngineArguments (tl rest)
      else if argument = wide ''--engine'' then collectEngineArguments rest
      else argument # collectEngineArguments rest)"
  by pat_completeness auto
termination by (relation "measure length") auto

definition engineArguments :: "wchar list list \<Rightarrow> string \<Rightarrow> string \<Rightarrow> u32 \<Rightarrow> string \<Rightarrow> wchar list list" where
  "engineArguments collected shutdownName readyName pid liveStatsName =
     collected @ [wide ''--engine'', wide ''--shutdown-event'', wide shutdownName, wide ''--ready-event'', wide readyName,
       wide ''--parent-pid'', wide (dec_digits (unat pid)), wide ''--live-stats'', wide liveStatsName]"

definition engineCommandLine :: "wchar list \<Rightarrow> wchar list list \<Rightarrow> wchar list" where
  "engineCommandLine executable arguments =
     quoteArgument executable @ concat (map (\<lambda>argument. 32 # quoteArgument argument) arguments)"

section \<open>The engine runs with the tray's options\<close>

lemma engineCommandLine_join: "engineCommandLine executable arguments = joinArgs (executable # arguments)"
  by (induction arguments arbitrary: executable) (simp_all add: engineCommandLine_def)

text \<open>
  What is relied on of the conversion: an ASCII string comes from the wide string with the same
  characters and from no other.
\<close>

definition ascii :: "string \<Rightarrow> bool" where
  "ascii s \<longleftrightarrow> list_all (\<lambda>c. of_char c < (128 :: nat)) s"

definition ascii_faithful :: "(wchar list \<Rightarrow> string) \<Rightarrow> bool" where
  "ascii_faithful narrow \<longleftrightarrow> (\<forall>w s. ascii s \<longrightarrow> (narrow w = s \<longleftrightarrow> w = wide s))"

definition internalName :: "string \<Rightarrow> bool" where
  "internalName arg \<longleftrightarrow> arg = ''--shutdown-event'' \<or> arg = ''--ready-event'' \<or> arg = ''--parent-pid'' \<or> arg = ''--live-stats''"

text \<open>No value of an option is itself the name of an internal option.\<close>

function plainValues :: "string list \<Rightarrow> bool" where
  "plainValues [] \<longleftrightarrow> True"
| "plainValues (arg # rest) \<longleftrightarrow>
     (if valueOption arg \<noteq> None
      then (rest \<noteq> [] \<longrightarrow> \<not> internalName (hd rest) \<and> hd rest \<noteq> ''--engine'') \<and> plainValues (tl rest)
      else plainValues rest)"
  by pat_completeness auto
termination by (relation "measure length") auto

definition clearInternal :: "Options \<Rightarrow> Options" where
  "clearInternal opts = opts\<lparr>opt_engine := False, opt_shutdownEventName := [], opt_readyEventName := [], opt_liveStatsName := [], opt_parentPid := 0\<rparr>"

text \<open>Setting an option either belongs to the engine's own channel or commutes with forgetting it.\<close>

lemma valueOption_internal:
  assumes "valueOption arg = Some f" "f v opts = Inr opts1"
  shows "if internalName arg then clearInternal opts1 = clearInternal opts else f v (clearInternal opts) = Inr (clearInternal opts1)"
  using assms
  by (auto simp: valueOption_def internalName_def clearInternal_def setPort_def setSplitDelay_def setQuicMode_def setParentPid_def
      split: if_splits prod.splits)

lemma flagOption_internal:
  assumes "flagOption arg = Some f"
  shows "clearInternal (f opts) = (if arg = ''--engine'' then clearInternal opts else f (clearInternal opts))"
  using assms by (auto simp: flagOption_def clearInternal_def split: if_splits)

lemma internal_is_value: "internalName arg \<Longrightarrow> valueOption arg \<noteq> None"
  by (auto simp: internalName_def valueOption_def)

lemma engine_is_flag: "valueOption ''--engine'' = None"
  by (simp add: valueOption_def)

lemma narrow_internal:
  assumes "ascii_faithful narrow"
  shows "internalValue w \<longleftrightarrow> internalName (narrow w)" "w = wide ''--engine'' \<longleftrightarrow> narrow w = ''--engine''"
proof -
  have "narrow w = s \<longleftrightarrow> w = wide s" if "ascii s" for s using assms that by (simp add: ascii_faithful_def)
  then show "internalValue w \<longleftrightarrow> internalName (narrow w)" "w = wide ''--engine'' \<longleftrightarrow> narrow w = ''--engine''"
    by (simp_all add: internalValue_def internalName_def ascii_def)
qed

lemma collect_parse:
  assumes "ascii_faithful narrow"
  shows "parseArgs (map narrow ws) opts = Inr opts1 \<Longrightarrow> plainValues (map narrow ws) \<Longrightarrow>
    parseArgs (map narrow (collectEngineArguments ws) @ extra) (clearInternal opts) = parseArgs extra (clearInternal opts1)"
proof (induction "length ws" arbitrary: ws opts rule: less_induct)
  case less
  show ?case
  proof (cases ws)
    case Nil
    then show ?thesis using less.prems by simp
  next
    case (Cons w rest)
    note internal = narrow_internal [OF assms]
    show ?thesis
    proof (cases "valueOption (narrow w)")
      case None
      then obtain f where flag: "flagOption (narrow w) = Some f" "parseArgs (map narrow rest) (f opts) = Inr opts1"
        using less.prems(1) Cons by (auto simp: parseArgs.simps(2) split: option.splits)
      have "\<not> internalValue w" using None internal(1) internal_is_value by blast
      moreover have "parseArgs (map narrow (collectEngineArguments rest) @ extra) (clearInternal (f opts)) = parseArgs extra (clearInternal opts1)"
        by (rule less.hyps [OF _ flag(2)]) (use less.prems(2) Cons None in auto)
      ultimately show ?thesis using flagOption_internal [OF flag(1), of opts] None flag(1) Cons internal(2)
        by (auto simp: parseArgs.simps(2) split: if_splits)
    next
      case (Some f)
      then obtain v rest1 opts2 where rest: "rest = v # rest1" "f (narrow v) opts = Inr opts2" "parseArgs (map narrow rest1) opts2 = Inr opts1"
        using less.prems(1) Cons by (cases rest) (auto simp: parseArgs.simps(2) split: sum.splits)
      have plain: "\<not> internalValue v" "v \<noteq> wide ''--engine''" "plainValues (map narrow rest1)"
        using less.prems(2) Cons rest(1) Some internal by auto
      have later: "parseArgs (map narrow (collectEngineArguments rest1) @ extra) (clearInternal opts2) = parseArgs extra (clearInternal opts1)"
        by (rule less.hyps [OF _ rest(3) plain(3)]) (simp add: Cons rest(1))
      have "w \<noteq> wide ''--engine''" using Some engine_is_flag internal(2) [of w] by (metis option.distinct(1))
      then have collected: "collectEngineArguments ws =
          (if internalName (narrow w) then collectEngineArguments rest1 else w # v # collectEngineArguments rest1)"
        using plain(1,2) by (simp add: Cons rest(1) internal(1))
      show ?thesis
      proof (cases "internalName (narrow w)")
        case True
        then show ?thesis using later valueOption_internal [OF Some rest(2)] by (simp add: collected)
      next
        case False
        then have "f (narrow v) (clearInternal opts) = Inr (clearInternal opts2)"
          using valueOption_internal [OF Some rest(2)] by simp
        then show ?thesis using later False Some by (simp add: collected parseArgs.simps(2))
      qed
    qed
  qed
qed

lemma ascii_digits: "ascii (dec_digits n)"
  using dec_digits_props [of n] by (auto simp: ascii_def list_all_iff isdigit_def)

lemma parseUnsigned_digits: "parseUnsigned (dec_digits (unat (v :: u32))) w = (True, v)"
proof -
  have digits: "takeWhile isdigit (dec_digits (unat v)) = dec_digits (unat v)" "dec_digits (unat v) \<noteq> []"
    using dec_digits_props [of "unat v"] by (auto simp: takeWhile_eq_all_conv)
  then show ?thesis using unsigned_less [of v, where ?'a = nat] unfolding parseUnsigned_def Let_def digits(1) by simp
qed

lemma parse_engine_channel:
  "parseArgs [''--engine'', ''--shutdown-event'', a, ''--ready-event'', b, ''--parent-pid'', dec_digits (unat pid), ''--live-stats'', c] opts =
     Inr (opts\<lparr>opt_engine := True, opt_shutdownEventName := a, opt_readyEventName := b, opt_parentPid := pid, opt_liveStatsName := c\<rparr>)"
  by (simp add: parseArgs.simps(2) valueOption_def flagOption_def setParentPid_def parseUnsigned_digits)


definition sampleNarrow :: "wchar list \<Rightarrow> string" where
  "sampleNarrow = map (\<lambda>x. if x < 128 then char_of (unat x) else CHR 0xFF)"

lemma narrow_char:
  assumes "of_char c < (128 :: nat)"
  shows "(if x < 128 then char_of (unat x) else CHR 0xFF) = c \<longleftrightarrow> (x :: wchar) = of_nat (of_char c)"
proof
  have "unat (of_nat (of_char c) :: wchar) = of_char c" using assms by (simp add: unat_of_nat take_bit_nat_eq_self)
  moreover have "(of_nat (of_char c) :: wchar) < 128" unfolding word_less_nat_alt using assms calculation by simp
  ultimately show "x = of_nat (of_char c) \<Longrightarrow> (if x < 128 then char_of (unat x) else CHR 0xFF) = c" by simp
  assume conv: "(if x < 128 then char_of (unat x) else CHR 0xFF) = c"
  have "x < 128"
  proof (rule ccontr)
    assume "\<not> x < 128"
    then show False using conv assms by auto
  qed
  then have "unat x < 128" "c = char_of (unat x)" using conv by (auto simp: word_less_nat_alt)
  then have "of_char c = unat x" by (simp add: of_char_of)
  then show "x = of_nat (of_char c)" by simp
qed

lemma sampleNarrow_faithful: "ascii_faithful sampleNarrow"
proof -
  have "ascii s \<Longrightarrow> sampleNarrow w = s \<longleftrightarrow> w = wide s" for w s
  proof (induction w arbitrary: s)
    case Nil
    then show ?case by (cases s) (auto simp: sampleNarrow_def wide_def)
  next
    case (Cons x w)
    then show ?case using narrow_char [of _ x]
      by (cases s) (auto simp: sampleNarrow_def wide_def ascii_def)
  qed
  then show ?thesis by (simp add: ascii_faithful_def)
qed


end
