(* ===== verification/Json_Document.thy ===== *)
theory Json_Document
  imports Json
begin

text \<open>
  What the scanning reader of \<open>src/src/Json.hpp\<close> finds in a document the program wrote itself. The
  reader looks for a quoted key anywhere in the text; the lemmas show that neither other members nor
  the contents of string values, however chosen, can be taken for the key.
\<close>

section \<open>The reader on suffixes\<close>

text \<open>\<open>key_here\<close>: the text starts with the quoted key, white space and a colon; the result is what follows.\<close>

definition key_here :: "string \<Rightarrow> string \<Rightarrow> string option" where
  "key_here needle t =
     (if take (length needle) t = needle
      then (case dropWhile isWs (drop (length needle) t) of
              c # r \<Rightarrow> if c = CHR '':'' then Some (dropWhile isWs r) else None
            | [] \<Rightarrow> None)
      else None)"

fun value_of :: "string \<Rightarrow> string \<Rightarrow> string option" where
  "value_of needle [] = None"
| "value_of needle (c # cs) =
     (case key_here needle (c # cs) of Some v \<Rightarrow> Some v | None \<Rightarrow> value_of needle cs)"

lemma drop_skipWs: "drop (skipWs s p) s = dropWhile isWs (drop p s)"
proof (induction s p rule: skipWs.induct)
  case (1 s p)
  show ?case
  proof (cases "p < length s")
    case True
    then have "drop p s = s ! p # drop (p + 1) s" by (simp add: Cons_nth_drop_Suc)
    then show ?thesis using 1 True by (subst skipWs.simps) auto
  next
    case False
    then show ?thesis by (subst skipWs.simps) simp
  qed
qed

lemma find_from_step:
  "find_from s needle i = (if i + length needle > length s then None
     else if take (length needle) (drop i s) = needle then Some i else find_from s needle (i + 1))"
  by (subst find_from.simps) simp

lemma findValueFrom_here:
  assumes "i + length needle \<le> length s" "take (length needle) (drop i s) = needle"
  shows "findValueFrom s needle i = (let colon = skipWs s (i + length needle) in
    if colon < length s \<and> s ! colon = CHR '':'' then Some (skipWs s (colon + 1)) else findValueFrom s needle (i + 1))"
  using assms by (subst findValueFrom.simps) (simp add: find_from_step [of s needle i])

lemma findValueFrom_not_here:
  assumes "take (length needle) (drop i s) \<noteq> needle"
  shows "findValueFrom s needle i = findValueFrom s needle (i + 1)"
proof -
  have "find_from s needle i = find_from s needle (i + 1)"
    using assms find_from_step [of s needle i] find_from_step [of s needle "i + 1"] by auto
  then show ?thesis by (subst (1 2) findValueFrom.simps) simp
qed

lemma key_here_colon:
  assumes "take (length needle) (drop i s) = needle" "i + length needle \<le> length s"
  shows "key_here needle (drop i s) = (let colon = skipWs s (i + length needle) in
    if colon < length s \<and> s ! colon = CHR '':'' then Some (drop (skipWs s (colon + 1)) s) else None)"
proof -
  let ?c = "skipWs s (i + length needle)"
  have rest: "dropWhile isWs (drop (length needle) (drop i s)) = drop ?c s"
    by (simp add: drop_skipWs add.commute)
  show ?thesis
  proof (cases "?c < length s")
    case True
    then have "drop ?c s = s ! ?c # drop (?c + 1) s" by (simp add: Cons_nth_drop_Suc)
    then show ?thesis using assms(1) rest True by (simp add: key_here_def drop_skipWs Let_def)
  next
    case False
    then show ?thesis unfolding key_here_def rest by (simp add: Let_def)
  qed
qed

lemma value_of_short: "length t < length needle \<Longrightarrow> value_of needle t = None"
proof (induction t)
  case (Cons c t)
  then have "take (length needle) (c # t) \<noteq> needle" by (metis length_take min.cobounded1 not_less)
  then show ?case using Cons by (simp add: key_here_def)
qed simp

lemma findValueFrom_value_of:
  "needle \<noteq> [] \<Longrightarrow> map_option (\<lambda>p. drop p s) (findValueFrom s needle i) = value_of needle (drop i s)"
proof (induction "Suc (length s) - i" arbitrary: i)
  case (Suc n)
  show ?case
  proof (cases "i + length needle \<le> length s")
    case True
    then have cons: "drop i s = s ! i # drop (i + 1) s" using Suc.prems by (cases needle) (auto simp: Cons_nth_drop_Suc)
    have later: "map_option (\<lambda>p. drop p s) (findValueFrom s needle (i + 1)) = value_of needle (drop (i + 1) s)"
      using Suc.hyps(1) [of "i + 1"] Suc.hyps(2) Suc.prems by simp
    show ?thesis
    proof (cases "take (length needle) (drop i s) = needle")
      case here: True
      show ?thesis using key_here_colon [OF here True] later cons findValueFrom_here [OF True here]
        by (auto simp: Let_def)
    next
      case False
      then have "key_here needle (drop i s) = None" by (simp add: key_here_def)
      then show ?thesis using later cons findValueFrom_not_here [OF False] by simp
    qed
  next
    case False
    then have "findValueFrom s needle i = None"
      by (subst findValueFrom.simps) (simp add: find_from_step [of s needle i])
    moreover have "length (drop i s) < length needle" using False Suc.prems by (cases needle) auto
    ultimately show ?thesis using value_of_short by simp
  qed
next
  case 0
  then have "length s < i" by simp
  then have "findValueFrom s needle i = None"
    by (subst findValueFrom.simps) (simp add: find_from_step [of s needle i])
  then show ?case using \<open>length s < i\<close> by simp
qed

lemma findValue_value_of: "map_option (\<lambda>p. drop p s) (findValue s key 0) = value_of (quoted key) s"
  using findValueFrom_value_of [of "quoted key" s 0] by (simp add: findValue_def quoted_def)

section \<open>Silent text\<close>

text \<open>A name that may be a key: not empty, and no character of it is special in the documents.\<close>

definition plain :: "string \<Rightarrow> bool" where
  "plain key \<longleftrightarrow> key \<noteq> [] \<and> (\<forall>c \<in> set key. c \<notin> {CHR 0x22, CHR 0x5C, CHR '','', CHR '']'', CHR '':'', CHR '' '', CHR 0x0A})"

lemma value_of_no_quote:
  "CHR 0x22 \<notin> set s \<Longrightarrow> value_of (quoted key) (s @ t) = value_of (quoted key) t"
  by (induction s) (auto simp: key_here_def quoted_def)

lemma escape_quote:
  "escape v = x @ CHR 0x22 # w \<Longrightarrow> x \<noteq> [] \<and> last x = CHR 0x5C"
proof (induction v arbitrary: x)
  case (Cons c v)
  have hex: "hexDigit n \<noteq> CHR 0x22" if "n < 16" for n
    using hexDigit_inverse [OF that] by (auto simp: isxdigit_def)
  have split: "escape_char c @ escape v = x @ CHR 0x22 # w" using Cons.prems by (simp add: escape_def)
  show ?case
  proof (cases "length x < length (escape_char c)")
    case True
    then obtain z where "escape_char c = x @ CHR 0x22 # z"
      using split by (auto simp: append_eq_append_conv2 append_eq_Cons_conv)
    then show ?thesis using hex [of 0] hex [of "of_char c div 16"] hex [of "of_char c mod 16"]
      by (auto simp: escape_char_def Cons_eq_append_conv split: if_splits)
  next
    case False
    then obtain x' where "x = escape_char c @ x'" "escape v = x' @ CHR 0x22 # w"
      using split by (auto simp: append_eq_append_conv2)
    then show ?thesis using Cons.IH [of x'] by auto
  qed
qed (simp add: escape_def)

lemma split_inside:
  assumes "a @ x # b = c @ d" "length a < length c"
  shows "\<exists>w. c = a @ x # w"
proof -
  have "take (length a) c = a" using arg_cong [OF assms(1), of "take (length a)"] assms(2) by simp
  moreover have "c ! length a = x" using arg_cong [OF assms(1), of "\<lambda>l. l ! length a"] assms(2) by (simp add: nth_append)
  ultimately show ?thesis using id_take_nth_drop [OF assms(2)] by metis
qed

text \<open>Where a key can end in a written string: only at its closing quote.\<close>

lemma key_in_string:
  assumes "plain key" "u @ key @ CHR 0x22 # y = escape v @ CHR 0x22 # r" "length u \<le> length (escape v)"
  shows "y = r"
proof -
  have no_quote: "CHR 0x22 \<notin> set key" and key: "key \<noteq> []" "last key \<noteq> CHR 0x5C"
    using assms(1) last_in_set unfolding plain_def by blast+
  consider (less) "length (u @ key) < length (escape v)" | (equal) "length (u @ key) = length (escape v)"
    | (more) "length (escape v) < length (u @ key)" by linarith
  then show ?thesis
  proof cases
    case less
    then obtain w where "escape v = (u @ key) @ CHR 0x22 # w"
      using split_inside [of "u @ key" "CHR 0x22" y "escape v"] assms(2) by auto
    then have "last (u @ key) = CHR 0x5C" using escape_quote by blast
    then show ?thesis using key by simp
  next
    case equal
    then have "(u @ key) @ CHR 0x22 # y = escape v @ CHR 0x22 # r" using assms(2) by simp
    then show ?thesis using equal by (metis append_eq_append_conv list.inject)
  next
    case more
    let ?t = "u @ key @ CHR 0x22 # y"
    let ?n = "length (escape v)"
    have "?t ! ?n = CHR 0x22" unfolding assms(2) by simp
    moreover have inside: "?n - length u < length key" using more assms(3) by auto
    moreover have "?t ! ?n = key ! (?n - length u)"
      using inside assms(3) by (simp only: nth_append not_less [symmetric] if_False if_True)
    ultimately show ?thesis using no_quote by (metis nth_mem)
  qed
qed

lemma key_here_quoted:
  assumes "key_here (quoted key) t = Some w"
  shows "\<exists>y. t = CHR 0x22 # key @ CHR 0x22 # y \<and> (\<exists>z. dropWhile isWs y = CHR '':'' # z)"
proof -
  have "take (length (quoted key)) t = quoted key" using assms by (auto simp: key_here_def split: if_splits)
  then have "t = quoted key @ drop (length (quoted key)) t" by (metis append_take_drop_id)
  then show ?thesis using assms
    by (intro exI [of _ "drop (length (quoted key)) t"])
      (auto simp: key_here_def quoted_def split: if_splits list.splits)
qed

text \<open>What stands behind a written value: a comma, a bracket or the end of the line, and no colon.\<close>

definition ends_value :: "string \<Rightarrow> bool" where
  "ends_value t \<longleftrightarrow> (case t of [] \<Rightarrow> False | c # r \<Rightarrow> c = CHR '','' \<or> c = CHR '']'' \<or> c = CHR 0x0A) \<and>
     (case dropWhile isWs t of [] \<Rightarrow> True | c # r \<Rightarrow> c \<noteq> CHR '':'')"

lemma ends_value_mark: "c = CHR '','' \<or> c = CHR '']'' \<Longrightarrow> ends_value (c # r)"
  by (auto simp: ends_value_def isWs_def)

lemma value_of_in_string:
  assumes "plain key" "ends_value (c # r)" "escape v = u @ t"
  shows "value_of (quoted key) (t @ CHR 0x22 # c # r) = value_of (quoted key) (c # r)"
  using assms(3)
proof (induction t arbitrary: u)
  case Nil
  have "key_here (quoted key) (CHR 0x22 # c # r) = None"
  proof (rule ccontr)
    assume "key_here (quoted key) (CHR 0x22 # c # r) \<noteq> None"
    then obtain y where "c # r = key @ CHR 0x22 # y" using key_here_quoted by fastforce
    then show False using assms(1,2) by (cases key) (auto simp: plain_def ends_value_def)
  qed
  then show ?case by simp
next
  case (Cons d t)
  have "key_here (quoted key) (d # t @ CHR 0x22 # c # r) = None"
  proof (rule ccontr)
    assume "key_here (quoted key) (d # t @ CHR 0x22 # c # r) \<noteq> None"
    then obtain y z where y: "d = CHR 0x22" "t @ CHR 0x22 # c # r = key @ CHR 0x22 # y" "dropWhile isWs y = CHR '':'' # z"
      using key_here_quoted by fastforce
    then have "(u @ [d]) @ key @ CHR 0x22 # y = escape v @ CHR 0x22 # c # r" using Cons.prems by simp
    then have "y = c # r" by (rule key_in_string [OF assms(1)]) (simp add: Cons.prems)
    then show False using y(3) assms(2) by (simp add: ends_value_def)
  qed
  then show ?case using Cons.IH [of "u @ [d]"] Cons.prems by simp
qed

lemma value_of_string:
  assumes "plain key" "ends_value (c # r)"
  shows "value_of (quoted key) (quoted (escape v) @ c # r) = value_of (quoted key) (c # r)"
proof -
  have "key_here (quoted key) (CHR 0x22 # escape v @ CHR 0x22 # c # r) = None"
  proof (rule ccontr)
    assume "key_here (quoted key) (CHR 0x22 # escape v @ CHR 0x22 # c # r) \<noteq> None"
    then obtain y z where y: "escape v @ CHR 0x22 # c # r = key @ CHR 0x22 # y" "dropWhile isWs y = CHR '':'' # z"
      using key_here_quoted by fastforce
    then have "[] @ key @ CHR 0x22 # y = escape v @ CHR 0x22 # c # r" by simp
    then have "y = c # r" by (rule key_in_string [OF assms(1)]) simp
    then show False using y(2) assms(2) by (simp add: ends_value_def)
  qed
  then show ?thesis using value_of_in_string [OF assms, of v "[]" "escape v"] by (simp add: quoted_def)
qed

lemma value_of_other_key:
  assumes "plain key" "plain other" "key \<noteq> other"
  shows "value_of (quoted key) (quoted other @ CHR '':'' # r) = value_of (quoted key) r"
proof -
  have first: "key_here (quoted key) (CHR 0x22 # other @ CHR 0x22 # CHR '':'' # r) = None"
  proof (rule ccontr)
    assume "key_here (quoted key) (CHR 0x22 # other @ CHR 0x22 # CHR '':'' # r) \<noteq> None"
    then obtain y where y: "other @ CHR 0x22 # CHR '':'' # r = key @ CHR 0x22 # y" using key_here_quoted by fastforce
    have "takeWhile (\<lambda>c. c \<noteq> CHR 0x22) (other @ CHR 0x22 # CHR '':'' # r) = other"
      "takeWhile (\<lambda>c. c \<noteq> CHR 0x22) (key @ CHR 0x22 # y) = key"
      using assms(1,2) by (subst takeWhile_append2; auto simp: plain_def)+
    then show False using y assms(3) by simp
  qed
  have last: "key_here (quoted key) (CHR 0x22 # CHR '':'' # r) = None"
  proof (rule ccontr)
    assume "key_here (quoted key) (CHR 0x22 # CHR '':'' # r) \<noteq> None"
    then obtain y where "CHR '':'' # r = key @ CHR 0x22 # y" using key_here_quoted by fastforce
    then show False using assms(1) by (cases key) (auto simp: plain_def)
  qed
  have "value_of (quoted key) (other @ CHR 0x22 # CHR '':'' # r) = value_of (quoted key) (CHR 0x22 # CHR '':'' # r)"
    by (rule value_of_no_quote) (use assms(2) in \<open>auto simp: plain_def\<close>)
  moreover have "value_of (quoted key) (CHR '':'' # r) = value_of (quoted key) r"
    using value_of_no_quote [of "[CHR '':'']" key r] by simp
  ultimately show ?thesis using first last by (simp add: quoted_def)
qed

lemma value_of_key: "value_of (quoted key) (quoted key @ CHR '':'' # CHR '' '' # c # r) = Some (c # r)"
  if "\<not> isWs c"
  using that by (simp add: quoted_def key_here_def isWs_def)

lemma value_of_skip: "c \<noteq> CHR 0x22 \<Longrightarrow> value_of (quoted key) (c # r) = value_of (quoted key) r"
  by (simp add: key_here_def quoted_def)

declare value_of.simps(2) [simp del]

lemma isWs_char [simp]: "isWs (CHR '' '')" "\<not> isWs (CHR '']'')" "\<not> isWs (CHR '','')" "\<not> isWs (CHR 0x22)"
  by (simp_all add: isWs_def)

section \<open>Documents with one member per line\<close>

text \<open>A value that no key can be mistaken for.\<close>

definition silent :: "string \<Rightarrow> bool" where
  "silent v \<longleftrightarrow> (\<exists>d ds. v = d # ds \<and> \<not> isWs d) \<and>
     (\<forall>key c r. plain key \<longrightarrow> ends_value (c # r) \<longrightarrow> value_of (quoted key) (v @ c # r) = value_of (quoted key) (c # r))"

lemma silent_string: "silent (quoted (escape v))"
  using value_of_string by (auto simp: silent_def quoted_def isWs_def)

lemma silent_no_quote: "CHR 0x22 \<notin> set v \<Longrightarrow> v = d # ds \<Longrightarrow> \<not> isWs d \<Longrightarrow> silent v"
  unfolding silent_def using value_of_no_quote [of v] by blast

lemma silent_number: "silent (dec_digits n)"
proof -
  obtain d ds where digits: "dec_digits n = d # ds" using dec_digits_props [of n] by (cases "dec_digits n") auto
  have "isdigit c" if "c \<in> set (dec_digits n)" for c using isdigit_dec_digits [OF that] .
  moreover have "\<not> isdigit (CHR 0x22)" "\<not> (isdigit d \<and> isWs d)" by (auto simp: isdigit_def isWs_def)
  ultimately have "CHR 0x22 \<notin> set (dec_digits n)" "\<not> isWs d" using digits list.set_intros(1) by (blast, metis)
  then show ?thesis using silent_no_quote digits by blast
qed

lemma silent_bool: "silent (if b then ''true'' else ''false'')"
  by (cases b) (auto intro!: silent_no_quote simp: isWs_def)

fun arrayItems :: "bool \<Rightarrow> string list \<Rightarrow> string" where
  "arrayItems first [] = []"
| "arrayItems first (v # vs) = (if first then [] else '', '') @ quoted (escape v) @ arrayItems False vs"

definition arrayText :: "string list \<Rightarrow> string" where
  "arrayText vs = ''['' @ arrayItems True vs @ '']''"

lemma value_of_items:
  "plain key \<Longrightarrow> value_of (quoted key) (arrayItems first vs @ CHR '']'' # r) = value_of (quoted key) (CHR '']'' # r)"
proof (induction vs arbitrary: first)
  case (Cons v vs)
  obtain c r' where next': "arrayItems False vs @ CHR '']'' # r = c # r'" "c = CHR '','' \<or> c = CHR '']''"
    by (cases vs) auto
  have "value_of (quoted key) (quoted (escape v) @ arrayItems False vs @ CHR '']'' # r) = value_of (quoted key) (CHR '']'' # r)"
    using value_of_string [OF Cons.prems ends_value_mark [OF next'(2)], of v r'] Cons.IH [OF Cons.prems, of False] by (simp add: next'(1))
  then show ?case by (simp add: value_of_skip)
qed simp

lemma silent_array: "silent (arrayText vs)"
proof -
  have "value_of (quoted key) (arrayText vs @ c # r) = value_of (quoted key) (c # r)" if "plain key" for key c r
    using value_of_items [OF that, of True vs "c # r"] by (simp add: arrayText_def value_of_skip)
  then show ?thesis by (auto simp: silent_def arrayText_def isWs_def)
qed

text \<open>The members of an object, one per line, as \<open>Config::save\<close> writes them.\<close>

fun memberLines :: "(string \<times> string) list \<Rightarrow> string" where
  "memberLines [] = []"
| "memberLines ((key, v) # ms) = ''  '' @ quoted key @ '': '' @ v @ (if ms = [] then [] else '','') @ [CHR 0x0A] @ memberLines ms"

fun members_ok :: "(string \<times> string) list \<Rightarrow> bool" where
  "members_ok [] = True"
| "members_ok ((key, v) # ms) = (plain key \<and> silent v \<and> members_ok ms)"

lemma value_of_member:
  assumes "plain key" "plain other" "silent v" "ends_value (c # r)"
  shows "value_of (quoted key) (''  '' @ quoted other @ '': '' @ v @ c # r) =
    (if key = other then Some (v @ c # r) else value_of (quoted key) (c # r))"
proof -
  obtain d ds where v: "v = d # ds" "\<not> isWs d" using assms(3) by (auto simp: silent_def)
  show ?thesis
  proof (cases "key = other")
    case True
    then show ?thesis using value_of_key [OF v(2), of key "ds @ c # r"] by (simp add: value_of_skip v)
  next
    case False
    have "value_of (quoted key) (v @ c # r) = value_of (quoted key) (c # r)"
      using assms(1,3,4) by (simp add: silent_def)
    then show ?thesis using False value_of_other_key [OF assms(1,2) False, of "CHR '' '' # v @ c # r"]
      by (simp add: value_of_skip)
  qed
qed

lemma memberLines_lookup:
  assumes "members_ok ms" "plain key" "CHR 0x22 \<notin> set tail" "ends_value (CHR 0x0A # tail)"
  shows "case map_of ms key of
      None \<Rightarrow> value_of (quoted key) (memberLines ms @ tail) = None
    | Some v \<Rightarrow> (\<exists>c r. value_of (quoted key) (memberLines ms @ tail) = Some (v @ c # r) \<and> (c = CHR '','' \<or> c = CHR 0x0A))"
  using assms(1)
proof (induction ms)
  case Nil
  then show ?case using value_of_no_quote [OF assms(3), of key "[]"] by simp
next
  case (Cons m ms)
  obtain other v where m: "m = (other, v)" by (cases m)
  define c where "c = (if ms = [] then CHR 0x0A else CHR '','')"
  define r where "r = (if ms = [] then [] else [CHR 0x0A]) @ memberLines ms @ tail"
  have doc: "memberLines (m # ms) @ tail = ''  '' @ quoted other @ '': '' @ v @ c # r"
    by (simp add: m c_def r_def)
  have "ends_value (c # r)" using assms(4) ends_value_mark by (simp add: c_def r_def)
  moreover have "silent v" "plain other" using Cons.prems by (simp_all add: m)
  ultimately have here: "value_of (quoted key) (''  '' @ quoted other @ '': '' @ v @ c # r) =
      (if key = other then Some (v @ c # r) else value_of (quoted key) (c # r))"
    using value_of_member [OF assms(2)] by blast
  have "value_of (quoted key) (c # r) = value_of (quoted key) (memberLines ms @ tail)"
    by (simp add: c_def r_def value_of_skip)
  then have step: "value_of (quoted key) (memberLines (m # ms) @ tail) =
      (if key = other then Some (v @ c # r) else value_of (quoted key) (memberLines ms @ tail))"
    unfolding doc using here by simp
  have "c = CHR '','' \<or> c = CHR 0x0A" by (simp add: c_def)
  then show ?case unfolding step using Cons.IH Cons.prems by (simp add: m)
qed

section \<open>Reading a member back\<close>

lemma value_of_found: "value_of (quoted key) s = Some v \<Longrightarrow> \<exists>p. findValue s key 0 = Some p \<and> drop p s = v"
  using findValue_value_of [of s key] by (cases "findValue s key 0") auto

lemma value_of_missing: "value_of (quoted key) s = None \<Longrightarrow> findValue s key 0 = None"
  using findValue_value_of [of s key] by simp

lemma getString_member:
  "value_of (quoted key) s = Some (quoted (escape v) @ r) \<Longrightarrow> getString s key 0 = v"
  using value_of_found parseString_quoted by (fastforce simp: getString_def)

lemma getBool_member: "value_of (quoted key) s = Some ((if b then ''true'' else ''false'') @ r) \<Longrightarrow> getBool s key = b"
  by (drule value_of_found) (auto simp: getBool_def split: if_splits)

lemma takeWhile_digits: "\<not> isdigit c \<Longrightarrow> takeWhile isdigit (dec_digits n @ c # r) = dec_digits n"
  using isdigit_dec_digits by (simp add: takeWhile_append)

lemma getInt_member:
  assumes "value_of (quoted key) s = Some (dec_digits n @ c # r)" "\<not> isdigit c" "n < 2 ^ 63"
  shows "getInt s key fallback = int n"
proof -
  obtain p where p: "findValue s key 0 = Some p" "drop p s = dec_digits n @ c # r"
    using value_of_found [OF assms(1)] by blast
  obtain d ds where digits: "dec_digits n = d # ds" using dec_digits_props [of n] by (cases "dec_digits n") auto
  have d: "isdigit d" using isdigit_dec_digits [of d n] digits by simp
  then have minus: "d \<noteq> CHR ''-''" by (auto simp: isdigit_def)
  have "p < length s \<and> s ! p = d" using drop_Cons_nth [of p s d] p(2) digits by simp
  moreover have "strtoll (drop p s) = int n"
  proof -
    have "\<not> (drop p s \<noteq> [] \<and> hd (drop p s) = CHR ''-'')" unfolding p(2) digits using minus by simp
    then have "strtoll (drop p s) = min (2 ^ 63 - 1) (int (decValue (takeWhile isdigit (drop p s))))"
      unfolding strtoll_def Let_def by (simp only: if_False)
    also have "takeWhile isdigit (drop p s) = dec_digits n" unfolding p(2) by (rule takeWhile_digits [OF assms(2)])
    finally show ?thesis using assms(3) by simp
  qed
  ultimately show ?thesis using p(1) d by (simp add: getInt_def)
qed

lemma getStringArray_items:
  "dropWhile isWs (drop p s) = dropWhile isWs (arrayItems first vs @ CHR '']'' # r) \<Longrightarrow> p < length s \<Longrightarrow>
    stringArrayFrom s p out = out @ vs"
proof (induction vs arbitrary: p first out)
  case Nil
  then have "drop (skipWs s p) s = CHR '']'' # r" by (simp add: drop_skipWs)
  then show ?case using Nil(2) drop_Cons_nth [of "skipWs s p" s "CHR '']''" r]
    by (subst stringArrayFrom.simps) simp
next
  case (Cons v vs)
  let ?rest = "arrayItems False vs @ CHR '']'' # r"
  have item: "stringArrayFrom s p out = out @ v # vs"
    if "drop (skipWs s p) s = quoted (escape v) @ ?rest" "p < length s" for p
  proof -
    let ?p = "skipWs s p"
    let ?e = "?p + length (escape v) + 2"
    have here: "?p < length s" "s ! ?p = CHR 0x22" using drop_Cons_nth [of ?p s "CHR 0x22"] that(1) by (auto simp: quoted_def)
    have "drop ?e s = drop (length (escape v) + 2) (drop ?p s)" by (simp add: add.commute add.left_commute)
    then have e: "drop ?e s = ?rest" using that(1) by (simp add: quoted_def)
    then have "?e < length s" by (metis append_is_Nil_conv drop_all leI list.distinct(1))
    then have "stringArrayFrom s ?e (out @ [v]) = (out @ [v]) @ vs" using Cons.IH [of ?e False] e by simp
    then show ?thesis using here that(2) parseString_quoted [OF that(1)]
      by (subst stringArrayFrom.simps) (simp add: Let_def)
  qed
  show ?case
  proof (cases first)
    case True
    then have "drop (skipWs s p) s = quoted (escape v) @ ?rest"
      using Cons.prems(1) by (simp add: drop_skipWs quoted_def)
    then show ?thesis using item Cons.prems(2) by blast
  next
    case False
    then have comma: "drop (skipWs s p) s = CHR '','' # CHR '' '' # quoted (escape v) @ ?rest"
      using Cons.prems(1) by (simp add: drop_skipWs)
    let ?q = "skipWs s p + 1"
    note here = drop_Cons_nth [OF comma]
    have "?q < length s" using here by (metis drop_all leI list.distinct(1))
    moreover have "drop (skipWs s ?q) s = quoted (escape v) @ ?rest"
      using here by (simp add: drop_skipWs quoted_def)
    ultimately have "stringArrayFrom s ?q out = out @ v # vs" using item by blast
    then show ?thesis using here Cons.prems(2) by (subst stringArrayFrom.simps) (simp add: Let_def)
  qed
qed

lemma getStringArray_member:
  assumes "value_of (quoted key) s = Some (arrayText vs @ r)"
  shows "getStringArray s key = vs"
proof -
  obtain p where p: "findValue s key 0 = Some p" "drop p s = CHR ''['' # arrayItems True vs @ CHR '']'' # r"
    using value_of_found [OF assms] by (auto simp: arrayText_def)
  note here = drop_Cons_nth [OF p(2)]
  then have "p + 1 < length s" by (metis append_is_Nil_conv drop_all leI list.distinct(1))
  then show ?thesis using p(1) here getStringArray_items [of "p + 1" s True vs r "[]"] by (simp add: getStringArray_def)
qed

section \<open>Whole documents\<close>

definition documentText :: "(string \<times> string) list \<Rightarrow> string" where
  "documentText ms = ''{'' @ [CHR 0x0A] @ memberLines ms @ ''}'' @ [CHR 0x0A]"

lemma document_lookup:
  assumes "members_ok ms" "plain key"
  shows "map_of ms key = Some v \<Longrightarrow> \<exists>c r. value_of (quoted key) (documentText ms) = Some (v @ c # r) \<and> \<not> isdigit c"
    "map_of ms key = None \<Longrightarrow> value_of (quoted key) (documentText ms) = None"
proof -
  have tail: "CHR 0x22 \<notin> set (''}'' @ [CHR 0x0A])" "ends_value (CHR 0x0A # ''}'' @ [CHR 0x0A])" by code_simp+
  have marks: "\<not> isdigit (CHR '','')" "\<not> isdigit (CHR 0x0A)" by code_simp+
  have "value_of (quoted key) (documentText ms) = value_of (quoted key) (memberLines ms @ ''}'' @ [CHR 0x0A])"
    by (simp add: documentText_def value_of_skip)
  note found = memberLines_lookup [OF assms tail, folded this]
  show "map_of ms key = Some v \<Longrightarrow> \<exists>c r. value_of (quoted key) (documentText ms) = Some (v @ c # r) \<and> \<not> isdigit c"
    using found marks by auto
  show "map_of ms key = None \<Longrightarrow> value_of (quoted key) (documentText ms) = None" using found by simp
qed

text \<open>Each reader applied to a document returns what was written under the key.\<close>

lemma document_string:
  "members_ok ms \<Longrightarrow> plain key \<Longrightarrow> map_of ms key = Some (quoted (escape v)) \<Longrightarrow> getString (documentText ms) key 0 = v"
  using document_lookup(1) getString_member by fastforce

lemma document_no_string:
  "members_ok ms \<Longrightarrow> plain key \<Longrightarrow> map_of ms key = None \<Longrightarrow> getString (documentText ms) key 0 = []"
  using document_lookup(2) value_of_missing by (simp add: getString_def)

lemma document_bool:
  "members_ok ms \<Longrightarrow> plain key \<Longrightarrow> map_of ms key = Some (if b then ''true'' else ''false'') \<Longrightarrow> getBool (documentText ms) key = b"
  using document_lookup(1) getBool_member by blast

lemma document_int:
  "members_ok ms \<Longrightarrow> plain key \<Longrightarrow> map_of ms key = Some (dec_digits n) \<Longrightarrow> n < 2 ^ 63 \<Longrightarrow>
    getInt (documentText ms) key fallback = int n"
  using document_lookup(1) getInt_member by blast

lemma document_array:
  "members_ok ms \<Longrightarrow> plain key \<Longrightarrow> map_of ms key = Some (arrayText vs) \<Longrightarrow> getStringArray (documentText ms) key = vs"
  using document_lookup(1) getStringArray_member by blast

end
