(* ===== verification/Config_Store.thy ===== *)
theory Config_Store
  imports Json_Document
begin

text \<open>
  The configuration of \<open>src/src/Config.cpp\<close> and \<open>Config.hpp\<close>: reading the file with its migrations
  and limits, writing it, and the round trip between the two. The encryption of the shared secret
  (DPAPI, behind \<open>Secure.hpp\<close>) and the file system are parameters.
\<close>

section \<open>The configuration directory\<close>

definition MAX_PATH :: nat where "MAX_PATH = 260"

text \<open>
  \<open>GetEnvironmentVariableW\<close> with a buffer: the length of the value when it fits with its terminator,
  the size it needs otherwise, and 0 when the variable is not set. The second component is what
  the buffer holds.
\<close>

definition getEnvironmentVariable :: "string option \<Rightarrow> nat \<Rightarrow> nat \<times> string" where
  "getEnvironmentVariable v capacity =
     (case v of None \<Rightarrow> (0, [])
      | Some s \<Rightarrow> if length s < capacity then (length s, s) else (length s + 1, []))"

text \<open>The two reads may see different values of the variable.\<close>

definition configDirPath :: "string option \<Rightarrow> string option \<Rightarrow> string" where
  "configDirPath first second =
     (let (length1, text1) = getEnvironmentVariable first MAX_PATH;
          (capacity, length2, text2) =
            (if length1 \<ge> MAX_PATH then (length1, getEnvironmentVariable second length1)
             else (MAX_PATH, length1, text1))
      in if length2 = 0 \<or> length2 \<ge> capacity then [] else text2 @ [CHR 0x5C] @ ''splithello'')"

definition inConfigDir :: "string \<Rightarrow> string \<Rightarrow> string" where
  "inConfigDir dir name = (if dir = [] then [] else dir @ [CHR 0x5C] @ name)"

definition configPath :: "string \<Rightarrow> string" where "configPath dir = inConfigDir dir ''config.json''"
definition strategyPath :: "string \<Rightarrow> string" where "strategyPath dir = inConfigDir dir ''strategies.json''"
definition telemetryPath :: "string \<Rightarrow> string" where "telemetryPath dir = inConfigDir dir ''telemetry.db''"
definition logPath :: "string \<Rightarrow> string" where "logPath dir = inConfigDir dir ''splithello.log''"
definition proxyBackupPath :: "string \<Rightarrow> string" where "proxyBackupPath dir = inConfigDir dir ''proxy-backup.json''"

text \<open>An unchanged variable of any length is read whole.\<close>

lemma configDirPath_whole: "v \<noteq> [] \<Longrightarrow> configDirPath (Some v) (Some v) = v @ [CHR 0x5C] @ ''splithello''"
  by (simp add: configDirPath_def getEnvironmentVariable_def MAX_PATH_def)

section \<open>The configuration\<close>

datatype DnsMode = Worker | System

record Config =
  cfg_apiToken :: string
  cfg_accountId :: string
  cfg_workerName :: string
  cfg_workerUrl :: string
  cfg_sharedSecret :: string
  cfg_dnsMode :: DnsMode
  cfg_splitDelayMs :: u32
  cfg_probeTimeoutMs :: u32
  cfg_tunnelFallback :: bool
  cfg_processInclude :: "string list"
  cfg_processExclude :: "string list"
  cfg_migratedFromPlaintext :: bool
  cfg_legacyApiTokenPresent :: bool
  cfg_sharedSecretBlob :: string
  cfg_loadFailed :: bool
  cfg_processIncludeInvalid :: bool

definition defaultConfig :: Config where
  "defaultConfig = \<lparr>cfg_apiToken = [], cfg_accountId = [], cfg_workerName = ''splithello-relay'', cfg_workerUrl = [],
     cfg_sharedSecret = [], cfg_dnsMode = Worker, cfg_splitDelayMs = 20, cfg_probeTimeoutMs = 3000,
     cfg_tunnelFallback = False, cfg_processInclude = [], cfg_processExclude = [],
     cfg_migratedFromPlaintext = False, cfg_legacyApiTokenPresent = False, cfg_sharedSecretBlob = [],
     cfg_loadFailed = False, cfg_processIncludeInvalid = False\<rparr>"

definition isValid :: "Config \<Rightarrow> bool" where
  "isValid cfg \<longleftrightarrow> cfg_dnsMode cfg = System \<or> cfg_workerUrl cfg \<noteq> []"

section \<open>Reading\<close>

text \<open>The value, whether the plaintext fallback was used, and the blob to keep when it cannot be decrypted.\<close>

definition readSecret :: "(string \<Rightarrow> string) \<Rightarrow> string \<Rightarrow> string \<Rightarrow> string \<Rightarrow> bool \<Rightarrow> string \<times> bool \<times> string" where
  "readSecret unprotect doc protectedKey legacyKey migrated =
     (let blob = getString doc protectedKey 0 in
      if blob \<noteq> [] then
        (let plaintext = unprotect blob in (plaintext, migrated, if plaintext = [] then blob else []))
      else let legacy = getString doc legacyKey 0 in (legacy, migrated \<or> legacy \<noteq> [], []))"

definition readUnsigned :: "string \<Rightarrow> string \<Rightarrow> u32 \<Rightarrow> int \<Rightarrow> int \<Rightarrow> u32" where
  "readUnsigned doc key fallback low high =
     (let v = getInt doc key (uint fallback) in if v < low \<or> v > high then fallback else of_int v)"

definition kMaximumRules :: nat where "kMaximumRules = 128"
definition kMaximumRuleLength :: nat where "kMaximumRuleLength = 1024"

definition usableRule :: "string \<Rightarrow> bool" where
  "usableRule rule \<longleftrightarrow> rule \<noteq> [] \<and> length rule \<le> kMaximumRuleLength"

fun collectRules :: "string list \<Rightarrow> string list \<Rightarrow> string list" where
  "collectRules [] result = result"
| "collectRules (rule # rules) result =
     (if \<not> usableRule rule then collectRules rules result
      else let result1 = result @ [rule] in
        if length result1 = kMaximumRules then result1 else collectRules rules result1)"

definition readProcessRules :: "string \<Rightarrow> string \<Rightarrow> string list" where
  "readProcessRules doc key = collectRules (getStringArray doc key) []"

text \<open>What stands at the configuration path.\<close>

datatype ConfigFile = Missing | Unreadable | Content string

definition applyDocument :: "(string \<Rightarrow> string) \<Rightarrow> string \<Rightarrow> Config \<Rightarrow> Config" where
  "applyDocument unprotect doc cfg =
     (let legacyPresent = (getString doc ''api_token_dpapi'' 0 \<noteq> [] \<or> getString doc ''api_token'' 0 \<noteq> []);
          (token, migrated1, dropped) =
            readSecret unprotect doc ''api_token_dpapi'' ''api_token'' (cfg_migratedFromPlaintext cfg);
          (secret, migrated2, blob) =
            readSecret unprotect doc ''shared_secret_dpapi'' ''shared_secret'' migrated1;
          name = getString doc ''worker_name'' 0;
          rulesIn = readProcessRules doc ''process_include''
      in cfg\<lparr>cfg_apiToken := token, cfg_accountId := getString doc ''account_id'' 0,
            cfg_workerName := (if name = [] then ''splithello-relay'' else name),
            cfg_workerUrl := getString doc ''worker_url'' 0, cfg_sharedSecret := secret,
            cfg_dnsMode := (if getString doc ''dns_mode'' 0 = ''system'' then System else Worker),
            cfg_splitDelayMs := readUnsigned doc ''split_delay_ms'' (cfg_splitDelayMs cfg) 0 2000,
            cfg_probeTimeoutMs := readUnsigned doc ''probe_timeout_ms'' (cfg_probeTimeoutMs cfg) 250 30000,
            cfg_tunnelFallback := getBool doc ''tunnel_fallback'',
            cfg_processInclude := rulesIn,
            cfg_processExclude := readProcessRules doc ''process_exclude'',
            cfg_migratedFromPlaintext := migrated2, cfg_legacyApiTokenPresent := legacyPresent,
            cfg_sharedSecretBlob := blob,
            cfg_processIncludeInvalid := (rulesIn = [] \<and> getStringArray doc ''process_include'' \<noteq> [])\<rparr>)"

definition loadConfig :: "(string \<Rightarrow> string) \<Rightarrow> string \<Rightarrow> ConfigFile \<Rightarrow> Config \<Rightarrow> bool \<times> Config" where
  "loadConfig unprotect dir contents cfg =
     (let cfg1 = cfg\<lparr>cfg_loadFailed := False\<rparr> in
      if configPath dir = [] then (False, cfg1)
      else case contents of
        Missing \<Rightarrow> (False, cfg1)
      | Unreadable \<Rightarrow> (False, cfg1\<lparr>cfg_loadFailed := True\<rparr>)
      | Content doc \<Rightarrow> (True, applyDocument unprotect doc cfg1))"

section \<open>Writing\<close>

definition storedSecret :: "(string \<Rightarrow> string) \<Rightarrow> Config \<Rightarrow> string" where
  "storedSecret protect cfg =
     (if cfg_sharedSecret cfg = [] then cfg_sharedSecretBlob cfg else protect (cfg_sharedSecret cfg))"

definition configMembers :: "(string \<Rightarrow> string) \<Rightarrow> Config \<Rightarrow> (string \<times> string) list" where
  "configMembers protect cfg =
     [(''shared_secret_dpapi'', quoted (escape (storedSecret protect cfg))),
      (''account_id'', quoted (escape (cfg_accountId cfg))),
      (''worker_name'', quoted (escape (cfg_workerName cfg))),
      (''worker_url'', quoted (escape (cfg_workerUrl cfg))),
      (''dns_mode'', quoted (if cfg_dnsMode cfg = System then ''system'' else ''worker'')),
      (''split_delay_ms'', dec_digits (unat (cfg_splitDelayMs cfg))),
      (''probe_timeout_ms'', dec_digits (unat (cfg_probeTimeoutMs cfg))),
      (''tunnel_fallback'', if cfg_tunnelFallback cfg then ''true'' else ''false''),
      (''process_include'', arrayText (cfg_processInclude cfg)),
      (''process_exclude'', arrayText (cfg_processExclude cfg))]"

definition saveText :: "(string \<Rightarrow> string) \<Rightarrow> Config \<Rightarrow> string" where
  "saveText protect cfg = documentText (configMembers protect cfg)"

text \<open>The directory can be created, the file can be replaced: what the file system answers.\<close>

definition saveConfig :: "(string \<Rightarrow> string) \<Rightarrow> bool \<Rightarrow> bool \<Rightarrow> string \<Rightarrow> Config \<Rightarrow> ConfigFile \<Rightarrow> bool \<times> ConfigFile" where
  "saveConfig protect createsDir writesFile dir cfg contents =
     (if dir = [] \<or> \<not> createsDir then (False, contents)
      else if writesFile then (True, Content (saveText protect cfg)) else (False, contents))"

definition forgetToken :: "(string \<Rightarrow> string) \<Rightarrow> bool \<Rightarrow> bool \<Rightarrow> string \<Rightarrow> Config \<Rightarrow> ConfigFile \<Rightarrow> bool \<times> Config \<times> ConfigFile" where
  "forgetToken protect createsDir writesFile dir cfg contents =
     (let cfg1 = cfg\<lparr>cfg_apiToken := []\<rparr>;
          (ok, contents1) = saveConfig protect createsDir writesFile dir cfg1 contents
      in (ok, cfg1, contents1))"

section \<open>The round trip\<close>

lemma collectRules_usable:
  "list_all usableRule rules \<Longrightarrow> length (result @ rules) \<le> kMaximumRules \<Longrightarrow> collectRules rules result = result @ rules"
proof (induction rules arbitrary: result)
  case (Cons rule rules)
  show ?case
  proof (cases "length (result @ [rule]) = kMaximumRules")
    case True
    then have "length rules = 0" using Cons.prems(2) by (simp del: length_0_conv)
    then show ?thesis using Cons.prems True by (simp add: Let_def)
  next
    case False
    then show ?thesis using Cons.prems Cons.IH [of "result @ [rule]"] by (simp add: Let_def)
  qed
qed simp

lemma members_ok_config: "members_ok (configMembers protect cfg)"
proof -
  have "silent (quoted (if cfg_dnsMode cfg = System then ''system'' else ''worker''))"
    using silent_string [of "''system''"] silent_string [of "''worker''"]
    by (simp add: escape_def escape_char_def)
  then show ?thesis
    by (simp add: configMembers_def plain_def silent_string silent_number silent_bool silent_array)
qed

text \<open>The limits a configuration must respect to be read back as it was written.\<close>

definition config_ok :: "Config \<Rightarrow> bool" where
  "config_ok cfg \<longleftrightarrow> cfg_workerName cfg \<noteq> [] \<and> unat (cfg_splitDelayMs cfg) \<le> 2000 \<and>
     250 \<le> unat (cfg_probeTimeoutMs cfg) \<and> unat (cfg_probeTimeoutMs cfg) \<le> 30000 \<and>
     list_all usableRule (cfg_processInclude cfg) \<and> length (cfg_processInclude cfg) \<le> kMaximumRules \<and>
     list_all usableRule (cfg_processExclude cfg) \<and> length (cfg_processExclude cfg) \<le> kMaximumRules"

lemma readUnsigned_saved:
  assumes "members_ok ms" "plain key" "map_of ms key = Some (dec_digits (unat v))" "low \<le> unat v" "unat v \<le> high"
  shows "readUnsigned (documentText ms) key fallback (int low) (int high) = v"
proof -
  have "unat v < 2 ^ 32" using unsigned_less [of v, where ?'a = nat] by simp
  then have "unat v < 2 ^ 63" by (rule order_less_trans) simp
  then have "getInt (documentText ms) key (uint fallback) = int (unat v)" by (rule document_int [OF assms(1-3)])
  moreover have "\<not> int (unat v) < int low" "\<not> int high < int (unat v)" using assms(4,5) by linarith+
  ultimately show ?thesis unfolding readUnsigned_def Let_def by simp
qed

lemma readProcessRules_saved:
  "members_ok ms \<Longrightarrow> plain key \<Longrightarrow> map_of ms key = Some (arrayText rules) \<Longrightarrow> list_all usableRule rules \<Longrightarrow>
    length rules \<le> kMaximumRules \<Longrightarrow> readProcessRules (documentText ms) key = rules"
  using document_array collectRules_usable [of rules "[]"] by (simp add: readProcessRules_def)

text \<open>
  C34. Whatever the strings in it, a configuration that respects the limits is read back exactly
  as it was saved: no value (an account, a URL, a process rule with quotes, colons or names of
  other members in it) can end early, shadow another member or be lost. The shared secret comes
  back decrypted, a blob that cannot be decrypted survives unchanged, and the legacy token is gone.
\<close>

theorem config_roundtrip:
  assumes "config_ok cfg" "dir \<noteq> []"
    and "cfg_sharedSecret cfg \<noteq> [] \<Longrightarrow>
      protect (cfg_sharedSecret cfg) \<noteq> [] \<and> unprotect (protect (cfg_sharedSecret cfg)) = cfg_sharedSecret cfg"
    and "cfg_sharedSecret cfg = [] \<Longrightarrow> cfg_sharedSecretBlob cfg \<noteq> [] \<Longrightarrow> unprotect (cfg_sharedSecretBlob cfg) = []"
    and saved: "saveConfig protect True True dir cfg old = (ok, contents)"
  shows "ok \<and> loadConfig unprotect dir contents base = (True, cfg\<lparr>cfg_apiToken := [],
      cfg_migratedFromPlaintext := cfg_migratedFromPlaintext base, cfg_legacyApiTokenPresent := False,
      cfg_sharedSecretBlob := (if cfg_sharedSecret cfg = [] then cfg_sharedSecretBlob cfg else []),
      cfg_loadFailed := False, cfg_processIncludeInvalid := False\<rparr>)"
proof -
  let ?ms = "configMembers protect cfg"
  have contents: "ok" "contents = Content (documentText ?ms)"
    using saved assms(2) by (auto simp: saveConfig_def saveText_def)
  note present = document_string [OF members_ok_config]
  note absent = document_no_string [OF members_ok_config]
  have strings: "getString (documentText ?ms) ''account_id'' 0 = cfg_accountId cfg"
    "getString (documentText ?ms) ''worker_name'' 0 = cfg_workerName cfg"
    "getString (documentText ?ms) ''worker_url'' 0 = cfg_workerUrl cfg"
    "getString (documentText ?ms) ''shared_secret_dpapi'' 0 = storedSecret protect cfg"
    by (rule present; simp add: plain_def configMembers_def)+
  have mode: "getString (documentText ?ms) ''dns_mode'' 0 = (if cfg_dnsMode cfg = System then ''system'' else ''worker'')"
    by (rule present) (simp_all add: plain_def configMembers_def escape_def escape_char_def)
  have legacy: "getString (documentText ?ms) ''api_token_dpapi'' 0 = []" "getString (documentText ?ms) ''api_token'' 0 = []"
    "getString (documentText ?ms) ''shared_secret'' 0 = []"
    by (rule absent; simp add: plain_def configMembers_def)+
  have delay: "readUnsigned (documentText ?ms) ''split_delay_ms'' f 0 2000 = cfg_splitDelayMs cfg" for f
    using readUnsigned_saved [OF members_ok_config, of "''split_delay_ms''" protect cfg "cfg_splitDelayMs cfg" 0 2000 f] assms(1)
    by (simp add: plain_def configMembers_def config_ok_def)
  have timeout: "readUnsigned (documentText ?ms) ''probe_timeout_ms'' f 250 30000 = cfg_probeTimeoutMs cfg" for f
    using readUnsigned_saved [OF members_ok_config, of "''probe_timeout_ms''" protect cfg "cfg_probeTimeoutMs cfg" 250 30000 f] assms(1)
    by (simp add: plain_def configMembers_def config_ok_def)
  have tunnel: "getBool (documentText ?ms) ''tunnel_fallback'' = cfg_tunnelFallback cfg"
    by (rule document_bool [OF members_ok_config]) (simp_all add: plain_def configMembers_def)
  have rules: "readProcessRules (documentText ?ms) ''process_include'' = cfg_processInclude cfg"
    "readProcessRules (documentText ?ms) ''process_exclude'' = cfg_processExclude cfg"
    by (rule readProcessRules_saved [OF members_ok_config];
        use assms(1) in \<open>simp add: plain_def configMembers_def config_ok_def\<close>)+
  have array: "getStringArray (documentText ?ms) ''process_include'' = cfg_processInclude cfg"
    by (rule document_array [OF members_ok_config]) (simp_all add: plain_def configMembers_def)
  have secret: "readSecret unprotect (documentText ?ms) ''shared_secret_dpapi'' ''shared_secret'' m =
      (cfg_sharedSecret cfg, m, if cfg_sharedSecret cfg = [] then cfg_sharedSecretBlob cfg else [])" for m
    using assms(3,4) by (simp add: readSecret_def strings legacy storedSecret_def Let_def)
  have token: "readSecret unprotect (documentText ?ms) ''api_token_dpapi'' ''api_token'' m = ([], m, [])" for m
    by (simp add: readSecret_def legacy)
  have name: "cfg_workerName cfg \<noteq> []" using assms(1) by (simp add: config_ok_def)
  show ?thesis using contents assms(2) name
    by (cases "cfg_dnsMode cfg") (simp_all add: loadConfig_def configPath_def inConfigDir_def applyDocument_def Let_def strings mode legacy delay timeout
        tunnel rules array secret token)
qed

theorem config_roundtrip_witness:
  "loadConfig rev ''C:'' (Content (saveText rev (defaultConfig\<lparr>cfg_sharedSecret := ''key'', cfg_accountId := quoted ''worker_url''\<rparr>))) defaultConfig =
     (True, defaultConfig\<lparr>cfg_sharedSecret := ''key'', cfg_accountId := quoted ''worker_url''\<rparr>)"
proof -
  let ?cfg = "defaultConfig\<lparr>cfg_sharedSecret := ''key'', cfg_accountId := quoted ''worker_url''\<rparr>"
  have "config_ok ?cfg" by (simp add: config_ok_def defaultConfig_def)
  from config_roundtrip [OF this, of "''C:''" rev rev Missing True "Content (saveText rev ?cfg)" defaultConfig]
  show ?thesis by (simp add: saveConfig_def defaultConfig_def)
qed

text \<open>
  An include list that holds only unusable entries is flagged and never read as the empty list
  that means every process; a list that is absent is not flagged.
\<close>

lemma collectRules_empty: "collectRules rules result = [] \<Longrightarrow> result = [] \<and> list_all (\<lambda>r. \<not> usableRule r) rules"
  by (induction rules arbitrary: result) (auto simp: Let_def split: if_splits)

lemma include_invalid:
  "cfg_processIncludeInvalid (applyDocument unprotect doc cfg) \<longleftrightarrow>
     getStringArray doc ''process_include'' \<noteq> [] \<and> list_all (\<lambda>r. \<not> usableRule r) (getStringArray doc ''process_include'')"
proof -
  have "list_all (\<lambda>r. \<not> usableRule r) rules \<Longrightarrow> collectRules rules [] = []" for rules
    by (induction rules) auto
  then show ?thesis using collectRules_empty [of "getStringArray doc ''process_include''" "[]"]
    by (auto simp: applyDocument_def readProcessRules_def Let_def split: prod.splits)
qed

end
