(* ===== verification/Worker_Setup.thy ===== *)
theory Worker_Setup
  imports Config_Store Ws_Client Dns_Resolver
begin

text \<open>
  Deploying the Worker: the parsers and the deployment of \<open>src/src/Wrangler.cpp\<close>, and the setup and
  redeployment of \<open>src/src/Setup.cpp\<close>. Wrangler itself, the browser login and the network are the
  environment: the results of the processes that are run, what the user types and what the
  deployed Worker answers are arguments. The secret the Worker holds is explicit state, since a
  deployment that changes it and does not record it locks the user out.
\<close>

section \<open>Reading what Wrangler prints\<close>

definition isalnum :: "char \<Rightarrow> bool" where
  "isalnum c \<longleftrightarrow> (let n = (of_char c :: nat) in 48 \<le> n \<and> n \<le> 57 \<or> 65 \<le> n \<and> n \<le> 90 \<or> 97 \<le> n \<and> n \<le> 122)"

definition islower :: "char \<Rightarrow> bool" where
  "islower c \<longleftrightarrow> (let n = (of_char c :: nat) in 97 \<le> n \<and> n \<le> 122)"

definition isHexAccountId :: "string \<Rightarrow> bool" where
  "isHexAccountId accountId \<longleftrightarrow> length accountId = 32 \<and> list_all isxdigit accountId"

definition isValidWorkerName :: "string \<Rightarrow> bool" where
  "isValidWorkerName name \<longleftrightarrow> name \<noteq> [] \<and> length name \<le> 63 \<and> hd name \<noteq> CHR ''-'' \<and> last name \<noteq> CHR ''-'' \<and>
     list_all (\<lambda>c. islower c \<or> isdigit c \<or> c = CHR ''-'') name"

text \<open>The top-level objects of an array; \<open>i\<close> is the position of the first character of the rest.\<close>

fun arrayObjectsFrom :: "string \<Rightarrow> string \<Rightarrow> nat \<Rightarrow> nat \<Rightarrow> nat option \<Rightarrow> bool \<Rightarrow> bool \<Rightarrow> string list \<Rightarrow> string list" where
  "arrayObjectsFrom array [] i depth start inString escaped objects = objects"
| "arrayObjectsFrom array (c # cs) i depth start inString escaped objects =
     (if inString then
        arrayObjectsFrom array cs (i + 1) depth start (escaped \<or> c = CHR 0x5C \<or> c \<noteq> CHR 0x22) (\<not> escaped \<and> c = CHR 0x5C) objects
      else if c = CHR 0x22 then arrayObjectsFrom array cs (i + 1) depth start True escaped objects
      else if c = CHR ''{'' then
        arrayObjectsFrom array cs (i + 1) (depth + 1) (if depth = 0 then Some i else start) False escaped objects
      else if c = CHR ''}'' \<and> depth > 0 then
        (case (depth, start) of
           (Suc 0, Some s) \<Rightarrow>
             arrayObjectsFrom array cs (i + 1) 0 None False escaped (objects @ [take (i - s + 1) (drop s array)])
         | _ \<Rightarrow> arrayObjectsFrom array cs (i + 1) (depth - 1) start False escaped objects)
      else arrayObjectsFrom array cs (i + 1) depth start False escaped objects)"

definition arrayObjects :: "string \<Rightarrow> string list" where
  "arrayObjects array = arrayObjectsFrom array array 0 0 None False False []"

record Account =
  account_id :: string
  account_name :: string

record Identity =
  email :: string
  accounts :: "Account list"

definition parseIdentity :: "string \<Rightarrow> Identity option" where
  "parseIdentity printed =
     (let accountsJson = getRaw printed ''accounts'' in
      if accountsJson = [] then None
      else let found = map (\<lambda>object. \<lparr>account_id = getString object ''id'' 0, account_name = getString object ''name'' 0\<rparr>)
                         (filter (\<lambda>object. isHexAccountId (getString object ''id'' 0)) (arrayObjects accountsJson))
        in if found = [] then None else Some \<lparr>email = getString printed ''email'' 0, accounts = found\<rparr>)"

definition hostChar :: "char \<Rightarrow> bool" where
  "hostChar c \<longleftrightarrow> isalnum c \<or> c = CHR ''.'' \<or> c = CHR ''-''"

definition ownHost :: "string \<Rightarrow> string \<Rightarrow> bool" where
  "ownHost workerName host \<longleftrightarrow>
     (let namePrefix = (if workerName = [] then [] else workerName @ ''.'') in
      length host > length ''.workers.dev'' \<and> ends_with host ''.workers.dev'' \<and> starts_with host namePrefix \<and>
      length host > length namePrefix + length ''.workers.dev'')"

function workersDevFrom :: "string \<Rightarrow> string \<Rightarrow> nat \<Rightarrow> string" where
  "workersDevFrom printed workerName cursor =
     (case find_from printed ''https://'' cursor of None \<Rightarrow> []
      | Some pos \<Rightarrow>
          let hostStart = pos + length ''https://'';
              raw = takeWhile hostChar (drop hostStart printed);
              host = map tolower raw in
          if ownHost workerName host then ''wss://'' @ host
          else workersDevFrom printed workerName (hostStart + length raw))"
  by pat_completeness auto
termination
  by (relation "measure (\<lambda>(printed, workerName, cursor). length printed - cursor)") (auto dest!: find_from_bound)

declare workersDevFrom.simps [simp del]

definition parseWorkersDevUrl :: "string \<Rightarrow> string \<Rightarrow> string" where
  "parseWorkersDevUrl printed workerName = workersDevFrom printed workerName 0"

section \<open>Deploying\<close>

record ProcessResult =
  launched :: bool
  timedOut :: bool
  exitCode :: u32
  printedOutput :: string

definition process_ok :: "ProcessResult \<Rightarrow> bool" where
  "process_ok r \<longleftrightarrow> launched r \<and> \<not> timedOut r \<and> exitCode r = 0"

definition kMaxCapturedOutput :: nat where "kMaxCapturedOutput = 2 * 1024 * 1024"

definition appendCaptured :: "string \<Rightarrow> string \<Rightarrow> string" where
  "appendCaptured destination data =
     (if length destination \<ge> kMaxCapturedOutput then destination
      else destination @ take (kMaxCapturedOutput - length destination) data)"

definition line :: "string \<Rightarrow> string" where "line s = s @ [CHR 0x0A]"

definition makeWranglerConfig :: "string \<Rightarrow> string \<Rightarrow> bool \<Rightarrow> string" where
  "makeWranglerConfig accountId workerName withRateLimiter =
     line (''name = '' @ quoted workerName) @ line (''main = '' @ quoted ''index.js'') @
     line (''account_id = '' @ quoted accountId) @ line (''compatibility_date = '' @ quoted ''2024-09-23'') @
     line (''compatibility_flags = ['' @ quoted ''nodejs_compat'' @ '']'') @ line ''workers_dev = true'' @
     line ''preview_urls = false'' @ line ''send_metrics = false'' @
     (if withRateLimiter
      then line [] @ line ''[[unsafe.bindings]]'' @ line (''name = '' @ quoted ''RATE_LIMITER'') @
           line (''type = '' @ quoted ''ratelimit'') @ line (''namespace_id = '' @ quoted ''1001'') @
           line ''simple = { limit = 600, period = 60 }''
      else [])"

text \<open>The environment of one deployment: the temporary directory and the processes.\<close>

record DeployEnv =
  directoryValid :: bool
  writesFiles :: bool
  firstDeploy :: ProcessResult
  rewritesConfig :: bool
  secondDeploy :: ProcessResult
  secretPut :: ProcessResult
  putTookEffect :: bool

text \<open>
  The result is the URL of the Worker (empty for a failure) and the secret the Worker holds now; a
  \<open>secret put\<close> that fails or times out may have reached the Worker all the same.
\<close>

definition deployedCode :: "DeployEnv \<Rightarrow> ProcessResult option" where
  "deployedCode d =
     (if process_ok (firstDeploy d) then Some (firstDeploy d)
      else if rewritesConfig d \<and> process_ok (secondDeploy d) then Some (secondDeploy d) else None)"

definition deployedUrl :: "string \<Rightarrow> string \<Rightarrow> ProcessResult \<Rightarrow> string" where
  "deployedUrl workerName previousWorkerUrl code =
     (let url = parseWorkersDevUrl (printedOutput code) workerName in
      if url = [] \<and> starts_with previousWorkerUrl (''wss://'' @ workerName @ ''.'') \<and> ends_with previousWorkerUrl ''.workers.dev''
      then previousWorkerUrl else url)"

definition deploy :: "DeployEnv \<Rightarrow> string \<Rightarrow> string \<Rightarrow> string \<Rightarrow> string \<Rightarrow> string \<Rightarrow> string option \<Rightarrow> string \<times> string option" where
  "deploy d accountId workerName workerSource secret previousWorkerUrl remote =
     (if \<not> isHexAccountId accountId \<or> \<not> isValidWorkerName workerName \<or> workerSource = [] \<or> secret = [] then ([], remote)
      else if \<not> directoryValid d \<or> \<not> writesFiles d then ([], remote)
      else case deployedCode d of None \<Rightarrow> ([], remote)
        | Some code \<Rightarrow>
            if \<not> process_ok (secretPut d) then ([], if putTookEffect d then Some secret else remote)
            else (deployedUrl workerName previousWorkerUrl code, Some secret))"

section \<open>Setup\<close>

definition kDefaultWorkerName :: string where "kDefaultWorkerName = ''splithello-relay''"

definition hexBytes :: "byte list \<Rightarrow> string" where
  "hexBytes bytes = concat (map (\<lambda>b. [hexDigit (unat b div 16), hexDigit (unat b mod 16)]) bytes)"

definition kSharedSecretBytes :: nat where "kSharedSecretBytes = 32"

text \<open>\<open>randomHex\<close>: the bytes of the random generator, \<open>None\<close> when it fails.\<close>

definition randomHex :: "byte list option \<Rightarrow> string" where
  "randomHex random = (case random of None \<Rightarrow> [] | Some bytes \<Rightarrow> hexBytes bytes)"

definition isspace :: "char \<Rightarrow> bool" where
  "isspace c \<longleftrightarrow> c = CHR '' '' \<or> (9::nat) \<le> of_char c \<and> of_char c \<le> (13::nat)"

text \<open>\<open>std::stoul\<close> on a whole line: white space, a sign, digits; \<open>unsigned long\<close> has 32 bits on Windows.\<close>

definition stoul :: "string \<Rightarrow> u32 option" where
  "stoul answer =
     (let rest = dropWhile isspace answer;
          neg = (rest \<noteq> [] \<and> hd rest = CHR ''-'');
          digits = (if rest \<noteq> [] \<and> (hd rest = CHR ''-'' \<or> hd rest = CHR ''+'') then tl rest else rest)
      in if digits = [] \<or> \<not> list_all isdigit digits \<or> decValue digits \<ge> 2 ^ 32 then None
         else Some (if neg then - of_nat (decValue digits) else of_nat (decValue digits)))"

definition selectAccount :: "string \<Rightarrow> Identity \<Rightarrow> string \<Rightarrow> string option" where
  "selectAccount answer identity preferredId =
     (let ids = map account_id (accounts identity) in
      if preferredId \<noteq> [] \<and> preferredId \<in> set ids then Some preferredId
      else if length ids = 1 then Some (hd ids)
      else if ids = [] then None
      else case stoul answer of None \<Rightarrow> None
        | Some selected \<Rightarrow> if 1 \<le> unat selected \<and> unat selected \<le> length ids then Some (ids ! (unat selected - 1)) else None)"

text \<open>The end-to-end check: one request with the secret; \<open>perform\<close> is the network.\<close>

definition verifyRequest :: "string \<Rightarrow> string \<Rightarrow> Request" where
  "verifyRequest workerUrl secret =
     \<lparr>req_method = ''GET'', req_host = hostFromUrl workerUrl, path = ''/resolve?host=cloudflare.com'',
      headers = [(''Authorization'', ''Bearer '' @ secret)], req_body = [], timeoutMs = 15000, req_connectPort = 0\<rparr>"

definition verifyDeployment :: "string \<Rightarrow> string \<Rightarrow> (Request \<Rightarrow> Response) \<Rightarrow> bool" where
  "verifyDeployment workerUrl secret perform \<longleftrightarrow>
     hostFromUrl workerUrl \<noteq> [] \<and>
     (let answered = perform (verifyRequest workerUrl secret)
      in response_ok answered \<and> getStringArray (body answered) ''a'' \<noteq> [])"

text \<open>
  The environment of a setup: the results of the processes, the random generator, the user's
  answers, the file system and what the Worker answers at each of the ten checks.
\<close>

record SetupEnv =
  wranglerAvailable :: bool
  logins :: "(bool \<times> bool) list"
  earlyWhoami :: ProcessResult
  lateWhoami :: ProcessResult
  accountAnswer :: string
  random :: "byte list option"
  randomAgain :: "byte list option"
  deployEnv :: DeployEnv
  createsDir :: bool
  writesConfig :: bool
  checks :: "(Request \<Rightarrow> Response) list"

record SetupState =
  setup_config :: Config
  setup_file :: ConfigFile
  remoteSecret :: "string option"

definition whoami :: "ProcessResult \<Rightarrow> Identity option" where
  "whoami r = (if process_ok r then parseIdentity (printedOutput r) else None)"

text \<open>Login attempts, each with the answer to the question whether to try again.\<close>

fun loginLoop :: "(bool \<times> bool) list \<Rightarrow> bool" where
  "loginLoop [] = False"
| "loginLoop ((ok, again) # rest) = (if ok then True else if \<not> again then False else loginLoop rest)"

definition loginAndReadIdentity :: "SetupEnv \<Rightarrow> bool \<Rightarrow> Identity option" where
  "loginAndReadIdentity env alwaysLogin =
     (case (if alwaysLogin then None else whoami (earlyWhoami env)) of Some identity \<Rightarrow> Some identity
      | None \<Rightarrow> if loginLoop (logins env) then whoami (lateWhoami env) else None)"

definition deployAndVerify :: "(string \<Rightarrow> string) \<Rightarrow> string \<Rightarrow> string \<Rightarrow> SetupEnv \<Rightarrow> SetupState \<Rightarrow> bool \<times> SetupState" where
  "deployAndVerify protect dir workerSource env st =
     (let cfg = setup_config st;
          cfg1 = (if cfg_sharedSecret cfg = [] then cfg\<lparr>cfg_sharedSecret := randomHex (randomAgain env)\<rparr> else cfg) in
      if cfg_sharedSecret cfg1 = [] then (False, st\<lparr>setup_config := cfg1\<rparr>)
      else let (url, remote1) = deploy (deployEnv env) (cfg_accountId cfg1) (cfg_workerName cfg1) workerSource
                  (cfg_sharedSecret cfg1) (cfg_workerUrl cfg1) (remoteSecret st) in
      if url = [] then (False, st\<lparr>setup_config := cfg1, remoteSecret := remote1\<rparr>)
      else let cfg2 = cfg1\<lparr>cfg_workerUrl := url\<rparr>;
               (saved, file1) = saveConfig protect (createsDir env) (writesConfig env) dir cfg2 (setup_file st);
               st2 = st\<lparr>setup_config := cfg2, setup_file := file1, remoteSecret := remote1\<rparr> in
      if \<not> saved then (False, st2) else (list_ex (verifyDeployment url (cfg_sharedSecret cfg2)) (take 10 (checks env)), st2))"

text \<open>Setup and redeployment differ in the login, the default name and the early test of the new secret.\<close>

definition installWorker :: "bool \<Rightarrow> (string \<Rightarrow> string) \<Rightarrow> string \<Rightarrow> string \<Rightarrow> SetupEnv \<Rightarrow> Identity \<Rightarrow> SetupState \<Rightarrow> bool \<times> SetupState" where
  "installWorker strict protect dir workerSource env identity st =
     (case selectAccount (accountAnswer env) identity (cfg_accountId (setup_config st)) of None \<Rightarrow> (False, st)
      | Some accountId \<Rightarrow>
          (let cfg1 = (setup_config st)\<lparr>cfg_accountId := accountId\<rparr> in
           if \<not> isValidWorkerName (cfg_workerName cfg1) then (False, st\<lparr>setup_config := cfg1\<rparr>)
           else let st1 = st\<lparr>setup_config := cfg1\<lparr>cfg_apiToken := [], cfg_sharedSecret := randomHex (random env)\<rparr>\<rparr> in
             if strict \<and> cfg_sharedSecret (setup_config st1) = [] then (False, st1)
             else deployAndVerify protect dir workerSource env st1))"

definition runSetup :: "(string \<Rightarrow> string) \<Rightarrow> string \<Rightarrow> string \<Rightarrow> SetupEnv \<Rightarrow> SetupState \<Rightarrow> bool \<times> SetupState" where
  "runSetup protect dir workerSource env st =
     (if \<not> wranglerAvailable env then (False, st)
      else case loginAndReadIdentity env True of None \<Rightarrow> (False, st)
      | Some identity \<Rightarrow>
          (let cfg = setup_config st;
               cfg1 = (if cfg_workerName cfg = [] then cfg\<lparr>cfg_workerName := kDefaultWorkerName\<rparr> else cfg)
           in installWorker False protect dir workerSource env identity (st\<lparr>setup_config := cfg1\<rparr>)))"

definition redeployWorker :: "(string \<Rightarrow> string) \<Rightarrow> string \<Rightarrow> string \<Rightarrow> SetupEnv \<Rightarrow> SetupState \<Rightarrow> bool \<times> SetupState" where
  "redeployWorker protect dir workerSource env st =
     (if \<not> wranglerAvailable env then (False, st)
      else case loginAndReadIdentity env False of None \<Rightarrow> (False, st)
      | Some identity \<Rightarrow> installWorker True protect dir workerSource env identity st)"

section \<open>The URL of the Worker\<close>

lemma find_from_at: "find_from s needle i = Some p \<Longrightarrow> take (length needle) (drop p s) = needle"
proof (induction s needle i rule: find_from.induct)
  case (1 s needle i)
  then show ?case by (subst (asm) (2) find_from.simps) (auto split: if_splits)
qed

lemma workersDevFrom_sound:
  "workersDevFrom printed workerName cursor = url \<Longrightarrow> url \<noteq> [] \<Longrightarrow>
    \<exists>before raw after. printed = before @ ''https://'' @ raw @ after \<and> list_all hostChar raw \<and>
      ownHost workerName (map tolower raw) \<and> url = ''wss://'' @ map tolower raw"
proof (induction printed workerName cursor rule: workersDevFrom.induct)
  case (1 printed workerName cursor)
  note unfold = workersDevFrom.simps [of printed workerName cursor]
  obtain pos where pos: "find_from printed ''https://'' cursor = Some pos"
    using 1(2,3) by (auto simp: unfold split: option.splits)
  define scheme where "scheme = ''https://''"
  define from_host where "from_host = drop (pos + length scheme) printed"
  define raw where "raw = takeWhile hostChar from_host"
  have step: "workersDevFrom printed workerName cursor =
      (if ownHost workerName (map tolower raw) then ''wss://'' @ map tolower raw
       else workersDevFrom printed workerName (pos + length scheme + length raw))"
    unfolding unfold pos option.case Let_def raw_def from_host_def scheme_def by (rule refl)
  show ?case
  proof (cases "ownHost workerName (map tolower raw)")
    case True
    have "printed = take pos printed @ take (length scheme) (drop pos printed) @ from_host"
      unfolding from_host_def by (metis append_take_drop_id drop_drop add.commute)
    moreover have "take (length scheme) (drop pos printed) = scheme"
      unfolding scheme_def by (rule find_from_at [OF pos])
    moreover have "from_host = raw @ dropWhile hostChar from_host" by (simp add: raw_def)
    ultimately have "printed = take pos printed @ scheme @ raw @ dropWhile hostChar from_host" by metis
    moreover have "url = ''wss://'' @ map tolower raw" using 1(2) True unfolding step by simp
    moreover have "list_all hostChar raw" unfolding raw_def list_all_iff using set_takeWhileD by fastforce
    ultimately show ?thesis using True unfolding scheme_def by blast
  next
    case False
    then have "workersDevFrom printed workerName (pos + length scheme + length raw) = url"
      using 1(2) unfolding step by simp
    then show ?thesis using 1(1) [OF pos refl refl refl] 1(3) False unfolding raw_def from_host_def scheme_def by blast
  qed
qed

lemma suffix_of_rest:
  assumes "a @ r = f @ s" "length s < length r"
  shows "\<exists>u. r = u @ s \<and> u \<noteq> []"
proof (intro exI conjI)
  have "drop (length (f @ s) - length s) (a @ r) = s" using assms(1) by simp
  moreover have "drop (length (a @ r) - length s) (a @ r) = drop (length r - length s) r" using assms(2) by simp
  ultimately have "drop (length r - length s) r = s" using assms(1) by metis
  then show "r = take (length r - length s) r @ s" by (metis append_take_drop_id)
  show "take (length r - length s) r \<noteq> []" using assms(2) by auto
qed

lemma ends_with_append: "ends_with s t \<Longrightarrow> \<exists>u. s = u @ t"
  unfolding ends_with_def by (rule exI [of _ "take (length s - length t) s"]) (metis append_take_drop_id)

lemma split_at_first:
  "x \<notin> set xs \<Longrightarrow> takeWhile (\<lambda>c. c \<noteq> x) (xs @ x # ys) = xs \<and> dropWhile (\<lambda>c. c \<noteq> x) (xs @ x # ys) = x # ys"
  by (induction xs) auto

text \<open>What the client of the tunnel makes of the URL a deployment returned.\<close>

lemma worker_url_parsed:
  assumes "list_all hostChar raw"
  shows "parseUrl (''wss://'' @ map tolower raw @ ''/tunnel'') =
    Some \<lparr>url_secure = True, url_host = map tolower raw, url_port = 443, url_path = ''/tunnel''\<rparr>"
proof -
  have plain_host: "tolower c \<noteq> slash \<and> tolower c \<noteq> colon" if "hostChar c" for c
  proof -
    have "of_char (tolower c) \<noteq> (47 :: nat) \<and> of_char (tolower c) \<noteq> (58 :: nat)"
      using that of_char_tolower [of c] unfolding hostChar_def isalnum_def Let_def by (auto split: if_splits)
    then show ?thesis by (auto simp: slash_def colon_def)
  qed
  then have "slash \<notin> set (map tolower raw)" and colon: "colon \<notin> set (map tolower raw)"
    using assms unfolding list_all_iff set_map by (metis imageE)+
  then have "takeWhile (\<lambda>c. c \<noteq> slash) (map tolower raw @ ''/tunnel'') = map tolower raw"
    "dropWhile (\<lambda>c. c \<noteq> slash) (map tolower raw @ ''/tunnel'') = ''/tunnel''"
    using split_at_first [of slash "map tolower raw" "''tunnel''"] by (simp_all add: slash_def)
  moreover have "urlScheme (''wss://'' @ map tolower raw @ ''/tunnel'') = Some (True, map tolower raw @ ''/tunnel'')"
    by (simp add: urlScheme_def starts_with_def)
  moreover have "slash \<in> set (map tolower raw @ ''/tunnel'')" by (simp add: slash_def)
  ultimately show ?thesis using colon by (simp only: parseUrl_def option.case prod.case Let_def if_True if_False)
qed

text \<open>
  C38. The URL taken from Wrangler's output is the user's own Worker and nothing else: it stands in
  the output behind \<open>https://\<close>, its host is the Worker's name, a subdomain and \<open>workers.dev\<close>, and the
  tunnel opens it as a TLS connection to exactly that host on port 443. No text of the output, a
  link to another Worker or one with a port or a path, can lead the tunnel elsewhere.
\<close>

theorem worker_url_own:
  assumes "parseWorkersDevUrl printed workerName = url" "url \<noteq> []" "workerName \<noteq> []"
  shows "\<exists>before raw after subdomain. printed = before @ ''https://'' @ raw @ after \<and>
    map tolower raw = workerName @ ''.'' @ subdomain @ ''.workers.dev'' \<and> subdomain \<noteq> [] \<and>
    parseUrl (url @ ''/tunnel'') =
      Some \<lparr>url_secure = True, url_host = workerName @ ''.'' @ subdomain @ ''.workers.dev'', url_port = 443, url_path = ''/tunnel''\<rparr>"
proof -
  obtain before raw after where found: "printed = before @ ''https://'' @ raw @ after" "list_all hostChar raw"
    "ownHost workerName (map tolower raw)" "url = ''wss://'' @ map tolower raw"
    using workersDevFrom_sound assms(1,2) unfolding parseWorkersDevUrl_def by blast
  define host where "host = map tolower raw"
  have own: "ends_with host ''.workers.dev''" "starts_with host (workerName @ ''.'')"
    "length host > length (workerName @ ''.'') + length ''.workers.dev''"
    using found(3) assms(3) unfolding ownHost_def Let_def host_def by simp_all
  obtain rest where rest: "host = (workerName @ ''.'') @ rest"
    using own(2) by (metis append_take_drop_id starts_with_def)
  obtain front where front: "host = front @ ''.workers.dev''" using ends_with_append [OF own(1)] by blast
  have "length ''.workers.dev'' < length rest" using own(3) rest by simp
  then have "\<exists>subdomain. rest = subdomain @ ''.workers.dev'' \<and> subdomain \<noteq> []"
    using rest front by (intro suffix_of_rest [of "workerName @ ''.''" rest front]) simp_all
  then obtain subdomain where sub: "rest = subdomain @ ''.workers.dev''" "subdomain \<noteq> []" by blast
  have "parseUrl (url @ ''/tunnel'') = Some \<lparr>url_secure = True, url_host = host, url_port = 443, url_path = ''/tunnel''\<rparr>"
    using worker_url_parsed [OF found(2)] by (simp add: found(4) host_def)
  then show ?thesis using found(1) rest sub host_def by (intro exI [of _ before] exI [of _ raw] exI [of _ after] exI [of _ subdomain]) simp
qed

section \<open>The secret is not lost\<close>

lemma deploy_remote:
  assumes "deploy d accountId workerName workerSource secret previous remote = (url, remote1)"
  shows "(url \<noteq> [] \<longrightarrow> remote1 = Some secret) \<and> (remote1 = remote \<or> remote1 = Some secret) \<and>
    (remote1 \<noteq> remote \<longrightarrow> url = [] \<longrightarrow> process_ok (secretPut d) \<longrightarrow>
      (\<exists>code. deployedCode d = Some code \<and> parseWorkersDevUrl (printedOutput code) workerName = []))"
  using assms by (auto simp: deploy_def deployedUrl_def Let_def split: if_splits option.splits)

text \<open>What the next start reads from a saved configuration.\<close>

definition startsWith :: "(string \<Rightarrow> string) \<Rightarrow> string \<Rightarrow> ConfigFile \<Rightarrow> string \<Rightarrow> string \<Rightarrow> bool" where
  "startsWith unprotect dir contents secret url \<longleftrightarrow>
     (let (found, cfg) = loadConfig unprotect dir contents defaultConfig
      in found \<and> cfg_sharedSecret cfg = secret \<and> cfg_workerUrl cfg = url)"

definition protects :: "(string \<Rightarrow> string) \<Rightarrow> (string \<Rightarrow> string) \<Rightarrow> bool" where
  "protects protect unprotect \<longleftrightarrow> (\<forall>s. s \<noteq> [] \<longrightarrow> protect s \<noteq> [] \<and> unprotect (protect s) = s)"

lemma saved_starts:
  assumes "protects protect unprotect" "dir \<noteq> []" "cfg_sharedSecret cfg \<noteq> []"
  shows "startsWith unprotect dir (Content (saveText protect cfg)) (cfg_sharedSecret cfg) (cfg_workerUrl cfg)"
proof -
  let ?doc = "documentText (configMembers protect cfg)"
  have "getString ?doc ''worker_url'' 0 = cfg_workerUrl cfg" "getString ?doc ''shared_secret_dpapi'' 0 = storedSecret protect cfg"
    by (rule document_string [OF members_ok_config]; simp add: plain_def configMembers_def)+
  moreover have "storedSecret protect cfg \<noteq> [] \<and> unprotect (storedSecret protect cfg) = cfg_sharedSecret cfg"
    using assms(1,3) by (simp add: protects_def storedSecret_def)
  ultimately show ?thesis using assms(2)
    by (simp add: startsWith_def loadConfig_def configPath_def inConfigDir_def applyDocument_def saveText_def readSecret_def Let_def
        split: prod.splits)
qed

lemma deployAndVerify_secret:
  assumes "protects protect unprotect" "dir \<noteq> []"
    and run: "deployAndVerify protect dir workerSource env st = (ok, st1)"
  shows "(ok \<longrightarrow> (\<exists>secret url. secret \<noteq> [] \<and> url \<noteq> [] \<and> remoteSecret st1 = Some secret \<and> startsWith unprotect dir (setup_file st1) secret url \<and>
        list_ex (verifyDeployment url secret) (checks env))) \<and>
    (remoteSecret st1 \<noteq> remoteSecret st \<longrightarrow> createsDir env \<longrightarrow> writesConfig env \<longrightarrow> process_ok (secretPut (deployEnv env)) \<longrightarrow>
      (\<forall>code. deployedCode (deployEnv env) = Some code \<longrightarrow>
        parseWorkersDevUrl (printedOutput code) (cfg_workerName (setup_config st)) \<noteq> []) \<longrightarrow>
      (\<exists>secret url. remoteSecret st1 = Some secret \<and> startsWith unprotect dir (setup_file st1) secret url))"
proof -
  define cfg where "cfg = (if cfg_sharedSecret (setup_config st) = []
    then (setup_config st)\<lparr>cfg_sharedSecret := randomHex (randomAgain env)\<rparr> else setup_config st)"
  show ?thesis
  proof (cases "cfg_sharedSecret cfg = []")
    case True
    then show ?thesis using run by (auto simp: deployAndVerify_def Let_def cfg_def split: if_splits)
  next
    case False
    obtain url remote1 where deployed: "deploy (deployEnv env) (cfg_accountId cfg) (cfg_workerName cfg) workerSource
        (cfg_sharedSecret cfg) (cfg_workerUrl cfg) (remoteSecret st) = (url, remote1)" by fastforce
    define cfg2 where "cfg2 = cfg\<lparr>cfg_workerUrl := url\<rparr>"
    have starts: "startsWith unprotect dir (Content (saveText protect cfg2)) (cfg_sharedSecret cfg) url"
      using saved_starts [OF assms(1,2), of cfg2] False by (simp add: cfg2_def)
    obtain saved file1 where save: "saveConfig protect (createsDir env) (writesConfig env) dir cfg2 (setup_file st) = (saved, file1)" by fastforce
    then have file1: "saved \<longleftrightarrow> createsDir env \<and> writesConfig env" "saved \<Longrightarrow> file1 = Content (saveText protect cfg2)"
      using assms(2) by (auto simp: saveConfig_def split: if_splits)
    note start = run [unfolded deployAndVerify_def Let_def, folded cfg_def, unfolded if_not_P [OF False] deployed prod.case]
    note remote = deploy_remote [OF deployed]
    have name: "cfg_workerName cfg = cfg_workerName (setup_config st)" by (simp add: cfg_def)
    show ?thesis
    proof (cases "url = []")
      case True
      then have "\<not> ok" "remoteSecret st1 = remote1" using start by auto
      then show ?thesis using remote True name by auto
    next
      case url: False
      note start1 = start [unfolded if_not_P [OF url], folded cfg2_def, unfolded save prod.case]
      have st1: "ok \<longrightarrow> saved" "remoteSecret st1 = remote1" "setup_file st1 = file1" using start1 by (auto split: if_splits)
      have "ok \<longrightarrow> list_ex (verifyDeployment url (cfg_sharedSecret cfg)) (checks env)"
        using start1 by (auto simp: list_ex_iff cfg2_def dest: in_set_takeD split: if_splits)
      moreover have "remote1 = Some (cfg_sharedSecret cfg)" using remote url by blast
      ultimately show ?thesis using st1 file1 starts False url by auto
    qed
  qed
qed

lemma deployAndVerify_name:
  "deployAndVerify protect dir workerSource env st = (ok, st1) \<Longrightarrow> cfg_workerName (setup_config st1) = cfg_workerName (setup_config st)"
  by (auto simp: deployAndVerify_def Let_def split: if_splits prod.splits)

text \<open>Every run either stops before anything was deployed or ends with the deployment.\<close>

lemma installWorker_cases:
  assumes "installWorker strict protect dir workerSource env identity st = (ok, st1)"
  obtains (stopped) "\<not> ok" "remoteSecret st1 = remoteSecret st"
  | (deployed) st0 where "deployAndVerify protect dir workerSource env st0 = (ok, st1)" "remoteSecret st0 = remoteSecret st"
  using assms by (fastforce simp: installWorker_def Let_def split: option.splits if_splits)

lemma run_cases:
  assumes "runSetup protect dir workerSource env st = (ok, st1) \<or> redeployWorker protect dir workerSource env st = (ok, st1)"
  obtains (stopped) "\<not> ok" "remoteSecret st1 = remoteSecret st"
  | (deployed) st0 where "deployAndVerify protect dir workerSource env st0 = (ok, st1)" "remoteSecret st0 = remoteSecret st"
proof -
  consider "\<not> ok \<and> remoteSecret st1 = remoteSecret st"
    | strict identity stx where "installWorker strict protect dir workerSource env identity stx = (ok, st1)" "remoteSecret stx = remoteSecret st"
    using assms by (fastforce simp: runSetup_def redeployWorker_def Let_def split: option.splits if_splits)
  then show ?thesis
  proof cases
    case 1
    then show ?thesis using stopped by blast
  next
    case 2
    from 2(1) show ?thesis
      by (cases rule: installWorker_cases) (use 2(2) stopped deployed in auto)
  qed
qed


text \<open>A redeployment whose ten checks all fail: the new secret is in the configuration.\<close>

definition okProcess :: "string \<Rightarrow> ProcessResult" where
  "okProcess out = \<lparr>launched = True, timedOut = False, exitCode = 0, printedOutput = out\<rparr>"

definition sampleDeploy :: DeployEnv where
  "sampleDeploy = \<lparr>directoryValid = True, writesFiles = True, firstDeploy = okProcess ''https://w.me.workers.dev'', rewritesConfig = True,
     secondDeploy = okProcess [], secretPut = okProcess [], putTookEffect = False\<rparr>"

definition sampleAccount :: string where
  "sampleAccount = replicate 32 CHR ''a''"

definition sampleSetup :: "ProcessResult \<Rightarrow> SetupEnv" where
  "sampleSetup who = \<lparr>wranglerAvailable = True, logins = [], earlyWhoami = who, lateWhoami = who, accountAnswer = [],
     random = Some [1, 2], randomAgain = None, deployEnv = sampleDeploy, createsDir = True, writesConfig = True, checks = []\<rparr>"

definition sampleState :: SetupState where
  "sampleState = \<lparr>setup_config = defaultConfig\<lparr>cfg_workerName := ''w''\<rparr>, setup_file = Missing, remoteSecret = None\<rparr>"

definition sampleWhoami :: string where
  "sampleWhoami = CHR ''{'' # quoted ''accounts'' @ '':[{'' @ quoted ''id'' @ [CHR '':''] @ quoted sampleAccount @ ''}]}''"

lemma sample_identity: "map account_id (accounts (the (parseIdentity sampleWhoami))) = [sampleAccount] \<and> parseIdentity sampleWhoami \<noteq> None"
  by code_simp

lemma sample_url: "parseWorkersDevUrl ''https://w.me.workers.dev'' ''w'' = ''wss://w.me.workers.dev''"
  by code_simp

lemma sample_remote:
  "let st1 = snd (redeployWorker rev ''C:'' ''js'' (sampleSetup (okProcess sampleWhoami)) sampleState)
   in remoteSecret st1 = Some ''0102'' \<and> cfg_workerName (setup_config st1) = ''w''"
  by code_simp

theorem worker_url_own_witness:
  "\<exists>before raw after subdomain. ''https://w.me.workers.dev'' = before @ ''https://'' @ raw @ after \<and>
    map tolower raw = ''w'' @ ''.'' @ subdomain @ ''.workers.dev'' \<and> subdomain \<noteq> [] \<and>
    parseUrl (''wss://w.me.workers.dev'' @ ''/tunnel'') =
      Some \<lparr>url_secure = True, url_host = ''w'' @ ''.'' @ subdomain @ ''.workers.dev'', url_port = 443, url_path = ''/tunnel''\<rparr>"
  by (rule worker_url_own [OF sample_url]) simp_all


text \<open>
  The case the theorem excludes: the deployment prints no URL and there is none from before, so
  \<open>deploy\<close> reports a failure after the Worker has taken the new secret, and nothing is saved.
\<close>

lemma unread_url_loses_secret:
  assumes "isHexAccountId accountId" "isValidWorkerName workerName" "workerSource \<noteq> []" "secret \<noteq> []"
    and "directoryValid d" "writesFiles d" "deployedCode d = Some code" "process_ok (secretPut d)"
    and "parseWorkersDevUrl (printedOutput code) workerName = []"
  shows "deploy d accountId workerName workerSource secret [] remote = ([], Some secret)"
  using assms by (simp add: deploy_def deployedUrl_def starts_with_def)

text \<open>
  A secret that cannot be encrypted is not written, but saving reports success all the same.
\<close>

lemma unprotected_secret_dropped:
  assumes "cfg_sharedSecret cfg \<noteq> []" "protect (cfg_sharedSecret cfg) = []" "dir \<noteq> []"
  shows "fst (saveConfig protect True True dir cfg contents) \<and>
    cfg_sharedSecret (snd (loadConfig unprotect dir (snd (saveConfig protect True True dir cfg contents)) defaultConfig)) = []"
proof -
  let ?doc = "documentText (configMembers protect cfg)"
  have "getString ?doc ''shared_secret_dpapi'' 0 = storedSecret protect cfg"
    by (rule document_string [OF members_ok_config]) (simp_all add: plain_def configMembers_def)
  moreover have "getString ?doc ''shared_secret'' 0 = []"
    by (rule document_no_string [OF members_ok_config]) (simp_all add: plain_def configMembers_def)
  ultimately show ?thesis using assms
    by (simp add: saveConfig_def storedSecret_def loadConfig_def configPath_def inConfigDir_def applyDocument_def saveText_def readSecret_def
        Let_def split: prod.splits)
qed

end
