(* ===== verification/System_Proxy.thy ===== *)
theory System_Proxy
  imports Json_Document
begin

text \<open>
  The Windows proxy settings of \<open>src/src/SystemProxy.cpp\<close> and \<open>SystemProxy.hpp\<close>: pointing the system at
  this program, the backup written before, and putting the old settings back, also after a crash.
  The registry key and the backup file are explicit state; a write of the registry is one step,
  so a crash can fall between any two.
\<close>

section \<open>The registry\<close>

text \<open>String values are stored with their terminator.\<close>

record Registry =
  proxyEnable :: "u32 option"
  proxyServer :: "string option"
  proxyOverride :: "string option"

definition kBypassList :: string where "kBypassList = ''localhost;127.0.0.1;<local>''"

definition ourProxyValue :: "u16 \<Rightarrow> string" where
  "ourProxyValue port = ''https=127.0.0.1:'' @ dec_digits (unat port)"

definition pointsAtUs :: "string \<Rightarrow> u16 \<Rightarrow> bool" where
  "pointsAtUs v port \<longleftrightarrow> v = ourProxyValue port \<or> v = ''127.0.0.1:'' @ dec_digits (unat port)"

definition dropTerminators :: "string \<Rightarrow> string" where
  "dropTerminators s = rev (dropWhile (\<lambda>c. c = CHR 0x00) (rev s))"

definition regGetString :: "string option \<Rightarrow> string" where
  "regGetString v = (case v of None \<Rightarrow> [] | Some s \<Rightarrow> dropTerminators s)"

definition regGetDword :: "u32 option \<Rightarrow> u32" where
  "regGetDword v = (case v of None \<Rightarrow> 0 | Some n \<Rightarrow> n)"

definition regSetOrDelete :: "string \<Rightarrow> string option" where
  "regSetOrDelete v = (if v = [] then None else Some (v @ [CHR 0x00]))"

section \<open>Settings and backup\<close>

record Settings =
  enabled :: u32
  server :: string
  bypass :: string
  ourPort :: u16

definition readCurrent :: "Registry \<Rightarrow> Settings" where
  "readCurrent r = \<lparr>enabled = regGetDword (proxyEnable r), server = regGetString (proxyServer r),
     bypass = regGetString (proxyOverride r), ourPort = 0\<rparr>"

datatype RegWrite = WriteEnable u32 | WriteServer string | WriteOverride string

fun regWrite :: "RegWrite \<Rightarrow> Registry \<Rightarrow> Registry" where
  "regWrite (WriteEnable n) r = r\<lparr>proxyEnable := Some n\<rparr>"
| "regWrite (WriteServer s) r = r\<lparr>proxyServer := regSetOrDelete s\<rparr>"
| "regWrite (WriteOverride s) r = r\<lparr>proxyOverride := regSetOrDelete s\<rparr>"

definition applySteps :: "Settings \<Rightarrow> RegWrite list" where
  "applySteps s = [WriteEnable (enabled s), WriteServer (server s), WriteOverride (bypass s)]"

text \<open>
  \<open>applySnapshot\<close>: whether the key opens and whether the first write succeeds is up to Windows. A
  failed write leaves its value, the others are tried all the same.
\<close>

definition applySnapshot :: "bool \<Rightarrow> bool \<Rightarrow> Settings \<Rightarrow> Registry \<Rightarrow> bool \<times> Registry" where
  "applySnapshot opens writesEnable s r =
     (if \<not> opens then (False, r)
      else (writesEnable, fold regWrite (if writesEnable then applySteps s else tl (applySteps s)) r))"

definition backupMembers :: "Settings \<Rightarrow> (string \<times> string) list" where
  "backupMembers s =
     [(''version'', ''1''), (''our_port'', dec_digits (unat (ourPort s))),
      (''proxy_enable'', dec_digits (unat (enabled s))), (''proxy_server'', quoted (escape (server s))),
      (''proxy_override'', quoted (escape (bypass s)))]"

definition writeBackup :: "bool \<Rightarrow> string \<Rightarrow> Settings \<Rightarrow> string option \<Rightarrow> bool \<times> string option" where
  "writeBackup writes backupPath s old =
     (if backupPath = [] \<or> \<not> writes then (False, old) else (True, Some (documentText (backupMembers s))))"

definition readBackup :: "string \<Rightarrow> string option \<Rightarrow> Settings option" where
  "readBackup backupPath contents =
     (case contents of None \<Rightarrow> None
      | Some doc \<Rightarrow>
          if backupPath = [] \<or> doc = [] then None
          else Some \<lparr>enabled = of_int (getInt doc ''proxy_enable'' 0), server = getString doc ''proxy_server'' 0,
                     bypass = getString doc ''proxy_override'' 0, ourPort = of_int (getInt doc ''our_port'' 0)\<rparr>)"

section \<open>The operations\<close>

record ProxyState =
  registry :: Registry
  backupFile :: "string option"
  saved :: bool
  snapshot :: Settings
  proxyBackup :: string

definition ourSettings :: "u16 \<Rightarrow> Settings" where
  "ourSettings port = \<lparr>enabled = 1, server = ourProxyValue port, bypass = kBypassList, ourPort = 0\<rparr>"

text \<open>What Windows answers during one operation.\<close>

record ProxyEnv =
  opensRead :: bool
  opensWrite :: bool
  writesEnable :: bool
  writesBackup :: bool

definition isOurs :: "ProxyEnv \<Rightarrow> u16 \<Rightarrow> Registry \<Rightarrow> bool" where
  "isOurs env port r \<longleftrightarrow> opensRead env \<and> enabled (readCurrent r) = 1 \<and> pointsAtUs (server (readCurrent r)) port"

text \<open>The first half of \<open>enable\<close>: take and write the snapshot, unless the settings are ours already.\<close>

definition takeSnapshot :: "ProxyEnv \<Rightarrow> u16 \<Rightarrow> string \<Rightarrow> ProxyState \<Rightarrow> ProxyState" where
  "takeSnapshot env port backupPath st =
     (let current = readCurrent (registry st) in
      if enabled current = 1 \<and> pointsAtUs (server current) port then st
      else if \<not> saved st then
        (let kept = current\<lparr>ourPort := port\<rparr> in
         st\<lparr>snapshot := kept, saved := True, proxyBackup := backupPath,
            backupFile := snd (writeBackup (writesBackup env) backupPath kept (backupFile st))\<rparr>)
      else st)"

definition enableProxy :: "ProxyEnv \<Rightarrow> u16 \<Rightarrow> string \<Rightarrow> ProxyState \<Rightarrow> bool \<times> ProxyState" where
  "enableProxy env port backupPath st =
     (if \<not> opensRead env then (False, st)
      else let st1 = takeSnapshot env port backupPath st;
               (ok, r) = applySnapshot (opensWrite env) (writesEnable env) (ourSettings port) (registry st1)
        in (ok, st1\<lparr>registry := r\<rparr>))"

definition disableProxy :: "ProxyEnv \<Rightarrow> ProxyState \<Rightarrow> bool \<times> ProxyState" where
  "disableProxy env st =
     (if \<not> saved st then (True, st)
      else let (restored, r) = applySnapshot (opensWrite env) (writesEnable env) (snapshot st) (registry st) in
        if \<not> restored then (False, st\<lparr>registry := r\<rparr>)
        else (True, st\<lparr>registry := r, backupFile := None, saved := False, proxyBackup := []\<rparr>))"

definition restoreLeftovers :: "ProxyEnv \<Rightarrow> string \<Rightarrow> bool \<Rightarrow> ProxyState \<Rightarrow> bool \<times> ProxyState" where
  "restoreLeftovers env backupPath force st =
     (case readBackup backupPath (backupFile st) of None \<Rightarrow> (False, st)
      | Some backup \<Rightarrow>
          if \<not> force \<and> \<not> isOurs env (ourPort backup) (registry st) then (False, st)
          else let (restored, r) = applySnapshot (opensWrite env) (writesEnable env) backup (registry st)
            in (restored, st\<lparr>registry := r, backupFile := (if restored then None else backupFile st)\<rparr>))"

text \<open>A new process: what the old one held in memory is gone, registry and file remain.\<close>

definition restart :: "ProxyState \<Rightarrow> ProxyState" where
  "restart st = st\<lparr>saved := False, snapshot := \<lparr>enabled = 0, server = [], bypass = [], ourPort = 0\<rparr>, proxyBackup := []\<rparr>"

section \<open>The old settings come back\<close>

lemma dropTerminators_append [simp]: "dropTerminators (s @ [CHR 0x00]) = dropTerminators s"
  by (simp add: dropTerminators_def)

lemma dropTerminators_idem [simp]: "dropTerminators (dropTerminators s) = dropTerminators s"
  by (simp add: dropTerminators_def)

lemma regGetString_set: "regGetString (regSetOrDelete s) = dropTerminators s"
  by (simp add: regGetString_def regSetOrDelete_def dropTerminators_def)

lemma regGetString_trim [simp]: "dropTerminators (regGetString v) = regGetString v"
  by (auto simp: regGetString_def dropTerminators_def split: option.split)

lemma readCurrent_apply:
  "readCurrent (fold regWrite (applySteps s) r) =
     \<lparr>enabled = enabled s, server = dropTerminators (server s), bypass = dropTerminators (bypass s), ourPort = 0\<rparr>"
  by (simp add: applySteps_def readCurrent_def regGetDword_def regGetString_set)

lemma members_ok_backup: "members_ok (backupMembers s)"
proof -
  have "silent ''1''" using silent_no_quote [of "''1''" "CHR ''1''" "[]"] by (simp add: isWs_def)
  then show ?thesis by (simp add: backupMembers_def plain_def silent_string silent_number)
qed

lemma backup_readback:
  assumes "backupPath \<noteq> []"
  shows "readBackup backupPath (Some (documentText (backupMembers s))) = Some s"
proof -
  let ?doc = "documentText (backupMembers s)"
  note ok = members_ok_backup [of s]
  have "unat (enabled s) < 2 ^ 32" using unsigned_less [of "enabled s", where ?'a = nat] by simp
  then have enabled: "unat (enabled s) < 2 ^ 63" by (rule order_less_trans) simp
  have port: "unat (ourPort s) < 2 ^ 63" by (rule order_less_trans [OF unat_u16_less]) simp
  have "getInt ?doc ''proxy_enable'' 0 = int (unat (enabled s))"
    by (rule document_int [OF ok]) (use enabled in \<open>simp_all add: plain_def backupMembers_def\<close>)
  moreover have "getInt ?doc ''our_port'' 0 = int (unat (ourPort s))"
    by (rule document_int [OF ok]) (use port in \<open>simp_all add: plain_def backupMembers_def\<close>)
  moreover have "getString ?doc ''proxy_server'' 0 = server s" "getString ?doc ''proxy_override'' 0 = bypass s"
    by (rule document_string [OF ok]; simp add: plain_def backupMembers_def)+
  moreover have "?doc \<noteq> []" by (simp add: documentText_def)
  ultimately show ?thesis using assms by (simp add: readBackup_def)
qed

lemma dropTerminators_ours [simp]: "dropTerminators (ourProxyValue port) = ourProxyValue port"
proof -
  obtain d ds where digits: "dec_digits (unat port) = ds @ [d]"
    using dec_digits_props [of "unat port"] by (cases "dec_digits (unat port)" rule: rev_cases) auto
  then have "isdigit d" using isdigit_dec_digits [of d "unat port"] by simp
  then have "d \<noteq> CHR 0x00" by (auto simp: isdigit_def)
  then show ?thesis using digits by (simp add: dropTerminators_def ourProxyValue_def)
qed

text \<open>Two of the three writes make the settings recognisable as ours.\<close>

lemma isOurs_after:
  assumes "opensRead env" "2 \<le> k"
  shows "isOurs env port (fold regWrite (take k (applySteps (ourSettings port))) r)"
proof -
  obtain j where "k = Suc (Suc j)" using assms(2) by (cases k; cases "k - 1") auto
  then show ?thesis using assms(1)
    by (cases j) (simp_all add: isOurs_def applySteps_def ourSettings_def readCurrent_def regGetDword_def
        regGetString_set pointsAtUs_def)
qed

lemma restored_settings:
  assumes "opensWrite env" "writesEnable env" "s = (readCurrent r)\<lparr>ourPort := port\<rparr>"
  shows "\<exists>r''. applySnapshot (opensWrite env) (writesEnable env) s r' = (True, r'') \<and> readCurrent r'' = readCurrent r"
proof -
  have "readCurrent (fold regWrite (applySteps s) r') = readCurrent r"
    unfolding readCurrent_apply assms(3) by (simp add: readCurrent_def)
  then show ?thesis using assms(1,2) by (simp add: applySnapshot_def)
qed

lemma enable_keeps_snapshot:
  assumes "saved st"
  shows "saved (snd (enableProxy env port b st)) \<and> snapshot (snd (enableProxy env port b st)) = snapshot st \<and>
    backupFile (snd (enableProxy env port b st)) = backupFile st"
  using assms by (simp add: enableProxy_def takeSnapshot_def Let_def split: prod.split)

lemma enables_keep_snapshot:
  "saved st \<Longrightarrow> saved (foldl (\<lambda>s (e, p, b). snd (enableProxy e p b s)) st calls) \<and>
    snapshot (foldl (\<lambda>s (e, p, b). snd (enableProxy e p b s)) st calls) = snapshot st"
proof (induction calls arbitrary: st)
  case (Cons call calls)
  obtain e p b where "call = (e, p, b)" by (cases call)
  then show ?case using Cons.IH [of "snd (enableProxy e p b st)"] enable_keeps_snapshot [OF Cons.prems, of e p b] by simp
qed simp


definition sampleProxy :: ProxyState where
  "sampleProxy = \<lparr>registry = \<lparr>proxyEnable = Some 0, proxyServer = Some (''corp:8080'' @ [CHR 0x00]), proxyOverride = None\<rparr>,
     backupFile = None, saved = False, snapshot = \<lparr>enabled = 0, server = [], bypass = [], ourPort = 0\<rparr>, proxyBackup = []\<rparr>"

definition goodProxyEnv :: ProxyEnv where
  "goodProxyEnv = \<lparr>opensRead = True, opensWrite = True, writesEnable = True, writesBackup = True\<rparr>"


text \<open>
  The one gap: a crash right after the first write leaves the user's own server with the proxy
  switched on, and the next start does not recognise it, although the backup is there.
\<close>

lemma crash_after_first_write:
  assumes "crashed = (takeSnapshot goodProxyEnv 8443 ''b'' sampleProxy)\<lparr>registry :=
      fold regWrite (take 1 (applySteps (ourSettings 8443))) (registry sampleProxy)\<rparr>"
  shows "restoreLeftovers goodProxyEnv ''b'' False (restart crashed) = (False, restart crashed) \<and>
    enabled (readCurrent (registry crashed)) = 1 \<and> server (readCurrent (registry crashed)) = ''corp:8080''"
proof -
  let ?kept = "(readCurrent (registry sampleProxy))\<lparr>ourPort := 8443\<rparr>"
  have read: "readCurrent (registry sampleProxy) = \<lparr>enabled = 0, server = ''corp:8080'', bypass = [], ourPort = 0\<rparr>"
    by (simp add: sampleProxy_def readCurrent_def regGetDword_def regGetString_def dropTerminators_def)
  have snap: "takeSnapshot goodProxyEnv 8443 ''b'' sampleProxy = sampleProxy\<lparr>snapshot := ?kept, saved := True,
      proxyBackup := ''b'', backupFile := Some (documentText (backupMembers ?kept))\<rparr>"
    by (simp add: takeSnapshot_def writeBackup_def read Let_def goodProxyEnv_def) (simp add: sampleProxy_def)
  have now: "readCurrent (registry crashed) = \<lparr>enabled = 1, server = ''corp:8080'', bypass = [], ourPort = 0\<rparr>"
    using read by (simp add: assms applySteps_def ourSettings_def readCurrent_def regGetDword_def)
  then have "\<not> isOurs goodProxyEnv 8443 (registry crashed)"
    by (simp add: isOurs_def pointsAtUs_def ourProxyValue_def)
  moreover have "readBackup ''b'' (backupFile (restart crashed)) = Some ?kept"
    using backup_readback by (simp add: assms snap restart_def)
  ultimately show ?thesis using now by (simp add: restoreLeftovers_def restart_def)
qed

end
