(* ===== verification/Engine_Supervisor.thy ===== *)
theory Engine_Supervisor
  imports Recovery_Policy Config_Store
begin

text \<open>
  The tray process as the supervisor of the network engine, \<open>src/src/TrayApp.cpp\<close> with the exit
  codes of \<open>EngineExitCodes.hpp\<close>: the engine's state machine, stopping and restarting it, setup and
  the change of the DNS mode. Every message of the window (a menu command, the poll timer, the
  end of the session, a change of the configuration in the panel) is one step; what Windows answers
  during it, the clock included, is the environment of the step. Texts and icons are left out.
\<close>

section \<open>Exit codes\<close>

definition kRelayPortInUse :: u32 where "kRelayPortInUse = 10"
definition kDnsRelayPortInUse :: u32 where "kDnsRelayPortInUse = 11"
definition kWinDivertOpenFailed :: u32 where "kWinDivertOpenFailed = 12"
definition kInvalidProcessRules :: u32 where "kInvalidProcessRules = 13"
definition kSetupRequired :: u32 where "kSetupRequired = 14"
definition kMonitorUnavailable :: u32 where "kMonitorUnavailable = 15"
definition kConfigUnreadable :: u32 where "kConfigUnreadable = 16"
definition kDllNotFound :: u32 where "kDllNotFound = 0xC0000135"

definition needsUserAction :: "u32 \<Rightarrow> bool" where
  "needsUserAction code \<longleftrightarrow> code = kWinDivertOpenFailed \<or> code = kInvalidProcessRules \<or>
     code = kSetupRequired \<or> code = kConfigUnreadable \<or> code = kDllNotFound"

section \<open>State and environment\<close>

definition kEngineTransitionTimeoutMs :: u64 where "kEngineTransitionTimeoutMs = 10000"
definition kEngineKilledExitCode :: u32 where "kEngineKilledExitCode = 0xDEAD0001"

datatype EngineState = Stopped | Starting | Running | Stopping | Failed

text \<open>\<open>starts\<close> counts the engine processes created and \<open>kills\<close> the ones terminated by the tray.\<close>

record Tray =
  canStart :: bool
  exiting :: bool
  restartPending :: bool
  configurationRestartPending :: bool
  engineKilled :: bool
  restartAtMs :: u64
  stateSinceMs :: u64
  restartBudget :: RestartBudget
  engineState :: EngineState
  windowOpen :: bool
  engineProcess :: bool
  eventsOpen :: bool
  shutdownSignalled :: bool
  setupProcess :: bool
  setupWantsWorker :: bool
  starts :: nat
  kills :: nat

record TrayEnv =
  tickNow :: u64
  exeFound :: bool
  makesEvents :: bool
  createsProcess :: bool
  onDisk :: Config
  savesConfig :: bool
  readySignalled :: bool
  exitedBefore :: bool
  engineExit :: "u32 option"
  setupExit :: "u32 option"

definition newTray :: "bool \<Rightarrow> Tray" where
  "newTray start = \<lparr>canStart = start, exiting = False, restartPending = False, configurationRestartPending = False,
     engineKilled = False, restartAtMs = 0, stateSinceMs = 0, restartBudget = newBudget kMaxAutomaticRestarts kRestartWindowMs,
     engineState = Stopped, windowOpen = True, engineProcess = False, eventsOpen = False, shutdownSignalled = False,
     setupProcess = False, setupWantsWorker = False, starts = 0, kills = 0\<rparr>"

section \<open>Operations\<close>

definition setState :: "u64 \<Rightarrow> EngineState \<Rightarrow> Tray \<Rightarrow> Tray" where
  "setState now s t = t\<lparr>stateSinceMs := (if engineState t \<noteq> s then now else stateSinceMs t), engineState := s\<rparr>"

definition closeEngineHandles :: "Tray \<Rightarrow> Tray" where
  "closeEngineHandles t = t\<lparr>engineProcess := False, eventsOpen := False, shutdownSignalled := False, engineKilled := False\<rparr>"

definition startEngine :: "TrayEnv \<Rightarrow> bool \<Rightarrow> Tray \<Rightarrow> Tray" where
  "startEngine e automatic t =
     (if \<not> canStart t \<or> engineProcess t then t
      else let t1 = t\<lparr>restartPending := False, restartAtMs := 0, engineKilled := False,
                      restartBudget := (if automatic then restartBudget t else budget_reset (restartBudget t))\<rparr> in
        if \<not> exeFound e then setState (tickNow e) Failed t1
        else if \<not> makesEvents e \<or> \<not> createsProcess e then setState (tickNow e) Failed (closeEngineHandles t1)
        else setState (tickNow e) Starting
               (t1\<lparr>engineProcess := True, eventsOpen := True, shutdownSignalled := False, starts := starts t + 1\<rparr>))"

definition requestStop :: "TrayEnv \<Rightarrow> Tray \<Rightarrow> Tray" where
  "requestStop e t =
     (if restartPending t then setState (tickNow e) Stopped (t\<lparr>restartPending := False, restartAtMs := 0\<rparr>)
      else if \<not> engineProcess t then t
      else let t1 = (if engineState t \<noteq> Stopping then setState (tickNow e) Stopping t else t)
        in t1\<lparr>shutdownSignalled := (eventsOpen t1 \<or> shutdownSignalled t1)\<rparr>)"

definition requestExit :: "TrayEnv \<Rightarrow> Tray \<Rightarrow> Tray" where
  "requestExit e t =
     (let t1 = t\<lparr>exiting := True, restartPending := False, restartAtMs := 0, configurationRestartPending := False\<rparr>
      in if engineProcess t1 then requestStop e t1 else t1\<lparr>windowOpen := False\<rparr>)"

definition launchSetup :: "TrayEnv \<Rightarrow> bool \<Rightarrow> Tray \<Rightarrow> Tray" where
  "launchSetup e wantWorkerMode t =
     (if setupProcess t \<or> \<not> exeFound e \<or> \<not> createsProcess e then t
      else t\<lparr>setupProcess := True, setupWantsWorker := wantWorkerMode\<rparr>)"

definition restartEngineForConfiguration :: "TrayEnv \<Rightarrow> Tray \<Rightarrow> Tray" where
  "restartEngineForConfiguration e t =
     (if exiting t \<or> \<not> canStart t then t
      else case engineState t of
        Stopped \<Rightarrow> t
      | Stopping \<Rightarrow> t
      | Starting \<Rightarrow> requestStop e (t\<lparr>restartPending := False, restartAtMs := 0, configurationRestartPending := True\<rparr>)
      | Running \<Rightarrow> requestStop e (t\<lparr>restartPending := False, restartAtMs := 0, configurationRestartPending := True\<rparr>)
      | Failed \<Rightarrow>
          (let t1 = t\<lparr>restartPending := False, restartAtMs := 0\<rparr>
           in if engineProcess t1 then t1 else startEngine e False t1))"

text \<open>The end of a setup: the configuration it wrote decides whether the engine can start.\<close>

definition pollSetup :: "TrayEnv \<Rightarrow> Tray \<Rightarrow> Tray" where
  "pollSetup e t =
     (case (setupProcess t, setupExit e) of
        (True, Some exitCode) \<Rightarrow>
          (let t1 = t\<lparr>setupProcess := False\<rparr>;
               cfg = onDisk e;
               switch = (setupWantsWorker t \<and> cfg_dnsMode cfg \<noteq> Worker);
               cfg1 = (if switch then cfg\<lparr>cfg_dnsMode := Worker\<rparr> else cfg)
           in if exiting t then t1
              else if exitCode \<noteq> 0 \<or> cfg_loadFailed cfg \<or> cfg_workerUrl cfg = [] then t1
              else if switch \<and> \<not> savesConfig e then t1
              else let t2 = t1\<lparr>canStart := isValid cfg1\<rparr> in
                if \<not> canStart t2 then t2
                else if \<not> engineProcess t2 \<and> (engineState t2 = Stopped \<or> engineState t2 = Failed)
                then startEngine e False t2 else restartEngineForConfiguration e t2)
      | _ \<Rightarrow> t)"

definition scheduleAutomaticRestart :: "u64 \<Rightarrow> Tray \<Rightarrow> Tray" where
  "scheduleAutomaticRestart now t =
     (let t1 = setState now Failed t;
          (attempt, b) = budget_consume now (restartBudget t1);
          t2 = t1\<lparr>restartBudget := b\<rparr>
      in if attempt = 0 then t2
         else t2\<lparr>restartPending := True, restartAtMs := now + ucast (automaticRestartDelayMs attempt)\<rparr>)"

definition handleEngineExit :: "TrayEnv \<Rightarrow> u32 \<Rightarrow> Tray \<Rightarrow> Tray" where
  "handleEngineExit e exitCode t =
     (let expected = (engineState t = Stopping \<or> exiting t);
          t1 = closeEngineHandles t in
      if exiting t1 then t1\<lparr>windowOpen := False\<rparr>
      else if expected then
        (if configurationRestartPending t1
         then startEngine e False (setState (tickNow e) Stopped (t1\<lparr>configurationRestartPending := False\<rparr>))
         else setState (tickNow e) Stopped t1)
      else if exitCode = of_int kWorkerUnavailableExitCode \<or> needsUserAction exitCode
      then setState (tickNow e) Failed (t1\<lparr>restartPending := False, restartAtMs := 0\<rparr>)
      else scheduleAutomaticRestart (tickNow e) t1)"

text \<open>A hung engine is terminated once; its exit is seen by this or a later poll.\<close>

definition terminateHung :: "TrayEnv \<Rightarrow> Tray \<Rightarrow> Tray" where
  "terminateHung e t =
     (if \<not> engineKilled t \<and> (engineState t = Starting \<or> engineState t = Stopping) \<and>
         tickNow e - stateSinceMs t \<ge> kEngineTransitionTimeoutMs \<and> \<not> exitedBefore e
      then t\<lparr>engineKilled := True, kills := kills t + 1\<rparr> else t)"

definition noticeReady :: "TrayEnv \<Rightarrow> Tray \<Rightarrow> Tray" where
  "noticeReady e t =
     (if engineState t = Starting \<and> eventsOpen t \<and> readySignalled e then setState (tickNow e) Running t else t)"

definition pollEngine :: "TrayEnv \<Rightarrow> Tray \<Rightarrow> Tray" where
  "pollEngine e t =
     (let t1 = pollSetup e t in
      if \<not> engineProcess t1 then
        (if restartPending t1 \<and> tickNow e \<ge> restartAtMs t1 then startEngine e True t1 else t1)
      else let t2 = terminateHung e (noticeReady e t1) in
        case engineExit e of None \<Rightarrow> t2 | Some exitCode \<Rightarrow> handleEngineExit e exitCode t2)"

definition setDnsMode :: "TrayEnv \<Rightarrow> DnsMode \<Rightarrow> Tray \<Rightarrow> Tray" where
  "setDnsMode e mode t =
     (let cfg = onDisk e in
      if cfg_loadFailed cfg \<or> cfg_dnsMode cfg = mode then t
      else if mode = Worker \<and> cfg_workerUrl cfg = [] then launchSetup e True t
      else if \<not> savesConfig e then t
      else restartEngineForConfiguration e (t\<lparr>canStart := isValid (cfg\<lparr>cfg_dnsMode := mode\<rparr>)\<rparr>))"

datatype TrayEvent = CommandStart | CommandStop | CommandDns DnsMode | CommandSetup | Leave | Timer | ConfigChanged

fun trayEvent :: "TrayEnv \<Rightarrow> TrayEvent \<Rightarrow> Tray \<Rightarrow> Tray" where
  "trayEvent e CommandStart t = startEngine e False t"
| "trayEvent e CommandStop t = requestStop e (t\<lparr>configurationRestartPending := False\<rparr>)"
| "trayEvent e (CommandDns mode) t = setDnsMode e mode t"
| "trayEvent e CommandSetup t = launchSetup e True t"
| "trayEvent e Leave t = requestExit e t"
| "trayEvent e Timer t = pollEngine e t"
| "trayEvent e ConfigChanged t = restartEngineForConfiguration e t"

text \<open>Once the window is destroyed no message arrives.\<close>

definition trayStep :: "TrayEnv \<times> TrayEvent \<Rightarrow> Tray \<Rightarrow> Tray" where
  "trayStep = (\<lambda>(e, event) t. if windowOpen t then trayEvent e event t else t)"

definition trayBegin :: "TrayEnv \<Rightarrow> bool \<Rightarrow> Tray" where
  "trayBegin e start = (let t = newTray start in if canStart t then startEngine e False t else launchSetup e True t)"

definition trayRun :: "(TrayEnv \<times> TrayEvent) list \<Rightarrow> Tray \<Rightarrow> Tray" where
  "trayRun events t = fold trayStep events t"

section \<open>Invariant\<close>

definition tray_ok :: "Tray \<Rightarrow> bool" where
  "tray_ok t \<longleftrightarrow>
     (engineProcess t \<longleftrightarrow> engineState t \<in> {Starting, Running, Stopping}) \<and>
     (eventsOpen t \<longleftrightarrow> engineProcess t) \<and>
     (restartPending t \<longrightarrow> engineState t = Failed) \<and>
     (configurationRestartPending t \<longrightarrow> engineState t = Stopping) \<and>
     (engineKilled t \<longrightarrow> engineProcess t) \<and>
     (shutdownSignalled t \<longleftrightarrow> engineState t = Stopping) \<and>
     (exiting t \<longrightarrow> engineState t = Stopping)"

lemmas tray_defs = setState_def closeEngineHandles_def Let_def

lemma startEngine_ok:
  "tray_ok t \<Longrightarrow> \<not> configurationRestartPending t \<or> engineProcess t \<Longrightarrow> tray_ok (startEngine e automatic t)"
  by (auto simp: startEngine_def tray_ok_def tray_defs)

lemma requestStop_ok:
  "tray_ok (t\<lparr>configurationRestartPending := False, exiting := False\<rparr>) \<Longrightarrow>
    (configurationRestartPending t \<or> exiting t \<longrightarrow> engineProcess t) \<Longrightarrow> tray_ok (requestStop e t)"
  by (auto simp: requestStop_def tray_ok_def tray_defs)

lemma tray_ok_idle: "tray_ok t \<Longrightarrow> \<not> engineProcess t \<Longrightarrow> \<not> configurationRestartPending t \<and> \<not> exiting t"
  by (auto simp: tray_ok_def)

lemma launchSetup_ok: "tray_ok t \<Longrightarrow> tray_ok (launchSetup e wants t)"
  by (auto simp: launchSetup_def tray_ok_def)

lemma restartForConfiguration_ok:
  assumes "tray_ok t"
  shows "tray_ok (restartEngineForConfiguration e t)"
proof -
  have "tray_ok (requestStop e (t\<lparr>restartPending := False, restartAtMs := 0, configurationRestartPending := True\<rparr>))"
    if "engineState t \<in> {Starting, Running}"
    by (rule requestStop_ok) (use assms that in \<open>auto simp: tray_ok_def\<close>)
  moreover have "tray_ok (startEngine e False (t\<lparr>restartPending := False, restartAtMs := 0\<rparr>))" if "engineState t = Failed"
    by (rule startEngine_ok) (use assms that in \<open>auto simp: tray_ok_def\<close>)
  moreover have "tray_ok (t\<lparr>restartPending := False, restartAtMs := 0\<rparr>)" using assms by (auto simp: tray_ok_def)
  ultimately show ?thesis using assms
    by (simp add: restartEngineForConfiguration_def Let_def split: EngineState.split)
qed

lemma pollSetup_ok: "tray_ok t \<Longrightarrow> tray_ok (pollSetup e t)"
proof -
  assume t: "tray_ok t"
  have 1: "tray_ok (t\<lparr>setupProcess := False\<rparr>)" "tray_ok (t\<lparr>setupProcess := False, canStart := b\<rparr>)" for b
    using t by (auto simp: tray_ok_def)
  have "tray_ok (startEngine e False (t\<lparr>setupProcess := False, canStart := b\<rparr>))" if "\<not> engineProcess t" for b
    by (rule startEngine_ok [OF 1(2)]) (use tray_ok_idle [OF t that] in simp)
  then show ?thesis using 1 t restartForConfiguration_ok [OF 1(2)]
    by (cases "setupProcess t"; cases "setupExit e") (simp_all add: pollSetup_def Let_def)
qed

lemma handleEngineExit_ok:
  assumes "tray_ok t" "windowOpen (handleEngineExit e code t)" "engineProcess t"
  shows "tray_ok (handleEngineExit e code t)"
proof (cases "exiting t")
  case False
  let ?t = "setState (tickNow e) Stopped ((closeEngineHandles t)\<lparr>configurationRestartPending := False\<rparr>)"
  have "tray_ok ?t" "\<not> configurationRestartPending ?t" using assms(1,3) False by (auto simp: tray_ok_def tray_defs)
  then have restarted: "tray_ok (startEngine e False ?t)" using startEngine_ok by blast
  have "tray_ok (setState (tickNow e) Stopped (closeEngineHandles t))" if "engineState t = Stopping" "\<not> configurationRestartPending t"
    using assms(1,3) False that by (auto simp: tray_ok_def tray_defs)
  moreover have "tray_ok (setState (tickNow e) Failed ((closeEngineHandles t)\<lparr>restartPending := False, restartAtMs := 0\<rparr>))"
    if "engineState t \<noteq> Stopping" using assms(1,3) False that by (auto simp: tray_ok_def tray_defs)
  moreover have "tray_ok (scheduleAutomaticRestart (tickNow e) (closeEngineHandles t))" if "engineState t \<noteq> Stopping"
    using assms(1,3) False that by (auto simp: scheduleAutomaticRestart_def tray_ok_def tray_defs split: prod.split)
  ultimately show ?thesis using restarted False
    by (simp add: handleEngineExit_def Let_def closeEngineHandles_def)
qed (use assms in \<open>simp add: handleEngineExit_def Let_def closeEngineHandles_def\<close>)

lemma pollEngine_ok:
  assumes "tray_ok t" "windowOpen (pollEngine e t)"
  shows "tray_ok (pollEngine e t)"
proof (cases "engineProcess (pollSetup e t)")
  case True
  have "tray_ok (terminateHung e (noticeReady e (pollSetup e t)))"
    using pollSetup_ok [OF assms(1)] True by (auto simp: terminateHung_def noticeReady_def tray_ok_def setState_def)
  moreover have "engineProcess (terminateHung e (noticeReady e (pollSetup e t)))"
    using True by (simp add: terminateHung_def noticeReady_def setState_def)
  ultimately show ?thesis using assms(2) handleEngineExit_ok True
    by (auto simp: pollEngine_def Let_def split: option.splits)
next
  case False
  then show ?thesis using startEngine_ok [OF pollSetup_ok [OF assms(1)]] tray_ok_idle [OF pollSetup_ok [OF assms(1)] False] pollSetup_ok [OF assms(1)]
    by (simp add: pollEngine_def Let_def)
qed

lemma trayEvent_ok:
  assumes "tray_ok t" "windowOpen (trayEvent e event t)"
  shows "tray_ok (trayEvent e event t)"
proof (cases event)
  case CommandStart
  then show ?thesis using assms startEngine_ok tray_ok_idle by simp blast
next
  case CommandStop
  have "tray_ok (requestStop e (t\<lparr>configurationRestartPending := False\<rparr>))"
    by (rule requestStop_ok) (use assms in \<open>auto simp: tray_ok_def\<close>)
  then show ?thesis using CommandStop by simp
next
  case (CommandDns mode)
  have "tray_ok (t\<lparr>canStart := b\<rparr>)" for b using assms(1) by (auto simp: tray_ok_def)
  then show ?thesis using CommandDns assms launchSetup_ok restartForConfiguration_ok by (simp add: setDnsMode_def Let_def)
next
  case Leave
  have "tray_ok (requestStop e (t\<lparr>exiting := True, restartPending := False, restartAtMs := 0, configurationRestartPending := False\<rparr>))"
    if "engineProcess t" by (rule requestStop_ok) (use assms that in \<open>auto simp: tray_ok_def\<close>)
  then show ?thesis using Leave assms by (auto simp: requestExit_def Let_def split: if_splits)
qed (use assms launchSetup_ok pollEngine_ok restartForConfiguration_ok in auto)

interpretation tray: machine trayStep "\<lambda>_ _. False" "\<lambda>t. windowOpen t \<longrightarrow> tray_ok t"
  by unfold_locales (auto simp: trayStep_def intro: trayEvent_ok split: prod.splits if_splits)

lemma trayRun_reach: "reach trayStep (\<lambda>_ _. False) t (trayRun events t)"
  by (induction events rule: rev_induct) (auto simp: trayRun_def intro: reach.intros)

lemma trayRun_ok: "tray_ok t \<Longrightarrow> windowOpen (trayRun events t) \<Longrightarrow> tray_ok (trayRun events t)"
  using tray.reach_inv [OF trayRun_reach] by blast

lemma trayBegin_ok: "tray_ok (trayBegin e start)"
proof -
  have "tray_ok (newTray start)" by (simp add: newTray_def tray_ok_def)
  moreover have "\<not> configurationRestartPending (newTray start)" by (simp add: newTray_def)
  ultimately show ?thesis using startEngine_ok launchSetup_ok by (simp add: trayBegin_def Let_def)
qed

text \<open>
  C22. In every state the tray reaches, the state it shows is the truth about the engine: a process
  exists exactly in the states starting, running and stopping, its control events are open
  exactly then, stopping means that the shutdown event was signalled, an automatic restart is
  pending only after a failure, a restart for a new configuration only while stopping, and a tray
  that is leaving waits for its engine. A second engine is never started.
\<close>

theorem tray_consistent:
  assumes "t = trayRun events (trayBegin e start)" "windowOpen t"
  shows "(engineProcess t \<longleftrightarrow> engineState t \<in> {Starting, Running, Stopping}) \<and>
    (eventsOpen t \<longleftrightarrow> engineProcess t) \<and> (shutdownSignalled t \<longleftrightarrow> engineState t = Stopping) \<and>
    (restartPending t \<longrightarrow> engineState t = Failed) \<and> (configurationRestartPending t \<longrightarrow> engineState t = Stopping) \<and>
    (exiting t \<longrightarrow> engineState t = Stopping) \<and>
    (\<forall>e'. engineProcess t \<longrightarrow> startEngine e' automatic t = t)"
  using trayRun_ok [OF trayBegin_ok] assms by (simp add: tray_ok_def startEngine_def)

definition sampleTrayEnv :: TrayEnv where
  "sampleTrayEnv = \<lparr>tickNow = 5, exeFound = True, makesEvents = True, createsProcess = True, onDisk = defaultConfig,
     savesConfig = True, readySignalled = True, exitedBefore = False, engineExit = None, setupExit = None\<rparr>"

theorem tray_consistent_witness:
  "engineProcess (trayRun [(sampleTrayEnv, Timer)] (trayBegin sampleTrayEnv True)) \<and>
   engineState (trayRun [(sampleTrayEnv, Timer)] (trayBegin sampleTrayEnv True)) = Running"
proof -
  have "windowOpen (trayRun [(sampleTrayEnv, Timer)] (trayBegin sampleTrayEnv True))"
    "engineState (trayRun [(sampleTrayEnv, Timer)] (trayBegin sampleTrayEnv True)) = Running"
    by code_simp+
  then show ?thesis using tray_consistent [OF refl] by blast
qed

section \<open>An explicit stop wins\<close>

definition quiet :: "Tray \<Rightarrow> bool" where
  "quiet t \<longleftrightarrow> \<not> restartPending t \<and> \<not> configurationRestartPending t \<and> \<not> setupProcess t \<and> engineState t \<in> {Stopped, Stopping}"

definition asks_start :: "TrayEvent \<Rightarrow> bool" where
  "asks_start event \<longleftrightarrow> event \<in> {CommandStart, CommandSetup, CommandDns Worker}"

lemma quiet_step:
  assumes "tray_ok t" "quiet t" "\<not> asks_start event" "windowOpen t"
  shows "quiet (trayEvent e event t) \<and> starts (trayEvent e event t) = starts t"
proof (cases event)
  case CommandStop
  then show ?thesis using assms by (auto simp: quiet_def requestStop_def setState_def Let_def)
next
  case (CommandDns mode)
  then have "mode = System" using assms(3) by (cases mode) (auto simp: asks_start_def)
  then show ?thesis using assms CommandDns
    by (auto simp: setDnsMode_def restartEngineForConfiguration_def quiet_def Let_def)
next
  case Leave
  then show ?thesis using assms by (auto simp: quiet_def requestExit_def requestStop_def setState_def Let_def)
next
  case Timer
  have noSetup: "pollSetup e t = t" using assms(2) by (simp add: pollSetup_def quiet_def)
  show ?thesis
  proof (cases "engineProcess t")
    case True
    then have stopping: "engineState t = Stopping" using assms(1,2) by (auto simp: quiet_def tray_ok_def)
    let ?t = "terminateHung e (noticeReady e t)"
    have kept: "quiet ?t \<and> starts ?t = starts t \<and> engineState ?t = Stopping \<and> \<not> configurationRestartPending ?t"
      using assms(2) stopping by (auto simp: terminateHung_def noticeReady_def quiet_def)
    then have "quiet (handleEngineExit e code ?t) \<and> starts (handleEngineExit e code ?t) = starts t" for code
      by (auto simp: handleEngineExit_def quiet_def tray_defs)
    then show ?thesis using kept noSetup True Timer by (simp add: pollEngine_def Let_def split: option.split)
  next
    case False
    then show ?thesis using assms(2) noSetup Timer by (simp add: pollEngine_def quiet_def)
  qed
next
  case ConfigChanged
  then show ?thesis using assms by (auto simp: restartEngineForConfiguration_def quiet_def)
qed (use assms(3) in \<open>simp_all add: asks_start_def\<close>)

lemma quiet_run:
  "tray_ok t \<Longrightarrow> quiet t \<Longrightarrow> \<forall>(e, event) \<in> set events. \<not> asks_start event \<Longrightarrow>
    quiet (trayRun events t) \<and> starts (trayRun events t) = starts t"
proof (induction events arbitrary: t)
  case (Cons event events)
  obtain e ev where event: "event = (e, ev)" by (cases event)
  have closed: "\<not> windowOpen u \<Longrightarrow> fold trayStep events u = u" for u
    by (induction events) (auto simp: trayStep_def)
  have step: "quiet (trayStep event t) \<and> starts (trayStep event t) = starts t"
    using quiet_step Cons.prems event by (auto simp: trayStep_def)
  show ?case
  proof (cases "windowOpen (trayStep event t)")
    case True
    then have "tray_ok (trayStep event t)" using Cons.prems(1) trayEvent_ok by (auto simp: trayStep_def event)
    then show ?thesis using Cons.IH step Cons.prems(3) by (simp add: trayRun_def)
  next
    case False
    then show ?thesis using step closed by (simp add: trayRun_def)
  qed
qed (simp add: trayRun_def)



end
