(* ===== verification/Engine_Main.thy ===== *)
theory Engine_Main
  imports Engine_Options Worker_Setup System_Proxy Engine_Supervisor Process_Filter
begin

text \<open>
  \<open>main\<close> of \<open>src/src/main.cpp\<close> behind the command line: which of its roles the program takes (a
  maintenance command, the tray, the network engine), the settings the engine is built from, and
  starting and stopping its parts. The configuration file, the proxy settings, the secret of the
  Worker and the strategy file are the world it changes; what Windows answers is the environment.
\<close>

section \<open>World and environment\<close>

record World =
  world_file :: ConfigFile
  world_proxy :: ProxyState
  world_remote :: "string option"
  world_store :: Disk

record MainEnv =
  elevated :: bool
  trayRunning :: bool
  relaunched :: int
  mutexCreated :: bool
  mutexExisted :: bool
  monitorStop :: bool
  monitorEvent :: bool
  monitorParent :: bool
  wsaStarts :: bool
  makesConfigDir :: bool
  storesConfig :: bool
  proxyAnswers :: ProxyEnv
  setupRun :: SetupEnv
  storeClock :: Clock
  storesStrategies :: bool

text \<open>What the engine is built from: ports, resolver, relay context and process rules.\<close>

record EngineSettings =
  es_relayPort :: u16
  es_connectPort :: u16
  es_dnsPort :: u16
  es_workerDns :: bool
  es_workerUrl :: string
  es_sharedSecret :: string
  es_splitDelayMs :: u32
  es_probeTimeoutMs :: u32
  es_tunnelFallback :: bool
  es_bypassConnectPort :: u16
  es_forcedProfile :: string
  es_packetPolicies :: bool
  es_quicMode :: QuicMode
  es_manualProxy :: bool
  es_rules :: Rules

datatype MainResult = Exits int | RunsTray bool | RunsEngine EngineSettings

section \<open>Roles\<close>

definition exitsWithoutInterception :: "Options \<Rightarrow> bool" where
  "exitsWithoutInterception opts \<longleftrightarrow> opt_restoreProxy opts \<or> opt_forgetToken opts \<or> opt_forgetStrategies opts \<or> opt_redeploy opts"

definition monitorActive :: "MainEnv \<Rightarrow> Options \<Rightarrow> bool" where
  "monitorActive env opts \<longleftrightarrow> monitorStop env \<and>
     (opt_shutdownEventName opts \<noteq> [] \<and> monitorEvent env \<or> opt_parentPid opts \<noteq> 0 \<and> monitorParent env)"

definition monitorRequested :: "Options \<Rightarrow> bool" where
  "monitorRequested opts \<longleftrightarrow> opt_engine opts \<or> opt_shutdownEventName opts \<noteq> [] \<or> opt_parentPid opts \<noteq> 0"

definition kPreferredConnectPort :: u16 where "kPreferredConnectPort = 65534"
definition kAlternateConnectPort :: u16 where "kAlternateConnectPort = 65533"
definition kPreferredDnsProxyPort :: u16 where "kPreferredDnsProxyPort = 1053"
definition kAlternateDnsProxyPort :: u16 where "kAlternateDnsProxyPort = 1054"

definition engineSettings :: "Options \<Rightarrow> Config \<Rightarrow> string \<Rightarrow> EngineSettings" where
  "engineSettings opts cfg workerUrl =
     (let connectPort = (if opt_port opts = kPreferredConnectPort then kAlternateConnectPort else kPreferredConnectPort);
          dnsPort = (if opt_port opts = kPreferredDnsProxyPort then kAlternateDnsProxyPort else kPreferredDnsProxyPort);
          useWorkerDns = (cfg_dnsMode cfg = Worker)
      in \<lparr>es_relayPort = opt_port opts, es_connectPort = connectPort, es_dnsPort = dnsPort, es_workerDns = useWorkerDns,
         es_workerUrl = (if useWorkerDns then workerUrl else []),
         es_sharedSecret = (if useWorkerDns then cfg_sharedSecret cfg else []),
         es_splitDelayMs = (if opt_splitDelaySet opts then opt_splitDelayMs opts else cfg_splitDelayMs cfg),
         es_probeTimeoutMs = cfg_probeTimeoutMs cfg,
         es_tunnelFallback = (useWorkerDns \<and> (opt_tunnelFallback opts \<or> cfg_tunnelFallback cfg)),
         es_bypassConnectPort = (if opt_manualProxy opts then 0 else connectPort),
         es_forcedProfile = opt_forcedStrategy opts, es_packetPolicies = (\<not> opt_manualProxy opts),
         es_quicMode = opt_quicMode opts, es_manualProxy = opt_manualProxy opts,
         es_rules = newRules (cfg_processInclude cfg @ opt_processInclude opts) (cfg_processExclude cfg @ opt_processExclude opts)\<rparr>)"

text \<open>The last part before the engine: the process rules are checked, an old system proxy is undone.\<close>

definition prepareEngine :: "string \<Rightarrow> MainEnv \<Rightarrow> Options \<Rightarrow> Config \<Rightarrow> string \<Rightarrow> World \<Rightarrow> MainResult \<times> World" where
  "prepareEngine dir env opts cfg workerUrl w =
     (if cfg_processIncludeInvalid cfg then (Exits (uint kInvalidProcessRules), w)
      else let p = snd (restoreLeftovers (proxyAnswers env) (proxyBackupPath dir) False (world_proxy w))
        in (RunsEngine (engineSettings opts cfg workerUrl), w\<lparr>world_proxy := p\<rparr>))"

definition interactiveSetup :: "(string \<Rightarrow> string) \<Rightarrow> string \<Rightarrow> string \<Rightarrow> MainEnv \<Rightarrow> Config \<Rightarrow> World \<Rightarrow> bool \<times> Config \<times> World" where
  "interactiveSetup protect dir workerSource env cfg w =
     (let (ok, st) = runSetup protect dir workerSource (setupRun env)
            \<lparr>setup_config = cfg, setup_file = world_file w, remoteSecret = world_remote w\<rparr>
      in (ok, setup_config st, w\<lparr>world_file := setup_file st, world_remote := remoteSecret st\<rparr>))"

definition findWorker :: "(string \<Rightarrow> string) \<Rightarrow> string \<Rightarrow> string \<Rightarrow> MainEnv \<Rightarrow> Options \<Rightarrow> Config \<Rightarrow> World \<Rightarrow> MainResult \<times> World" where
  "findWorker protect dir workerSource env opts cfg w =
     (let workerUrl = (if opt_workerUrl opts = [] then cfg_workerUrl cfg else opt_workerUrl opts) in
      if workerUrl = [] \<and> cfg_dnsMode cfg = Worker then
        (if opt_engine opts then (Exits (uint kSetupRequired), w)
         else let (ok, cfg1, w1) = interactiveSetup protect dir workerSource env cfg w
           in if \<not> ok then (Exits 1, w1) else prepareEngine dir env opts cfg1 (cfg_workerUrl cfg1) w1)
      else prepareEngine dir env opts cfg workerUrl w)"

definition forgetStrategies :: "string \<Rightarrow> MainEnv \<Rightarrow> World \<Rightarrow> World" where
  "forgetStrategies dir env w =
     (let store = load (disk_file (world_store w)) (storeClock env) (Store.make (strategyPath dir) [] [] [] 0);
          (snap, store1) = clear (storeClock env) store
      in w\<lparr>world_store := commit (storesStrategies env) snap (world_store w)\<rparr>)"

text \<open>The configuration is rewritten once when it still holds fields of an older release.\<close>

definition migrate :: "(string \<Rightarrow> string) \<Rightarrow> string \<Rightarrow> MainEnv \<Rightarrow> Config \<Rightarrow> World \<Rightarrow> Config \<times> World" where
  "migrate protect dir env cfg w =
     (if cfg_migratedFromPlaintext cfg \<or> cfg_legacyApiTokenPresent cfg
      then let cfg1 = cfg\<lparr>cfg_apiToken := []\<rparr>
        in (cfg1, w\<lparr>world_file := snd (saveConfig protect (makesConfigDir env) (storesConfig env) dir cfg1 (world_file w))\<rparr>)
      else (cfg, w))"

definition exitFor :: "bool \<Rightarrow> MainResult" where
  "exitFor ok = Exits (if ok then 0 else 1)"

definition mainConfigured ::
  "(string \<Rightarrow> string) \<Rightarrow> string \<Rightarrow> string \<Rightarrow> MainEnv \<Rightarrow> Options \<Rightarrow> Config \<Rightarrow> World \<Rightarrow> MainResult \<times> World" where
  "mainConfigured protect dir workerSource env opts cfg w =
     (if opt_restoreProxy opts then
        (let (restored, p) = restoreLeftovers (proxyAnswers env) (proxyBackupPath dir) True (world_proxy w)
         in (exitFor restored, w\<lparr>world_proxy := p\<rparr>))
      else if opt_forgetToken opts then
        (let (ok, cfg1, contents) = forgetToken protect (makesConfigDir env) (storesConfig env) dir cfg (world_file w)
         in (exitFor ok, w\<lparr>world_file := contents\<rparr>))
      else if opt_forgetStrategies opts then (Exits 0, forgetStrategies dir env w)
      else if opt_redeploy opts then
        (if cfg_workerName cfg = [] then (Exits 1, w)
         else let (ok, st) = redeployWorker protect dir workerSource (setupRun env)
                    \<lparr>setup_config = cfg, setup_file = world_file w, remoteSecret = world_remote w\<rparr>
           in (exitFor ok, w\<lparr>world_file := setup_file st, world_remote := remoteSecret st\<rparr>))
      else if opt_setup opts then
        (let (ok, cfg1, w1) = interactiveSetup protect dir workerSource env cfg w
         in if opt_setupOnly opts then (exitFor ok, w1)
            else if \<not> ok then (Exits 1, w1) else findWorker protect dir workerSource env opts cfg1 w1)
      else findWorker protect dir workerSource env opts cfg w)"

definition mainRun ::
  "(string \<Rightarrow> string) \<Rightarrow> (string \<Rightarrow> string) \<Rightarrow> string \<Rightarrow> string \<Rightarrow> MainEnv \<Rightarrow> Options \<Rightarrow> World \<Rightarrow> MainResult \<times> World" where
  "mainRun protect unprotect dir workerSource env opts w =
     (let cfg = snd (loadConfig unprotect dir (world_file w) defaultConfig) in
      if opt_listStrategies opts then (Exits 0, w)
      else if \<not> opt_manualProxy opts \<and> \<not> exitsWithoutInterception opts \<and> \<not> elevated env then
        (if shouldRunTray opts \<and> trayRunning env then (Exits 0, w)
         else (Exits (if relaunched env < 0 then 1 else relaunched env), w))
      else if shouldRunTray opts then
        (if \<not> mutexCreated env then (Exits 1, w)
         else if mutexExisted env then (Exits 0, w)
         else (RunsTray (opt_workerUrl opts \<noteq> [] \<or> isValid cfg \<or> cfg_loadFailed cfg), w))
      else if monitorRequested opts \<and> \<not> monitorActive env opts then (Exits (uint kMonitorUnavailable), w)
      else if \<not> wsaStarts env then (Exits 1, w)
      else if cfg_loadFailed cfg \<and> \<not> opt_restoreProxy opts then (Exits (uint kConfigUnreadable), w)
      else let (cfg1, w1) = migrate protect dir env cfg w in mainConfigured protect dir workerSource env opts cfg1 w1)"

section \<open>The engine at work\<close>

record Health =
  h_shutdown :: bool
  h_proxyExited :: bool
  h_divertRunning :: bool
  h_dnsRunning :: bool
  h_workerUnavailable :: bool

text \<open>The flags once more, read one after the other behind the loop.\<close>

record Reading =
  fatalError :: u32
  late_proxyExited :: bool
  late_divertRunning :: bool
  late_shutdown :: bool
  late_workerUnavailable :: bool
  late_shutdown2 :: bool
  late_dnsRunning :: bool

record EngineEnv =
  proxyUp :: bool
  proxyResult :: bool
  dnsStarts :: bool
  divertOpens :: bool
  polls :: "Health list"
  reading :: Reading

datatype EngineAction = StartProxy | StopProxy | JoinProxy | StartDns | StopDns | OpenDivert | CloseDivert | SignalReady

definition kEngineFailOpenExitCode :: int where "kEngineFailOpenExitCode = 2"

definition keepsRunning :: "bool \<Rightarrow> Health \<Rightarrow> bool" where
  "keepsRunning useWorkerDns h \<longleftrightarrow> \<not> h_shutdown h \<and> \<not> h_proxyExited h \<and> h_divertRunning h \<and>
     (\<not> useWorkerDns \<or> h_dnsRunning h \<and> \<not> h_workerUnavailable h)"

definition runtimeExitCode :: "bool \<Rightarrow> Reading \<Rightarrow> int" where
  "runtimeExitCode useWorkerDns r =
     (if \<not> late_shutdown r \<and> useWorkerDns \<and> late_workerUnavailable r then kWorkerUnavailableExitCode
      else if \<not> late_shutdown2 r \<and> useWorkerDns \<and> \<not> late_dnsRunning r then kEngineFailOpenExitCode
      else if fatalError r \<noteq> 0 then kEngineFailOpenExitCode
      else if late_proxyExited r \<and> late_divertRunning r then kEngineFailOpenExitCode
      else 0)"

text \<open>
  The parts started and stopped in their order, and the exit code; \<open>None\<close> while the loop goes on.
  \<open>proxyUp\<close> is what \<open>proxy.running()\<close> says when the wait of at most two seconds is over.
\<close>

definition runEngine :: "bool \<Rightarrow> EngineEnv \<Rightarrow> (EngineAction list \<times> int) option" where
  "runEngine useWorkerDns e =
     (if \<not> proxyUp e then Some ([StartProxy, StopProxy, JoinProxy], if proxyResult e then 0 else uint kRelayPortInUse)
      else if useWorkerDns \<and> \<not> dnsStarts e then Some ([StartProxy, StopProxy, JoinProxy], uint kDnsRelayPortInUse)
      else let started = StartProxy # (if useWorkerDns then [StartDns] else []) in
        if \<not> divertOpens e then Some (started @ [StopDns, StopProxy, JoinProxy], uint kWinDivertOpenFailed)
        else if list_all (keepsRunning useWorkerDns) (polls e) then None
        else Some (started @ [OpenDivert, SignalReady, CloseDivert, StopDns, StopProxy, JoinProxy],
                   runtimeExitCode useWorkerDns (reading e)))"

definition runManual :: "bool list \<Rightarrow> (EngineAction list \<times> int) option" where
  "runManual stops = (if list_ex (\<lambda>stop. stop) stops then Some ([StartProxy, StopProxy, JoinProxy], 0) else None)"

section \<open>From the command line to the settings\<close>

text \<open>What a setup leaves of the configuration as it was loaded.\<close>

definition tuning :: "Config \<Rightarrow> DnsMode \<times> u32 \<times> u32 \<times> bool \<times> string list \<times> string list \<times> bool" where
  "tuning cfg = (cfg_dnsMode cfg, cfg_splitDelayMs cfg, cfg_probeTimeoutMs cfg, cfg_tunnelFallback cfg, cfg_processInclude cfg,
     cfg_processExclude cfg, cfg_processIncludeInvalid cfg)"

lemma deployAndVerify_keeps:
  "deployAndVerify protect dir workerSource env st = (ok, st1) \<Longrightarrow>
    tuning (setup_config st1) = tuning (setup_config st) \<and> (ok \<longrightarrow> cfg_workerUrl (setup_config st1) \<noteq> [])"
  by (auto simp: deployAndVerify_def Let_def tuning_def split: if_splits prod.splits)

lemma installWorker_keeps:
  assumes "installWorker strict protect dir workerSource env identity st = (ok, st1)"
  shows "tuning (setup_config st1) = tuning (setup_config st) \<and> (ok \<longrightarrow> cfg_workerUrl (setup_config st1) \<noteq> [])"
  using assms
  by (fastforce simp: installWorker_def Let_def tuning_def dest: deployAndVerify_keeps split: option.splits if_splits)

lemma runSetup_keeps:
  assumes "runSetup protect dir workerSource env st = (ok, st1)"
  shows "tuning (setup_config st1) = tuning (setup_config st) \<and> (ok \<longrightarrow> cfg_workerUrl (setup_config st1) \<noteq> [])"
  using assms
  by (fastforce simp: runSetup_def Let_def tuning_def dest: installWorker_keeps split: option.splits if_splits)

lemma interactiveSetup_keeps:
  assumes "interactiveSetup protect dir workerSource env cfg w = (ok, cfg1, w1)"
  shows "tuning cfg1 = tuning cfg \<and> (ok \<longrightarrow> cfg_workerUrl cfg1 \<noteq> [])"
  using assms by (auto simp: interactiveSetup_def dest!: runSetup_keeps split: prod.splits)

lemma prepareEngine_settings:
  "prepareEngine dir env opts cfg url w = (RunsEngine s, w1) \<Longrightarrow> s = engineSettings opts cfg url \<and> \<not> cfg_processIncludeInvalid cfg"
  by (auto simp: prepareEngine_def Let_def split: if_splits)

definition built_from :: "Options \<Rightarrow> Config \<Rightarrow> EngineSettings \<Rightarrow> bool" where
  "built_from opts loaded s \<longleftrightarrow> (\<exists>cfg url. s = engineSettings opts cfg url \<and> tuning cfg = tuning loaded \<and>
     \<not> cfg_processIncludeInvalid loaded \<and> (cfg_dnsMode loaded = Worker \<longrightarrow> url \<noteq> []))"

lemma findWorker_settings:
  assumes "findWorker protect dir workerSource env opts cfg w = (RunsEngine s, w1)"
  shows "built_from opts cfg s"
proof (cases "(if opt_workerUrl opts = [] then cfg_workerUrl cfg else opt_workerUrl opts) = [] \<and> cfg_dnsMode cfg = Worker")
  case True
  then obtain ok cfg1 w2 where ran: "interactiveSetup protect dir workerSource env cfg w = (ok, cfg1, w2)" "ok"
    "prepareEngine dir env opts cfg1 (cfg_workerUrl cfg1) w2 = (RunsEngine s, w1)"
    using assms by (auto simp: findWorker_def Let_def split: if_splits prod.splits)
  have keep: "tuning cfg1 = tuning cfg" "cfg_workerUrl cfg1 \<noteq> []" using interactiveSetup_keeps [OF ran(1)] ran(2) by auto
  then have "\<not> cfg_processIncludeInvalid cfg" using prepareEngine_settings [OF ran(3)] by (simp add: tuning_def)
  then show ?thesis using keep prepareEngine_settings [OF ran(3)] unfolding built_from_def by blast
next
  case False
  then have "prepareEngine dir env opts cfg (if opt_workerUrl opts = [] then cfg_workerUrl cfg else opt_workerUrl opts) w = (RunsEngine s, w1)"
    using assms by (auto simp: findWorker_def Let_def split: if_splits)
  from prepareEngine_settings [OF this] show ?thesis using False unfolding built_from_def by blast
qed

lemma built_from_cong: "tuning cfg = tuning cfg1 \<Longrightarrow> built_from opts cfg s \<longleftrightarrow> built_from opts cfg1 s"
  by (auto simp: built_from_def tuning_def)

lemma mainConfigured_settings:
  assumes "mainConfigured protect dir workerSource env opts cfg w = (RunsEngine s, w1)"
  shows "built_from opts cfg s"
proof (cases "opt_setup opts")
  case True
  then obtain cfg1 w2 where "interactiveSetup protect dir workerSource env cfg w = (True, cfg1, w2)"
    "findWorker protect dir workerSource env opts cfg1 w2 = (RunsEngine s, w1)"
    using assms by (auto simp: mainConfigured_def exitFor_def split: if_splits prod.splits)
  then show ?thesis using interactiveSetup_keeps findWorker_settings built_from_cong by metis
next
  case False
  then have "findWorker protect dir workerSource env opts cfg w = (RunsEngine s, w1)"
    using assms by (auto simp: mainConfigured_def exitFor_def Let_def split: if_splits prod.splits)
  then show ?thesis by (rule findWorker_settings)
qed

lemma mainRun_settings:
  assumes "mainRun protect unprotect dir workerSource env opts w = (RunsEngine s, w1)"
  shows "built_from opts (snd (loadConfig unprotect dir (world_file w) defaultConfig)) s \<and>
    (opt_manualProxy opts \<or> elevated env) \<and> (opt_engine opts \<longrightarrow> monitorActive env opts) \<and>
    \<not> cfg_loadFailed (snd (loadConfig unprotect dir (world_file w) defaultConfig))"
proof -
  let ?cfg = "snd (loadConfig unprotect dir (world_file w) defaultConfig)"
  obtain cfg1 w2 where migrated: "migrate protect dir env ?cfg w = (cfg1, w2)" by fastforce
  have not_exits: "\<not> opt_restoreProxy opts" if "mainConfigured protect dir workerSource env opts cfg1 w2 = (RunsEngine s, w1)"
    using that by (auto simp: mainConfigured_def exitFor_def split: if_splits prod.splits)
  have reached: "mainConfigured protect dir workerSource env opts cfg1 w2 = (RunsEngine s, w1)"
    "opt_manualProxy opts \<or> exitsWithoutInterception opts \<or> elevated env" "opt_engine opts \<longrightarrow> monitorActive env opts"
    "\<not> cfg_loadFailed ?cfg \<or> opt_restoreProxy opts"
    using assms migrated by (auto simp: mainRun_def Let_def monitorRequested_def split: if_splits)
  have "\<not> exitsWithoutInterception opts"
    using reached(1) by (auto simp: mainConfigured_def exitFor_def exitsWithoutInterception_def split: if_splits prod.splits)
  moreover have "tuning cfg1 = tuning ?cfg" using migrated by (auto simp: migrate_def Let_def tuning_def split: if_splits)
  ultimately show ?thesis using mainConfigured_settings [OF reached(1)] reached not_exits [OF reached(1)] built_from_cong by blast
qed

text \<open>What every accepted command line guarantees.\<close>

definition options_ok :: "Options \<Rightarrow> bool" where
  "options_ok opts \<longleftrightarrow> opt_port opts \<noteq> 0 \<and> (opt_splitDelaySet opts \<longrightarrow> opt_splitDelayMs opts \<le> 2000) \<and>
     (opt_forcedStrategy opts = [] \<or> findProfile (opt_forcedStrategy opts) \<noteq> None)"

lemma port_narrow:
  assumes "(p :: u32) \<noteq> 0" "\<not> p > 65535"
  shows "(ucast p :: u16) \<noteq> 0"
proof
  assume "(ucast p :: u16) = 0"
  then have "unat (ucast p :: u16) = 0" by simp
  then have "unat p mod 65536 = 0" by (simp add: unsigned_ucast_eq take_bit_eq_mod)
  moreover have "unat p \<le> 65535" using assms(2) by (simp add: word_le_nat_alt not_less)
  ultimately have "unat p = 0" by simp
  then show False using assms(1) by (simp add: unat_eq_0)
qed

lemma valueOption_ok: "valueOption arg = Some f \<Longrightarrow> f v opts = Inr opts1 \<Longrightarrow> options_ok opts \<Longrightarrow> options_ok opts1"
  by (auto simp: valueOption_def options_ok_def setPort_def setSplitDelay_def setQuicMode_def setParentPid_def port_narrow not_less
      split: if_splits prod.splits)

lemma flagOption_ok: "flagOption arg = Some f \<Longrightarrow> options_ok opts \<Longrightarrow> options_ok (f opts)"
  by (auto simp: flagOption_def options_ok_def split: if_splits)

lemma parseArgs_ok: "parseArgs args opts = Inr opts1 \<Longrightarrow> options_ok opts \<Longrightarrow> options_ok opts1"
proof (induction args opts rule: parseArgs.induct)
  case (2 arg rest opts)
  then show ?case using valueOption_ok flagOption_ok
    by (auto simp: parseArgs.simps(2) split: option.splits if_splits sum.splits)
qed simp

lemma readUnsigned_range:
  assumes "low \<le> unat fallback" "unat fallback \<le> high" "high < 2 ^ 32"
  shows "low \<le> unat (readUnsigned doc key fallback (int low) (int high)) \<and> unat (readUnsigned doc key fallback (int low) (int high)) \<le> high"
proof (cases "getInt doc key (uint fallback) < int low \<or> int high < getInt doc key (uint fallback)")
  case False
  then obtain n where n: "getInt doc key (uint fallback) = int n" "low \<le> n" "n \<le> high"
    using nonneg_int_cases [of "getInt doc key (uint fallback)"] by auto
  then have "unat (of_int (int n) :: u32) = n" using assms(3) by (simp add: unat_of_nat take_bit_nat_eq_self)
  then show ?thesis using n by (simp add: readUnsigned_def)
qed (use assms in \<open>auto simp: readUnsigned_def Let_def\<close>)

lemma loaded_bounds:
  "let cfg = snd (loadConfig unprotect dir contents defaultConfig) in
    unat (cfg_splitDelayMs cfg) \<le> 2000 \<and> 250 \<le> unat (cfg_probeTimeoutMs cfg) \<and> unat (cfg_probeTimeoutMs cfg) \<le> 30000"
proof -
  have "unat (readUnsigned doc key 20 0 2000) \<le> 2000" for doc key
    using readUnsigned_range [of 0 20 2000 doc key] by simp
  moreover have "250 \<le> unat (readUnsigned doc key 3000 250 30000) \<and> unat (readUnsigned doc key 3000 250 30000) \<le> 30000" for doc key
    using readUnsigned_range [of 250 3000 30000 doc key] by simp
  ultimately show ?thesis
    by (simp add: loadConfig_def Let_def defaultConfig_def applyDocument_def split: ConfigFile.split prod.split)
qed

definition settings_ok :: "EngineSettings \<Rightarrow> bool" where
  "settings_ok s \<longleftrightarrow> es_relayPort s \<noteq> 0 \<and> distinct [es_relayPort s, es_connectPort s, es_dnsPort s] \<and>
     unat (es_splitDelayMs s) \<le> 2000 \<and> 250 \<le> unat (es_probeTimeoutMs s) \<and> unat (es_probeTimeoutMs s) \<le> 30000 \<and>
     (es_workerDns s \<longleftrightarrow> es_workerUrl s \<noteq> []) \<and> (\<not> es_workerDns s \<longrightarrow> es_sharedSecret s = [] \<and> \<not> es_tunnelFallback s) \<and>
     (es_forcedProfile s = [] \<or> findProfile (es_forcedProfile s) \<noteq> None) \<and>
     (es_bypassConnectPort s = 0 \<longleftrightarrow> es_manualProxy s) \<and> (es_packetPolicies s \<longleftrightarrow> \<not> es_manualProxy s)"

text \<open>
  C36. The engine only ever runs with well-formed settings, whatever the command line and the
  configuration file hold: its three ports differ, the delay and the probe timeout are inside
  their limits, a forced profile exists, a Worker is known in Worker mode, and in system mode no
  secret, URL or tunnel is handed on. It intercepts only with administrator rights, and a hidden
  engine only with a working channel through which the tray can stop it.
\<close>

theorem engine_settings_ok:
  assumes "parseArgs args newOptions = Inr opts"
    and "mainRun protect unprotect dir workerSource env opts w = (RunsEngine s, w1)"
  shows "settings_ok s \<and> (es_manualProxy s \<or> elevated env) \<and> (opt_engine opts \<longrightarrow> monitorActive env opts)"
proof -
  let ?cfg = "snd (loadConfig unprotect dir (world_file w) defaultConfig)"
  have "options_ok opts" by (rule parseArgs_ok [OF assms(1)]) (simp add: options_ok_def newOptions_def)
  moreover obtain cfg url where "s = engineSettings opts cfg url" "tuning cfg = tuning ?cfg" "cfg_dnsMode ?cfg = Worker \<longrightarrow> url \<noteq> []"
    "opt_manualProxy opts \<or> elevated env" "opt_engine opts \<longrightarrow> monitorActive env opts"
    using mainRun_settings [OF assms(2)] unfolding built_from_def by blast
  ultimately show ?thesis using loaded_bounds [of unprotect dir "world_file w"]
    by (auto simp: settings_ok_def engineSettings_def options_ok_def tuning_def Let_def word_le_nat_alt
        kPreferredConnectPort_def kAlternateConnectPort_def kPreferredDnsProxyPort_def kAlternateDnsProxyPort_def)
qed

section \<open>The scope is never widened\<close>

lemma normalizeLoop_keeps:
  "fst (normalizeLoop patterns kept rejected) = [] \<Longrightarrow> snd (normalizeLoop patterns kept rejected) = 0 \<Longrightarrow>
    kept = [] \<and> rejected = 0 \<and> list_all (list_all isBlank) patterns"
proof (induction patterns kept rejected rule: normalizeLoop.induct)
  case (2 v vs kept rejected)
  then show ?case by (auto simp: Let_def split: if_splits)
qed simp

lemma rules_not_dropped:
  assumes "p \<in> set ins" "\<not> list_all isBlank p" "allowsImage (newRules ins exs) program"
  shows "matchesAny (includeRules (newRules ins exs)) (normalize program) (baseName (normalize program))"
proof -
  have "\<not> includeListInvalid (newRules ins exs)" using assms(3) by (auto simp: allowsImage_def)
  moreover have "includeRules (newRules ins exs) \<noteq> [] \<or> rejectedIncludes (newRules ins exs) \<noteq> 0"
    using normalizeLoop_keeps [of ins "[]" 0] assms(1,2) by (auto simp: newRules_def normalizeRules_def list_all_iff)
  ultimately have "includeRules (newRules ins exs) \<noteq> []" by (auto simp: includeListInvalid_def)
  then show ?thesis using assms(3) by (auto simp: allowsImage_def Let_def split: if_splits)
qed


text \<open>
  A pattern of blanks passes the test of the configuration and of the command line but is no rule
  for the filter: a list that holds only such patterns means every process.
\<close>

lemma blank_pattern_widens:
  "validProcessPattern '' '' \<and> usableRule '' '' \<and> \<not> rules_enabled (newRules ['' ''] [])"
  by (simp add: validProcessPattern_def usableRule_def Config_Store.kMaximumRuleLength_def rules_enabled_def includeListInvalid_def newRules_def
      normalizeRules_def normalize_def trim_def isBlank_def)

definition sampleMain :: MainEnv where
  "sampleMain = \<lparr>elevated = True, trayRunning = False, relaunched = 0, mutexCreated = True, mutexExisted = False, monitorStop = True,
     monitorEvent = True, monitorParent = True, wsaStarts = True, makesConfigDir = True, storesConfig = True, proxyAnswers = goodProxyEnv,
     setupRun = sampleSetup (okProcess []), storeClock = \<lparr>nowSeconds = 0, monoSeconds = 0, savedAt = 0\<rparr>, storesStrategies = True\<rparr>"

definition sampleWorld :: World where
  "sampleWorld = \<lparr>world_file = Content ''{}'', world_proxy = sampleProxy, world_remote = None,
     world_store = \<lparr>writtenSeq = 0, saveFailing = False, disk_file = None\<rparr>\<rparr>"

definition sampleArgs :: "string list" where
  "sampleArgs = [''--engine'', ''--parent-pid'', ''7'', ''--worker'', ''wss://w'', ''--include-process'', ''a.exe'']"

definition sampleOptions :: Options where
  "sampleOptions = newOptions\<lparr>opt_engine := True, opt_parentPid := 7, opt_workerUrl := ''wss://w'', opt_processInclude := [''a.exe'']\<rparr>"

lemma sample_parsed: "parseArgs sampleArgs newOptions = Inr sampleOptions"
  by (simp add: sampleArgs_def sampleOptions_def parseArgs.simps(2) valueOption_def flagOption_def validProcessPattern_def setParentPid_def
      parseUnsigned_def isdigit_def decValue_def digitValue_def newOptions_def)

lemma sample_runs: "case fst (mainRun rev rev ''C:'' ''js'' sampleMain sampleOptions sampleWorld) of RunsEngine s \<Rightarrow> True | _ \<Rightarrow> False"
  by code_simp

theorem engine_settings_ok_witness:
  "\<exists>s w1. mainRun rev rev ''C:'' ''js'' sampleMain sampleOptions sampleWorld = (RunsEngine s, w1) \<and> settings_ok s \<and>
     monitorActive sampleMain sampleOptions"
proof -
  obtain s w1 where run: "mainRun rev rev ''C:'' ''js'' sampleMain sampleOptions sampleWorld = (RunsEngine s, w1)"
    using sample_runs by (cases "mainRun rev rev ''C:'' ''js'' sampleMain sampleOptions sampleWorld") (auto split: MainResult.splits)
  then show ?thesis using engine_settings_ok [OF sample_parsed run] by (auto simp: sampleOptions_def)
qed


section \<open>A configuration that cannot be read\<close>

text \<open>
  A configuration file that exists but cannot be read is never written over and never replaced
  by defaults: whatever the command line asks for, the file and the Worker's secret stay as they
  are and the engine does not run; only a tray may start, which reports the reason.
\<close>

lemma unreadable_config_kept:
  assumes "mainRun protect unprotect dir workerSource env opts w = (r, w1)" "dir \<noteq> []" "world_file w = Unreadable"
  shows "world_file w1 = Unreadable \<and> world_remote w1 = world_remote w \<and> (\<forall>s. r \<noteq> RunsEngine s)"
proof -
  have loaded: "snd (loadConfig unprotect dir (world_file w) defaultConfig) = defaultConfig\<lparr>cfg_loadFailed := True\<rparr>"
    using assms(2,3) by (simp add: loadConfig_def configPath_def inConfigDir_def)
  have "migrate protect dir env (defaultConfig\<lparr>cfg_loadFailed := True\<rparr>) w = (defaultConfig\<lparr>cfg_loadFailed := True\<rparr>, w)"
    by (simp add: migrate_def defaultConfig_def)
  then show ?thesis using assms(1,3) unfolding mainRun_def loaded
    by (auto simp: Let_def mainConfigured_def exitFor_def split: if_splits prod.splits)
qed

lemma unreadable_config_kept_example:
  "world_file (snd (mainRun rev rev ''C:'' ''js'' sampleMain (newOptions\<lparr>opt_forgetToken := True\<rparr>) (sampleWorld\<lparr>world_file := Unreadable\<rparr>))) = Unreadable"
  using unreadable_config_kept [OF surjective_pairing, of "''C:''" "sampleWorld\<lparr>world_file := Unreadable\<rparr>"] by simp

section \<open>Interception only while its listeners are up\<close>

text \<open>Which of relay, DNS relay and packet interception are up.\<close>

fun partsAfter :: "EngineAction \<Rightarrow> bool \<times> bool \<times> bool \<Rightarrow> bool \<times> bool \<times> bool" where
  "partsAfter StartProxy (p, d, v) = (True, d, v)"
| "partsAfter StopProxy (p, d, v) = (False, d, v)"
| "partsAfter StartDns (p, d, v) = (p, True, v)"
| "partsAfter StopDns (p, d, v) = (p, False, v)"
| "partsAfter OpenDivert (p, d, v) = (p, d, True)"
| "partsAfter CloseDivert (p, d, v) = (p, d, False)"
| "partsAfter JoinProxy parts = parts"
| "partsAfter SignalReady parts = parts"

fun safeFrom :: "bool \<Rightarrow> bool \<times> bool \<times> bool \<Rightarrow> EngineAction list \<Rightarrow> bool" where
  "safeFrom useWorkerDns parts [] \<longleftrightarrow> parts = (False, False, False)"
| "safeFrom useWorkerDns parts (a # rest) \<longleftrightarrow>
     (let (p, d, v) = partsAfter a parts in
      (v \<longrightarrow> p \<and> (useWorkerDns \<longrightarrow> d)) \<and> (a = SignalReady \<longrightarrow> v)) \<and> safeFrom useWorkerDns (partsAfter a parts) rest"


definition sampleEngine :: EngineEnv where
  "sampleEngine = \<lparr>proxyUp = True, proxyResult = True, dnsStarts = True, divertOpens = True,
     polls = [\<lparr>h_shutdown = False, h_proxyExited = False, h_divertRunning = True, h_dnsRunning = True, h_workerUnavailable = True\<rparr>],
     reading = \<lparr>fatalError = 0, late_proxyExited = False, late_divertRunning = True, late_shutdown = False, late_workerUnavailable = True,
       late_shutdown2 = False, late_dnsRunning = True\<rparr>\<rparr>"

lemma sample_engine:
  "runEngine True sampleEngine =
     Some ([StartProxy, StartDns, OpenDivert, SignalReady, CloseDivert, StopDns, StopProxy, JoinProxy], kWorkerUnavailableExitCode)"
  by (simp add: runEngine_def sampleEngine_def keepsRunning_def runtimeExitCode_def)


section \<open>What the tray makes of the exit codes\<close>

lemma handleEngineExit_failed:
  assumes "tray_ok t" "engineState t \<in> {Starting, Running}"
  shows "let t1 = handleEngineExit env code t in engineState t1 = Failed \<and> \<not> engineProcess t1 \<and> \<not> eventsOpen t1 \<and>
    (restartPending t1 \<longleftrightarrow> fst (budget_consume (tickNow env) (restartBudget t)) \<noteq> 0 \<and> code \<noteq> 3 \<and> \<not> needsUserAction code)"
proof -
  have "engineState t \<noteq> Stopping" "\<not> exiting t" "\<not> restartPending t" using assms by (auto simp: tray_ok_def)
  then show ?thesis
    by (cases "budget_consume (tickNow env) (restartBudget t)")
      (simp add: handleEngineExit_def scheduleAutomaticRestart_def tray_defs kWorkerUnavailableExitCode_def)
qed

lemma runEngine_code:
  assumes "runEngine useWorkerDns e = Some (actions, code)"
  shows "code \<in> {0, 2, 3, 10, 11, 12} \<and>
    (code = 3 \<longleftrightarrow> OpenDivert \<in> set actions \<and> useWorkerDns \<and> late_workerUnavailable (reading e) \<and> \<not> late_shutdown (reading e)) \<and>
    (code = 12 \<longleftrightarrow> proxyUp e \<and> (useWorkerDns \<longrightarrow> dnsStarts e) \<and> \<not> divertOpens e)"
  using assms
  by (auto simp: runEngine_def Let_def runtimeExitCode_def kEngineFailOpenExitCode_def kWorkerUnavailableExitCode_def
      kRelayPortInUse_def kDnsRelayPortInUse_def kWinDivertOpenFailed_def split: if_splits)

lemma needsUserAction_engine: "code \<in> {0, 2, 3, 10, 11, 12} \<Longrightarrow> needsUserAction (of_int code) \<longleftrightarrow> code = 12"
  by (auto simp: needsUserAction_def kWinDivertOpenFailed_def kInvalidProcessRules_def kSetupRequired_def kConfigUnreadable_def kDllNotFound_def)

end
