(* ===== verification/Wrangler_Process.thy ===== *)
theory Wrangler_Process
  imports Engine_Options "HOL-Library.Multiset"
begin

text \<open>
  The processes \<open>src/src/Wrangler.cpp\<close> runs: quoting of their arguments, the arguments of \<open>npx\<close>, and
  the environment block, from which every other way to sign in to Cloudflare is removed.
\<close>

section \<open>Arguments\<close>

fun wranglerQuoteLoop :: "wchar list \<Rightarrow> nat \<Rightarrow> wchar list \<Rightarrow> wchar list" where
  "wranglerQuoteLoop [] backslashes quotedText = quotedText @ replicate (backslashes * 2) 92 @ [34]"
| "wranglerQuoteLoop (ch # rest) backslashes quotedText =
     (if ch = 92 then wranglerQuoteLoop rest (backslashes + 1) quotedText
      else if ch = 34 then wranglerQuoteLoop rest 0 (quotedText @ replicate (backslashes * 2 + 1) 92 @ [ch])
      else wranglerQuoteLoop rest 0 (quotedText @ replicate backslashes 92 @ [ch]))"

definition wranglerQuoteArgument :: "wchar list \<Rightarrow> wchar list" where
  "wranglerQuoteArgument v =
     (if v \<noteq> [] \<and> \<not> list_ex (\<lambda>c. c \<in> {32, 9, 10, 11, 34}) v then v else wranglerQuoteLoop v 0 [34])"

definition kWranglerVersion :: "wchar list" where "kWranglerVersion = wide ''4.149.0''"

definition npxArguments :: "wchar list \<Rightarrow> wchar list list \<Rightarrow> wchar list list" where
  "npxArguments npxCli arguments = [npxCli, wide ''--yes'', wide ''wrangler@'' @ kWranglerVersion] @ arguments"

text \<open>The second implementation of the quoting agrees with the one of \<open>CommandLine.hpp\<close>.\<close>

lemma wranglerQuoteLoop_eq: "wranglerQuoteLoop cs backslashes acc = acc @ quoteLoop cs backslashes"
  by (induction cs backslashes acc rule: wranglerQuoteLoop.induct) auto

lemma wranglerQuoteArgument_eq: "wranglerQuoteArgument v = quoteArgument v"
  by (auto simp: wranglerQuoteArgument_def quoteArgument_def needsQuotes_def wranglerQuoteLoop_eq list_ex_iff)

section \<open>The environment\<close>

text \<open>\<open>upper\<close> is \<open>towupper\<close>; an entry that starts with \<open>=\<close> (a drive's directory) has the sign in its key.\<close>

definition entryKey :: "(wchar \<Rightarrow> wchar) \<Rightarrow> wchar list \<Rightarrow> wchar list" where
  "entryKey upper entry =
     (let prefix = (if entry \<noteq> [] \<and> hd entry = 61 then 1 else 0)
      in map upper (take prefix entry @ takeWhile (\<lambda>c. c \<noteq> 61) (drop prefix entry)))"

definition strippedKeys :: "wchar list list" where
  "strippedKeys = map wide [''CLOUDFLARE_API_TOKEN'', ''CLOUDFLARE_API_KEY'', ''CLOUDFLARE_EMAIL'', ''CF_API_TOKEN'', ''CF_API_KEY'',
     ''CF_EMAIL'', ''CLOUDFLARE_AUTH_USE_KEYRING'', ''NO_COLOR'', ''WRANGLER_SEND_METRICS'']"

definition forcedEntries :: "wchar list list" where
  "forcedEntries = map wide [''CLOUDFLARE_AUTH_USE_KEYRING=true'', ''NO_COLOR=1'', ''WRANGLER_SEND_METRICS=false'']"

definition keptEntries :: "(wchar \<Rightarrow> wchar) \<Rightarrow> wchar list list \<Rightarrow> wchar list list" where
  "keptEntries upper inherited = filter (\<lambda>entry. entryKey upper entry \<notin> set strippedKeys) inherited @ forcedEntries"

text \<open>\<open>order\<close> is \<open>std::sort\<close> with the comparison of Windows; every entry and the block end with a zero.\<close>

definition sanitizedEnvironment :: "(wchar \<Rightarrow> wchar) \<Rightarrow> (wchar list list \<Rightarrow> wchar list list) \<Rightarrow> wchar list list \<Rightarrow> wchar list" where
  "sanitizedEnvironment upper order inherited = concat (map (\<lambda>entry. entry @ [0]) (order (keptEntries upper inherited))) @ [0]"

text \<open>Reading a block back, the way \<open>sanitizedEnvironment\<close> itself walks the inherited one.\<close>

function blockEntries :: "wchar list \<Rightarrow> wchar list list" where
  "blockEntries block =
     (let entry = takeWhile (\<lambda>c. c \<noteq> 0) block in
      if entry = [] then [] else entry # blockEntries (drop (length entry + 1) block))"
  by pat_completeness auto
termination by (relation "measure length") (auto simp: Let_def takeWhile_eq_Nil_iff)

declare blockEntries.simps [simp del]

lemma blockEntries_block:
  "list_all (\<lambda>entry. entry \<noteq> [] \<and> 0 \<notin> set entry) vars \<Longrightarrow>
    blockEntries (concat (map (\<lambda>entry. entry @ [0]) vars) @ [0]) = vars"
proof (induction vars)
  case Nil
  then show ?case by (subst blockEntries.simps) simp
next
  case (Cons entry vars)
  have "0 \<notin> set entry" using Cons.prems by simp
  then have "takeWhile (\<lambda>c. c \<noteq> 0) (entry @ 0 # rest) = entry" for rest by (induction entry) auto
  then show ?case using Cons by (subst blockEntries.simps) (simp add: Let_def)
qed

text \<open>
  The child process sees the inherited variables except the ones that would sign in past the
  keyring, and of those names only the three entries this program sets.
\<close>

lemma keyring_only:
  assumes "\<And>vars. mset (order vars) = mset vars"
    and "list_all (\<lambda>entry. entry \<noteq> [] \<and> 0 \<notin> set entry) inherited"
    and "entry \<in> set (blockEntries (sanitizedEnvironment upper order inherited))"
  shows "entryKey upper entry \<in> set strippedKeys \<Longrightarrow> entry \<in> set forcedEntries"
    and "entryKey upper entry \<notin> set strippedKeys \<Longrightarrow> entry \<in> set inherited \<union> set forcedEntries"
proof -
  have "list_all (\<lambda>entry. entry \<noteq> [] \<and> 0 \<notin> set entry) forcedEntries"
    by (simp add: forcedEntries_def wide_def)
  then have "list_all (\<lambda>entry. entry \<noteq> [] \<and> 0 \<notin> set entry) (keptEntries upper inherited)"
    using assms(2) by (auto simp: keptEntries_def list_all_iff)
  moreover have same: "set (order (keptEntries upper inherited)) = set (keptEntries upper inherited)"
    using assms(1) mset_eq_setD by blast
  ultimately have "list_all (\<lambda>entry. entry \<noteq> [] \<and> 0 \<notin> set entry) (order (keptEntries upper inherited))"
    by (simp add: list_all_iff)
  then have "entry \<in> set (keptEntries upper inherited)"
    using assms(3) same by (simp add: sanitizedEnvironment_def blockEntries_block)
  then show "entryKey upper entry \<in> set strippedKeys \<Longrightarrow> entry \<in> set forcedEntries"
    "entryKey upper entry \<notin> set strippedKeys \<Longrightarrow> entry \<in> set inherited \<union> set forcedEntries"
    by (auto simp: keptEntries_def)
qed

end
