(* ===== verification/Network_Identity.thy ===== *)
theory Network_Identity
  imports Prelude "HOL-Library.List_Lexorder" "HOL-Library.Char_ord"
begin

text \<open>
  \<open>src/src/NetworkIdentity.hpp\<close> and \<open>NetworkIdentity.cpp\<close>: the identifier of the set of connected
  networks, under which strategies are learned, and its cache. What the network list of Windows
  answers is an argument; \<open>get\<close> has two critical sections with the query between them, and
  threads interleave them freely.
\<close>

section \<open>The identifier\<close>

definition kDefaultId :: string where "kDefaultId = ''network-default''"

text \<open>The text of \<open>StringFromGUID2\<close> up to its terminator, \<open>None\<close> when it fails.\<close>

definition guidText :: "16 word list option \<Rightarrow> string" where
  "guidText guid =
     (case guid of None \<Rightarrow> []
      | Some w \<Rightarrow> map (\<lambda>c. char_of (unat c mod 256)) (filter (\<lambda>c. c \<noteq> 123 \<and> c \<noteq> 125) (takeWhile (\<lambda>c. c \<noteq> 0) w)))"

definition fnv1a :: "string \<Rightarrow> u64" where
  "fnv1a s = foldl (\<lambda>hash c. xor hash (of_nat (of_char c)) * 1099511628211) 14695981039346656037 s"

fun hexText :: "nat \<Rightarrow> nat \<Rightarrow> string" where
  "hexText 0 v = []"
| "hexText (Suc n) v = hexText n (v div 16) @ [''0123456789abcdef'' ! (v mod 16)]"

definition joinIds :: "string list \<Rightarrow> string" where
  "joinIds ids = concat (map (\<lambda>i. i @ ''|'') (sort ids))"

text \<open>One network of the enumeration: its connectivity flags and its identifier.\<close>

record Network =
  connectivity :: "u32 option"
  networkGuid :: "16 word list option option"

definition hasInternet :: "Network \<Rightarrow> bool" where
  "hasInternet n \<longleftrightarrow> (case connectivity n of None \<Rightarrow> False | Some c \<Rightarrow> and c 0x40 \<noteq> 0 \<or> and c 0x400 \<noteq> 0)"

definition usableIds :: "Network list \<Rightarrow> string list" where
  "usableIds networks =
     filter (\<lambda>i. i \<noteq> []) (map (\<lambda>n. case networkGuid n of None \<Rightarrow> [] | Some guid \<Rightarrow> guidText guid) (filter hasInternet networks))"

text \<open>\<open>initialised\<close>: COM is usable; \<open>networks\<close> is \<open>None\<close> when the manager or its list is not available.\<close>

definition currentId :: "bool \<Rightarrow> Network list option \<Rightarrow> string" where
  "currentId initialised networks =
     (if \<not> initialised then kDefaultId
      else case networks of None \<Rightarrow> kDefaultId
      | Some found \<Rightarrow>
          let ids = usableIds found in
          if ids = [] then kDefaultId else ''nla-'' @ hexText 16 (unat (fnv1a (joinIds ids))))"

section \<open>The cache\<close>

text \<open>Times are milliseconds of the steady clock.\<close>

record CachedIdentity =
  ci_value :: string
  ci_fetchedAt :: int
  ci_refreshing :: bool
  ci_ttl :: int

definition newIdentity :: "int \<Rightarrow> CachedIdentity" where
  "newIdentity ttl = \<lparr>ci_value = [], ci_fetchedAt = 0, ci_refreshing = False, ci_ttl = ttl\<rparr>"

text \<open>The first critical section: an answer, or \<open>None\<close> when this thread is to ask the system.\<close>

definition get_enter :: "int \<Rightarrow> CachedIdentity \<Rightarrow> string option \<times> CachedIdentity" where
  "get_enter now c =
     (if ci_value c \<noteq> [] \<and> now - ci_fetchedAt c < ci_ttl c then (Some (ci_value c), c)
      else if ci_refreshing c \<and> ci_value c \<noteq> [] then (Some (ci_value c), c)
      else (None, c\<lparr>ci_refreshing := True\<rparr>))"

definition get_leave :: "int \<Rightarrow> string \<Rightarrow> CachedIdentity \<Rightarrow> string \<times> CachedIdentity" where
  "get_leave now fetched c =
     (let c1 = c\<lparr>ci_refreshing := False, ci_fetchedAt := now,
                 ci_value := (if ci_value c = [] \<or> fetched \<noteq> kDefaultId then fetched else ci_value c)\<rparr>
      in (ci_value c1, c1))"

section \<open>Properties\<close>

text \<open>The order in which Windows lists the networks does not matter.\<close>

lemma currentId_order:
  assumes "mset found = mset found'"
  shows "currentId initialised (Some found) = currentId initialised (Some found')"
proof -
  have same: "mset (usableIds found) = mset (usableIds found')"
    unfolding usableIds_def using assms by simp
  then have "sort (usableIds found) = sort (usableIds found')"
    by (metis properties_for_sort mset_sort sorted_sort)
  moreover have "usableIds found = [] \<longleftrightarrow> usableIds found' = []" using same by auto
  ultimately show ?thesis by (simp add: currentId_def joinIds_def Let_def)
qed

lemma length_hexText [simp]: "length (hexText n v) = n"
  by (induction n arbitrary: v) auto

lemma currentId_form: "currentId initialised networks = kDefaultId \<or>
    (\<exists>digits. currentId initialised networks = ''nla-'' @ digits \<and> length digits = 16)"
  by (auto simp: currentId_def Let_def split: option.splits)

lemma currentId_nonempty: "currentId initialised networks \<noteq> []"
  by (auto simp: currentId_def kDefaultId_def Let_def split: option.splits)

text \<open>
  One step of the threads: a call enters, or a query comes back with what the system said, which
  is never empty (\<open>currentId_nonempty\<close>).
\<close>

datatype IdentityStep = Enter int | Finish int string

record IdentityHistory =
  ih_cache :: CachedIdentity
  ih_answers :: "string list"
  ih_fetched :: "string list"

fun identity_step :: "IdentityStep \<Rightarrow> IdentityHistory \<Rightarrow> IdentityHistory" where
  "identity_step (Enter now) h =
     (let (answer, c) = get_enter now (ih_cache h)
      in h\<lparr>ih_cache := c, ih_answers := (case answer of None \<Rightarrow> ih_answers h | Some a \<Rightarrow> ih_answers h @ [a])\<rparr>)"
| "identity_step (Finish now fetched) h =
     (if fetched = [] then h
      else let (answer, c) = get_leave now fetched (ih_cache h)
        in h\<lparr>ih_cache := c, ih_answers := ih_answers h @ [answer], ih_fetched := ih_fetched h @ [fetched]\<rparr>)"

definition real_id :: "string \<Rightarrow> bool" where
  "real_id i \<longleftrightarrow> i \<noteq> [] \<and> i \<noteq> kDefaultId"

fun default_after_real :: "string list \<Rightarrow> bool" where
  "default_after_real [] \<longleftrightarrow> False"
| "default_after_real (a # rest) \<longleftrightarrow> real_id a \<and> kDefaultId \<in> set rest \<or> default_after_real rest"

definition identity_inv :: "IdentityHistory \<Rightarrow> bool" where
  "identity_inv h \<longleftrightarrow> \<not> default_after_real (ih_answers h) \<and>
     (ci_value (ih_cache h) = [] \<longrightarrow> ih_fetched h = [] \<and> ih_answers h = []) \<and>
     (ci_value (ih_cache h) \<noteq> [] \<longrightarrow> ci_value (ih_cache h) \<in> set (ih_fetched h)) \<and>
     (list_ex real_id (ih_answers h) \<longrightarrow> real_id (ci_value (ih_cache h))) \<and>
     set (ih_answers h) \<subseteq> set (ih_fetched h) \<and> [] \<notin> set (ih_fetched h)"

lemma default_after_real_snoc:
  "default_after_real (xs @ [x]) \<longleftrightarrow> default_after_real xs \<or> (list_ex real_id xs \<and> x = kDefaultId)"
  by (induction xs) auto

lemma identity_step_inv: "identity_inv h \<Longrightarrow> identity_inv (identity_step op h)"
proof (cases op)
  case (Enter now)
  assume "identity_inv h"
  then show ?thesis using Enter
    by (auto simp: identity_inv_def get_enter_def default_after_real_snoc real_id_def Let_def split: if_splits)
next
  case (Finish now fetched)
  assume "identity_inv h"
  then show ?thesis using Finish
    by (auto simp: identity_inv_def get_leave_def default_after_real_snoc real_id_def Let_def split: if_splits)
qed

interpretation identity_cache: machine identity_step "\<lambda>_ _. False" identity_inv
  by unfold_locales (auto intro: identity_step_inv)

text \<open>
  Under every interleaving of callers, an answer is an identifier the system gave at some time,
  and once a real network is known no caller is told the fallback again, so a brief outage does
  not change the scope of what was learned.
\<close>

lemma identity_sticky:
  assumes "reach identity_step (\<lambda>_ _. False) \<lparr>ih_cache = newIdentity ttl, ih_answers = [], ih_fetched = []\<rparr> h"
  shows "\<not> default_after_real (ih_answers h) \<and> set (ih_answers h) \<subseteq> set (ih_fetched h)"
  using identity_cache.reach_inv [OF assms] by (simp add: identity_inv_def newIdentity_def)

end
