(* ===== verification/Telemetry_Store.thy ===== *)
theory Telemetry_Store
  imports Diagnosis
begin

text \<open>
  \<open>telemetry::Store\<close> of \<open>src/src/Telemetry.hpp\<close> and \<open>Telemetry.cpp\<close>: the bounded queue in front of the
  writer thread, the writer's batches, the columns of a stored event, and pruning. SQLite is the
  environment: whether it opens, prepares, begins, inserts and commits is an argument of the step,
  and a transaction takes effect as a whole or not at all. Each critical section and each
  transaction is one step, and the steps of callers, writer, start and stop interleave freely.
\<close>

section \<open>Records and rows\<close>

record TelemetryRecord =
  tr_occurredAt :: int
  tr_networkId :: string
  tr_host :: string
  tr_remembered :: string
  tr_verdict :: Verdict
  tr_attempts :: "Attempt list"
  tr_totalElapsedMs :: u32
  tr_success :: bool
  tr_forced :: bool

record EventRow =
  row_id :: nat
  row_occurredAt :: int
  row_network :: string
  row_host :: string
  row_baseline :: "string option"
  row_diagnosis :: string
  row_confidence :: nat
  row_winner :: "string option"
  row_remembered :: "string option"
  row_success :: bool
  row_forced :: bool
  row_attemptCount :: nat
  row_elapsedMs :: u32
  row_cacheHit :: bool
  row_attempts :: "(nat \<times> string \<times> string \<times> u32) list"

definition nullIfEmpty :: "string \<Rightarrow> string option" where
  "nullIfEmpty s = (if s = [] then None else Some s)"

definition cacheHit :: "TelemetryRecord \<Rightarrow> bool" where
  "cacheHit r \<longleftrightarrow> tr_success r \<and> tr_remembered r \<noteq> [] \<and> winningProfile (tr_verdict r) = tr_remembered r \<and> length (tr_attempts r) = 1"

text \<open>What \<open>insertRecord\<close> binds; \<open>i\<close> is the row id SQLite gives, \<open>kindText\<close> is \<open>diagnosis::name\<close>.\<close>

definition eventRow :: "(Kind \<Rightarrow> string) \<Rightarrow> nat \<Rightarrow> TelemetryRecord \<Rightarrow> EventRow" where
  "eventRow kindText i r =
     \<lparr>row_id = i, row_occurredAt = tr_occurredAt r, row_network = tr_networkId r, row_host = tr_host r,
      row_baseline = map_option (\<lambda>a. signalName (attempt_signal a)) (find (\<lambda>a. attempt_profile a = ''none'') (tr_attempts r)),
      row_diagnosis = kindText (verdict_kind (tr_verdict r)), row_confidence = verdict_confidence (tr_verdict r),
      row_winner = nullIfEmpty (winningProfile (tr_verdict r)), row_remembered = nullIfEmpty (tr_remembered r),
      row_success = tr_success r, row_forced = tr_forced r, row_attemptCount = length (tr_attempts r),
      row_elapsedMs = tr_totalElapsedMs r, row_cacheHit = cacheHit r,
      row_attempts = map (\<lambda>(k, a). (k, attempt_profile a, signalName (attempt_signal a), elapsedMs a)) (enumerate 0 (tr_attempts r))\<rparr>"

text \<open>\<open>pruneDatabase\<close> on the rows in the order of their ids: first the expired ones go, then the oldest beyond the limit.\<close>

definition pruneRows :: "int \<Rightarrow> u32 \<Rightarrow> nat \<Rightarrow> EventRow list \<Rightarrow> EventRow list" where
  "pruneRows now retentionDays maxEvents rows =
     (let kept = filter (\<lambda>row. \<not> row_occurredAt row < now - uint retentionDays * 86400) rows
      in drop (length kept - maxEvents) kept)"

section \<open>The store\<close>

definition kWriteBatchSize :: nat where "kWriteBatchSize = 256"
definition kPruneEveryRecords :: nat where "kPruneEveryRecords = 2000"
definition kPruneEveryIntervalMs :: int where "kPruneEveryIntervalMs = 3600000"

datatype Writer = NoWriter | OpeningDatabase | WaitingForWork | WritingBatch "TelemetryRecord list" | WriterEnded

text \<open>\<open>ts_accepted\<close> and \<open>ts_fates\<close> log the records taken into the queue and what became of those that left it.\<close>

record TelemetryStore =
  ts_path :: string
  ts_retentionDays :: u32
  ts_maxEvents :: nat
  ts_maxQueued :: nat
  ts_accepting :: bool
  ts_stopping :: bool
  ts_dropped :: nat
  ts_queue :: "TelemetryRecord list"
  ts_writer :: Writer
  ts_sincePrune :: nat
  ts_lastPrune :: int
  ts_rows :: "EventRow list"
  ts_nextId :: nat
  ts_accepted :: "TelemetryRecord list"
  ts_fates :: "(TelemetryRecord \<times> bool) list"

definition newTelemetry :: "string \<Rightarrow> u32 \<Rightarrow> nat \<Rightarrow> nat \<Rightarrow> TelemetryStore" where
  "newTelemetry p retentionDays maxEvents maxQueued =
     \<lparr>ts_path = p, ts_retentionDays = max retentionDays 1, ts_maxEvents = max maxEvents 100, ts_maxQueued = max maxQueued 64,
      ts_accepting = False, ts_stopping = False, ts_dropped = 0, ts_queue = [], ts_writer = NoWriter, ts_sincePrune = 0,
      ts_lastPrune = 0, ts_rows = [], ts_nextId = 1, ts_accepted = [], ts_fates = []\<rparr>"

definition giveUp :: "TelemetryStore \<Rightarrow> TelemetryStore" where
  "giveUp s = s\<lparr>ts_queue := [], ts_fates := ts_fates s @ map (\<lambda>r. (r, False)) (ts_queue s)\<rparr>"

text \<open>\<open>start\<close>: it waits for a writer that is still there; \<open>makesDir\<close> is the answer of the file system.\<close>

definition tel_start :: "bool \<Rightarrow> TelemetryStore \<Rightarrow> bool \<times> TelemetryStore" where
  "tel_start makesDir s =
     (if ts_path s = [] then (False, s)
      else if ts_accepting s then (True, s)
      else if \<not> makesDir then (False, s\<lparr>ts_writer := NoWriter\<rparr>)
      else (True, (giveUp s)\<lparr>ts_stopping := False, ts_accepting := True, ts_writer := OpeningDatabase\<rparr>))"

definition tel_stop :: "TelemetryStore \<Rightarrow> TelemetryStore" where
  "tel_stop s = s\<lparr>ts_accepting := False, ts_stopping := True\<rparr>"

text \<open>\<open>record\<close>: \<open>seen\<close> is what the unlocked test of \<open>accepting_\<close> read, \<open>now\<close> the clock.\<close>

definition tel_record :: "bool \<Rightarrow> int \<Rightarrow> TelemetryRecord \<Rightarrow> TelemetryStore \<Rightarrow> TelemetryStore" where
  "tel_record seen now r s =
     (let r1 = (if tr_occurredAt r = 0 then r\<lparr>tr_occurredAt := now\<rparr> else r) in
      if \<not> seen \<or> \<not> ts_accepting s then s
      else if length (ts_queue s) \<ge> ts_maxQueued s then s\<lparr>ts_dropped := ts_dropped s + 1\<rparr>
      else s\<lparr>ts_queue := ts_queue s @ [r1], ts_accepted := ts_accepted s @ [r1]\<rparr>)"

section \<open>The writer\<close>

definition tel_prune :: "int \<Rightarrow> TelemetryStore \<Rightarrow> TelemetryStore" where
  "tel_prune now s = s\<lparr>ts_rows := pruneRows now (ts_retentionDays s) (ts_maxEvents s) (ts_rows s)\<rparr>"

definition writer_open :: "bool \<Rightarrow> bool \<Rightarrow> int \<Rightarrow> int \<Rightarrow> TelemetryStore \<Rightarrow> TelemetryStore" where
  "writer_open opens prepares unixNow tick s =
     (if ts_writer s \<noteq> OpeningDatabase then s
      else if \<not> opens then (giveUp s)\<lparr>ts_accepting := False, ts_writer := WriterEnded\<rparr>
      else if \<not> prepares then s\<lparr>ts_accepting := False, ts_writer := WriterEnded\<rparr>
      else (tel_prune unixNow s)\<lparr>ts_writer := WaitingForWork, ts_sincePrune := 0, ts_lastPrune := tick\<rparr>)"

text \<open>Taking a batch, once there is work or a stop; the linger only delays it.\<close>

definition writer_take :: "int \<Rightarrow> TelemetryStore \<Rightarrow> TelemetryStore" where
  "writer_take unixNow s =
     (if ts_writer s \<noteq> WaitingForWork \<or> (\<not> ts_stopping s \<and> ts_queue s = []) then s
      else let batch = take kWriteBatchSize (ts_queue s) in
        if batch = [] \<and> ts_stopping s then (tel_prune unixNow s)\<lparr>ts_writer := WriterEnded\<rparr>
        else s\<lparr>ts_queue := drop kWriteBatchSize (ts_queue s), ts_writer := WritingBatch batch\<rparr>)"

fun rowsFor :: "(Kind \<Rightarrow> string) \<Rightarrow> nat \<Rightarrow> TelemetryRecord list \<Rightarrow> EventRow list" where
  "rowsFor kindText i [] = []"
| "rowsFor kindText i (r # rs) = eventRow kindText i r # rowsFor kindText (i + 1) rs"

text \<open>One transaction: \<open>begins\<close>, an answer for every record, \<open>commits\<close>; then perhaps pruning.\<close>

definition writer_write :: "(Kind \<Rightarrow> string) \<Rightarrow> bool \<Rightarrow> bool list \<Rightarrow> bool \<Rightarrow> int \<Rightarrow> int \<Rightarrow> TelemetryStore \<Rightarrow> TelemetryStore" where
  "writer_write kindText begins inserts commits unixNow tick s =
     (case ts_writer s of
        WritingBatch batch \<Rightarrow>
          (let ok = (begins \<and> list_all (\<lambda>i. i) (take (length batch) inserts) \<and> commits);
               s1 = s\<lparr>ts_writer := WaitingForWork, ts_fates := ts_fates s @ map (\<lambda>r. (r, ok)) batch,
                      ts_rows := (if ok then ts_rows s @ rowsFor kindText (ts_nextId s) batch else ts_rows s),
                      ts_nextId := (if ok then ts_nextId s + length batch else ts_nextId s),
                      ts_sincePrune := ts_sincePrune s + length batch\<rparr>
           in if ts_sincePrune s1 \<ge> kPruneEveryRecords \<or> tick - ts_lastPrune s1 \<ge> kPruneEveryIntervalMs
              then (tel_prune unixNow s1)\<lparr>ts_sincePrune := 0, ts_lastPrune := tick\<rparr> else s1)
      | _ \<Rightarrow> s)"

datatype TelemetryOp = TelStart bool | TelStop | TelRecord bool int TelemetryRecord | WriterOpen bool bool int int
  | WriterTake int | WriterWrite bool "bool list" bool int int

text \<open>\<open>start\<close> goes on only once the old writer has ended.\<close>

fun tel_step :: "(Kind \<Rightarrow> string) \<Rightarrow> TelemetryOp \<Rightarrow> TelemetryStore \<Rightarrow> TelemetryStore" where
  "tel_step kindText (TelStart makesDir) s =
     (if ts_accepting s \<or> ts_writer s \<in> {NoWriter, WriterEnded} then snd (tel_start makesDir s) else s)"
| "tel_step kindText TelStop s = tel_stop s"
| "tel_step kindText (TelRecord seen now r) s = tel_record seen now r s"
| "tel_step kindText (WriterOpen opens prepares unixNow tick) s = writer_open opens prepares unixNow tick s"
| "tel_step kindText (WriterTake unixNow) s = writer_take unixNow s"
| "tel_step kindText (WriterWrite begins inserts commits unixNow tick) s = writer_write kindText begins inserts commits unixNow tick s"

section \<open>No record is lost silently\<close>

definition batchOf :: "TelemetryStore \<Rightarrow> TelemetryRecord list" where
  "batchOf s = (case ts_writer s of WritingBatch batch \<Rightarrow> batch | _ \<Rightarrow> [])"

definition tel_inv :: "TelemetryStore \<Rightarrow> bool" where
  "tel_inv s \<longleftrightarrow> ts_accepted s = map fst (ts_fates s) @ batchOf s @ ts_queue s \<and> length (ts_queue s) \<le> ts_maxQueued s \<and>
     (ts_accepting s \<longrightarrow> \<not> ts_stopping s \<and> ts_writer s \<notin> {NoWriter, WriterEnded})"

lemmas tel_defs = tel_start_def tel_stop_def tel_record_def writer_open_def writer_take_def giveUp_def tel_prune_def batchOf_def

lemma tel_step_inv: "tel_inv s \<Longrightarrow> tel_inv (tel_step kindText op s)"
proof (cases op)
  case (TelRecord seen now r)
  assume "tel_inv s"
  then show ?thesis using TelRecord by (auto simp: tel_inv_def tel_defs Let_def split: Writer.splits)
next
  case (WriterWrite begins inserts commits unixNow tick)
  assume "tel_inv s"
  then show ?thesis using WriterWrite
    by (cases "ts_writer s") (auto simp: tel_inv_def tel_defs writer_write_def Let_def comp_def)
next
  case (WriterTake unixNow)
  assume "tel_inv s"
  then show ?thesis using WriterTake append_take_drop_id [of kWriteBatchSize "ts_queue s"]
    by (cases "ts_writer s") (auto simp: tel_inv_def tel_defs Let_def)
qed (auto simp: tel_inv_def tel_defs comp_def split: Writer.splits if_splits)

interpretation telemetry: machine "tel_step kindText" "\<lambda>_ _. False" tel_inv for kindText
  by unfold_locales (auto intro: tel_step_inv)

text \<open>
  Under every interleaving the queue keeps its bound, and the records that were accepted are, in
  their order, the ones whose fate is settled (committed, or lost with their whole transaction),
  the batch being written and the queue.
\<close>

lemma telemetry_accounted:
  assumes "reach (tel_step kindText) (\<lambda>_ _. False) (newTelemetry p days events queued) s"
  shows "ts_accepted s = map fst (ts_fates s) @ batchOf s @ ts_queue s \<and> length (ts_queue s) \<le> ts_maxQueued s"
  using telemetry.reach_inv [OF assms] by (simp add: tel_inv_def newTelemetry_def batchOf_def)

text \<open>
  A stop ends the writer: after one round of taking and writing for every 256 queued records and
  one more it has ended, whatever SQLite answers, and every accepted record has its fate.
\<close>

definition drainRound :: "(Kind \<Rightarrow> string) \<Rightarrow> bool \<times> bool list \<times> bool \<times> int \<times> int \<Rightarrow> TelemetryStore \<Rightarrow> TelemetryStore" where
  "drainRound kindText = (\<lambda>(begins, inserts, commits, unixNow, tick) s.
     writer_write kindText begins inserts commits unixNow tick (writer_take unixNow s))"

lemma drainRound_ended: "ts_writer s = WriterEnded \<Longrightarrow> drainRound kindText e s = s"
  by (cases e) (simp add: drainRound_def writer_take_def writer_write_def)

lemma drainRounds_ended: "ts_writer s = WriterEnded \<Longrightarrow> fold (drainRound kindText) es s = s"
  by (induction es) (simp_all add: drainRound_ended)

lemma drainRound_last:
  "ts_writer s = WaitingForWork \<Longrightarrow> ts_stopping s \<Longrightarrow> ts_queue s = [] \<Longrightarrow>
    ts_writer (drainRound kindText e s) = WriterEnded \<and> ts_queue (drainRound kindText e s) = []"
  by (cases e) (simp add: drainRound_def writer_take_def writer_write_def tel_prune_def Let_def)

lemma drainRound_batch:
  assumes "ts_writer s = WaitingForWork" "ts_stopping s" "ts_queue s \<noteq> []"
  shows "ts_writer (drainRound kindText e s) = WaitingForWork \<and> ts_stopping (drainRound kindText e s) \<and>
    ts_queue (drainRound kindText e s) = drop kWriteBatchSize (ts_queue s)"
proof -
  have "take kWriteBatchSize (ts_queue s) \<noteq> []" using assms(3) by (simp add: kWriteBatchSize_def)
  then show ?thesis using assms
    by (cases e) (simp add: drainRound_def writer_take_def writer_write_def tel_prune_def Let_def)
qed

lemma stop_drains:
  "ts_writer s = WaitingForWork \<Longrightarrow> ts_stopping s \<Longrightarrow> length (ts_queue s) \<le> n * kWriteBatchSize \<Longrightarrow> length es = n + 1 \<Longrightarrow>
    ts_writer (fold (drainRound kindText) es s) = WriterEnded \<and> ts_queue (fold (drainRound kindText) es s) = []"
proof (induction n arbitrary: s es)
  case 0
  then obtain e where "es = [e]" by (cases es) auto
  then show ?case using 0 drainRound_last by simp
next
  case (Suc n)
  then obtain e rest where es: "es = e # rest" "length rest = n + 1" by (cases es) auto
  show ?case
  proof (cases "ts_queue s = []")
    case True
    then show ?thesis using drainRound_last [of s kindText e] drainRounds_ended Suc.prems es by simp
  next
    case False
    then show ?thesis using drainRound_batch [OF Suc.prems(1,2) False, of kindText e] Suc.IH [of "drainRound kindText e s" rest] Suc.prems(3) es by simp
  qed
qed

lemma stop_settles:
  assumes "tel_inv s" "ts_writer s = WaitingForWork" "length (ts_queue s) \<le> n * kWriteBatchSize" "length es = n + 1"
  shows "let s1 = fold (drainRound kindText) es (tel_stop s) in ts_writer s1 = WriterEnded \<and> ts_accepted s1 = map fst (ts_fates s1)"
proof -
  have "tel_inv u \<Longrightarrow> tel_inv (drainRound kindText e u)" for e u
    using tel_step_inv [of u kindText "WriterTake (fst (snd (snd (snd e))))"]
      tel_step_inv [of "writer_take (fst (snd (snd (snd e)))) u" kindText
        "WriterWrite (fst e) (fst (snd e)) (fst (snd (snd e))) (fst (snd (snd (snd e)))) (snd (snd (snd (snd e))))"]
    by (cases e) (simp add: drainRound_def)
  then have rounds: "tel_inv u \<Longrightarrow> tel_inv (fold (drainRound kindText) es u)" for u es by (induction es arbitrary: u) auto
  have "tel_inv (tel_stop s)" using tel_step_inv [OF assms(1), of kindText TelStop] by simp
  moreover have "ts_writer (fold (drainRound kindText) es (tel_stop s)) = WriterEnded \<and> ts_queue (fold (drainRound kindText) es (tel_stop s)) = []"
    by (rule stop_drains [OF _ _ _ assms(4)]) (use assms(2,3) in \<open>simp_all add: tel_stop_def\<close>)
  ultimately show ?thesis using rounds [of "tel_stop s" es] by (simp add: tel_inv_def batchOf_def)
qed

section \<open>Pruning\<close>

lemma pruneRows_props:
  "length (pruneRows now days events rows) \<le> events \<and>
   (\<forall>row \<in> set (pruneRows now days events rows). now - uint days * 86400 \<le> row_occurredAt row) \<and>
   (\<exists>gone. filter (\<lambda>row. \<not> row_occurredAt row < now - uint days * 86400) rows = gone @ pruneRows now days events rows)"
proof (intro conjI)
  let ?kept = "filter (\<lambda>row. \<not> row_occurredAt row < now - uint days * 86400) rows"
  show "length (pruneRows now days events rows) \<le> events" by (simp add: pruneRows_def Let_def)
  have "set (pruneRows now days events rows) \<subseteq> set ?kept" by (simp only: pruneRows_def Let_def set_drop_subset)
  then show "\<forall>row \<in> set (pruneRows now days events rows). now - uint days * 86400 \<le> row_occurredAt row" by auto
  show "\<exists>gone. ?kept = gone @ pruneRows now days events rows"
    unfolding pruneRows_def Let_def by (metis append_take_drop_id)
qed

end
