(* ===== verification/Startup_Task.thy ===== *)
theory Startup_Task
  imports Command_Line
begin

text \<open>
  Starting with Windows, \<open>src/src/TrayApp.cpp\<close>: the scheduled task runs the program elevated at every
  logon, so it may only be registered for a location that standard users cannot change. The
  access lists, the resolution of links, the scheduler and the file system are the environment. A
  path is the list of its parts, the drive first.
\<close>

section \<open>Who can change a file\<close>

type_synonym wpath = "wchar list list"

text \<open>A security identifier: the well-known groups the code asks for, and the others.\<close>

datatype Sid = WinWorld | WinAuthenticatedUser | WinBuiltinUsers | WinInteractive | OtherSid nat

record Ace =
  ace_allows :: bool
  ace_inheritOnly :: bool
  ace_mask :: "32 word"
  ace_sid :: Sid

text \<open>The answer of \<open>GetNamedSecurityInfoW\<close>; an entry is \<open>None\<close> when \<open>GetAce\<close> fails.\<close>

datatype Dacl = NoAnswer | NullDacl | Dacl "Ace option list"

definition FILE_WRITE_DATA :: "32 word" where "FILE_WRITE_DATA = 0x2"
definition FILE_APPEND_DATA :: "32 word" where "FILE_APPEND_DATA = 0x4"
definition FILE_DELETE_CHILD :: "32 word" where "FILE_DELETE_CHILD = 0x40"
definition ACCESS_DELETE :: "32 word" where "ACCESS_DELETE = 0x10000"
definition WRITE_DAC :: "32 word" where "WRITE_DAC = 0x40000"
definition WRITE_OWNER :: "32 word" where "WRITE_OWNER = 0x80000"
definition GENERIC_ALL :: "32 word" where "GENERIC_ALL = 0x10000000"
definition GENERIC_WRITE :: "32 word" where "GENERIC_WRITE = 0x40000000"

definition kObjectMask :: "32 word" where
  "kObjectMask = or FILE_WRITE_DATA (or FILE_APPEND_DATA (or FILE_DELETE_CHILD (or ACCESS_DELETE (or WRITE_DAC
     (or WRITE_OWNER (or GENERIC_WRITE GENERIC_ALL))))))"

definition kAncestorMask :: "32 word" where
  "kAncestorMask = or FILE_DELETE_CHILD (or ACCESS_DELETE (or WRITE_DAC (or WRITE_OWNER GENERIC_ALL)))"

definition lowPrivilege :: "Sid option \<Rightarrow> Sid \<Rightarrow> bool" where
  "lowPrivilege currentUser sid \<longleftrightarrow> sid = WinWorld \<or> sid = WinAuthenticatedUser \<or> sid = WinBuiltinUsers \<or> sid = WinInteractive \<or>
     currentUser = Some sid"

definition riskyAce :: "32 word \<Rightarrow> Sid option \<Rightarrow> Ace option \<Rightarrow> bool" where
  "riskyAce accessMask currentUser entry =
     (case entry of None \<Rightarrow> False
      | Some ace \<Rightarrow> ace_allows ace \<and> \<not> ace_inheritOnly ace \<and> and (ace_mask ace) accessMask \<noteq> 0 \<and> lowPrivilege currentUser (ace_sid ace))"

definition lowPrivilegeCanModify :: "Dacl \<Rightarrow> 32 word \<Rightarrow> Sid option \<Rightarrow> bool" where
  "lowPrivilegeCanModify dacl accessMask currentUser =
     (case dacl of NoAnswer \<Rightarrow> True | NullDacl \<Rightarrow> True | Dacl entries \<Rightarrow> list_ex (riskyAce accessMask currentUser) entries)"

text \<open>The loop over the parents; a drive is its own parent.\<close>

function parentsSafe :: "(wpath \<Rightarrow> Dacl) \<Rightarrow> Sid option \<Rightarrow> bool \<Rightarrow> wpath \<Rightarrow> bool" where
  "parentsSafe acl currentUser directory current =
     (if current = [] then True
      else if lowPrivilegeCanModify (acl current) (if directory then kObjectMask else kAncestorMask) currentUser then False
      else if length current = 1 then True
      else parentsSafe acl currentUser False (butlast current))"
  by pat_completeness auto
termination by (relation "measure (\<lambda>(acl, user, directory, current). length current)") auto

declare parentsSafe.simps [simp del]

definition locationNeedsAdminToModify :: "(wpath \<Rightarrow> Dacl) \<Rightarrow> (wpath \<Rightarrow> wpath option) \<Rightarrow> Sid option \<Rightarrow> wpath \<Rightarrow> bool" where
  "locationNeedsAdminToModify acl canonical currentUser executable =
     (case canonical executable of None \<Rightarrow> False
      | Some real \<Rightarrow> \<not> lowPrivilegeCanModify (acl real) kObjectMask currentUser \<and> parentsSafe acl currentUser True (butlast real))"

section \<open>The description of the task\<close>

definition xmlEscapeChar :: "wchar \<Rightarrow> wchar list" where
  "xmlEscapeChar c =
     (if c = 38 then wide ''&amp;'' else if c = 60 then wide ''&lt;'' else if c = 62 then wide ''&gt;''
      else if c = 34 then wide ''&quot;'' else [c])"

definition xmlEscape :: "wchar list \<Rightarrow> wchar list" where
  "xmlEscape s = concat (map xmlEscapeChar s)"

text \<open>A path as a string; the root of a drive ends in a backslash.\<close>

definition pathText :: "wpath \<Rightarrow> wchar list" where
  "pathText p = (if length p = 1 then hd p @ [92] else concat (map (\<lambda>(i, part). if i = 0 then part else 92 # part) (enumerate 0 p)))"

definition xmlLine :: "string \<Rightarrow> wchar list" where
  "xmlLine s = wide s @ [13, 10]"

definition startupTaskXml :: "wchar list \<Rightarrow> wchar list \<Rightarrow> wchar list \<Rightarrow> wchar list" where
  \<open>startupTaskXml executable directory userId =
     (let user = xmlEscape userId in
      xmlLine ''<?xml version="1.0" encoding="UTF-16"?>'' @
      xmlLine ''<Task version="1.2" xmlns="http://schemas.microsoft.com/windows/2004/02/mit/task">'' @
      xmlLine ''  <RegistrationInfo><Description>SplitHello</Description></RegistrationInfo>'' @
      xmlLine ''  <Triggers>'' @ xmlLine ''    <LogonTrigger>'' @ xmlLine ''      <Enabled>true</Enabled>'' @
      wide ''      <UserId>'' @ user @ xmlLine ''</UserId>'' @ xmlLine ''      <Delay>PT5S</Delay>'' @
      xmlLine ''    </LogonTrigger>'' @ xmlLine ''  </Triggers>'' @ xmlLine ''  <Principals>'' @
      xmlLine ''    <Principal id="Author">'' @ wide ''      <UserId>'' @ user @ xmlLine ''</UserId>'' @
      xmlLine ''      <LogonType>InteractiveToken</LogonType>'' @ xmlLine ''      <RunLevel>HighestAvailable</RunLevel>'' @
      xmlLine ''    </Principal>'' @ xmlLine ''  </Principals>'' @ xmlLine ''  <Settings>'' @
      xmlLine ''    <MultipleInstancesPolicy>IgnoreNew</MultipleInstancesPolicy>'' @
      xmlLine ''    <DisallowStartIfOnBatteries>false</DisallowStartIfOnBatteries>'' @
      xmlLine ''    <StopIfGoingOnBatteries>false</StopIfGoingOnBatteries>'' @
      xmlLine ''    <AllowHardTerminate>true</AllowHardTerminate>'' @ xmlLine ''    <StartWhenAvailable>false</StartWhenAvailable>'' @
      xmlLine ''    <RunOnlyIfNetworkAvailable>false</RunOnlyIfNetworkAvailable>'' @
      xmlLine ''    <AllowStartOnDemand>true</AllowStartOnDemand>'' @ xmlLine ''    <Enabled>true</Enabled>'' @
      xmlLine ''    <Hidden>false</Hidden>'' @ xmlLine ''    <ExecutionTimeLimit>PT0S</ExecutionTimeLimit>'' @
      xmlLine ''    <Priority>7</Priority>'' @ xmlLine ''  </Settings>'' @ xmlLine ''  <Actions Context="Author">'' @
      xmlLine ''    <Exec>'' @ wide ''      <Command>"'' @ xmlEscape executable @ xmlLine ''"</Command>'' @
      wide ''      <WorkingDirectory>'' @ xmlEscape directory @ xmlLine ''</WorkingDirectory>'' @
      xmlLine ''    </Exec>'' @ xmlLine ''  </Actions>'' @ xmlLine ''</Task>'')\<close>

section \<open>Registering the task\<close>

datatype StartupResult = StartupOk | StartupFailed | UnsafeLocation

record StartupEnv =
  st_executable :: wpath
  st_acl :: "wpath \<Rightarrow> Dacl"
  st_canonical :: "wpath \<Rightarrow> wpath option"
  st_currentUser :: "Sid option"
  st_userId :: "wchar list"
  st_writesXml :: bool
  st_queryCode :: "32 word option"
  st_deleteCode :: "32 word option"
  st_deleteEffect :: bool
  st_createCode :: "32 word option"
  st_createEffect :: bool

text \<open>The registered task (its program and its description) and the file for the import.\<close>

record StartupWorld =
  st_task :: "(wpath \<times> wchar list) option"
  st_xmlFile :: "(wpath \<times> wchar list) option"

definition kXmlName :: "wchar list" where "kXmlName = wide ''splithello-startup-task.xml''"

definition startupTaskExists :: "StartupEnv \<Rightarrow> bool option" where
  "startupTaskExists env = map_option (\<lambda>code. code = 0) (st_queryCode env)"

definition setStartupEnabled :: "StartupEnv \<Rightarrow> bool \<Rightarrow> StartupWorld \<Rightarrow> StartupResult \<times> StartupWorld" where
  "setStartupEnabled env enable w =
     (if \<not> enable then
        (if startupTaskExists env = Some False then (StartupOk, w)
         else (if st_deleteCode env = Some 0 then StartupOk else StartupFailed,
               if st_deleteEffect env then w\<lparr>st_task := None\<rparr> else w))
      else let executable = st_executable env in
        if executable = [] then (StartupFailed, w)
        else if \<not> locationNeedsAdminToModify (st_acl env) (st_canonical env) (st_currentUser env) executable then (UnsafeLocation, w)
        else if st_userId env = [] then (StartupFailed, w)
        else if \<not> st_writesXml env then (StartupFailed, w\<lparr>st_xmlFile := None\<rparr>)
        else let xml = startupTaskXml (pathText executable) (pathText (butlast executable)) (st_userId env);
                 w1 = w\<lparr>st_xmlFile := Some (butlast executable @ [kXmlName], xml)\<rparr>;
                 w2 = (if st_createEffect env then w1\<lparr>st_task := Some (executable, xml)\<rparr> else w1)
          in (if st_createCode env = Some 0 then StartupOk else StartupFailed, w2\<lparr>st_xmlFile := None\<rparr>))"

section \<open>Only admin-only locations\<close>

lemma parentsSafe_prefix:
  "parentsSafe acl user directory current \<Longrightarrow> 0 < n \<Longrightarrow> n \<le> length current \<Longrightarrow>
    \<not> lowPrivilegeCanModify (acl (take n current)) (if directory \<and> n = length current then kObjectMask else kAncestorMask) user"
proof (induction acl user directory current rule: parentsSafe.induct)
  case (1 acl user directory current)
  have here: "\<not> lowPrivilegeCanModify (acl current) (if directory then kObjectMask else kAncestorMask) user"
    using 1(2,3,4) by (subst (asm) parentsSafe.simps) (auto split: if_splits)
  show ?case
  proof (cases "n = length current")
    case True
    then show ?thesis using here by auto
  next
    case False
    then have shorter: "n \<le> length (butlast current)" "take n (butlast current) = take n current" "length current \<noteq> 1" "current \<noteq> []"
      using 1(3,4) by (auto simp: take_butlast)
    then have "parentsSafe acl user False (butlast current)"
      using 1(2) by (subst (asm) parentsSafe.simps) (auto split: if_splits)
    then show ?thesis using 1(1) [OF shorter(4) here shorter(3)] 1(3) shorter(1,2) False by simp
  qed
qed

text \<open>No entry lets a standard user replace the program, write into its folder, or rename a folder above.\<close>

definition adminOnly :: "(wpath \<Rightarrow> Dacl) \<Rightarrow> Sid option \<Rightarrow> wpath \<Rightarrow> bool" where
  "adminOnly acl user p \<longleftrightarrow>
     \<not> lowPrivilegeCanModify (acl p) kObjectMask user \<and> \<not> lowPrivilegeCanModify (acl (butlast p)) kObjectMask user \<and>
     list_all (\<lambda>n. \<not> lowPrivilegeCanModify (acl (take n p)) kAncestorMask user) [1..<length p - 1]"

lemma location_adminOnly:
  assumes "locationNeedsAdminToModify acl canonical user executable" "canonical executable = Some real" "2 \<le> length real"
  shows "adminOnly acl user real"
proof -
  have safe: "\<not> lowPrivilegeCanModify (acl real) kObjectMask user" "parentsSafe acl user True (butlast real)"
    using assms(1,2) by (auto simp: locationNeedsAdminToModify_def)
  have folder: "\<not> lowPrivilegeCanModify (acl (butlast real)) kObjectMask user"
    using parentsSafe_prefix [OF safe(2), of "length (butlast real)"] assms(3) by simp
  have "\<not> lowPrivilegeCanModify (acl (take n real)) kAncestorMask user" if "1 \<le> n" "n < length real - 1" for n
    using parentsSafe_prefix [OF safe(2), of n] that by (simp add: take_butlast)
  then show ?thesis using safe(1) folder by (auto simp: adminOnly_def list_all_iff)
qed

lemma xmlEscape_plain: "c \<in> {34, 60, 62} \<Longrightarrow> c \<notin> set (xmlEscape s)"
proof (induction s)
  case (Cons a s)
  have "c \<notin> set (xmlEscapeChar a)" using Cons.prems by (auto simp: xmlEscapeChar_def wide_def)
  then show ?case using Cons by (simp add: xmlEscape_def)
qed (simp add: xmlEscape_def)


definition adminAcl :: Dacl where
  "adminAcl = Dacl [Some \<lparr>ace_allows = True, ace_inheritOnly = False, ace_mask = 0x1F01FF, ace_sid = OtherSid 544\<rparr>,
     Some \<lparr>ace_allows = True, ace_inheritOnly = False, ace_mask = 0x1200A9, ace_sid = WinBuiltinUsers\<rparr>]"

definition sampleStartup :: "wpath \<Rightarrow> (wpath \<Rightarrow> wpath option) \<Rightarrow> (wpath \<Rightarrow> Dacl) \<Rightarrow> StartupEnv" where
  "sampleStartup exe canonical acl = \<lparr>st_executable = exe, st_acl = acl, st_canonical = canonical, st_currentUser = Some (OtherSid 1001),
     st_userId = wide ''me'', st_writesXml = True, st_queryCode = Some 0, st_deleteCode = Some 0, st_deleteEffect = True,
     st_createCode = Some 0, st_createEffect = True\<rparr>"

lemma sample_registered:
  "st_task (snd (setStartupEnabled (sampleStartup [[67, 58], [112], [115]] Some (\<lambda>p. adminAcl)) True \<lparr>st_task = None, st_xmlFile = None\<rparr>)) \<noteq> None"
  by (simp add: setStartupEnabled_def sampleStartup_def locationNeedsAdminToModify_def lowPrivilegeCanModify_def adminAcl_def riskyAce_def
      lowPrivilege_def kObjectMask_def kAncestorMask_def FILE_WRITE_DATA_def FILE_APPEND_DATA_def FILE_DELETE_CHILD_def ACCESS_DELETE_def
      WRITE_DAC_def WRITE_OWNER_def GENERIC_ALL_def GENERIC_WRITE_def parentsSafe.simps wide_def Let_def)


text \<open>
  The hypothesis that the program is reached without a link is needed: the location that is
  verified is the one behind the links, but the task and the file for the import use the path
  with the links in it, whose folder may belong to anyone.
\<close>

definition worldAcl :: Dacl where
  "worldAcl = Dacl [Some \<lparr>ace_allows = True, ace_inheritOnly = False, ace_mask = 0x1F01FF, ace_sid = WinWorld\<rparr>]"

definition linkedAcl :: "wpath \<Rightarrow> Dacl" where
  "linkedAcl p = (if hd p = [68, 58] then worldAcl else adminAcl)"

lemma linked_path_unverified:
  "let env = sampleStartup [[68, 58], [108], [115]] (\<lambda>p. Some [[67, 58], [112], [115]]) linkedAcl;
       (r, w1) = setStartupEnabled env True \<lparr>st_task = None, st_xmlFile = None\<rparr>
   in r = StartupOk \<and> map_option fst (st_task w1) = Some [[68, 58], [108], [115]] \<and>
      lowPrivilegeCanModify (linkedAcl [[68, 58], [108], [115]]) kObjectMask (Some (OtherSid 1001))"
  by (simp add: setStartupEnabled_def sampleStartup_def locationNeedsAdminToModify_def lowPrivilegeCanModify_def linkedAcl_def worldAcl_def
      adminAcl_def riskyAce_def lowPrivilege_def kObjectMask_def kAncestorMask_def FILE_WRITE_DATA_def FILE_APPEND_DATA_def
      FILE_DELETE_CHILD_def ACCESS_DELETE_def WRITE_DAC_def WRITE_OWNER_def GENERIC_ALL_def GENERIC_WRITE_def parentsSafe.simps wide_def Let_def)

end
