(* ===== verification/Rule_Editor.thy ===== *)
theory Rule_Editor
  imports Config_Store Command_Line
begin

text \<open>
  The editor of the process rules in the panel, \<open>splitLines\<close>, \<open>loadProcessRules\<close> and
  \<open>saveProcessRules\<close> of \<open>src/src/DashboardPanel.cpp\<close>. The conversions between UTF-8 and UTF-16 are
  parameters; the texts for the user are left out.
\<close>

section \<open>Lines\<close>

definition trimRule :: "wchar list \<Rightarrow> wchar list" where
  "trimRule raw = dropWhile (\<lambda>c. c = 32 \<or> c = 9) (rev (dropWhile (\<lambda>c. c = 13 \<or> c = 32 \<or> c = 9) (rev raw)))"

definition keepsRule :: "string list \<Rightarrow> string \<Rightarrow> bool" where
  "keepsRule lines v \<longleftrightarrow> v \<noteq> [] \<and> length v \<le> 1024 \<and> v \<notin> set lines"

function splitLoop :: "(wchar list \<Rightarrow> string) \<Rightarrow> wchar list \<Rightarrow> string list \<Rightarrow> string list" where
  "splitLoop narrow input lines =
     (let raw = trimRule (takeWhile (\<lambda>c. c \<noteq> 10) input);
          keeps = (raw \<noteq> [] \<and> keepsRule lines (narrow raw));
          lines1 = (if keeps then lines @ [narrow raw] else lines)
      in if keeps \<and> length lines1 \<ge> 128 then lines1
         else case dropWhile (\<lambda>c. c \<noteq> 10) input of [] \<Rightarrow> lines1 | _ # rest \<Rightarrow> splitLoop narrow rest lines1)"
  by pat_completeness auto
termination
proof (relation "measure (\<lambda>(narrow, input, lines). length input)")
  fix input rest :: "wchar list" and c
  assume "dropWhile (\<lambda>c. c \<noteq> 10) input = c # rest"
  then have "length rest < length input" using length_dropWhile_le [of "\<lambda>c. c \<noteq> 10" input] by simp
  then show "((narrow, rest, l1), narrow, input, l2) \<in> measure (\<lambda>(narrow, input, lines). length input)" for narrow :: "wchar list \<Rightarrow> string" and l1 l2 :: "string list"
    by simp
qed simp

declare splitLoop.simps [simp del]

definition splitLines :: "(wchar list \<Rightarrow> string) \<Rightarrow> wchar list \<Rightarrow> string list" where
  "splitLines narrow input = splitLoop narrow input []"

definition rulesText :: "(string \<Rightarrow> wchar list) \<Rightarrow> string list \<Rightarrow> wchar list" where
  "rulesText widen ruleList = concat (map (\<lambda>rule. widen rule @ [13, 10]) ruleList)"

section \<open>Loading and saving\<close>

definition loadProcessRules :: "(string \<Rightarrow> wchar list) \<Rightarrow> (string \<Rightarrow> string) \<Rightarrow> string \<Rightarrow> ConfigFile \<Rightarrow> (wchar list \<times> wchar list) option" where
  "loadProcessRules widen unprotect dir contents =
     (case loadConfig unprotect dir contents defaultConfig of (found, cfg) \<Rightarrow>
        if \<not> found then None
        else Some (rulesText widen (cfg_processInclude cfg), rulesText widen (cfg_processExclude cfg)))"

text \<open>The new file, and whether the engine is told to restart with the new configuration.\<close>

definition saveProcessRules ::
  "(wchar list \<Rightarrow> string) \<Rightarrow> (string \<Rightarrow> string) \<Rightarrow> (string \<Rightarrow> string) \<Rightarrow> bool \<Rightarrow> bool \<Rightarrow> string \<Rightarrow> wchar list \<Rightarrow> wchar list \<Rightarrow> ConfigFile \<Rightarrow> bool \<times> ConfigFile" where
  "saveProcessRules narrow protect unprotect createsDir writesFile dir includeText excludeText contents =
     (let ins = splitLines narrow includeText; exs = splitLines narrow excludeText;
          (found, cfg) = loadConfig unprotect dir contents defaultConfig
      in if \<not> found then (False, contents)
         else if cfg_processInclude cfg = ins \<and> cfg_processExclude cfg = exs then (False, contents)
         else saveConfig protect createsDir writesFile dir (cfg\<lparr>cfg_processInclude := ins, cfg_processExclude := exs\<rparr>) contents)"

section \<open>Nothing changes unless the user changes it\<close>

text \<open>A rule the editor shows faithfully: one line, no blanks around it, converted back to itself.\<close>

definition editable :: "(string \<Rightarrow> wchar list) \<Rightarrow> (wchar list \<Rightarrow> string) \<Rightarrow> string \<Rightarrow> bool" where
  "editable widen narrow rule \<longleftrightarrow> rule \<noteq> [] \<and> length rule \<le> 1024 \<and> widen rule \<noteq> [] \<and> 10 \<notin> set (widen rule) \<and>
     hd (widen rule) \<notin> {32, 9} \<and> last (widen rule) \<notin> {13, 32, 9} \<and> narrow (widen rule) = rule"

lemma dropWhile_head: "xs \<noteq> [] \<Longrightarrow> \<not> P (hd xs) \<Longrightarrow> dropWhile P xs = xs"
  by (cases xs) auto

lemma trimRule_line:
  assumes "w \<noteq> []" "hd w \<notin> {32, 9}" "last w \<notin> {13, 32, 9}"
  shows "trimRule (w @ [13]) = w"
proof -
  have "dropWhile (\<lambda>c. c = 13 \<or> c = 32 \<or> c = 9) (rev w) = rev w"
    using assms(1,3) by (intro dropWhile_head) (auto simp: hd_rev)
  then show ?thesis using assms(1,2) by (simp add: trimRule_def dropWhile_head)
qed

lemma line_scan:
  assumes "10 \<notin> set w"
  shows "takeWhile (\<lambda>c. c \<noteq> 10) (w @ 13 # 10 # rest) = w @ [13]" "dropWhile (\<lambda>c. c \<noteq> 10) (w @ 13 # 10 # rest) = (10 :: wchar) # rest"
  using assms by (induction w) auto

lemma splitLoop_rules:
  "list_all (editable widen narrow) ruleList \<Longrightarrow> distinct (lines @ ruleList) \<Longrightarrow> length (lines @ ruleList) \<le> 128 \<Longrightarrow>
    splitLoop narrow (rulesText widen ruleList) lines = lines @ ruleList"
proof (induction ruleList arbitrary: lines)
  case Nil
  then show ?case by (subst splitLoop.simps) (simp add: rulesText_def trimRule_def Let_def)
next
  case (Cons rule ruleList)
  then have rule: "rule \<noteq> []" "length rule \<le> 1024" "widen rule \<noteq> []" "10 \<notin> set (widen rule)" "narrow (widen rule) = rule"
    and ends: "hd (widen rule) \<notin> {32, 9}" "last (widen rule) \<notin> {13, 32, 9}" by (auto simp: editable_def)
  have input: "rulesText widen (rule # ruleList) = widen rule @ 13 # 10 # rulesText widen ruleList" by (simp add: rulesText_def)
  have "keepsRule lines rule" using rule Cons.prems(2) by (simp add: keepsRule_def)
  then have step: "splitLoop narrow (rulesText widen (rule # ruleList)) lines =
      (if length (lines @ [rule]) \<ge> 128 then lines @ [rule] else splitLoop narrow (rulesText widen ruleList) (lines @ [rule]))"
    using rule by (subst splitLoop.simps) (simp add: input line_scan [OF rule(4)] trimRule_line [OF rule(3) ends] Let_def)
  show ?case
  proof (cases "length (lines @ [rule]) \<ge> 128")
    case True
    then have "ruleList = []" using Cons.prems(3) by (cases ruleList) auto
    then show ?thesis using step True by simp
  next
    case False
    then show ?thesis using step Cons.IH [of "lines @ [rule]"] Cons.prems by simp
  qed
qed

lemma editor_unchanged:
  assumes "loadProcessRules widen unprotect dir contents = Some (includeText, excludeText)"
    and "loadConfig unprotect dir contents defaultConfig = (found, cfg)"
    and "list_all (editable widen narrow) (cfg_processInclude cfg)" "distinct (cfg_processInclude cfg)" "length (cfg_processInclude cfg) \<le> 128"
    and "list_all (editable widen narrow) (cfg_processExclude cfg)" "distinct (cfg_processExclude cfg)" "length (cfg_processExclude cfg) \<le> 128"
  shows "saveProcessRules narrow protect unprotect createsDir writesFile dir includeText excludeText contents = (False, contents)"
proof -
  have "includeText = rulesText widen (cfg_processInclude cfg)" "excludeText = rulesText widen (cfg_processExclude cfg)"
    using assms(1,2) by (auto simp: loadProcessRules_def split: if_splits)
  then show ?thesis using assms(2) splitLoop_rules [of widen narrow "cfg_processInclude cfg" "[]"] splitLoop_rules [of widen narrow "cfg_processExclude cfg" "[]"]
      assms(3-8) by (simp add: saveProcessRules_def splitLines_def Let_def)
qed

section \<open>An unusable include list does not survive a save\<close>

text \<open>
  Loading flags a list without a usable entry but forgets its entries, so every later \<open>save\<close>, for
  a change of the DNS mode, of other rules or for the migration, writes an empty list, and the next
  start takes on every process.
\<close>

lemma invalid_include_lost:
  assumes "loadConfig unprotect dir (Content doc) base = (found, cfg)" "cfg_processIncludeInvalid cfg" "dir \<noteq> []"
    and "saveConfig protect True True dir (cfg\<lparr>cfg_dnsMode := mode\<rparr>) (Content doc) = (ok, contents)"
  shows "ok \<and> cfg_processInclude (snd (loadConfig unprotect dir contents base)) = [] \<and>
    \<not> cfg_processIncludeInvalid (snd (loadConfig unprotect dir contents base))"
proof -
  let ?ms = "configMembers protect (cfg\<lparr>cfg_dnsMode := mode\<rparr>)"
  have "cfg_processInclude cfg = []"
    using assms(1-3) by (auto simp: loadConfig_def configPath_def inConfigDir_def applyDocument_def Let_def split: prod.splits)
  then have "getStringArray (documentText ?ms) ''process_include'' = []"
    by (intro document_array [OF members_ok_config]) (simp_all add: plain_def configMembers_def)
  moreover have "ok" "contents = Content (documentText ?ms)" using assms(3,4) by (auto simp: saveConfig_def saveText_def)
  ultimately show ?thesis using assms(3)
    by (simp add: loadConfig_def configPath_def inConfigDir_def applyDocument_def readProcessRules_def Let_def split: prod.splits)
qed

end
